(* ===== verification/OrdMap.thy ===== *)
theory OrdMap
  imports Prelude
begin

text \<open>
  The standard library's \<^verbatim>\<open>BTreeMap\<close> as its iteration order: an association list with strictly
  increasing keys.  The interface the components use is the locale \<open>ordered_map\<close>; the laws are
  discharged for the lists here, and the facts below are the ones the component proofs rest on.
\<close>

fun bt_get :: "('k \<times> 'v) list \<Rightarrow> 'k \<Rightarrow> 'v option" where
  "bt_get [] j = None"
| "bt_get ((k, v) # m) j = (if k = j then Some v else bt_get m j)"

fun bt_insert :: "'k::linorder \<Rightarrow> 'v \<Rightarrow> ('k \<times> 'v) list \<Rightarrow> ('k \<times> 'v) list" where
  "bt_insert j w [] = [(j, w)]"
| "bt_insert j w ((k, v) # m) =
     (if j < k then (j, w) # (k, v) # m
      else if j = k then (j, w) # m
      else (k, v) # bt_insert j w m)"

fun bt_remove :: "'k \<Rightarrow> ('k \<times> 'v) list \<Rightarrow> ('k \<times> 'v) list" where
  "bt_remove j [] = []"
| "bt_remove j ((k, v) # m) = (if k = j then m else (k, v) # bt_remove j m)"

definition bt_ok :: "('k::linorder \<times> 'v) list \<Rightarrow> bool" where
  "bt_ok m \<longleftrightarrow> sorted_wrt (<) (map fst m)"

text \<open>The keys present and the entry for a key, inserting a default first.\<close>

definition bt_keys :: "('k \<times> 'v) list \<Rightarrow> 'k list" where
  "bt_keys m = map fst m"

definition bt_get_or :: "'v \<Rightarrow> ('k \<times> 'v) list \<Rightarrow> 'k \<Rightarrow> 'v" where
  "bt_get_or d m k = (case bt_get m k of Some v \<Rightarrow> v | None \<Rightarrow> d)"

lemma bt_ok_simps [simp]:
  "bt_ok []" "bt_ok ((k, v) # m) \<longleftrightarrow> (\<forall>(j, w) \<in> set m. k < j) \<and> bt_ok m"
  by (auto simp: bt_ok_def)

lemma bt_get_map_of: "bt_get m = map_of m"
proof
  show "bt_get m j = map_of m j" for j by (induction m) auto
qed

lemma bt_get_None: "bt_get m k = None \<longleftrightarrow> k \<notin> fst ` set m"
  by (simp add: bt_get_map_of map_of_eq_None_iff)

lemma bt_get_in: "bt_get m k = Some v \<Longrightarrow> (k, v) \<in> set m"
  by (simp add: bt_get_map_of map_of_SomeD)

lemma bt_ok_distinct: "bt_ok m \<Longrightarrow> distinct (map fst m)"
  by (auto simp: bt_ok_def strict_sorted_iff)

lemma bt_get_iff: "bt_ok m \<Longrightarrow> bt_get m k = Some v \<longleftrightarrow> (k, v) \<in> set m"
  by (simp add: bt_get_map_of bt_ok_distinct)

lemma bt_get_insert [simp]: "bt_get (bt_insert k v m) j = (if j = k then Some v else bt_get m j)"
  by (induction m rule: bt_insert.induct [where ?a0.0 = k and ?a1.0 = v]) auto

lemma set_bt_insert: "set (bt_insert k v m) \<subseteq> insert (k, v) (set m)"
proof (induction m)
  case (Cons x m)
  then show ?case by (cases x) (auto split: if_splits)
qed simp

lemma bt_ok_insert [simp]: "bt_ok m \<Longrightarrow> bt_ok (bt_insert k v m)"
proof (induction m)
  case (Cons x m)
  then show ?case using set_bt_insert [of k v m] by (cases x) fastforce
qed simp

lemma set_bt_remove: "set (bt_remove k m) \<subseteq> set m"
proof (induction m)
  case (Cons x m)
  then show ?case by (cases x) (auto split: if_splits)
qed simp

lemma bt_ok_remove [simp]: "bt_ok m \<Longrightarrow> bt_ok (bt_remove k m)"
proof (induction m)
  case (Cons x m)
  then show ?case using set_bt_remove [of k m] by (cases x) auto
qed simp

lemma bt_get_remove [simp]:
  "bt_ok m \<Longrightarrow> bt_get (bt_remove k m) j = (if j = k then None else bt_get m j)"
proof (induction m)
  case (Cons x m)
  obtain a b where x: "x = (a, b)" by (cases x)
  have "bt_get m a = None" using Cons.prems by (auto simp: x bt_get_None)
  with Cons show ?case by (auto simp: x)
qed simp

text \<open>Two maps with the same bindings are the same list: the iteration order is determined.\<close>

lemma bt_ext:
  assumes "bt_ok m" "bt_ok n" "\<And>k. bt_get m k = bt_get n k"
  shows "m = n"
proof -
  have "set m = set n"
    using assms by (auto simp: bt_get_iff [symmetric])
  moreover from this have "inj_on fst (set m \<union> set n)"
    using bt_ok_distinct [OF assms(1)] by (simp add: distinct_map)
  ultimately show ?thesis
    using assms by (intro map_sorted_distinct_set_unique [where f = fst])
      (auto simp: bt_ok_def strict_sorted_iff distinct_map)
qed

subsection \<open>The interface\<close>

locale ordered_map =
  fixes empt :: 'm and get :: "'m \<Rightarrow> 'k \<Rightarrow> 'v option" and ins :: "'k \<Rightarrow> 'v \<Rightarrow> 'm \<Rightarrow> 'm"
    and del :: "'k \<Rightarrow> 'm \<Rightarrow> 'm" and inv :: "'m \<Rightarrow> bool"
  assumes inv_empty: "inv empt" and get_empty: "get empt k = None"
    and inv_ins: "inv m \<Longrightarrow> inv (ins k v m)"
    and get_ins: "inv m \<Longrightarrow> get (ins k v m) j = (if j = k then Some v else get m j)"
    and inv_del: "inv m \<Longrightarrow> inv (del k m)"
    and get_del: "inv m \<Longrightarrow> get (del k m) j = (if j = k then None else get m j)"
    and ext: "inv m \<Longrightarrow> inv n \<Longrightarrow> (\<And>k. get m k = get n k) \<Longrightarrow> m = n"
begin

definition ins_all :: "('k \<times> 'v) list \<Rightarrow> 'm \<Rightarrow> 'm" where
  "ins_all kvs m = fold (\<lambda>(k, v). ins k v) kvs m"

definition del_all :: "'k list \<Rightarrow> 'm \<Rightarrow> 'm" where
  "del_all ks m = fold del ks m"

lemma inv_ins_all: "inv m \<Longrightarrow> inv (ins_all kvs m)"
  by (induction kvs arbitrary: m) (auto simp: ins_all_def inv_ins)

lemma get_ins_all:
  "inv m \<Longrightarrow> get (ins_all kvs m) j = (case map_of (rev kvs) j of Some v \<Rightarrow> Some v | None \<Rightarrow> get m j)"
proof (induction kvs arbitrary: m)
  case (Cons x kvs)
  show ?case
    using Cons.IH [of "ins (fst x) (snd x) m"] Cons.prems
    by (cases x) (auto simp: ins_all_def inv_ins get_ins map_add_def split: option.splits)
qed (simp add: ins_all_def)

lemma inv_del_all: "inv m \<Longrightarrow> inv (del_all ks m)"
  by (induction ks arbitrary: m) (auto simp: del_all_def inv_del)

lemma get_del_all: "inv m \<Longrightarrow> get (del_all ks m) j = (if j \<in> set ks then None else get m j)"
proof (induction ks arbitrary: m)
  case (Cons k ks)
  then show ?case
    using Cons.IH [of "del k m"] by (auto simp: del_all_def inv_del get_del)
qed (simp add: del_all_def)

text \<open>Inserting distinct keys in any order builds the same map.\<close>

lemma ins_all_perm:
  assumes "inv m" "distinct (map fst kvs)" "mset kvs = mset kvs'"
  shows "ins_all kvs m = ins_all kvs' m"
proof (rule ext)
  have d: "distinct (map fst kvs')"
    using assms(2,3) by (metis mset_eq_imp_distinct_iff mset_map)
  have "map_of (rev kvs) k = map_of (rev kvs') k" for k
    using assms(2) d mset_eq_setD [OF assms(3)]
      map_of_eq_None_iff [of "rev kvs" k] map_of_eq_None_iff [of "rev kvs'" k]
    by (cases "map_of (rev kvs') k") (simp_all add: rev_map [symmetric])
  then show "get (ins_all kvs m) k = get (ins_all kvs' m) k" for k
    using assms(1) by (simp add: get_ins_all)
qed (use assms(1) in \<open>simp_all add: inv_ins_all\<close>)

end

interpretation bt: ordered_map "[]" bt_get bt_insert bt_remove bt_ok
  by unfold_locales (auto intro: bt_ext)

end
