(* ===== verification/Version.thy ===== *)
theory Version
  imports Prelude
begin

text \<open>
  Versions: the value type of \<^verbatim>\<open>milpa-types/src/lib.rs\<close> (\<^verbatim>\<open>PreId\<close>, \<^verbatim>\<open>Version\<close>, its
  precedence order and its \<^verbatim>\<open>Display\<close>), and the version grammar of
  \<^verbatim>\<open>milpa-solver/src/lib.rs\<close> (\<^verbatim>\<open>parse_version\<close> and its helpers).  The main facts: the order is
  the semver precedence, printing and parsing are inverse on the versions the parser produces.
\<close>

subsection \<open>Pre-release identifiers\<close>

datatype preid = Numeric u64 | Alpha string

text \<open>The derived \<^verbatim>\<open>Ord\<close>: variants in declaration order, then the payload.\<close>

instantiation preid :: linorder
begin

fun less_eq_preid :: "preid \<Rightarrow> preid \<Rightarrow> bool" where
  "less_eq_preid (Numeric m) (Numeric n) \<longleftrightarrow> m \<le> n"
| "less_eq_preid (Numeric m) (Alpha s) \<longleftrightarrow> True"
| "less_eq_preid (Alpha s) (Numeric n) \<longleftrightarrow> False"
| "less_eq_preid (Alpha s) (Alpha t) \<longleftrightarrow> s \<le> t"

definition less_preid :: "preid \<Rightarrow> preid \<Rightarrow> bool" where
  "less_preid x y \<longleftrightarrow> x \<le> y \<and> \<not> y \<le> (x :: preid)"

instance
proof
  fix x y z :: preid
  show "(x < y) = (x \<le> y \<and> \<not> y \<le> x)" by (simp add: less_preid_def)
  show "x \<le> x" by (cases x) auto
  show "x \<le> y \<Longrightarrow> y \<le> z \<Longrightarrow> x \<le> z" by (cases x; cases y; cases z) auto
  show "x \<le> y \<Longrightarrow> y \<le> x \<Longrightarrow> x = y" by (cases x; cases y) auto
  show "x \<le> y \<or> y \<le> x" by (cases x; cases y) auto
qed

end

lemma less_preid_simps [simp]:
  "Numeric m < Numeric n \<longleftrightarrow> m < n"
  "Numeric m < Alpha s"
  "\<not> Alpha s < Numeric n"
  "Alpha s < Alpha t \<longleftrightarrow> s < t"
  by (auto simp: less_preid_def)

subsection \<open>Versions and their precedence\<close>

record version =
  major :: u64
  minor :: u64
  patch :: u64
  pre :: "preid list"
  build :: string

definition release :: "u64 \<Rightarrow> u64 \<Rightarrow> u64 \<Rightarrow> version" where
  "release a b c = \<lparr>major = a, minor = b, patch = c, pre = [], build = []\<rparr>"

type_synonym vkey = "u64 \<times> u64 \<times> u64 \<times> u8 \<times> preid list"

definition precedence_key :: "'a version_scheme \<Rightarrow> vkey" where
  "precedence_key v =
     (major v, minor v, patch v, if pre v = [] then 1 else 0, pre v)"

text \<open>
  The hand-written \<^verbatim>\<open>Ord\<close> compares the keys.  Build metadata is not part of the key, so the
  order is a total preorder on the records, and Rust's \<^verbatim>\<open>==\<close> on versions is \<open>veq\<close>, not \<open>=\<close>.
\<close>

instantiation version_ext :: (type) preorder
begin

definition less_eq_version_ext :: "'a version_scheme \<Rightarrow> 'a version_scheme \<Rightarrow> bool" where
  "less_eq_version_ext v w \<longleftrightarrow> precedence_key v \<le> precedence_key w"

definition less_version_ext :: "'a version_scheme \<Rightarrow> 'a version_scheme \<Rightarrow> bool" where
  "less_version_ext v w \<longleftrightarrow> precedence_key v < precedence_key w"

instance
  by standard (auto simp: less_eq_version_ext_def less_version_ext_def)

end

definition veq :: "version \<Rightarrow> version \<Rightarrow> bool" where
  "veq v w \<longleftrightarrow> precedence_key v = precedence_key w"

lemma version_le_key: "(v :: version) \<le> w \<longleftrightarrow> precedence_key v \<le> precedence_key w"
  by (simp add: less_eq_version_ext_def)

lemma version_less_key: "(v :: version) < w \<longleftrightarrow> precedence_key v < precedence_key w"
  by (simp add: less_version_ext_def)

lemmas version_keys = version_le_key version_less_key veq_def

lemma version_linear: "(v :: version) < w \<or> veq v w \<or> w < v"
  by (auto simp: version_keys)

lemma version_not_less: "\<not> (v :: version) < w \<longleftrightarrow> w \<le> v"
  by (auto simp: version_keys)

lemma version_le_iff: "(v :: version) \<le> w \<longleftrightarrow> v < w \<or> veq v w"
  by (auto simp: version_keys)

lemma veq_refl [simp]: "veq v v"
  by (simp add: veq_def)

text \<open>
  The semver 2.0 rule (section 11), written out independently of the library's tuple and list
  orders: the numbers first, a pre-release below its release, then the identifiers left to right.
\<close>

fun id_below :: "preid \<Rightarrow> preid \<Rightarrow> bool" where
  "id_below (Numeric m) (Numeric n) \<longleftrightarrow> unat m < unat n"
| "id_below (Numeric m) (Alpha s) \<longleftrightarrow> True"
| "id_below (Alpha s) (Numeric n) \<longleftrightarrow> False"
| "id_below (Alpha s) (Alpha t) \<longleftrightarrow> s < t"

fun ids_below :: "preid list \<Rightarrow> preid list \<Rightarrow> bool" where
  "ids_below xs [] \<longleftrightarrow> False"
| "ids_below [] (y # ys) \<longleftrightarrow> True"
| "ids_below (x # xs) (y # ys) \<longleftrightarrow> id_below x y \<or> (x = y \<and> ids_below xs ys)"

definition semver_below :: "version \<Rightarrow> version \<Rightarrow> bool" where
  "semver_below v w \<longleftrightarrow>
     (if major v \<noteq> major w then unat (major v) < unat (major w)
      else if minor v \<noteq> minor w then unat (minor v) < unat (minor w)
      else if patch v \<noteq> patch w then unat (patch v) < unat (patch w)
      else if pre v = [] then False
      else if pre w = [] then True
      else ids_below (pre v) (pre w))"

lemma id_below_less: "id_below x y \<longleftrightarrow> x < y"
  by (cases x; cases y) (auto simp: word_less_nat_alt)

lemma ids_below_less: "ids_below xs ys \<longleftrightarrow> xs < ys"
  by (induction xs ys rule: ids_below.induct) (auto simp: id_below_less)

lemma less_is_semver: "v < w \<longleftrightarrow> semver_below v w"
  by (auto simp: version_less_key precedence_key_def semver_below_def ids_below_less
      word_less_nat_alt [symmetric] le_less)

subsection \<open>Printing\<close>

fun render_preid :: "preid \<Rightarrow> string" where
  "render_preid (Numeric n) = dec_of_word n"
| "render_preid (Alpha a) = a"

definition format_version :: "version \<Rightarrow> string" where
  "format_version v =
     dec_of_word (major v) @ ''.'' @ dec_of_word (minor v) @ ''.'' @ dec_of_word (patch v) @
     (if pre v \<noteq> [] then ''-'' @ join ''.'' (map render_preid (pre v)) else []) @
     (if build v \<noteq> [] then ''+'' @ build v else [])"

subsection \<open>Parsing\<close>

definition parse_numeric_component :: "string \<Rightarrow> u64 option" where
  "parse_numeric_component s =
     (if s = [] \<or> \<not> list_all is_digit s then None else word_of_dec s)"

definition is_ident_char :: "char \<Rightarrow> bool" where
  "is_ident_char c \<longleftrightarrow> is_alnum c \<or> c = CHR ''-''"

definition is_valid_dotted_idents :: "string \<Rightarrow> bool" where
  "is_valid_dotted_idents s \<longleftrightarrow>
     s \<noteq> [] \<and> list_all (\<lambda>p. p \<noteq> [] \<and> list_all is_ident_char p) (split_on CHR ''.'' s)"

text \<open>One turn of the loop over the parts of a pre-release tag.\<close>

definition parse_preid :: "string \<Rightarrow> preid option" where
  "parse_preid part =
     (if part = [] \<or> \<not> list_all is_ident_char part then None
      else if list_all is_digit part
      then (case word_of_dec part of Some n \<Rightarrow> Some (Numeric n) | None \<Rightarrow> Some (Alpha part))
      else Some (Alpha part))"

fun parse_preids :: "string list \<Rightarrow> preid list option" where
  "parse_preids [] = Some []"
| "parse_preids (p # ps) =
     (case parse_preid p of None \<Rightarrow> None
      | Some i \<Rightarrow> map_option ((#) i) (parse_preids ps))"

definition parse_pre_identifiers :: "string \<Rightarrow> preid list option" where
  "parse_pre_identifiers p = (if p = [] then None else parse_preids (split_on CHR ''.'' p))"

definition parse_version :: "string \<Rightarrow> version option" where
  "parse_version text =
    (let s = trim text;
         s = (case strip_prefix ''v'' s of Some r \<Rightarrow> r | None \<Rightarrow> s);
         (rest, bld) = (case split_once CHR ''+'' s of Some (r, b) \<Rightarrow> (r, Some b) | None \<Rightarrow> (s, None));
         (core, prerel) =
           (case split_once CHR ''-'' rest of Some (c, p) \<Rightarrow> (c, Some p) | None \<Rightarrow> (rest, None))
     in case split_on CHR ''.'' core of
          [a, b, c] \<Rightarrow>
            (case (parse_numeric_component a, parse_numeric_component b, parse_numeric_component c) of
               (Some ma, Some mi, Some pa) \<Rightarrow>
                 (case (case prerel of Some p \<Rightarrow> parse_pre_identifiers p | None \<Rightarrow> Some []) of
                    None \<Rightarrow> None
                  | Some ids \<Rightarrow>
                      (case bld of
                         Some bs \<Rightarrow>
                           (if is_valid_dotted_idents bs
                            then Some \<lparr>major = ma, minor = mi, patch = pa, pre = ids, build = bs\<rparr>
                            else None)
                       | None \<Rightarrow>
                           Some \<lparr>major = ma, minor = mi, patch = pa, pre = ids, build = []\<rparr>))
             | _ \<Rightarrow> None)
        | _ \<Rightarrow> None)"


subsection \<open>The versions the parser produces\<close>

text \<open>
  An alphanumeric identifier is well-formed when the parser would read its text back as one: in
  the character set, not empty, and not a digit string that fits 64 bits.
\<close>

fun wf_preid :: "preid \<Rightarrow> bool" where
  "wf_preid (Numeric n) \<longleftrightarrow> True"
| "wf_preid (Alpha a) \<longleftrightarrow>
     a \<noteq> [] \<and> list_all is_ident_char a \<and>
     (list_all is_digit a \<longrightarrow> word_of_dec a = (None :: u64 option))"

definition wf_version :: "version \<Rightarrow> bool" where
  "wf_version v \<longleftrightarrow>
     list_all wf_preid (pre v) \<and> (build v \<noteq> [] \<longrightarrow> is_valid_dotted_idents (build v))"

lemma ident_char_facts:
  "is_ident_char c \<Longrightarrow> plain c" "is_ident_char c \<Longrightarrow> c \<noteq> CHR ''+''"
  "is_ident_char c \<Longrightarrow> c \<noteq> CHR ''.''" "is_digit c \<Longrightarrow> is_ident_char c"
  by (auto simp: is_ident_char_def is_alnum_def is_digit_def is_alpha_def plain_def)

lemma digit_not_sep:
  "is_digit c \<Longrightarrow> c \<noteq> CHR ''+'' \<and> c \<noteq> CHR ''-'' \<and> c \<noteq> CHR ''.'' \<and> c \<noteq> CHR ''v''"
  by (auto simp: is_digit_def)

lemma render_idents: "wf_preid i \<Longrightarrow> list_all is_ident_char (render_preid i)"
  by (cases i) (auto simp: list_all_iff dest!: dec_word_digits intro: ident_char_facts)

lemma render_not_Nil: "wf_preid i \<Longrightarrow> render_preid i \<noteq> []"
  by (cases i) auto

lemma parse_render: "wf_preid i \<Longrightarrow> parse_preid (render_preid i) = Some i"
  using render_idents [of i] render_not_Nil [of i]
  by (cases i) (auto simp: parse_preid_def list_all_iff dest: dec_word_digits split: option.splits)

lemma parse_render_all:
  "list_all wf_preid ids \<Longrightarrow> parse_preids (map render_preid ids) = Some ids"
  by (induction ids) (auto simp: parse_render)

lemma join_render_chars:
  assumes "list_all wf_preid ids" "c \<in> set (join ''.'' (map render_preid ids))"
  shows "is_ident_char c \<or> c = CHR ''.''"
  using assms set_join [of "''.''" "map render_preid ids"] render_idents
  by (fastforce simp: list_all_iff)

lemma parse_pre_render:
  assumes "list_all wf_preid ids" "ids \<noteq> []"
  shows "parse_pre_identifiers (join ''.'' (map render_preid ids)) = Some ids"
proof -
  have "\<forall>x \<in> set (map render_preid ids). CHR ''.'' \<notin> set x"
    using assms(1) render_idents ident_char_facts(3) by (fastforce simp: list_all_iff)
  then have split: "split_on CHR ''.'' (join ''.'' (map render_preid ids)) = map render_preid ids"
    using assms(2) by (intro split_on_join) auto
  have "join ''.'' (map render_preid ids) \<noteq> []"
  proof
    assume "join ''.'' (map render_preid ids) = []"
    with split have "map render_preid ids = [[]]" by simp
    with assms(1) show False using render_not_Nil by (cases ids) auto
  qed
  with split assms(1) show ?thesis by (simp add: parse_pre_identifiers_def parse_render_all)
qed

lemma parse_numeric_dec [simp]: "parse_numeric_component (dec_of_word n) = Some n"
  by (auto simp: parse_numeric_component_def list_all_iff dest: dec_word_digits)

text \<open>The release core, and its split on the dots.\<close>

definition core_text :: "version \<Rightarrow> string" where
  "core_text v =
     dec_of_word (major v) @ ''.'' @ dec_of_word (minor v) @ ''.'' @ dec_of_word (patch v)"

lemma core_chars: "c \<in> set (core_text v) \<Longrightarrow> is_digit c \<or> c = CHR ''.''"
  by (auto simp: core_text_def dec_word_digits)

lemma core_split:
  "split_on CHR ''.'' (core_text v) =
     [dec_of_word (major v), dec_of_word (minor v), dec_of_word (patch v)]"
  by (simp add: core_text_def split_on_sep split_on_no_sep not_in_dec is_digit_def)

lemma core_no_sep: "CHR ''+'' \<notin> set (core_text v)" "CHR ''-'' \<notin> set (core_text v)"
  by (auto dest!: core_chars simp: is_digit_def)

definition pre_text :: "version \<Rightarrow> string" where
  "pre_text v = (if pre v \<noteq> [] then ''-'' @ join ''.'' (map render_preid (pre v)) else [])"

definition build_text :: "version \<Rightarrow> string" where
  "build_text v = (if build v \<noteq> [] then ''+'' @ build v else [])"

lemma format_texts: "format_version v = core_text v @ pre_text v @ build_text v"
  by (simp add: format_version_def core_text_def pre_text_def build_text_def)

lemma valid_dotted_chars:
  assumes "is_valid_dotted_idents b" "c \<in> set b"
  shows "is_ident_char c \<or> c = CHR ''.''"
proof -
  have "set b \<subseteq> set ''.'' \<union> (\<Union>p \<in> set (split_on CHR ''.'' b). set p)"
    using set_join [of "''.''" "split_on CHR ''.'' b"] by simp
  with assms show ?thesis by (fastforce simp: is_valid_dotted_idents_def list_all_iff)
qed

lemma format_plain:
  assumes "wf_version v" "c \<in> set (format_version v)"
  shows "plain c \<and> c \<noteq> CHR ''&'' \<and> c \<noteq> CHR ''|''"
proof -
  have "is_ident_char c \<or> c = CHR ''.'' \<or> c = CHR ''-'' \<or> c = CHR ''+''"
    using assms core_chars [of c v] join_render_chars [of "pre v" c] valid_dotted_chars [of "build v" c]
    by (auto simp: format_texts pre_text_def build_text_def wf_version_def ident_char_facts
        split: if_splits)
  then show ?thesis
    by (auto simp: is_ident_char_def is_alnum_def is_digit_def is_alpha_def plain_def)
qed

lemma format_hd: "format_version v \<noteq> [] \<and> is_digit (hd (format_version v))"
proof -
  have "hd (dec_of_word (major v)) \<in> set (dec_of_word (major v))" by simp
  then have "is_digit (hd (dec_of_word (major v)))" by (rule dec_word_digits)
  then show ?thesis by (simp add: format_version_def)
qed

lemma format_trim: "wf_version v \<Longrightarrow> trim (format_version v) = format_version v"
  by (rule trim_plain) (auto simp: format_hd format_plain intro: format_plain [THEN conjunct1])

lemma format_no_v: "strip_prefix ''v'' (format_version v) = None"
  using format_hd [of v] digit_not_sep by (cases "format_version v") auto

lemma format_split_build:
  assumes "wf_version v"
  shows "split_once CHR ''+'' (format_version v) =
     (if build v = [] then None else Some (core_text v @ pre_text v, build v))"
proof -
  have "CHR ''+'' \<notin> set (pre_text v)"
    using assms join_render_chars [of "pre v" "CHR ''+''"]
    by (auto simp: pre_text_def wf_version_def dest: ident_char_facts(2))
  then have "CHR ''+'' \<notin> set (core_text v @ pre_text v)" using core_no_sep by simp
  then show ?thesis
    using split_once_append [of "CHR ''+''" "core_text v @ pre_text v" "build v"]
    by (auto simp: format_texts build_text_def split_once_None)
qed

lemma format_split_pre:
  "split_once CHR ''-'' (core_text v @ pre_text v) =
     (if pre v = [] then None else Some (core_text v, join ''.'' (map render_preid (pre v))))"
  using core_no_sep [of v] split_once_append [of "CHR ''-''" "core_text v"]
  by (auto simp: pre_text_def split_once_None)

lemma parse_format_wf:
  assumes wf: "wf_version v"
  shows "parse_version (format_version v) = Some v"
proof -
  define rest where "rest = core_text v @ pre_text v"
  have bld: "build v = [] \<Longrightarrow> format_version v = rest"
    by (simp add: rest_def format_texts build_text_def)
  have plus: "split_once CHR ''+'' (format_version v) = (if build v = [] then None else Some (rest, build v))"
    using format_split_build [OF wf] by (simp add: rest_def)
  have dash: "split_once CHR ''-'' rest =
      (if pre v = [] then None else Some (core_text v, join ''.'' (map render_preid (pre v))))"
    using format_split_pre [of v] by (simp add: rest_def)
  have core: "pre v = [] \<Longrightarrow> split_on CHR ''.'' rest =
      [dec_of_word (major v), dec_of_word (minor v), dec_of_word (patch v)]"
    by (simp add: rest_def pre_text_def core_split)
  have ids: "pre v \<noteq> [] \<Longrightarrow> parse_pre_identifiers (join ''.'' (map render_preid (pre v))) = Some (pre v)"
    using wf by (simp add: parse_pre_render wf_version_def)
  have valid: "build v \<noteq> [] \<Longrightarrow> is_valid_dotted_idents (build v)"
    using wf by (simp add: wf_version_def)
  show ?thesis
  proof (cases "build v = []")
    case True
    note bld [OF True, symmetric, simp]
    show ?thesis
      using core ids True
      by (cases "pre v = []")
        (simp_all add: parse_version_def format_trim [OF wf] format_no_v plus dash [simplified]
          core_split Let_def)
  next
    case False
    show ?thesis
      using core ids valid False
      by (cases "pre v = []")
        (simp_all add: parse_version_def format_trim [OF wf] format_no_v plus dash core_split Let_def)
  qed
qed

lemma parse_preid_wf: "parse_preid p = Some i \<Longrightarrow> wf_preid i"
  by (auto simp: parse_preid_def split: if_splits option.splits)

lemma parse_preids_wf: "parse_preids ps = Some ids \<Longrightarrow> list_all wf_preid ids"
  by (induction ps arbitrary: ids) (auto split: option.splits dest: parse_preid_wf)

lemma parse_pre_wf: "parse_pre_identifiers p = Some ids \<Longrightarrow> list_all wf_preid ids"
  by (auto simp: parse_pre_identifiers_def split: if_splits dest: parse_preids_wf)

lemma parse_version_wf: "parse_version s = Some v \<Longrightarrow> wf_version v"
  by (auto simp: parse_version_def Let_def wf_version_def dest!: parse_pre_wf
      split: list.splits option.splits prod.splits if_splits)

text \<open>
  Printing and parsing are inverse.  A version whose identifiers the grammar allows prints to
  a text the parser reads back as the same version, build metadata included; and every version
  the parser returns is such a version, so printing loses nothing of what was parsed.
\<close>

theorem version_parse_format:
  "(wf_version v \<longrightarrow> parse_version (format_version v) = Some v) \<and>
   (parse_version s = Some w \<longrightarrow> wf_version w \<and> parse_version (format_version w) = Some w)"
  by (auto intro: parse_format_wf parse_version_wf)

theorem version_parse_format_witness:
  "parse_version (format_version
     \<lparr>major = 1, minor = 2, patch = 3, pre = [Alpha ''rc'', Numeric 1], build = ''b7''\<rparr>) =
   Some \<lparr>major = 1, minor = 2, patch = 3, pre = [Alpha ''rc'', Numeric 1], build = ''b7''\<rparr>"
proof -
  have "wf_version
      \<lparr>major = 1, minor = 2, patch = 3, pre = [Alpha ''rc'', Numeric 1], build = ''b7''\<rparr>"
    by (simp add: wf_version_def is_valid_dotted_idents_def is_ident_char_def is_alnum_def
        is_alpha_def is_digit_def str_simps)
  then show ?thesis using version_parse_format by blast
qed

text \<open>
  C14. The hand-written order of versions is the semver 2.0 precedence: a strict total preorder up
  to build metadata, which it ignores.
\<close>

theorem version_order_semver:
  "((v :: version) < w \<longleftrightarrow> semver_below v w) \<and> (v < w \<or> veq v w \<or> w < v) \<and>
   (veq v w \<longleftrightarrow> (major v, minor v, patch v, pre v) = (major w, minor w, patch w, pre w))"
  using less_is_semver version_linear by (auto simp: veq_def precedence_key_def)

end
