(* ===== verification/VersionSet.thy ===== *)
theory VersionSet
  imports Version
begin

text \<open>
  The version-set algebra of \<^verbatim>\<open>milpa-solver/src/lib.rs\<close> (\<^verbatim>\<open>Interval\<close>, \<^verbatim>\<open>VersionSet\<close> and the
  interval helpers) and its bridge to the set protocol the PubGrub crate consumes, stated as a
  locale of laws.  Membership equations for every operation, the canonical form every operation
  establishes, and what structural equality does and does not say.
\<close>

subsection \<open>Intervals\<close>

record interval =
  lo :: "version option"
  hi :: "version option"
  lo_closed :: bool
  hi_closed :: bool

definition interval_new :: "version option \<Rightarrow> version option \<Rightarrow> bool \<Rightarrow> bool \<Rightarrow> interval" where
  "interval_new l h lc hc = \<lparr>lo = l, hi = h, lo_closed = lc, hi_closed = hc\<rparr>"

record version_set =
  intervals :: "interval list"

definition interval_contains :: "interval \<Rightarrow> version \<Rightarrow> bool" where
  "interval_contains iv v \<longleftrightarrow>
     (case lo iv of None \<Rightarrow> True
      | Some l \<Rightarrow> if lo_closed iv then \<not> v < l else \<not> v \<le> l) \<and>
     (case hi iv of None \<Rightarrow> True
      | Some h \<Rightarrow> if hi_closed iv then \<not> h < v else \<not> h \<le> v)"

lemma interval_new_sel [simp]:
  "lo (interval_new l h lc hc) = l" "hi (interval_new l h lc hc) = h"
  "lo_closed (interval_new l h lc hc) = lc" "hi_closed (interval_new l h lc hc) = hc"
  by (simp_all add: interval_new_def)

text \<open>Larger of two lower bounds, smaller and larger of two upper bounds.\<close>

fun max_lo_with_closed ::
  "version option \<Rightarrow> bool \<Rightarrow> version option \<Rightarrow> bool \<Rightarrow> version option \<times> bool" where
  "max_lo_with_closed None ac b bc = (b, bc)"
| "max_lo_with_closed (Some a) ac None bc = (Some a, ac)"
| "max_lo_with_closed (Some a) ac (Some b) bc =
     (if b < a then (Some a, ac) else if a < b then (Some b, bc) else (Some a, ac \<and> bc))"

fun min_hi_with_closed ::
  "version option \<Rightarrow> bool \<Rightarrow> version option \<Rightarrow> bool \<Rightarrow> version option \<times> bool" where
  "min_hi_with_closed None ac b bc = (b, bc)"
| "min_hi_with_closed (Some a) ac None bc = (Some a, ac)"
| "min_hi_with_closed (Some a) ac (Some b) bc =
     (if a < b then (Some a, ac) else if b < a then (Some b, bc) else (Some a, ac \<and> bc))"

fun max_bound ::
  "version option \<Rightarrow> bool \<Rightarrow> version option \<Rightarrow> bool \<Rightarrow> version option \<times> bool" where
  "max_bound None ac b bc = (None, ac)"
| "max_bound (Some a) ac None bc = (None, bc)"
| "max_bound (Some a) ac (Some b) bc =
     (if b < a then (Some a, ac) else if a < b then (Some b, bc) else (Some a, ac \<or> bc))"

fun interval_nonempty :: "version option \<Rightarrow> version option \<Rightarrow> bool \<Rightarrow> bool \<Rightarrow> bool" where
  "interval_nonempty (Some l) (Some h) lc hc \<longleftrightarrow> l < h \<or> (veq l h \<and> lc \<and> hc)"
| "interval_nonempty None h lc hc \<longleftrightarrow> True"
| "interval_nonempty l None lc hc \<longleftrightarrow> True"

definition lo_sort_key :: "interval \<Rightarrow> u8 \<times> vkey option \<times> u8" where
  "lo_sort_key iv =
     (case lo iv of None \<Rightarrow> (0, None, 0)
      | Some v \<Rightarrow> (1, Some (precedence_key v), if lo_closed iv then 0 else 1))"

definition intervals_connectable :: "interval \<Rightarrow> interval \<Rightarrow> bool" where
  "intervals_connectable a b \<longleftrightarrow>
     (case hi a of None \<Rightarrow> True
      | Some h \<Rightarrow>
         (case lo b of None \<Rightarrow> True
          | Some l \<Rightarrow>
              if h < l then False else if l < h then True else hi_closed a \<or> lo_closed b))"

subsection \<open>Normalisation\<close>

definition canonicalize_unbounded :: "interval \<Rightarrow> interval" where
  "canonicalize_unbounded iv =
     iv\<lparr>lo_closed := (lo iv = None \<or> lo_closed iv), hi_closed := (hi iv \<noteq> None \<and> hi_closed iv)\<rparr>"

text \<open>One turn of the merge loop: the accumulated vector and the next interval.\<close>

definition merge_step :: "interval list \<Rightarrow> interval \<Rightarrow> interval list" where
  "merge_step merged iv =
     (if \<not> interval_nonempty (lo iv) (hi iv) (lo_closed iv) (hi_closed iv) then merged
      else if merged = [] then [iv]
      else let prev = last merged in
        if intervals_connectable prev iv
        then let (h, hc) = max_bound (hi prev) (hi_closed prev) (hi iv) (hi_closed iv)
             in butlast merged @ [prev\<lparr>hi := h, hi_closed := hc\<rparr>]
        else merged @ [iv])"

definition normalize_intervals :: "interval list \<Rightarrow> interval list" where
  "normalize_intervals ivs =
     foldl merge_step [] (sort_key lo_sort_key (map canonicalize_unbounded ivs))"

subsection \<open>The set operations\<close>

definition vs_full :: version_set where
  "vs_full = \<lparr>intervals = [interval_new None None True False]\<rparr>"

definition vs_empty :: version_set where
  "vs_empty = \<lparr>intervals = []\<rparr>"

definition vs_gte :: "version \<Rightarrow> version_set" where
  "vs_gte v = \<lparr>intervals = [interval_new (Some v) None True False]\<rparr>"

definition vs_lt :: "version \<Rightarrow> version_set" where
  "vs_lt v = \<lparr>intervals = [interval_new None (Some v) True False]\<rparr>"

definition vs_eq :: "version \<Rightarrow> version_set" where
  "vs_eq v = \<lparr>intervals = [interval_new (Some v) (Some v) True True]\<rparr>"

definition vs_contains :: "version_set \<Rightarrow> version \<Rightarrow> bool" where
  "vs_contains s v \<longleftrightarrow> list_ex (\<lambda>iv. interval_contains iv v) (intervals s)"

definition vs_is_empty :: "version_set \<Rightarrow> bool" where
  "vs_is_empty s \<longleftrightarrow> intervals s = []"

text \<open>
  The derived equality with the one value \<^verbatim>\<open>full()\<close>: it holds no version, so comparing the
  vectors structurally is \<open>=\<close>.
\<close>

definition vs_is_full :: "version_set \<Rightarrow> bool" where
  "vs_is_full s \<longleftrightarrow> s = vs_full"

definition intersect_pair :: "interval \<Rightarrow> interval \<Rightarrow> interval list" where
  "intersect_pair a b =
     (let (l, lc) = max_lo_with_closed (lo a) (lo_closed a) (lo b) (lo_closed b);
          (h, hc) = min_hi_with_closed (hi a) (hi_closed a) (hi b) (hi_closed b)
      in if interval_nonempty l h lc hc then [interval_new l h lc hc] else [])"

definition vs_intersect :: "version_set \<Rightarrow> version_set \<Rightarrow> version_set" where
  "vs_intersect s t =
     \<lparr>intervals = normalize_intervals
        (concat (map (\<lambda>a. concat (map (intersect_pair a) (intervals t))) (intervals s)))\<rparr>"

definition vs_union :: "version_set \<Rightarrow> version_set \<Rightarrow> version_set" where
  "vs_union s t = \<lparr>intervals = normalize_intervals (intervals s @ intervals t)\<rparr>"

definition left_gap :: "interval \<Rightarrow> interval list" where
  "left_gap first =
     (case lo first of None \<Rightarrow> []
      | Some l \<Rightarrow> [interval_new None (Some l) True (\<not> lo_closed first)])"

fun window_gaps :: "interval list \<Rightarrow> interval list" where
  "window_gaps (a # b # ivs) =
     interval_new (hi a) (lo b) (\<not> hi_closed a) (\<not> lo_closed b) # window_gaps (b # ivs)"
| "window_gaps _ = []"

definition right_tail :: "interval \<Rightarrow> interval list" where
  "right_tail lst =
     (case hi lst of None \<Rightarrow> []
      | Some h \<Rightarrow> [interval_new (Some h) None (\<not> hi_closed lst) False])"

definition vs_complement :: "version_set \<Rightarrow> version_set" where
  "vs_complement s =
     (if intervals s = [] then vs_full
      else \<lparr>intervals = normalize_intervals
              (left_gap (hd (intervals s)) @ window_gaps (intervals s) @
               right_tail (last (intervals s)))\<rparr>)"

definition vs_is_subset_of :: "version_set \<Rightarrow> version_set \<Rightarrow> bool" where
  "vs_is_subset_of s t \<longleftrightarrow> vs_is_empty (vs_intersect s (vs_complement t))"

definition vs_gt :: "version \<Rightarrow> version_set" where
  "vs_gt v = vs_intersect (vs_gte v) (vs_complement (vs_eq v))"

definition vs_lte :: "version \<Rightarrow> version_set" where
  "vs_lte v = vs_union (vs_lt v) (vs_eq v)"

text \<open>\<^verbatim>\<open>lower_bound\<close>: the loop keeps the smallest lower end seen, and returns at an unbounded one.\<close>

fun lower_bound_loop :: "version option \<Rightarrow> interval list \<Rightarrow> version option" where
  "lower_bound_loop m [] = m"
| "lower_bound_loop m (iv # ivs) =
     (case lo iv of None \<Rightarrow> None
      | Some v \<Rightarrow>
          lower_bound_loop
            (case m of Some w \<Rightarrow> if w \<le> v then Some w else Some v | None \<Rightarrow> Some v) ivs)"

definition vs_lower_bound :: "version_set \<Rightarrow> version option" where
  "vs_lower_bound s = (if intervals s = [] then None else lower_bound_loop None (intervals s))"

subsection \<open>Membership\<close>

text \<open>The precedence keys above a lower end and below an upper end.\<close>

definition over :: "version option \<Rightarrow> bool \<Rightarrow> vkey \<Rightarrow> bool" where
  "over l c k \<longleftrightarrow>
     (case l of None \<Rightarrow> True
      | Some v \<Rightarrow> if c then precedence_key v \<le> k else precedence_key v < k)"

definition under :: "version option \<Rightarrow> bool \<Rightarrow> vkey \<Rightarrow> bool" where
  "under h c k \<longleftrightarrow>
     (case h of None \<Rightarrow> True
      | Some v \<Rightarrow> if c then k \<le> precedence_key v else k < precedence_key v)"

definition iv_mem :: "interval \<Rightarrow> vkey \<Rightarrow> bool" where
  "iv_mem iv k \<longleftrightarrow> over (lo iv) (lo_closed iv) k \<and> under (hi iv) (hi_closed iv) k"

lemma interval_contains_mem: "interval_contains iv v \<longleftrightarrow> iv_mem iv (precedence_key v)"
  by (auto simp: interval_contains_def iv_mem_def over_def under_def version_keys not_less not_le
      split: option.splits)

lemma over_simps [simp]:
  "over None c k" "over (Some v) True k \<longleftrightarrow> precedence_key v \<le> k"
  "over (Some v) False k \<longleftrightarrow> precedence_key v < k"
  by (auto simp: over_def)

lemma under_simps [simp]:
  "under None c k" "under (Some v) True k \<longleftrightarrow> k \<le> precedence_key v"
  "under (Some v) False k \<longleftrightarrow> k < precedence_key v"
  by (auto simp: under_def)

lemma iv_mem_new [simp]: "iv_mem (interval_new l h lc hc) k \<longleftrightarrow> over l lc k \<and> under h hc k"
  by (simp add: iv_mem_def interval_new_def)

lemma over_max_lo:
  "over (fst (max_lo_with_closed a ac b bc)) (snd (max_lo_with_closed a ac b bc)) k \<longleftrightarrow>
   over a ac k \<and> over b bc k"
  by (cases "(a, ac, b, bc)" rule: max_lo_with_closed.cases)
    (auto simp: over_def version_keys split: if_splits)

lemma under_min_hi:
  "under (fst (min_hi_with_closed a ac b bc)) (snd (min_hi_with_closed a ac b bc)) k \<longleftrightarrow>
   under a ac k \<and> under b bc k"
  by (cases "(a, ac, b, bc)" rule: min_hi_with_closed.cases)
    (auto simp: under_def version_keys split: if_splits)

lemma not_nonempty_mem: "\<not> interval_nonempty l h lc hc \<Longrightarrow> \<not> (over l lc k \<and> under h hc k)"
  by (cases "(l, h, lc, hc)" rule: interval_nonempty.cases)
    (auto simp: over_def under_def version_keys split: if_splits)

lemma intersect_pair_mem:
  "(\<exists>iv \<in> set (intersect_pair a b). iv_mem iv k) \<longleftrightarrow> iv_mem a k \<and> iv_mem b k"
proof -
  obtain l lc where l: "max_lo_with_closed (lo a) (lo_closed a) (lo b) (lo_closed b) = (l, lc)"
    by (cases "max_lo_with_closed (lo a) (lo_closed a) (lo b) (lo_closed b)")
  obtain h hc where h: "min_hi_with_closed (hi a) (hi_closed a) (hi b) (hi_closed b) = (h, hc)"
    by (cases "min_hi_with_closed (hi a) (hi_closed a) (hi b) (hi_closed b)")
  have "(\<exists>iv \<in> set (intersect_pair a b). iv_mem iv k) \<longleftrightarrow> over l lc k \<and> under h hc k"
    using not_nonempty_mem [of l h lc hc k] by (auto simp: intersect_pair_def l h)
  also have "\<dots> \<longleftrightarrow> iv_mem a k \<and> iv_mem b k"
    using over_max_lo [of "lo a" "lo_closed a" "lo b" "lo_closed b" k]
      under_min_hi [of "hi a" "hi_closed a" "hi b" "hi_closed b" k]
    by (auto simp: l h iv_mem_def)
  finally show ?thesis .
qed

subsection \<open>Normalisation: membership and canonical form\<close>

definition ivs_mem :: "interval list \<Rightarrow> vkey \<Rightarrow> bool" where
  "ivs_mem ivs k \<longleftrightarrow> (\<exists>iv \<in> set ivs. iv_mem iv k)"

lemma ivs_mem_simps [simp]:
  "ivs_mem [] k \<longleftrightarrow> False" "ivs_mem (iv # ivs) k \<longleftrightarrow> iv_mem iv k \<or> ivs_mem ivs k"
  "ivs_mem (ivs @ jvs) k \<longleftrightarrow> ivs_mem ivs k \<or> ivs_mem jvs k"
  by (auto simp: ivs_mem_def)

lemma contains_mem: "vs_contains s v \<longleftrightarrow> ivs_mem (intervals s) (precedence_key v)"
  by (simp add: vs_contains_def ivs_mem_def list_ex_iff interval_contains_mem)

lemma canonicalize_mem [simp]: "iv_mem (canonicalize_unbounded iv) k \<longleftrightarrow> iv_mem iv k"
  by (auto simp: canonicalize_unbounded_def iv_mem_def over_def under_def split: option.splits)

text \<open>
  An interval as the merge loop holds it: flags of unbounded ends fixed, not syntactically empty.
\<close>

definition iv_ok :: "interval \<Rightarrow> bool" where
  "iv_ok iv \<longleftrightarrow> (lo iv = None \<longrightarrow> lo_closed iv) \<and> (hi iv = None \<longrightarrow> \<not> hi_closed iv) \<and>
     interval_nonempty (lo iv) (hi iv) (lo_closed iv) (hi_closed iv)"

definition flags_ok :: "interval \<Rightarrow> bool" where
  "flags_ok iv \<longleftrightarrow> (lo iv = None \<longrightarrow> lo_closed iv) \<and> (hi iv = None \<longrightarrow> \<not> hi_closed iv)"

lemma canonicalize_flags [simp]: "flags_ok (canonicalize_unbounded iv)"
  by (simp add: flags_ok_def canonicalize_unbounded_def)

text \<open>The canonical form: good intervals, each separated by a gap from the next.\<close>

definition canon :: "interval list \<Rightarrow> bool" where
  "canon ivs \<longleftrightarrow> list_all iv_ok ivs \<and> successively (\<lambda>a b. \<not> intervals_connectable a b) ivs"

definition hull :: "interval \<Rightarrow> interval \<Rightarrow> interval" where
  "hull a b =
     (let (h, hc) = max_bound (hi a) (hi_closed a) (hi b) (hi_closed b)
      in a\<lparr>hi := h, hi_closed := hc\<rparr>)"

lemma hull_lo [simp]: "lo (hull a b) = lo a" "lo_closed (hull a b) = lo_closed a"
  by (auto simp: hull_def split: prod.splits)

lemma merge_step_hull:
  "merge_step merged iv =
     (if \<not> interval_nonempty (lo iv) (hi iv) (lo_closed iv) (hi_closed iv) then merged
      else if merged = [] then [iv]
      else if intervals_connectable (last merged) iv
      then butlast merged @ [hull (last merged) iv] else merged @ [iv])"
  by (auto simp: merge_step_def hull_def Let_def split: prod.splits)

lemma under_max_bound:
  "under (fst (max_bound a ac b bc)) (snd (max_bound a ac b bc)) k \<longleftrightarrow>
   under a ac k \<or> under b bc k"
  by (cases "(a, ac, b, bc)" rule: max_bound.cases)
    (auto simp: under_def version_keys split: if_splits)

lemma over_mono: "lo_sort_key a \<le> lo_sort_key b \<Longrightarrow> over (lo b) (lo_closed b) k \<Longrightarrow> over (lo a) (lo_closed a) k"
  by (auto simp: lo_sort_key_def over_def split: option.splits if_splits)

lemma connectable_over:
  assumes "intervals_connectable a b" "\<not> under (hi a) (hi_closed a) k"
  shows "over (lo b) (lo_closed b) k"
  using assms
  by (auto simp: intervals_connectable_def over_def under_def version_keys
      split: option.splits if_splits)

lemma hull_mem:
  assumes "lo_sort_key a \<le> lo_sort_key b" "intervals_connectable a b"
  shows "iv_mem (hull a b) k \<longleftrightarrow> iv_mem a k \<or> iv_mem b k"
proof -
  have "iv_mem (hull a b) k \<longleftrightarrow>
      over (lo a) (lo_closed a) k \<and> (under (hi a) (hi_closed a) k \<or> under (hi b) (hi_closed b) k)"
    using under_max_bound [of "hi a" "hi_closed a" "hi b" "hi_closed b" k]
    by (auto simp: hull_def iv_mem_def split: prod.splits)
  with assms over_mono [of a b k] connectable_over [of a b k] show ?thesis
    by (auto simp: iv_mem_def)
qed

lemma iv_ok_flags: "iv_ok iv \<longleftrightarrow> flags_ok iv \<and> interval_nonempty (lo iv) (hi iv) (lo_closed iv) (hi_closed iv)"
  by (auto simp: iv_ok_def flags_ok_def)

lemma hull_ok:
  assumes "iv_ok a" "iv_ok b" "lo_sort_key a \<le> lo_sort_key b"
  shows "iv_ok (hull a b)"
  using assms
  by (cases "lo a"; cases "hi a"; cases "hi b"; cases "lo b")
    (auto simp: iv_ok_def hull_def lo_sort_key_def version_keys split: if_splits)

lemma connectable_lo_cong:
  "hi a = hi a' \<Longrightarrow> hi_closed a = hi_closed a' \<Longrightarrow> lo b = lo b' \<Longrightarrow> lo_closed b = lo_closed b' \<Longrightarrow>
   intervals_connectable a b = intervals_connectable a' b'"
  by (simp only: intervals_connectable_def)

text \<open>The state of the merge loop after a prefix of the sorted intervals.\<close>

lemma merge_step_canon:
  assumes "canon merged" "flags_ok iv"
    and "merged \<noteq> [] \<longrightarrow> lo_sort_key (last merged) \<le> lo_sort_key iv"
  shows "canon (merge_step merged iv)"
    and "ivs_mem (merge_step merged iv) k \<longleftrightarrow> ivs_mem merged k \<or> iv_mem iv k"
    and "merge_step merged iv \<noteq> [] \<longrightarrow>
      lo_sort_key (last (merge_step merged iv)) \<le> lo_sort_key iv"
proof -
  let ?ne = "interval_nonempty (lo iv) (hi iv) (lo_closed iv) (hi_closed iv)"
  have ok: "?ne \<Longrightarrow> iv_ok iv" using assms(2) by (simp add: iv_ok_flags)
  have lokey: "lo_sort_key (hull a b) = lo_sort_key a" for a b by (simp add: lo_sort_key_def)
  obtain ms m where m: "merged \<noteq> [] \<Longrightarrow> merged = ms @ [m]"
    by (metis append_butlast_last_id)
  have key: "merged \<noteq> [] \<Longrightarrow> lo_sort_key m \<le> lo_sort_key iv" using assms(3) m by auto
  show "canon (merge_step merged iv)"
    using assms(1) ok m key hull_ok [of m iv]
    by (auto simp: merge_step_hull canon_def successively_append_iff
        connectable_lo_cong [of "last ms" "last ms" "hull m iv" m])
  show "ivs_mem (merge_step merged iv) k \<longleftrightarrow> ivs_mem merged k \<or> iv_mem iv k"
    using m key hull_mem [of m iv k]
      not_nonempty_mem [of "lo iv" "hi iv" "lo_closed iv" "hi_closed iv" k]
    by (auto simp: merge_step_hull iv_mem_def [of iv])
  show "merge_step merged iv \<noteq> [] \<longrightarrow>
      lo_sort_key (last (merge_step merged iv)) \<le> lo_sort_key iv"
    using assms(3) m key by (auto simp: merge_step_hull lokey)
qed

lemma merge_loop_canon:
  assumes "sorted (map lo_sort_key ivs)" "list_all flags_ok ivs" "canon merged"
    and "\<forall>iv \<in> set ivs. merged \<noteq> [] \<longrightarrow> lo_sort_key (last merged) \<le> lo_sort_key iv"
  shows "canon (foldl merge_step merged ivs) \<and>
    (ivs_mem (foldl merge_step merged ivs) k \<longleftrightarrow> ivs_mem merged k \<or> ivs_mem ivs k)"
  using assms
proof (induction ivs arbitrary: merged)
  case (Cons iv ivs)
  have step: "canon (merge_step merged iv)"
    "ivs_mem (merge_step merged iv) k \<longleftrightarrow> ivs_mem merged k \<or> iv_mem iv k"
    "merge_step merged iv \<noteq> [] \<longrightarrow> lo_sort_key (last (merge_step merged iv)) \<le> lo_sort_key iv"
    using merge_step_canon [of merged iv] Cons.prems by auto
  have "\<forall>jv \<in> set ivs. merge_step merged iv \<noteq> [] \<longrightarrow>
      lo_sort_key (last (merge_step merged iv)) \<le> lo_sort_key jv"
    using step(3) Cons.prems(1) by (auto intro: order_trans)
  then show ?case
    using Cons.IH [of "merge_step merged iv"] Cons.prems(1,2) step by auto
qed simp

lemma normalize_facts:
  "canon (normalize_intervals ivs) \<and> (ivs_mem (normalize_intervals ivs) k \<longleftrightarrow> ivs_mem ivs k)"
proof -
  let ?s = "sort_key lo_sort_key (map canonicalize_unbounded ivs)"
  have "list_all flags_ok ?s" by (auto simp: list_all_iff)
  moreover have "ivs_mem ?s k \<longleftrightarrow> ivs_mem ivs k" by (auto simp: ivs_mem_def)
  moreover have "canon []" by (simp add: canon_def)
  ultimately show ?thesis
    using merge_loop_canon [of ?s "[]" k] by (simp add: normalize_intervals_def)
qed

lemmas normalize_canon [simp] = normalize_facts [THEN conjunct1]
lemmas normalize_mem [simp] = normalize_facts [THEN conjunct2]


subsection \<open>A canonical list is its own normal form\<close>

lemma sort_key_sorted: "sorted (map f xs) \<Longrightarrow> sort_key f xs = xs"
  by (induction xs) (auto simp: insort_is_Cons)

lemma separated_key:
  "iv_ok a \<Longrightarrow> iv_ok b \<Longrightarrow> \<not> intervals_connectable a b \<Longrightarrow> lo_sort_key a \<le> lo_sort_key b"
  by (cases "lo a"; cases "hi a"; cases "lo b")
    (auto simp: iv_ok_def intervals_connectable_def lo_sort_key_def version_keys split: if_splits)

lemma canon_Cons:
  "canon (a # b # ivs) \<longleftrightarrow> iv_ok a \<and> \<not> intervals_connectable a b \<and> canon (b # ivs)"
  by (auto simp: canon_def)

lemma canon_single: "canon [a] \<longleftrightarrow> iv_ok a" "canon []"
  by (auto simp: canon_def)

lemma canon_sorted: "canon ivs \<Longrightarrow> sorted (map lo_sort_key ivs)"
proof (induction ivs rule: induct_list012)
  case (3 a b ivs)
  then have "lo_sort_key a \<le> lo_sort_key b"
    by (auto simp: canon_def intro: separated_key)
  with 3 show ?case by (auto simp: canon_Cons intro: order_trans)
qed simp_all

lemma canonicalize_id: "flags_ok iv \<Longrightarrow> canonicalize_unbounded iv = iv"
  by (cases iv) (auto simp: flags_ok_def canonicalize_unbounded_def)

lemma merge_loop_id: "canon (merged @ ivs) \<Longrightarrow> foldl merge_step merged ivs = merged @ ivs"
proof (induction ivs arbitrary: merged)
  case (Cons iv ivs)
  have "merge_step merged iv = merged @ [iv]"
    using Cons.prems
    by (auto simp: merge_step_hull canon_def successively_append_iff iv_ok_def)
  with Cons show ?case by simp
qed simp

lemma normalize_id: "canon ivs \<Longrightarrow> normalize_intervals ivs = ivs"
proof -
  assume c: "canon ivs"
  then have "map canonicalize_unbounded ivs = ivs"
    by (auto simp: canon_def list_all_iff iv_ok_flags intro!: map_idI canonicalize_id)
  with c show ?thesis
    by (simp add: normalize_intervals_def sort_key_sorted canon_sorted merge_loop_id)
qed

subsection \<open>The complement\<close>

definition gaps :: "interval list \<Rightarrow> interval list" where
  "gaps ivs = left_gap (hd ivs) @ window_gaps ivs @ right_tail (last ivs)"

lemma over_not: "over (Some v) (\<not> c) k \<longleftrightarrow> \<not> under (Some v) c k"
  "under (Some v) (\<not> c) k \<longleftrightarrow> \<not> over (Some v) c k"
  by (cases c; auto)+

lemma sep_ends:
  assumes "\<not> intervals_connectable a b"
  obtains h l where "hi a = Some h" "lo b = Some l"
    "h < l \<or> (veq h l \<and> \<not> hi_closed a \<and> \<not> lo_closed b)"
  using assms
  by (auto simp: intervals_connectable_def version_keys split: option.splits if_splits)

text \<open>Everything right of the first interval lies above its upper end.\<close>

lemma gaps_over:
  "canon (a # ivs) \<Longrightarrow> ivs_mem (window_gaps (a # ivs) @ right_tail (last (a # ivs))) k \<Longrightarrow>
   \<not> under (hi a) (hi_closed a) k"
proof (induction ivs arbitrary: a)
  case Nil
  then show ?case by (auto simp: right_tail_def over_not split: option.splits)
next
  case (Cons b ivs)
  from Cons.prems(1) obtain h l where hl: "hi a = Some h" "lo b = Some l"
    "h < l \<or> (veq h l \<and> \<not> hi_closed a \<and> \<not> lo_closed b)"
    by (auto simp: canon_Cons elim: sep_ends)
  from Cons.prems have "iv_ok b" by (auto simp: canon_def)
  consider "\<not> under (hi a) (hi_closed a) k"
    | "\<not> under (hi b) (hi_closed b) k"
    using Cons by (auto simp: canon_Cons hl over_not)
  then show ?case
  proof cases
    case 2
    with \<open>iv_ok b\<close> hl show ?thesis
      by (cases "hi b") (auto simp: iv_ok_def under_def version_keys split: if_splits)
  qed
qed

lemma gaps_mem_aux:
  "canon (a # ivs) \<Longrightarrow>
   ivs_mem (window_gaps (a # ivs) @ right_tail (last (a # ivs))) k \<or> \<not> over (lo a) (lo_closed a) k
     \<longleftrightarrow> \<not> ivs_mem (a # ivs) k"
proof (induction ivs arbitrary: a)
  case Nil
  then show ?case by (cases "hi a") (auto simp: right_tail_def iv_mem_def over_not)
next
  case (Cons b ivs)
  from Cons.prems obtain h l where hl: "hi a = Some h" "lo b = Some l"
    "h < l \<or> (veq h l \<and> \<not> hi_closed a \<and> \<not> lo_closed b)" and ok: "iv_ok a"
    by (auto simp: canon_Cons elim: sep_ends)
  have left: "\<not> over (lo a) (lo_closed a) k \<Longrightarrow> \<not> over (lo b) (lo_closed b) k"
    using ok hl by (cases "lo a") (auto simp: iv_ok_def over_def version_keys split: if_splits)
  have right: "ivs_mem (window_gaps (b # ivs) @ right_tail (last (b # ivs))) k \<Longrightarrow>
      \<not> under (hi a) (hi_closed a) k"
    using gaps_over [OF Cons.prems, of k] by simp
  show ?case
    using Cons.IH [of b] Cons.prems left right
    by (auto simp: canon_Cons iv_mem_def [of a] hl over_not)
qed

lemma gaps_mem:
  assumes "canon ivs" "ivs \<noteq> []"
  shows "ivs_mem (gaps ivs) k \<longleftrightarrow> \<not> ivs_mem ivs k"
proof -
  obtain a rest where ivs: "ivs = a # rest" using assms(2) by (cases ivs) auto
  have "ivs_mem (left_gap a) k \<longleftrightarrow> \<not> over (lo a) (lo_closed a) k"
    by (auto simp: left_gap_def over_not split: option.splits)
  with gaps_mem_aux [of a rest k] assms ivs show ?thesis by (auto simp: gaps_def)
qed

lemma gap_ok: "iv_ok a \<Longrightarrow> iv_ok b \<Longrightarrow> \<not> intervals_connectable a b \<Longrightarrow>
   iv_ok (interval_new (hi a) (lo b) (\<not> hi_closed a) (\<not> lo_closed b))"
  by (auto simp: iv_ok_def interval_new_def elim!: sep_ends)

lemma gaps_canon_aux:
  assumes "canon (a # ivs)" "hi x = lo a" "hi_closed x = (\<not> lo_closed a)" "iv_ok x" "lo a \<noteq> None"
  shows "canon (x # window_gaps (a # ivs) @ right_tail (last (a # ivs)))"
  using assms
proof (induction ivs arbitrary: a x)
  case Nil
  then show ?case
    by (cases "hi a")
      (auto simp: right_tail_def canon_Cons canon_single iv_ok_def interval_new_def
        intervals_connectable_def version_keys split: option.splits)
next
  case (Cons b ivs)
  let ?g = "interval_new (hi a) (lo b) (\<not> hi_closed a) (\<not> lo_closed b)"
  from Cons.prems(1) have ok: "iv_ok a" "iv_ok b" "\<not> intervals_connectable a b" "canon (b # ivs)"
    by (auto simp: canon_def)
  then obtain h l where hl: "hi a = Some h" "lo b = Some l" by (auto elim: sep_ends)
  have "canon (?g # window_gaps (b # ivs) @ right_tail (last (b # ivs)))"
    using ok hl gap_ok [of a b] by (intro Cons.IH) auto
  moreover have "\<not> intervals_connectable x ?g"
    using Cons.prems ok(1) hl
    by (auto simp: intervals_connectable_def interval_new_def iv_ok_def version_keys)
  ultimately show ?case using Cons.prems(4) by (auto simp: canon_Cons)
qed

lemma gaps_canon:
  assumes "canon ivs" "ivs \<noteq> []"
  shows "canon (gaps ivs)"
proof -
  obtain a rest where ivs: "ivs = a # rest" using assms(2) by (cases ivs) auto
  show ?thesis
  proof (cases "lo a")
    case (Some l)
    then show ?thesis
      using gaps_canon_aux [of a rest "interval_new None (Some l) True (\<not> lo_closed a)"] assms ivs
      by (auto simp: gaps_def left_gap_def interval_new_def iv_ok_def)
  next
    case None
    show ?thesis
    proof (cases rest)
      case Nil
      with None ivs show ?thesis
        by (auto simp: gaps_def left_gap_def right_tail_def canon_single iv_ok_def interval_new_def
            split: option.splits)
    next
      case (Cons b r)
      have ok: "iv_ok a" "iv_ok b" "\<not> intervals_connectable a b" "canon (b # r)"
        using assms(1) ivs Cons by (auto simp: canon_def)
      then show ?thesis
        using gaps_canon_aux [of b r "interval_new (hi a) (lo b) (\<not> hi_closed a) (\<not> lo_closed b)"]
          gap_ok ivs Cons None
        by (auto simp: gaps_def left_gap_def interval_new_def elim!: sep_ends)
    qed
  qed
qed

lemma complement_gaps:
  "canon (intervals s) \<Longrightarrow> intervals s \<noteq> [] \<Longrightarrow> vs_complement s = \<lparr>intervals = gaps (intervals s)\<rparr>"
  using gaps_canon [of "intervals s"] by (simp add: vs_complement_def gaps_def normalize_id)

lemma iv_eqI: "lo a = l \<Longrightarrow> hi a = h \<Longrightarrow> lo_closed a = lc \<Longrightarrow> hi_closed a = hc \<Longrightarrow>
   interval_new l h lc hc = a"
  by (cases a) (simp add: interval_new_def)

lemma gaps_back:
  assumes "canon (a # ivs)" "hi x = lo a" "hi_closed x = (\<not> lo_closed a)" "lo a \<noteq> None"
  shows "window_gaps (x # window_gaps (a # ivs) @ right_tail (last (a # ivs))) @
    right_tail (last (x # window_gaps (a # ivs) @ right_tail (last (a # ivs)))) = a # ivs"
  using assms
proof (induction ivs arbitrary: a x)
  case Nil
  then show ?case
    by (cases "hi a")
      (auto simp: right_tail_def canon_single iv_ok_def interval_new_def split: option.splits intro!: interval.equality)
next
  case (Cons b ivs)
  let ?g = "interval_new (hi a) (lo b) (\<not> hi_closed a) (\<not> lo_closed b)"
  from Cons.prems(1) have ok: "\<not> intervals_connectable a b" "canon (b # ivs)"
    by (auto simp: canon_def)
  then have "window_gaps (?g # window_gaps (b # ivs) @ right_tail (last (b # ivs))) @
      right_tail (last (?g # window_gaps (b # ivs) @ right_tail (last (b # ivs)))) = b # ivs"
    by (intro Cons.IH) (auto simp: interval_new_def elim: sep_ends)
  moreover have "interval_new (hi x) (lo ?g) (\<not> hi_closed x) (\<not> lo_closed ?g) = a"
    using Cons.prems(2,3) by (intro iv_eqI) (auto simp: interval_new_def)
  ultimately show ?case by simp
qed


lemma gaps_gaps:
  assumes "canon ivs" "ivs \<noteq> []" "gaps ivs \<noteq> []"
  shows "gaps (gaps ivs) = ivs"
proof -
  obtain a rest where ivs: "ivs = a # rest" using assms(2) by (cases ivs) auto
  show ?thesis
  proof (cases "lo a")
    case (Some l)
    then show ?thesis
      using gaps_back [of a rest "interval_new None (Some l) True (\<not> lo_closed a)"] assms(1) ivs
      by (simp add: gaps_def left_gap_def)
  next
    case None
    with assms(1) ivs have flags: "lo_closed a" by (auto simp: canon_def iv_ok_def)
    show ?thesis
    proof (cases rest)
      case Nil
      with None ivs assms(3) flags show ?thesis
        by (cases "hi a") (auto simp: gaps_def left_gap_def right_tail_def intro: iv_eqI)
    next
      case (Cons b r)
      have sep: "\<not> intervals_connectable a b" "canon (b # r)"
        using assms(1) ivs Cons by (auto simp: canon_def)
      then obtain h l where hl: "hi a = Some h" "lo b = Some l" by (auto elim: sep_ends)
      show ?thesis
        using gaps_back [of b r "interval_new (hi a) (lo b) (\<not> hi_closed a) (\<not> lo_closed b)"]
          sep hl ivs Cons None flags
        by (auto simp: gaps_def left_gap_def intro: iv_eqI)
    qed
  qed
qed

subsection \<open>Laws of the operations\<close>

definition vs_canon :: "version_set \<Rightarrow> bool" where
  "vs_canon s \<longleftrightarrow> canon (intervals s)"

lemma canon_ops [simp]:
  "vs_canon vs_full" "vs_canon vs_empty" "vs_canon (vs_gte v)" "vs_canon (vs_lt v)"
  "vs_canon (vs_eq v)" "vs_canon (vs_intersect s t)" "vs_canon (vs_union s t)"
  by (simp_all add: vs_canon_def vs_full_def vs_empty_def vs_gte_def vs_lt_def vs_eq_def
      vs_intersect_def vs_union_def canon_single iv_ok_def)

lemma canon_complement [simp]: "vs_canon (vs_complement s)"
  using canon_ops(1) by (simp add: vs_canon_def vs_complement_def)

lemma canon_bounds [simp]: "vs_canon (vs_gt v)" "vs_canon (vs_lte v)"
  by (simp_all add: vs_gt_def vs_lte_def)

lemma contains_full [member_simps]: "vs_contains vs_full v"
  by (simp add: contains_mem vs_full_def)

lemma contains_empty [member_simps]: "\<not> vs_contains vs_empty v"
  by (simp add: contains_mem vs_empty_def)

lemma contains_gte [member_simps]: "vs_contains (vs_gte w) v \<longleftrightarrow> w \<le> v"
  by (simp add: contains_mem vs_gte_def version_keys)

lemma contains_lt [member_simps]: "vs_contains (vs_lt w) v \<longleftrightarrow> v < w"
  by (simp add: contains_mem vs_lt_def version_keys)

lemma contains_eq [member_simps]: "vs_contains (vs_eq w) v \<longleftrightarrow> veq w v"
  by (auto simp: contains_mem vs_eq_def version_keys)

lemma pairs_mem:
  "ivs_mem (concat (map (\<lambda>a. concat (map (intersect_pair a) ts)) ss)) k \<longleftrightarrow>
   ivs_mem ss k \<and> ivs_mem ts k"
proof -
  have inner: "ivs_mem (concat (map (intersect_pair a) ts)) k \<longleftrightarrow> iv_mem a k \<and> ivs_mem ts k" for a
    by (induction ts) (auto simp: intersect_pair_mem [folded ivs_mem_def])
  show ?thesis
    by (induction ss) (auto simp: inner)
qed

lemma contains_intersect [member_simps]:
  "vs_contains (vs_intersect s t) v \<longleftrightarrow> vs_contains s v \<and> vs_contains t v"
  by (simp add: contains_mem vs_intersect_def pairs_mem)

lemma contains_union [member_simps]:
  "vs_contains (vs_union s t) v \<longleftrightarrow> vs_contains s v \<or> vs_contains t v"
  by (simp add: contains_mem vs_union_def)

lemma contains_complement [member_simps]:
  "vs_canon s \<Longrightarrow> vs_contains (vs_complement s) v \<longleftrightarrow> \<not> vs_contains s v"
  by (cases "intervals s = []")
    (simp_all add: contains_mem vs_canon_def complement_gaps gaps_mem,
      simp add: vs_complement_def vs_full_def)

lemma contains_gt [member_simps]: "vs_contains (vs_gt w) v \<longleftrightarrow> w < v"
  by (auto simp: vs_gt_def member_simps version_keys)

lemma contains_lte [member_simps]: "vs_contains (vs_lte w) v \<longleftrightarrow> v \<le> w"
  by (auto simp: vs_lte_def member_simps version_keys)

lemma complement_complement:
  assumes "vs_canon s"
  shows "vs_complement (vs_complement s) = s"
proof (cases "intervals s = []")
  case True
  then have "s = vs_empty" by (cases s) (simp add: vs_empty_def)
  moreover have "vs_complement vs_full = vs_empty"
    by (simp add: vs_complement_def vs_full_def vs_empty_def left_gap_def right_tail_def
        normalize_intervals_def)
  ultimately show ?thesis by (simp add: vs_complement_def vs_empty_def)
next
  case False
  from assms have c: "canon (intervals s)" by (simp add: vs_canon_def)
  show ?thesis
  proof (cases "gaps (intervals s) = []")
    case True
    obtain a rest where ivs: "intervals s = a # rest" using False by (cases "intervals s") auto
    with True have "lo a = None" "hi (last (a # rest)) = None" "window_gaps (a # rest) = []"
      by (auto simp: gaps_def left_gap_def right_tail_def split: option.splits)
    with ivs c have "s = vs_full"
      by (cases rest) (auto simp: canon_single iv_ok_def vs_full_def intro!: version_set.equality iv_eqI [symmetric])
    with True False c show ?thesis by (simp add: complement_gaps) (simp add: vs_complement_def)
  next
    case gap: False
    have "vs_complement s = \<lparr>intervals = gaps (intervals s)\<rparr>"
      using c False by (rule complement_gaps)
    moreover have "vs_complement \<lparr>intervals = gaps (intervals s)\<rparr> =
        \<lparr>intervals = gaps (gaps (intervals s))\<rparr>"
      using gap gaps_canon [OF c False] complement_gaps [of "\<lparr>intervals = gaps (intervals s)\<rparr>"]
      by simp
    ultimately show ?thesis using gaps_gaps [OF c False gap] by simp
  qed
qed

lemma is_empty_sound: "vs_is_empty s \<Longrightarrow> \<not> vs_contains s v"
  by (simp add: vs_is_empty_def contains_mem)

lemma subset_sound:
  "vs_canon t \<Longrightarrow> vs_is_subset_of s t \<Longrightarrow> vs_contains s v \<Longrightarrow> vs_contains t v"
  using is_empty_sound [of "vs_intersect s (vs_complement t)" v]
  by (auto simp: vs_is_subset_of_def member_simps)

lemma lower_bound_loop_le:
  "lower_bound_loop m ivs = Some l \<Longrightarrow>
   (\<forall>w. m = Some w \<longrightarrow> l \<le> w) \<and>
   (\<forall>iv \<in> set ivs. \<exists>w. lo iv = Some w \<and> l \<le> w)"
proof (induction m ivs rule: lower_bound_loop.induct)
  case (2 m iv ivs)
  then show ?case
    by (cases "lo iv"; cases m) (auto simp: version_keys split: if_splits)
qed simp

lemma iv_mem_lo: "iv_mem iv k \<Longrightarrow> lo iv = Some w \<Longrightarrow> precedence_key w \<le> k"
  by (auto simp: iv_mem_def over_def split: if_splits)

lemma lower_bound_le:
  assumes "vs_lower_bound s = Some l" "vs_contains s v"
  shows "l \<le> v"
proof -
  obtain iv where "iv \<in> set (intervals s)" and mem: "iv_mem iv (precedence_key v)"
    using assms(2) by (auto simp only: contains_mem ivs_mem_def)
  moreover from assms(1) have "lower_bound_loop None (intervals s) = Some l"
    by (simp add: vs_lower_bound_def split: if_splits)
  ultimately obtain w where "lo iv = Some w" "l \<le> w"
    using lower_bound_loop_le by blast
  then show ?thesis
    using iv_mem_lo [OF mem] by (auto simp only: version_keys intro: order_trans)
qed


subsection \<open>The set protocol PubGrub consumes\<close>

text \<open>
  What the PubGrub crate asks of its \<^verbatim>\<open>VersionSet\<close> trait: the five required operations, the laws
  its documentation states for them, and the lemmas on the provided operations (\<^verbatim>\<open>full\<close>, \<^verbatim>\<open>union\<close>,
  \<^verbatim>\<open>is_disjoint\<close>, \<^verbatim>\<open>subset_of\<close>) that follow from the laws alone.
\<close>

locale version_set_protocol =
  fixes empt :: 's and singleton :: "'v \<Rightarrow> 's" and compl :: "'s \<Rightarrow> 's"
    and inter :: "'s \<Rightarrow> 's \<Rightarrow> 's" and cont :: "'s \<Rightarrow> 'v \<Rightarrow> bool"
    and eqv :: "'v \<Rightarrow> 'v \<Rightarrow> bool" and inv :: "'s \<Rightarrow> bool"
  assumes inv_empty: "inv empt" and inv_singleton: "inv (singleton v)"
    and inv_compl: "inv s \<Longrightarrow> inv (compl s)"
    and inv_inter: "inv s \<Longrightarrow> inv t \<Longrightarrow> inv (inter s t)"
    and cont_empty: "\<not> cont empt v"
    and cont_singleton: "cont (singleton w) v \<longleftrightarrow> eqv w v"
    and cont_compl: "inv s \<Longrightarrow> cont (compl s) v \<longleftrightarrow> \<not> cont s v"
    and cont_inter: "inv s \<Longrightarrow> inv t \<Longrightarrow> cont (inter s t) v \<longleftrightarrow> cont s v \<and> cont t v"
    and compl_compl: "inv s \<Longrightarrow> compl (compl s) = s"
begin

lemmas inv_rules = inv_empty inv_singleton inv_compl inv_inter

lemma cont_full: "cont (compl empt) v"
  by (simp add: cont_compl cont_empty inv_rules)

lemma cont_de_morgan:
  "inv s \<Longrightarrow> inv t \<Longrightarrow> cont (compl (inter (compl s) (compl t))) v \<longleftrightarrow> cont s v \<or> cont t v"
  by (simp add: cont_compl cont_inter inv_rules)

text \<open>Accumulating constraints on one package: the fold of the intersections.\<close>

lemma inv_foldl: "inv s \<Longrightarrow> list_all inv ts \<Longrightarrow> inv (foldl inter s ts)"
  by (induction ts arbitrary: s) (simp_all add: inv_rules)

lemma cont_foldl:
  "inv s \<Longrightarrow> list_all inv ts \<Longrightarrow>
   cont (foldl inter s ts) v \<longleftrightarrow> cont s v \<and> list_all (\<lambda>t. cont t v) ts"
  by (induction ts arbitrary: s) (auto simp: inv_rules cont_inter)

lemma compl_inj: "inv s \<Longrightarrow> inv t \<Longrightarrow> compl s = compl t \<Longrightarrow> s = t"
  by (metis compl_compl)

lemma subset_cont:
  "inv s \<Longrightarrow> inv t \<Longrightarrow> inter s (compl t) = empt \<Longrightarrow> cont s v \<Longrightarrow> cont t v"
  using cont_empty [of v] cont_inter [of s "compl t" v] by (auto simp: inv_rules cont_compl)

end

interpretation milpa_vs: version_set_protocol vs_empty vs_eq vs_complement vs_intersect
    vs_contains veq vs_canon
  by unfold_locales (simp_all add: member_simps complement_complement)

text \<open>
  \<open>foldl\<close> of \<^verbatim>\<open>intersect\<close> over the constraints the edges of one package carry, from \<^verbatim>\<open>full\<close>: the
  closure's accumulation.
\<close>

lemma contains_accumulated:
  "list_all vs_canon ts \<Longrightarrow>
   vs_contains (foldl vs_intersect vs_full ts) v \<longleftrightarrow> list_all (\<lambda>t. vs_contains t v) ts"
  using milpa_vs.cont_foldl [of vs_full ts v] by (simp add: contains_full)

subsection \<open>Properties\<close>

text \<open>
  C1. The membership algebra: every constructor and operation of the version sets denotes, at
  every version, what its name says, under the total preorder of versions; the intersection and
  the union for arbitrary interval vectors, the complement for canonical ones.
\<close>

theorem vs_membership:
  "vs_contains vs_full v \<and> \<not> vs_contains vs_empty v \<and>
   (vs_contains (vs_gte w) v \<longleftrightarrow> w \<le> v) \<and> (vs_contains (vs_gt w) v \<longleftrightarrow> w < v) \<and>
   (vs_contains (vs_lte w) v \<longleftrightarrow> v \<le> w) \<and> (vs_contains (vs_lt w) v \<longleftrightarrow> v < w) \<and>
   (vs_contains (vs_eq w) v \<longleftrightarrow> veq w v) \<and>
   (vs_contains (vs_intersect s t) v \<longleftrightarrow> vs_contains s v \<and> vs_contains t v) \<and>
   (vs_contains (vs_union s t) v \<longleftrightarrow> vs_contains s v \<or> vs_contains t v) \<and>
   (vs_contains (vs_complement (vs_union s t)) v \<longleftrightarrow> \<not> vs_contains s v \<and> \<not> vs_contains t v)"
  by (simp add: member_simps)

text \<open>
  Canonical form: every constructor and every operation yields sorted, pairwise separated,
  non-empty intervals with fixed flags at the unbounded ends, whatever vectors it is given.
\<close>

theorem vs_canonical_form:
  "vs_canon vs_full \<and> vs_canon vs_empty \<and> vs_canon (vs_gte v) \<and> vs_canon (vs_gt v) \<and>
   vs_canon (vs_lte v) \<and> vs_canon (vs_lt v) \<and> vs_canon (vs_eq v) \<and>
   vs_canon (vs_intersect s t) \<and> vs_canon (vs_union s t) \<and> vs_canon (vs_complement s)"
  by simp

text \<open>
  The complement is an involution on canonical sets, and exchanges the operations (De Morgan)
  at every version.
\<close>

theorem vs_complement_involution:
  assumes "vs_canon s" "vs_canon t"
  shows "vs_complement (vs_complement s) = s \<and>
    (vs_contains (vs_complement (vs_intersect (vs_complement s) (vs_complement t))) v \<longleftrightarrow>
     vs_contains (vs_union s t) v)"
  using assms by (simp add: complement_complement milpa_vs.cont_de_morgan contains_union)

text \<open>The release version \<open>n.0.0\<close> of the witnesses.\<close>

abbreviation rel :: "u64 \<Rightarrow> version" where
  "rel n \<equiv> release n 0 0"

theorem vs_complement_involution_witness:
  "vs_complement (vs_complement (vs_union (vs_lt (rel 1)) (vs_gte (rel 2)))) =
   vs_union (vs_lt (rel 1)) (vs_gte (rel 2))"
  using vs_complement_involution
    [of "vs_union (vs_lt (rel 1)) (vs_gte (rel 2))" "vs_eq (rel 3)" "rel 2"]
  by simp

text \<open>
  The subset test is sound: when the intersection with the complement is structurally empty,
  every version of the first set is in the second.
\<close>

theorem vs_subset_sound:
  assumes "vs_canon t" "vs_is_subset_of s t" "vs_contains s v"
  shows "vs_contains t v"
  using assms by (rule subset_sound)

lemmas vs_eval = vs_is_subset_of_def vs_is_empty_def vs_intersect_def vs_complement_def
  normalize_intervals_def merge_step_def left_gap_def right_tail_def intersect_pair_def
  canonicalize_unbounded_def interval_new_def lo_sort_key_def intervals_connectable_def
  version_keys precedence_key_def release_def

theorem vs_subset_sound_witness: "vs_contains (vs_gte (rel 1)) (rel 3)"
proof (rule vs_subset_sound)
  show "vs_canon (vs_gte (rel 1))" by simp
  show "vs_is_subset_of (vs_gte (rel 2)) (vs_gte (rel 1))"
    by (simp add: vs_gte_def vs_eval)
  show "vs_contains (vs_gte (rel 2)) (rel 3)"
    by (simp add: member_simps version_keys precedence_key_def release_def)
qed

text \<open>
  The lower bound the resolver reports is below every version of the set; an unbounded set
  reports none.
\<close>

theorem vs_lower_bound_sound:
  "(vs_lower_bound s = Some l \<longrightarrow> vs_contains s v \<longrightarrow> l \<le> v) \<and>
   ((\<exists>iv \<in> set (intervals s). lo iv = None) \<longrightarrow> vs_lower_bound s = None)"
proof -
  have "lower_bound_loop m ivs = None" if "\<exists>iv \<in> set ivs. lo iv = None" for m ivs
    using that by (induction ivs arbitrary: m) (auto split: option.splits)
  then have "vs_lower_bound s = None" if "\<exists>iv \<in> set (intervals s). lo iv = None"
    using that by (simp add: vs_lower_bound_def)
  then show ?thesis using lower_bound_le by blast
qed

theorem vs_lower_bound_sound_witness:
  "vs_lower_bound (vs_gte (rel 2)) = Some (rel 2) \<and> rel 2 \<le> rel 3"
proof -
  have "vs_lower_bound (vs_gte (rel 2)) = Some (rel 2)"
    by (simp add: vs_lower_bound_def vs_gte_def)
  moreover have "vs_contains (vs_gte (rel 2)) (rel 3)"
    by (simp add: member_simps version_keys precedence_key_def release_def)
  ultimately show ?thesis using vs_lower_bound_sound [of "vs_gte (rel 2)" "rel 2" "rel 3"] by simp
qed

text \<open>
  Accumulating constraints by repeated intersection admits exactly the versions every single
  constraint admits.
\<close>

theorem vs_accumulated:
  assumes "list_all vs_canon ts"
  shows "vs_contains (foldl vs_intersect vs_full ts) v \<longleftrightarrow> (\<forall>t \<in> set ts. vs_contains t v)"
  using contains_accumulated [OF assms] by (simp add: list_all_iff)

theorem vs_accumulated_witness:
  "vs_contains (foldl vs_intersect vs_full [vs_gte (rel 1), vs_lt (rel 4)]) (rel 3)"
  using vs_accumulated [of "[vs_gte (rel 1), vs_lt (rel 4)]" "rel 3"]
  by (simp add: member_simps version_keys precedence_key_def release_def)

definition version_bottom :: "version" where
  "version_bottom = \<lparr>major = 0, minor = 0, patch = 0, pre = [Numeric 0], build = []\<rparr>"

text \<open>
  Structural equality is finer than equality of sets: the lowest pre-release bounds every
  version from below, so the set above it is semantically full, is canonical, and yet is not the
  structural \<^verbatim>\<open>full()\<close> that \<^verbatim>\<open>is_full\<close> compares with.
\<close>

theorem vs_structural_not_semantic:
  "vs_canon (vs_gte version_bottom) \<and> (\<forall>v. vs_contains (vs_gte version_bottom) v) \<and>
   \<not> vs_is_full (vs_gte version_bottom)"
proof -
  have num: "Numeric 0 \<le> p" for p by (cases p) simp_all
  have ids: "[Numeric 0] \<le> ps" if "ps \<noteq> []" for ps
    using that num [of "hd ps"] by (cases ps) auto
  have "version_bottom \<le> v" for v
    using ids [of "pre v"] word_zero_le
    by (auto simp: version_keys precedence_key_def version_bottom_def le_less word_neq_0_conv)
  then have "\<forall>v. vs_contains (vs_gte version_bottom) v" by (simp add: member_simps)
  moreover have "\<not> vs_is_full (vs_gte version_bottom)"
    by (simp add: vs_is_full_def vs_gte_def vs_full_def interval_new_def)
  ultimately show ?thesis by simp
qed

end
