(* ===== verification/Constraint.thy ===== *)
theory Constraint
  imports VersionSet
begin

text \<open>
  The constraint language of \<^verbatim>\<open>milpa-solver/src/lib.rs\<close>: \<^verbatim>\<open>VersionSet::from_constraint\<close>,
  \<^verbatim>\<open>parse_clause\<close>, \<^verbatim>\<open>tilde\<close>, \<^verbatim>\<open>caret\<close>, \<^verbatim>\<open>split_or\<close>, and the two renderings of a version set
  (\<^verbatim>\<open>vs_to_constraint_str\<close>, which certificates carry, and \<^verbatim>\<open>Display\<close>).  The main facts: what a
  parsed constraint admits, and that the certificate rendering reads back as the same set.
\<close>

subsection \<open>Tilde and caret ranges\<close>

text \<open>The additions are on \<^verbatim>\<open>u64\<close> and wrap, as the release profile compiles them.\<close>

definition tilde_bound :: "version \<Rightarrow> version" where
  "tilde_bound v =
     (if minor v = 0 \<and> patch v = 0 then release (major v + 1) 0 0
      else release (major v) (minor v + 1) 0)"

definition vs_tilde :: "version \<Rightarrow> version_set" where
  "vs_tilde v = vs_intersect (vs_gte v) (vs_lt (tilde_bound v))"

definition caret_bound :: "version \<Rightarrow> version" where
  "caret_bound v =
     (if 0 < major v then release (major v + 1) 0 0
      else if 0 < minor v then release 0 (minor v + 1) 0
      else if 0 < patch v then release 0 0 (patch v + 1)
      else release 0 1 0)"

definition vs_caret :: "version \<Rightarrow> version_set" where
  "vs_caret v = vs_intersect (vs_gte v) (vs_lt (caret_bound v))"

subsection \<open>Parsing\<close>

datatype constraint_error = Unparseable_Version string | Unparseable_Clause string

text \<open>Longest operators first, so \<^verbatim>\<open>>=\<close> wins over \<^verbatim>\<open>>\<close>.\<close>

definition clause_ops :: "string list" where
  "clause_ops = [''>='', ''<='', ''=='', ''!='', ''>'', ''<'', ''~'', ''^'', ''='']"

definition apply_op :: "string \<Rightarrow> version \<Rightarrow> version_set" where
  "apply_op op v =
     (if op = ''>='' then vs_gte v
      else if op = ''<='' then vs_lte v
      else if op = ''>'' then vs_gt v
      else if op = ''<'' then vs_lt v
      else if op = ''=='' \<or> op = ''='' then vs_eq v
      else if op = ''!='' then vs_complement (vs_eq v)
      else if op = ''~'' then vs_tilde v
      else vs_caret v)"

text \<open>The loop over the operator table: the first operator that is a prefix decides.\<close>

fun parse_clause_ops :: "string list \<Rightarrow> string \<Rightarrow> constraint_error + version_set" where
  "parse_clause_ops [] clause = Inl (Unparseable_Clause clause)"
| "parse_clause_ops (op # ops) clause =
     (case strip_prefix op clause of
        Some r \<Rightarrow>
          (case parse_version (trim r) of
             None \<Rightarrow> Inl (Unparseable_Version (trim r))
           | Some v \<Rightarrow> Inr (apply_op op v))
      | None \<Rightarrow> parse_clause_ops ops clause)"

definition parse_clause :: "string \<Rightarrow> constraint_error + version_set" where
  "parse_clause clause = parse_clause_ops clause_ops (trim clause)"

text \<open>One or two pipes are one boundary between arms.\<close>

function split_or :: "string \<Rightarrow> string list" where
  "split_or [] = [[]]"
| "split_or (c # s) =
     (if c = CHR ''|''
      then [] # split_or (case s of [] \<Rightarrow> [] | d # t \<Rightarrow> if d = CHR ''|'' then t else s)
      else (case split_or s of [] \<Rightarrow> [[c]] | p # ps \<Rightarrow> (c # p) # ps))"
  by pat_completeness auto
termination
  by (relation "measure length") (auto split: list.splits)

fun and_clauses :: "version_set \<Rightarrow> string list \<Rightarrow> constraint_error + version_set" where
  "and_clauses acc [] = Inr acc"
| "and_clauses acc (c # cs) =
     (case parse_clause (trim c) of Inl e \<Rightarrow> Inl e
      | Inr s \<Rightarrow> and_clauses (vs_intersect acc s) cs)"

fun or_arms :: "version_set \<Rightarrow> string list \<Rightarrow> constraint_error + version_set" where
  "or_arms acc [] = Inr acc"
| "or_arms acc (arm # arms) =
     (case and_clauses vs_full (split_on CHR ''&'' arm) of Inl e \<Rightarrow> Inl e
      | Inr s \<Rightarrow> or_arms (vs_union acc s) arms)"

definition from_constraint :: "string option \<Rightarrow> constraint_error + version_set" where
  "from_constraint constraint =
     (case constraint of None \<Rightarrow> Inr vs_full
      | Some raw \<Rightarrow>
          (let t = trim raw in
             if t = [] \<or> t = ''any version'' then Inr vs_full
             else or_arms vs_empty (split_or t)))"

subsection \<open>Rendering\<close>

definition interval_clauses :: "interval \<Rightarrow> string list" where
  "interval_clauses iv =
     (case lo iv of None \<Rightarrow> []
      | Some l \<Rightarrow> [(if lo_closed iv then ''>='' else ''>'') @ format_version l]) @
     (case hi iv of None \<Rightarrow> []
      | Some h \<Rightarrow> [(if hi_closed iv then ''<='' else ''<'') @ format_version h])"

text \<open>The loop over the intervals; an interval without ends returns at once.\<close>

fun constraint_arms :: "interval list \<Rightarrow> string list option" where
  "constraint_arms [] = Some []"
| "constraint_arms (iv # ivs) =
     (if lo iv = None \<and> hi iv = None then None
      else map_option ((#) (join '' & '' (interval_clauses iv))) (constraint_arms ivs))"

definition vs_to_constraint_str :: "version_set \<Rightarrow> string" where
  "vs_to_constraint_str s =
     (if vs_is_empty s then ''>0.0.0 & <0.0.0''
      else case constraint_arms (intervals s) of None \<Rightarrow> ''any version''
           | Some arms \<Rightarrow> join '' | '' arms)"

text \<open>\<^verbatim>\<open>Display\<close>: U+221E for an unbounded end, U+222A between the parts.\<close>

definition infinity_sign :: string where
  "infinity_sign = map char_of [226, 136, 158 :: nat]"

definition union_sign :: string where
  "union_sign = map char_of [226, 136, 170 :: nat]"

definition display_interval :: "interval \<Rightarrow> string" where
  "display_interval iv =
     (let opn = (if lo_closed iv then ''['' else ''('');
          cls = (if hi_closed iv then '']'' else '')'')
      in case (lo iv, hi iv) of
           (None, None) \<Rightarrow> ''any''
         | (None, Some h) \<Rightarrow> ''(-'' @ infinity_sign @ '', '' @ format_version h @ cls
         | (Some l, None) \<Rightarrow> opn @ format_version l @ '', +'' @ infinity_sign @ '')''
         | (Some l, Some h) \<Rightarrow>
             if veq l h \<and> lo_closed iv \<and> hi_closed iv then ''{'' @ format_version l @ ''}''
             else opn @ format_version l @ '', '' @ format_version h @ cls)"

definition vs_display :: "version_set \<Rightarrow> string" where
  "vs_display s =
     (if intervals s = [] then ''(empty)''
      else join ('' '' @ union_sign @ '' '') (map display_interval (intervals s)))"

subsection \<open>What a constraint admits\<close>

lemma contains_tilde [member_simps]:
  "vs_contains (vs_tilde v) w \<longleftrightarrow> v \<le> w \<and> w < tilde_bound v"
  by (simp add: vs_tilde_def member_simps)

lemma contains_caret [member_simps]:
  "vs_contains (vs_caret v) w \<longleftrightarrow> v \<le> w \<and> w < caret_bound v"
  by (simp add: vs_caret_def member_simps)

lemma canon_apply_op [simp]: "vs_canon (apply_op op v)"
  by (simp add: apply_op_def vs_tilde_def vs_caret_def)

lemma canon_clause: "parse_clause c = Inr s \<Longrightarrow> vs_canon s"
proof -
  have "parse_clause_ops ops c = Inr s \<Longrightarrow> vs_canon s" for ops c
    by (induction ops) (auto split: option.splits)
  then show "parse_clause c = Inr s \<Longrightarrow> vs_canon s" by (simp add: parse_clause_def)
qed

lemma and_clauses_canon: "vs_canon acc \<Longrightarrow> and_clauses acc cs = Inr s \<Longrightarrow> vs_canon s"
  by (induction acc cs rule: and_clauses.induct) (auto split: sum.splits)

lemma or_arms_canon: "vs_canon acc \<Longrightarrow> or_arms acc arms = Inr s \<Longrightarrow> vs_canon s"
  by (induction acc arms rule: or_arms.induct) (auto split: sum.splits)

lemma and_clauses_contains:
  "and_clauses acc cs = Inr s \<Longrightarrow>
   vs_contains s v \<longleftrightarrow>
   vs_contains acc v \<and> (\<forall>c \<in> set cs. \<exists>t. parse_clause (trim c) = Inr t \<and> vs_contains t v)"
  by (induction acc cs rule: and_clauses.induct) (auto simp: member_simps split: sum.splits)

lemma or_arms_contains:
  "or_arms acc arms = Inr s \<Longrightarrow>
   vs_contains s v \<longleftrightarrow>
   vs_contains acc v \<or>
   (\<exists>arm \<in> set arms. \<forall>c \<in> set (split_on CHR ''&'' arm).
      \<exists>t. parse_clause (trim c) = Inr t \<and> vs_contains t v)"
  by (induction acc arms rule: or_arms.induct)
    (auto simp: member_simps and_clauses_contains split: sum.splits)

subsection \<open>The rendering reads back\<close>

definition wf_interval :: "interval \<Rightarrow> bool" where
  "wf_interval iv \<longleftrightarrow> (\<forall>v. lo iv = Some v \<longrightarrow> wf_version v) \<and> (\<forall>v. hi iv = Some v \<longrightarrow> wf_version v)"

lemma strip_eq_format: "strip_prefix ''='' (format_version v) = None"
  using format_hd [of v] by (cases "format_version v") (auto simp: is_digit_def)

lemma trim_op_format:
  assumes "wf_version v" "op \<noteq> []" "list_all plain op"
  shows "trim (op @ format_version v) = op @ format_version v"
  using assms format_hd [of v]
  by (intro trim_plain) (auto simp: list_all_iff hd_append intro: format_plain [THEN conjunct1])

lemma parse_clause_format:
  assumes "wf_version v"
  shows "parse_clause (''>='' @ format_version v) = Inr (vs_gte v)"
    "parse_clause (''>'' @ format_version v) = Inr (vs_gt v)"
    "parse_clause (''<='' @ format_version v) = Inr (vs_lte v)"
    "parse_clause (''<'' @ format_version v) = Inr (vs_lt v)"
  using trim_op_format [OF assms, of "''>=''"] trim_op_format [OF assms, of "''>''"]
    trim_op_format [OF assms, of "''<=''"] trim_op_format [OF assms, of "''<''"]
    strip_eq_format [of v] parse_format_wf [OF assms] format_trim [OF assms]
  by (simp_all add: parse_clause_def clause_ops_def plain_def apply_op_def)

text \<open>Padding with single spaces, as the separators \<open>" & "\<close> and \<open>" | "\<close> leave it.\<close>

lemma trim_pad:
  assumes "s \<noteq> []" "plain (hd s)" "plain (last s)"
  shows "trim s = s" "trim ('' '' @ s) = s" "trim (s @ '' '') = s" "trim ('' '' @ s @ '' '') = s"
proof -
  show "trim s = s" using assms by (rule trim_plain)
  then have e: "trim_end s = s" and b: "trim_start s = s" "trim_start (s @ '' '') = s @ '' ''"
    using assms by (cases s; auto simp: trim_def trim_start_plain)+
  show "trim ('' '' @ s) = s" "trim (s @ '' '') = s" "trim ('' '' @ s @ '' '') = s"
    using e b by (simp_all add: trim_def trim_end_space)
qed

text \<open>The set of one interval, and the intersections that build it from its two bounds.\<close>

abbreviation single :: "interval \<Rightarrow> version_set" where
  "single iv \<equiv> \<lparr>intervals = [iv]\<rparr>"

definition lower_set :: "version option \<Rightarrow> bool \<Rightarrow> version_set" where
  "lower_set l c =
     (case l of None \<Rightarrow> vs_full | Some v \<Rightarrow> single (interval_new (Some v) None c False))"

definition upper_set :: "version option \<Rightarrow> bool \<Rightarrow> version_set" where
  "upper_set h c =
     (case h of None \<Rightarrow> vs_full | Some v \<Rightarrow> single (interval_new None (Some v) True c))"

lemma normalize_single: "iv_ok iv \<Longrightarrow> normalize_intervals [iv] = [iv]"
  by (simp add: normalize_id canon_single)

lemma iv_ok_half [simp]:
  "iv_ok (interval_new (Some v) None c False)" "iv_ok (interval_new None (Some v) True c)"
  "iv_ok (interval_new None None True False)"
  by (simp_all add: iv_ok_def)

lemma full_intersect: "iv_ok iv \<Longrightarrow> vs_intersect vs_full (single iv) = single iv"
  by (cases iv; cases "lo iv"; cases "hi iv")
    (auto simp: vs_intersect_def vs_full_def intersect_pair_def iv_ok_def interval_new_def
      intro!: normalize_single)

lemma lower_upper_intersect:
  assumes "iv_ok iv"
  shows "vs_intersect (lower_set (lo iv) (lo_closed iv)) (upper_set (hi iv) (hi_closed iv)) = single iv"
  using assms
  by (cases iv; cases "lo iv"; cases "hi iv")
    (auto simp: vs_intersect_def lower_set_def upper_set_def vs_full_def intersect_pair_def
      iv_ok_def interval_new_def intro!: normalize_single)

lemma complement_eq_intervals:
  "vs_complement (vs_eq v) =
   \<lparr>intervals = [interval_new None (Some v) True False, interval_new (Some v) None False False]\<rparr>"
proof -
  have "canon [interval_new None (Some v) True False, interval_new (Some v) None False False]"
    by (simp add: canon_Cons canon_single intervals_connectable_def version_keys)
  then show ?thesis
    by (simp add: vs_complement_def vs_eq_def left_gap_def right_tail_def normalize_id)
qed

lemma vs_gt_single: "vs_gt v = single (interval_new (Some v) None False False)"
proof -
  have "intersect_pair (interval_new (Some v) None True False) (interval_new None (Some v) True False) = []"
    by (simp add: intersect_pair_def version_keys)
  moreover have "intersect_pair (interval_new (Some v) None True False)
      (interval_new (Some v) None False False) = [interval_new (Some v) None False False]"
    by (simp add: intersect_pair_def version_keys)
  ultimately show ?thesis
    by (simp add: vs_gt_def complement_eq_intervals vs_gte_def vs_intersect_def normalize_single)
qed

lemma vs_lte_single: "vs_lte v = single (interval_new None (Some v) True True)"
  by (simp add: vs_lte_def vs_lt_def vs_eq_def vs_union_def normalize_intervals_def lo_sort_key_def
      canonicalize_unbounded_def interval_new_def merge_step_def intervals_connectable_def version_keys)

text \<open>The two clause texts of an interval and what they parse to.\<close>

definition lower_text :: "version \<Rightarrow> bool \<Rightarrow> string" where
  "lower_text l c = (if c then ''>='' else ''>'') @ format_version l"

definition upper_text :: "version \<Rightarrow> bool \<Rightarrow> string" where
  "upper_text h c = (if c then ''<='' else ''<'') @ format_version h"

lemma parse_texts:
  "wf_version l \<Longrightarrow> parse_clause (lower_text l c) = Inr (lower_set (Some l) c)"
  "wf_version h \<Longrightarrow> parse_clause (upper_text h c) = Inr (upper_set (Some h) c)"
  using parse_clause_format
  by (auto simp: lower_text_def upper_text_def lower_set_def upper_set_def vs_gt_single
      vs_lte_single vs_gte_def vs_lt_def)

definition clause_text :: "string \<Rightarrow> bool" where
  "clause_text c \<longleftrightarrow> c \<noteq> [] \<and> plain (hd c) \<and> plain (last c) \<and> CHR ''&'' \<notin> set c \<and> CHR ''|'' \<notin> set c"

lemma clause_format: "wf_version v \<Longrightarrow> clause_text (format_version v)"
  using format_hd [of v] format_plain [of v]
  by (auto simp: clause_text_def dest!: last_in_set)

lemma clause_texts:
  "wf_version l \<Longrightarrow> clause_text (lower_text l c)" "wf_version h \<Longrightarrow> clause_text (upper_text h c)"
  using clause_format by (auto simp: clause_text_def lower_text_def upper_text_def plain_def)

definition pad :: "string \<Rightarrow> bool" where
  "pad p \<longleftrightarrow> p = [] \<or> p = '' ''"

lemma trim_padded: "clause_text c \<Longrightarrow> pad p \<Longrightarrow> pad q \<Longrightarrow> trim (p @ c @ q) = c"
  using trim_pad [of c] by (auto simp: clause_text_def pad_def)

lemma split_padded_one:
  "clause_text c \<Longrightarrow> pad p \<Longrightarrow> pad q \<Longrightarrow> split_on CHR ''&'' (p @ c @ q) = [p @ c @ q]"
  by (rule split_on_no_sep) (auto simp: clause_text_def pad_def)

lemma split_padded_two:
  assumes "clause_text c" "clause_text d" "pad p" "pad q"
  shows "split_on CHR ''&'' (p @ (c @ '' & '' @ d) @ q) = [p @ c @ '' '', '' '' @ d @ q]"
proof -
  have "split_on CHR ''&'' ((p @ c @ '' '') @ CHR ''&'' # ('' '' @ d @ q)) =
      (p @ c @ '' '') # split_on CHR ''&'' ('' '' @ d @ q)"
    using assms by (intro split_on_sep) (auto simp: clause_text_def pad_def)
  also have "split_on CHR ''&'' ('' '' @ d @ q) = ['' '' @ d @ q]"
    using assms by (intro split_padded_one) (auto simp: pad_def)
  finally show ?thesis by simp
qed

lemma pad_simps [simp]: "pad []" "pad '' ''"
  by (simp_all add: pad_def)

lemma lower_full: "vs_intersect vs_full (lower_set (Some l) c) = lower_set (Some l) c"
  by (simp add: lower_set_def full_intersect)

lemma two_clauses_parse:
  assumes "wf_version l" "wf_version h" "pad p" "pad q"
  shows "and_clauses vs_full
      (split_on CHR ''&'' (p @ (lower_text l c @ '' & '' @ upper_text h d) @ q)) =
    Inr (vs_intersect (lower_set (Some l) c) (upper_set (Some h) d))"
  using assms split_padded_two [of "lower_text l c" "upper_text h d" p q]
    trim_padded [of "lower_text l c" p "'' ''"] trim_padded [of "upper_text h d" "'' ''" q]
  by (simp add: parse_texts lower_full clause_texts)

definition arm_text :: "interval \<Rightarrow> string" where
  "arm_text iv = join '' & '' (interval_clauses iv)"

lemma arm_parses:
  assumes "iv_ok iv" "wf_interval iv" "\<not> (lo iv = None \<and> hi iv = None)" "pad p" "pad q"
  shows "and_clauses vs_full (split_on CHR ''&'' (p @ arm_text iv @ q)) = Inr (single iv)"
proof -
  note whole = lower_upper_intersect [OF assms(1)]
  show ?thesis
  proof (cases "lo iv")
    case None
    with assms(3) obtain h where h: "hi iv = Some h" by auto
    with assms(2) have "wf_version h" by (simp add: wf_interval_def)
    moreover from None h have "arm_text iv = upper_text h (hi_closed iv)"
      by (simp add: arm_text_def interval_clauses_def upper_text_def)
    ultimately show ?thesis
      using assms(4,5) whole None h
      by (simp add: split_padded_one clause_texts trim_padded parse_texts lower_set_def)
  next
    case (Some l)
    with assms(2) have l: "wf_version l" by (simp add: wf_interval_def)
    show ?thesis
    proof (cases "hi iv")
      case None
      with Some have "arm_text iv = lower_text l (lo_closed iv)"
        by (simp add: arm_text_def interval_clauses_def lower_text_def)
      moreover have "lower_set (Some l) (lo_closed iv) = single iv"
        using Some None assms(1) by (cases iv) (auto simp: lower_set_def interval_new_def iv_ok_def)
      ultimately show ?thesis
        using assms(4,5) l lower_full [of l "lo_closed iv"]
        by (simp add: split_padded_one clause_texts trim_padded parse_texts)
    next
      case hi: (Some h)
      with assms(2) have h: "wf_version h" by (simp add: wf_interval_def)
      have "arm_text iv = lower_text l (lo_closed iv) @ '' & '' @ upper_text h (hi_closed iv)"
        using Some hi by (simp add: arm_text_def interval_clauses_def lower_text_def upper_text_def)
      with two_clauses_parse [OF l h assms(4,5)] show ?thesis
        using whole Some hi by simp
    qed
  qed
qed

lemma split_or_no_pipe: "CHR ''|'' \<notin> set a \<Longrightarrow> split_or a = [a]"
  by (induction a) auto

lemma split_or_pipe:
  "CHR ''|'' \<notin> set a \<Longrightarrow> split_or (a @ '' | '' @ s) = (a @ '' '') # split_or ('' '' @ s)"
  by (induction a) (auto split: list.splits)

lemma arm_text_pipe: "wf_interval iv \<Longrightarrow> CHR ''|'' \<notin> set (arm_text iv)"
  by (cases "lo iv"; cases "hi iv")
    (auto simp: arm_text_def interval_clauses_def wf_interval_def clause_text_def
      dest!: clause_format)

lemma canon_append: "canon (xs @ ys) \<Longrightarrow> canon xs" "canon (xs @ ys) \<Longrightarrow> list_all iv_ok ys"
  by (auto simp: canon_def successively_append_iff)

lemma arms_parse:
  assumes "canon (acc @ ivs)" "list_all wf_interval ivs" "ivs \<noteq> []"
    "list_all (\<lambda>iv. \<not> (lo iv = None \<and> hi iv = None)) ivs" "pad p"
  shows "or_arms \<lparr>intervals = acc\<rparr> (split_or (p @ join '' | '' (map arm_text ivs))) =
    Inr \<lparr>intervals = acc @ ivs\<rparr>"
  using assms
proof (induction ivs arbitrary: acc p)
  case (Cons iv ivs)
  have ok: "iv_ok iv" using canon_append(2) [OF Cons.prems(1)] by simp
  have "canon (acc @ [iv])" using Cons.prems(1) canon_append(1) [of "acc @ [iv]" ivs] by simp
  then have un: "vs_union \<lparr>intervals = acc\<rparr> (single iv) = \<lparr>intervals = acc @ [iv]\<rparr>"
    by (simp add: vs_union_def normalize_id)
  have arm: "and_clauses vs_full (split_on CHR ''&'' (p @ arm_text iv @ q)) = Inr (single iv)"
    if "pad q" for q
    using Cons.prems ok that by (intro arm_parses) auto
  have nopipe: "CHR ''|'' \<notin> set (p @ arm_text iv)"
    using Cons.prems(2,5) arm_text_pipe [of iv] by (auto simp: pad_def)
  show ?case
  proof (cases ivs)
    case Nil
    with arm [of "[]"] un nopipe show ?thesis by (simp add: split_or_no_pipe)
  next
    case (Cons iv' rest)
    have "p @ join '' | '' (map arm_text (iv # ivs)) =
        (p @ arm_text iv) @ '' | '' @ join '' | '' (map arm_text ivs)"
      using Cons by simp
    then have "split_or (p @ join '' | '' (map arm_text (iv # ivs))) =
        (p @ arm_text iv @ '' '') # split_or ('' '' @ join '' | '' (map arm_text ivs))"
      using split_or_pipe [OF nopipe] by simp
    with arm [of "'' ''"] un
    have "or_arms \<lparr>intervals = acc\<rparr> (split_or (p @ join '' | '' (map arm_text (iv # ivs)))) =
        or_arms \<lparr>intervals = acc @ [iv]\<rparr> (split_or ('' '' @ join '' | '' (map arm_text ivs)))"
      by simp
    also have "\<dots> = Inr \<lparr>intervals = (acc @ [iv]) @ ivs\<rparr>"
      using Cons.prems Cons by (intro Cons.IH) simp_all
    finally show ?thesis by simp
  qed
qed simp

text \<open>A canonical set with an interval without ends is the full set.\<close>

lemma unbounded_is_full:
  assumes "canon ivs" "iv \<in> set ivs" "lo iv = None" "hi iv = None"
  shows "ivs = intervals vs_full"
proof -
  obtain xs ys where split: "ivs = xs @ iv # ys" using assms(2) by (meson split_list)
  have "ys = []"
  proof (cases ys)
    case (Cons y ys')
    with assms(1) split have "\<not> intervals_connectable iv y"
      by (simp add: canon_def successively_append_iff)
    with assms(4) show ?thesis by (simp add: intervals_connectable_def)
  qed simp
  moreover have "xs = []"
  proof (cases xs rule: rev_cases)
    case (snoc xs' x)
    with assms(1) split have "\<not> intervals_connectable x iv"
      by (auto simp: canon_def successively_append_iff)
    with assms(3) show ?thesis by (simp add: intervals_connectable_def split: option.splits)
  qed simp
  ultimately show ?thesis
    using assms split
    by (cases iv) (auto simp: canon_single iv_ok_def vs_full_def interval_new_def)
qed

lemma constraint_arms_map:
  "constraint_arms ivs =
     (if list_all (\<lambda>iv. \<not> (lo iv = None \<and> hi iv = None)) ivs then Some (map arm_text ivs) else None)"
  by (induction ivs) (auto simp: arm_text_def)

lemma arms_text_edges:
  assumes "list_all wf_interval ivs" "ivs \<noteq> []"
    "list_all (\<lambda>iv. \<not> (lo iv = None \<and> hi iv = None)) ivs"
  shows "trim (join '' | '' (map arm_text ivs)) = join '' | '' (map arm_text ivs) \<and>
    join '' | '' (map arm_text ivs) \<noteq> [] \<and>
    hd (join '' | '' (map arm_text ivs)) \<in> {CHR ''<'', CHR ''>''}"
proof -
  have one: "arm_text iv \<noteq> [] \<and> plain (last (arm_text iv)) \<and> hd (arm_text iv) \<in> {CHR ''<'', CHR ''>''}"
    if "wf_interval iv" "\<not> (lo iv = None \<and> hi iv = None)" for iv
    using that clause_texts
    by (cases "lo iv"; cases "hi iv")
      (auto simp: arm_text_def interval_clauses_def wf_interval_def clause_text_def dest!: clause_format)
  have edges: "join '' | '' (map arm_text ivs) \<noteq> [] \<and> plain (last (join '' | '' (map arm_text ivs))) \<and>
      hd (join '' | '' (map arm_text ivs)) \<in> {CHR ''<'', CHR ''>''}"
    using assms
  proof (induction ivs)
    case (Cons iv ivs)
    then have iv: "arm_text iv \<noteq> [] \<and> plain (last (arm_text iv)) \<and>
        hd (arm_text iv) \<in> {CHR ''<'', CHR ''>''}" using one by simp
    show ?case
    proof (cases ivs)
      case Nil
      with iv show ?thesis by simp
    next
      case (Cons iv' rest)
      with Cons.IH Cons.prems iv show ?thesis by simp
    qed
  qed simp
  then have "plain (hd (join '' | '' (map arm_text ivs)))" by (auto simp: plain_def)
  with edges show ?thesis using trim_plain by blast
qed

definition wf_set :: "version_set \<Rightarrow> bool" where
  "wf_set s \<longleftrightarrow> vs_canon s \<and> list_all wf_interval (intervals s)"

lemma str_roundtrip_arms:
  assumes "wf_set s" "intervals s \<noteq> []"
    "list_all (\<lambda>iv. \<not> (lo iv = None \<and> hi iv = None)) (intervals s)"
  shows "from_constraint (Some (vs_to_constraint_str s)) = Inr s"
proof -
  have wf: "list_all wf_interval (intervals s)" and c: "canon (intervals s)"
    using assms(1) by (auto simp: wf_set_def vs_canon_def)
  define t where "t = join '' | '' (map arm_text (intervals s))"
  have str: "vs_to_constraint_str s = t"
    using assms by (simp add: t_def vs_to_constraint_str_def vs_is_empty_def constraint_arms_map)
  have edges: "trim t = t" "t \<noteq> []" "hd t \<in> {CHR ''<'', CHR ''>''}"
    using arms_text_edges [OF wf assms(2,3)] by (simp_all add: t_def)
  then have "t \<noteq> ''any version''" by auto
  moreover have "or_arms \<lparr>intervals = []\<rparr> (split_or ([] @ t)) = Inr \<lparr>intervals = [] @ intervals s\<rparr>"
    unfolding t_def using c wf assms by (intro arms_parse) simp_all
  ultimately show ?thesis
    using edges by (simp add: str from_constraint_def vs_empty_def)
qed

lemma digit_chars: "dec_of_word (0 :: u64) = ''0''" "dec_of_word (1 :: u64) = ''1''"
  by (simp_all add: dec_of_word_def dec_of_nat.simps digit_char_def char_of_def bit_0)

lemma format_zero: "format_version (release 0 0 0) = ''0.0.0''"
  by (simp add: format_version_def release_def digit_chars)

lemma empty_text_parses: "from_constraint (Some ''>0.0.0 & <0.0.0'') = Inr vs_empty"
proof -
  let ?z = "release 0 0 0"
  have wf: "wf_version ?z" by (simp add: wf_version_def release_def)
  have t: "''>0.0.0 & <0.0.0'' = lower_text ?z False @ '' & '' @ upper_text ?z False"
    by (simp add: lower_text_def upper_text_def format_zero)
  have "and_clauses vs_full (split_on CHR ''&'' ''>0.0.0 & <0.0.0'') =
      Inr (vs_intersect (lower_set (Some ?z) False) (upper_set (Some ?z) False))"
    unfolding t using two_clauses_parse [OF wf wf pad_simps(1) pad_simps(1)] by simp
  moreover have "vs_intersect (lower_set (Some ?z) False) (upper_set (Some ?z) False) = vs_empty"
    by (simp add: lower_set_def upper_set_def vs_intersect_def intersect_pair_def version_keys
        vs_empty_def normalize_intervals_def)
  moreover have "vs_union vs_empty vs_empty = vs_empty"
    by (simp add: vs_union_def vs_empty_def normalize_intervals_def)
  moreover have "trim ''>0.0.0 & <0.0.0'' = ''>0.0.0 & <0.0.0''"
    by (rule trim_plain) (simp_all add: plain_def)
  moreover have "split_or ''>0.0.0 & <0.0.0'' = [''>0.0.0 & <0.0.0'']"
    by (rule split_or_no_pipe) simp
  ultimately show ?thesis by (simp add: from_constraint_def Let_def)
qed

lemma any_text_parses: "from_constraint (Some ''any version'') = Inr vs_full"
proof -
  have "trim ''any version'' = ''any version''" by (rule trim_plain) (simp_all add: plain_def)
  then show ?thesis by (simp add: from_constraint_def)
qed

lemma str_roundtrip:
  assumes "wf_set s"
  shows "from_constraint (Some (vs_to_constraint_str s)) = Inr s"
proof (cases "intervals s = []")
  case True
  then show ?thesis
    using empty_text_parses
    by (cases s) (simp add: vs_to_constraint_str_def vs_is_empty_def vs_empty_def)
next
  case False
  show ?thesis
  proof (cases "list_all (\<lambda>iv. \<not> (lo iv = None \<and> hi iv = None)) (intervals s)")
    case all: False
    then have "intervals s = intervals vs_full"
      using assms unbounded_is_full [of "intervals s"]
      by (auto simp: wf_set_def vs_canon_def list_all_iff)
    then have "s = vs_full" by (cases s) (simp add: vs_full_def)
    moreover have "vs_to_constraint_str s = ''any version''"
      using False all by (simp add: vs_to_constraint_str_def vs_is_empty_def constraint_arms_map)
    ultimately show ?thesis using any_text_parses by simp
  qed (use assms False str_roundtrip_arms in blast)
qed

subsection \<open>Every parsed set renders losslessly\<close>

text \<open>The ends of the results of the algebra are among the ends of its arguments.\<close>

abbreviation wf_ends :: "interval list \<Rightarrow> bool" where
  "wf_ends ivs \<equiv> list_all wf_interval ivs"

lemma merge_step_ends: "wf_ends m \<Longrightarrow> wf_interval iv \<Longrightarrow> wf_ends (merge_step m iv)"
proof -
  assume m: "wf_ends m" and iv: "wf_interval iv"
  have hull: "wf_interval (hull a iv)" if "wf_interval a" for a
    using that iv
    by (cases "(hi a, hi_closed a, hi iv, hi_closed iv)" rule: max_bound.cases)
      (auto simp: hull_def wf_interval_def split: if_splits)
  show ?thesis
    using m iv hull
    by (cases m rule: rev_cases) (auto simp: merge_step_hull)
qed

lemma normalize_ends: "wf_ends ivs \<Longrightarrow> wf_ends (normalize_intervals ivs)"
proof -
  have step: "wf_ends m \<Longrightarrow> wf_ends xs \<Longrightarrow> wf_ends (foldl merge_step m xs)" for m xs
    by (induction xs arbitrary: m) (auto intro: merge_step_ends)
  assume "wf_ends ivs"
  then have "wf_ends (sort_key lo_sort_key (map canonicalize_unbounded ivs))"
    by (auto simp: list_all_iff wf_interval_def canonicalize_unbounded_def)
  then show ?thesis using step [of "[]"] by (simp add: normalize_intervals_def)
qed

lemma bound_choice:
  "fst (max_lo_with_closed a ac b bc) = a \<or> fst (max_lo_with_closed a ac b bc) = b"
  "fst (min_hi_with_closed a ac b bc) = a \<or> fst (min_hi_with_closed a ac b bc) = b"
  by (cases a; cases b; simp)+

lemma intersect_pair_ends: "wf_interval a \<Longrightarrow> wf_interval b \<Longrightarrow> wf_ends (intersect_pair a b)"
  using bound_choice [of "lo a" "lo_closed a" "lo b" "lo_closed b"]
    bound_choice [of "hi a" "hi_closed a" "hi b" "hi_closed b"]
  by (auto simp: intersect_pair_def wf_interval_def split: prod.splits)

lemma wf_intersect: "wf_set s \<Longrightarrow> wf_set t \<Longrightarrow> wf_set (vs_intersect s t)"
proof -
  assume "wf_set s" "wf_set t"
  then have "wf_ends (intersect_pair a b)" if "a \<in> set (intervals s)" "b \<in> set (intervals t)" for a b
    using that intersect_pair_ends [of a b] by (auto simp: wf_set_def list_all_iff)
  then have "wf_ends (concat (map (\<lambda>a. concat (map (intersect_pair a) (intervals t))) (intervals s)))"
    by (simp add: list_all_iff)
  then have "wf_ends (intervals (vs_intersect s t))"
    by (simp add: vs_intersect_def normalize_ends)
  then show ?thesis by (simp add: wf_set_def)
qed

lemma wf_union: "wf_set s \<Longrightarrow> wf_set t \<Longrightarrow> wf_set (vs_union s t)"
  using canon_ops(7) [of s t] by (simp add: wf_set_def vs_union_def normalize_ends)

lemma wf_const [simp]: "wf_set vs_full" "wf_set vs_empty"
  by (simp_all add: wf_set_def vs_full_def vs_empty_def wf_interval_def vs_canon_def canon_single)

lemma wf_bounds:
  assumes "wf_version v"
  shows "wf_set (vs_gte v)" "wf_set (vs_gt v)" "wf_set (vs_lte v)" "wf_set (vs_lt v)" "wf_set (vs_eq v)"
    "wf_set (vs_complement (vs_eq v))"
proof -
  show "wf_set (vs_gt v)" "wf_set (vs_lte v)"
    using assms by (simp_all add: vs_gt_single vs_lte_single wf_set_def wf_interval_def
        vs_canon_def canon_single iv_ok_def)
  show "wf_set (vs_gte v)" "wf_set (vs_lt v)" "wf_set (vs_eq v)"
    using assms canon_ops(3,4,5) [of v]
    by (simp_all add: wf_set_def vs_gte_def vs_lt_def vs_eq_def wf_interval_def)
  have "vs_canon (vs_complement (vs_eq v))" by simp
  then show "wf_set (vs_complement (vs_eq v))"
    using assms by (simp add: wf_set_def complement_eq_intervals wf_interval_def)
qed

lemma wf_release [simp]: "wf_version (release a b c)"
  by (simp add: wf_version_def release_def)

lemma wf_apply_op: "wf_version v \<Longrightarrow> wf_set (apply_op op v)"
  by (simp add: apply_op_def wf_bounds wf_intersect vs_tilde_def vs_caret_def tilde_bound_def
      caret_bound_def)

lemma wf_clause: "parse_clause c = Inr s \<Longrightarrow> wf_set s"
proof -
  have "parse_clause_ops ops c = Inr s \<Longrightarrow> wf_set s" for ops c
    by (induction ops) (auto split: option.splits intro: wf_apply_op parse_version_wf)
  then show "parse_clause c = Inr s \<Longrightarrow> wf_set s" by (simp add: parse_clause_def)
qed

lemma wf_and: "wf_set acc \<Longrightarrow> and_clauses acc cs = Inr s \<Longrightarrow> wf_set s"
  by (induction acc cs rule: and_clauses.induct) (auto split: sum.splits intro: wf_intersect wf_clause)

lemma wf_or: "wf_set acc \<Longrightarrow> or_arms acc arms = Inr s \<Longrightarrow> wf_set s"
  by (induction acc arms rule: or_arms.induct)
    (auto split: sum.splits intro: wf_union wf_and [OF wf_const(1)])

lemma wf_from_constraint: "from_constraint c = Inr s \<Longrightarrow> wf_set s"
  by (auto simp: from_constraint_def Let_def split: option.splits if_splits
      intro: wf_or [OF wf_const(2)])

subsection \<open>Properties\<close>

text \<open>
  What a parsed constraint admits.  When \<^verbatim>\<open>from_constraint\<close> accepts a text other than the two
  spellings of the full set, the result is canonical, and a version is in it exactly when some
  arm of the disjunction has only clauses that parse and contain it.
\<close>

theorem from_constraint_contains:
  assumes "from_constraint (Some raw) = Inr s" "trim raw \<noteq> []" "trim raw \<noteq> ''any version''"
  shows "vs_canon s \<and>
    (vs_contains s v \<longleftrightarrow>
     (\<exists>arm \<in> set (split_or (trim raw)). \<forall>c \<in> set (split_on CHR ''&'' arm).
        \<exists>t. parse_clause (trim c) = Inr t \<and> vs_contains t v))"
proof -
  from assms have "or_arms vs_empty (split_or (trim raw)) = Inr s"
    by (simp add: from_constraint_def Let_def)
  then show ?thesis
    using or_arms_contains [of vs_empty "split_or (trim raw)" s v]
      or_arms_canon [of vs_empty "split_or (trim raw)" s]
    by (simp add: member_simps)
qed

theorem from_constraint_contains_witness:
  "\<exists>s. from_constraint (Some ''>=1.0.0'') = Inr s \<and> vs_contains s (rel 2)"
proof -
  have fmt: "''>=1.0.0'' = ''>='' @ format_version (rel 1)"
    by (simp add: format_version_def release_def digit_chars)
  then have clause: "parse_clause ''>=1.0.0'' = Inr (vs_gte (rel 1))"
    using parse_clause_format(1) [OF wf_release] by metis
  have t: "trim ''>=1.0.0'' = ''>=1.0.0''" by (rule trim_plain) (simp_all add: plain_def)
  have arm: "split_or ''>=1.0.0'' = [''>=1.0.0'']" "split_on CHR ''&'' ''>=1.0.0'' = [''>=1.0.0'']"
    by simp_all
  obtain s where s: "from_constraint (Some ''>=1.0.0'') = Inr s"
    by (simp add: from_constraint_def Let_def t arm clause)
  with from_constraint_contains [OF s, of "rel 2"] have "vs_contains s (rel 2)"
    by (simp add: t arm clause member_simps version_keys precedence_key_def release_def)
  with s show ?thesis by blast
qed

text \<open>
  The certificate rendering is lossless: the constraint text of a canonical set over
  parseable versions is read back by \<^verbatim>\<open>from_constraint\<close> as that very set, the empty and the full
  set included; and every set \<^verbatim>\<open>from_constraint\<close> itself returns is such a set.
\<close>

theorem constraint_str_roundtrip:
  "(wf_set s \<longrightarrow> from_constraint (Some (vs_to_constraint_str s)) = Inr s) \<and>
   (from_constraint c = Inr t \<longrightarrow> from_constraint (Some (vs_to_constraint_str t)) = Inr t)"
  using str_roundtrip wf_from_constraint by blast

theorem constraint_str_roundtrip_witness:
  "from_constraint (Some (vs_to_constraint_str (vs_union (vs_lt (rel 1)) (vs_gt (rel 2))))) =
   Inr (vs_union (vs_lt (rel 1)) (vs_gt (rel 2)))"
  using constraint_str_roundtrip [of "vs_union (vs_lt (rel 1)) (vs_gt (rel 2))"]
  by (simp add: wf_union wf_bounds)

text \<open>
  Tilde and caret: the range runs from the version to the next incompatible release, and
  contains the version itself whenever the component it bumps is below the largest \<^verbatim>\<open>u64\<close>.
\<close>

theorem tilde_caret_ranges:
  "(vs_contains (vs_tilde v) w \<longleftrightarrow> v \<le> w \<and> w < tilde_bound v) \<and>
   (vs_contains (vs_caret v) w \<longleftrightarrow> v \<le> w \<and> w < caret_bound v) \<and>
   (major v \<noteq> - 1 \<and> minor v \<noteq> - 1 \<and> patch v \<noteq> - 1 \<longrightarrow>
    vs_contains (vs_tilde v) v \<and> vs_contains (vs_caret v) v)"
proof -
  have up: "x < x + 1" if "x \<noteq> - 1" for x :: u64
    using that by (meson inc_less_eq_triv_imp not_le)
  show ?thesis
    using up
    by (auto simp: member_simps version_keys tilde_bound_def caret_bound_def release_def
        precedence_key_def word_gt_0)
qed

theorem tilde_caret_ranges_witness:
  "vs_contains (vs_caret (release 1 2 3)) (release 1 2 3)"
  using tilde_caret_ranges [of "release 1 2 3" "release 1 2 3", THEN conjunct2, THEN conjunct2]
  by (simp add: release_def)

text \<open>
  The upper bound of a caret range wraps: at the largest major number the bound is 0.0.0
  and the range admits no version, not even the one it names.
\<close>

theorem caret_wraps:
  "\<not> vs_contains (vs_caret (release (- 1) 0 0)) w"
proof -
  have "caret_bound (release (- 1) 0 0) = release 0 0 0"
    by (simp add: caret_bound_def release_def word_gt_0)
  then show ?thesis
    by (auto simp: member_simps version_keys release_def precedence_key_def)
qed

end
