(* ===== verification/Solver.thy ===== *)
theory Solver
  imports Constraint OrdMap
begin

text \<open>
  The solver seam of \<^verbatim>\<open>milpa-solver/src/lib.rs\<close>: the strategies, the provider queries, the adapter
  that answers PubGrub's callbacks (\<^verbatim>\<open>ProviderAdapter\<close>: decision priority, version choice,
  dependency lists and the record of who constraint_on whom), \<^verbatim>\<open>pick_version\<close>, the refutation
  extracted from a derivation tree, and \<^verbatim>\<open>solve\<close>.  PubGrub's own search is a parameter: its
  result is an argument of \<open>solve\<close>.
\<close>

subsection \<open>Strategies and version sources\<close>

datatype strategy = Maxver | Minver | Semver | LowestDirect

fun strategy_as_str :: "strategy \<Rightarrow> string" where
  "strategy_as_str Maxver = ''maxver''"
| "strategy_as_str Minver = ''minver''"
| "strategy_as_str Semver = ''semver''"
| "strategy_as_str LowestDirect = ''lowest-direct''"

definition strategy_parse :: "string \<Rightarrow> strategy option" where
  "strategy_parse s =
     (if s = ''maxver'' then Some Maxver
      else if s = ''minver'' then Some Minver
      else if s = ''semver'' then Some Semver
      else if s = ''lowest-direct'' then Some LowestDirect
      else None)"

datatype eff_strategy = EMaxver | EMinver | ESemver

fun effective_strategy :: "strategy \<Rightarrow> bool \<Rightarrow> eff_strategy" where
  "effective_strategy Maxver d = EMaxver"
| "effective_strategy Minver d = EMinver"
| "effective_strategy Semver d = ESemver"
| "effective_strategy LowestDirect d = (if d then EMinver else EMaxver)"

datatype version_source = Manifest | Nimble | Tag | Annotation

fun version_source_as_str :: "version_source \<Rightarrow> string" where
  "version_source_as_str Manifest = ''manifest''"
| "version_source_as_str Nimble = ''nimble''"
| "version_source_as_str Tag = ''tag''"
| "version_source_as_str Annotation = ''annotation''"

definition version_source_parse :: "string \<Rightarrow> version_source option" where
  "version_source_parse s =
     (if s = ''manifest'' then Some Manifest
      else if s = ''nimble'' then Some Nimble
      else if s = ''tag'' then Some Tag
      else if s = ''annotation'' then Some Annotation
      else None)"

subsection \<open>Provider, adapter and errors\<close>

record dep =
  dep_package :: string
  dep_constraint :: version_set

record package_provider =
  prov_versions :: "string \<Rightarrow> version list"
  prov_dependencies :: "string \<Rightarrow> version \<Rightarrow> dep list"
  prov_version_unknown :: "string \<Rightarrow> bool"
  prov_preference :: "string \<Rightarrow> version option"
  prov_root_direct :: "string \<Rightarrow> bool"
  prov_declaration_order :: "string \<Rightarrow> u64"

text \<open>
  The error of the callback seam and the error of \<^verbatim>\<open>solve\<close>; the constrainers are pairs of consumer
  and constraint text.
\<close>

datatype provider_error = PVersionUnknownConstrained string "(string \<times> string) list"

datatype solver_error =
    Conflict string
  | VersionUnknownConstrained string "(string \<times> string) list"

fun solver_error_code :: "solver_error \<Rightarrow> string" where
  "solver_error_code (Conflict p) = ''SOLVE-CONFLICT''"
| "solver_error_code (VersionUnknownConstrained p cs) = ''RES-VERSION-UNKNOWN-CONSTRAINED''"

text \<open>
  The two interior maps of \<^verbatim>\<open>ProviderAdapter\<close>: target to consumer to constraint text, and consumer
  to the targets it constrained on its latest call.
\<close>

record adapter =
  constrainers :: "(string \<times> (string \<times> string) list) list"
  consumer_targets :: "(string \<times> string list) list"

definition adapter_new :: adapter where
  "adapter_new = \<lparr>constrainers = [], consumer_targets = []\<rparr>"

subsection \<open>Decision priority\<close>

text \<open>\<^verbatim>\<open>std::cmp::Reverse\<close>.\<close>

datatype 'a reverse = Reverse 'a

instantiation reverse :: (linorder) linorder
begin

fun less_eq_reverse :: "'a reverse \<Rightarrow> 'a reverse \<Rightarrow> bool" where
  "less_eq_reverse (Reverse x) (Reverse y) \<longleftrightarrow> y \<le> x"

fun less_reverse :: "'a reverse \<Rightarrow> 'a reverse \<Rightarrow> bool" where
  "less_reverse (Reverse x) (Reverse y) \<longleftrightarrow> y < x"

instance
proof
  fix x y z :: "'a reverse"
  show "(x < y) = (x \<le> y \<and> \<not> y \<le> x)" by (cases x; cases y) auto
  show "x \<le> x" by (cases x) auto
  show "x \<le> y \<Longrightarrow> y \<le> z \<Longrightarrow> x \<le> z" by (cases x; cases y; cases z) auto
  show "x \<le> y \<Longrightarrow> y \<le> x \<Longrightarrow> x = y" by (cases x; cases y) auto
  show "x \<le> y \<or> y \<le> x" by (cases x; cases y) auto
qed

end

definition prioritize :: "package_provider \<Rightarrow> string \<Rightarrow> bool \<times> u64 reverse \<times> string reverse" where
  "prioritize p package =
     (\<not> prov_version_unknown p package, Reverse (prov_declaration_order p package), Reverse package)"

subsection \<open>Picking a version\<close>

text \<open>\<^verbatim>\<open>Iterator::max\<close> keeps the last of equal maxima, \<^verbatim>\<open>Iterator::min\<close> the first of equal minima.\<close>

fun max_version :: "version list \<Rightarrow> version option" where
  "max_version [] = None"
| "max_version (v # vs) = Some (foldl (\<lambda>best x. if x < best then best else x) v vs)"

fun min_version :: "version list \<Rightarrow> version option" where
  "min_version [] = None"
| "min_version (v # vs) = Some (foldl (\<lambda>best x. if x < best then x else best) v vs)"

definition pick_semver :: "version list \<Rightarrow> version_set \<Rightarrow> version option" where
  "pick_semver candidates rng =
     (case vs_lower_bound rng of
        None \<Rightarrow> max_version candidates
      | Some lb \<Rightarrow> max_version (filter (\<lambda>v. major v = major lb) candidates))"

definition pick_strategy ::
  "version list \<Rightarrow> version_set \<Rightarrow> eff_strategy \<Rightarrow> version option" where
  "pick_strategy candidates rng strategy =
     (case strategy of
        EMaxver \<Rightarrow> max_version candidates
      | EMinver \<Rightarrow> min_version candidates
      | ESemver \<Rightarrow> pick_semver candidates rng)"

definition pick_version ::
  "version list \<Rightarrow> version_set \<Rightarrow> eff_strategy \<Rightarrow> version option \<Rightarrow> version option" where
  "pick_version candidates rng strategy pref =
     (if candidates = [] then None
      else case pref of
        Some p \<Rightarrow> if list_ex (\<lambda>c. veq c p) candidates then Some p
                  else pick_strategy candidates rng strategy
      | None \<Rightarrow> pick_strategy candidates rng strategy)"

definition choose_version ::
  "package_provider \<Rightarrow> strategy \<Rightarrow> adapter \<Rightarrow> string \<Rightarrow> version_set \<Rightarrow>
   provider_error + version option" where
  "choose_version p strategy a package rng =
     (if prov_version_unknown p package \<and> \<not> vs_is_full rng
      then Inl (PVersionUnknownConstrained package (bt_get_or [] (constrainers a) package))
      else let candidates = filter (vs_contains rng) (prov_versions p package)
        in Inr (pick_version candidates rng
             (effective_strategy strategy (prov_root_direct p package)) (prov_preference p package)))"

subsection \<open>Dependency lists and the record of constrainers\<close>

definition merge_dep :: "(string \<times> version_set) list \<Rightarrow> dep \<Rightarrow> (string \<times> version_set) list" where
  "merge_dep merged d =
     bt_insert (dep_package d)
       (case bt_get merged (dep_package d) of
          Some vs \<Rightarrow> vs_intersect vs (dep_constraint d)
        | None \<Rightarrow> dep_constraint d) merged"

definition merged_deps :: "package_provider \<Rightarrow> string \<Rightarrow> version \<Rightarrow> (string \<times> version_set) list" where
  "merged_deps p package v = foldl merge_dep [] (prov_dependencies p package v)"

text \<open>Removing a consumer from the entry of one target it named on its previous call.\<close>

definition clear_target ::
  "string \<Rightarrow> string \<Rightarrow> (string \<times> (string \<times> string) list) list \<Rightarrow>
   (string \<times> (string \<times> string) list) list" where
  "clear_target consumer target cs =
     (case bt_get cs target of
        Some m \<Rightarrow> bt_insert target (bt_remove consumer m) cs
      | None \<Rightarrow> cs)"

definition clear_consumer :: "string \<Rightarrow> adapter \<Rightarrow> adapter" where
  "clear_consumer consumer a =
     (case bt_get (consumer_targets a) consumer of
        None \<Rightarrow> a
      | Some prev \<Rightarrow>
          \<lparr>constrainers = fold (clear_target consumer) prev (constrainers a),
           consumer_targets = bt_remove consumer (consumer_targets a)\<rparr>)"

definition record_target ::
  "string \<Rightarrow> string \<times> version_set \<Rightarrow> (string \<times> (string \<times> string) list) list \<times> string list \<Rightarrow>
   (string \<times> (string \<times> string) list) list \<times> string list" where
  "record_target consumer e acc =
     (case (e, acc) of ((target, vs), (cs, current)) \<Rightarrow>
        if vs_is_full vs then (cs, current)
        else (bt_insert target
                (bt_insert consumer (vs_to_constraint_str vs) (bt_get_or [] cs target)) cs,
              current @ [target]))"

definition record_consumer :: "string \<Rightarrow> (string \<times> version_set) list \<Rightarrow> adapter \<Rightarrow> adapter" where
  "record_consumer consumer merged a =
     (let (cs, current) = fold (record_target consumer) merged (constrainers a, [])
      in \<lparr>constrainers = cs,
          consumer_targets =
            (if current = [] then consumer_targets a
             else bt_insert consumer current (consumer_targets a))\<rparr>)"

definition get_dependencies ::
  "package_provider \<Rightarrow> adapter \<Rightarrow> string \<Rightarrow> version \<Rightarrow> adapter \<times> (string \<times> version_set) list" where
  "get_dependencies p a package v =
     (let merged = merged_deps p package v
      in (record_consumer package merged (clear_consumer package a), merged))"

subsection \<open>Facts on the pick\<close>

lemma fold_max:
  "foldl (\<lambda>best x. if x < best then best else x) v vs \<in> set (v # vs) \<and>
   (\<forall>x \<in> set (v # vs). x \<le> foldl (\<lambda>best x. if x < best then best else x) (v :: version) vs)"
proof (induction vs arbitrary: v)
  case (Cons w vs)
  show ?case
    using Cons.IH [of "if w < v then v else w"]
    by (auto simp: version_keys split: if_splits)
qed (simp add: version_keys)

lemma fold_min:
  "foldl (\<lambda>best x. if x < best then x else best) v vs \<in> set (v # vs) \<and>
   (\<forall>x \<in> set (v # vs). foldl (\<lambda>best x. if x < best then x else best) (v :: version) vs \<le> x)"
proof (induction vs arbitrary: v)
  case (Cons w vs)
  show ?case
    using Cons.IH [of "if w < v then w else v"]
    by (auto simp: version_keys split: if_splits)
qed (simp add: version_keys)

lemma max_version_Some:
  "max_version vs = Some m \<Longrightarrow> m \<in> set vs \<and> (\<forall>x \<in> set vs. x \<le> m)"
  using fold_max by (cases vs) auto

lemma min_version_Some:
  "min_version vs = Some m \<Longrightarrow> m \<in> set vs \<and> (\<forall>x \<in> set vs. m \<le> x)"
  using fold_min by (cases vs) auto

lemma extremum_None [simp]:
  "max_version vs = None \<longleftrightarrow> vs = []" "min_version vs = None \<longleftrightarrow> vs = []"
  by (cases vs; simp)+

lemma pick_semver_None:
  "pick_semver cs r = None \<longleftrightarrow>
   (case vs_lower_bound r of None \<Rightarrow> cs = [] | Some lb \<Rightarrow> \<forall>c \<in> set cs. major c \<noteq> major lb)"
  by (auto simp: pick_semver_def filter_empty_conv split: option.splits)

lemma pick_strategy_mem:
  assumes "pick_strategy cs r st = Some v"
  shows "v \<in> set cs"
proof (cases st)
  case ESemver
  with assms show ?thesis
    using max_version_Some by (fastforce simp: pick_strategy_def pick_semver_def split: option.splits)
qed (use assms max_version_Some min_version_Some in \<open>fastforce simp: pick_strategy_def\<close>)+

lemma pick_version_mem: "pick_version cs r st p = Some v \<Longrightarrow> \<exists>c \<in> set cs. veq c v"
  using pick_strategy_mem [of cs r st v]
  by (auto simp: pick_version_def list_ex_iff split: if_splits option.splits intro!: bexI [of _ v])

lemma contains_veq: "veq v w \<Longrightarrow> vs_contains s v \<longleftrightarrow> vs_contains s w"
  by (simp add: contains_mem veq_def)

subsection \<open>Facts on the dependency record\<close>

lemma merge_fold_ok: "bt_ok m \<Longrightarrow> bt_ok (foldl merge_dep m ds)"
  by (induction ds arbitrary: m) (simp_all add: merge_dep_def)

lemma merged_deps_ok: "bt_ok (merged_deps p package v)"
  by (simp add: merged_deps_def merge_fold_ok)

text \<open>What a merged entry admits: the intersection of the constraints of the same package.\<close>

lemma merge_fold_get:
  "(bt_get (foldl merge_dep m ds) q = None \<longleftrightarrow>
      bt_get m q = None \<and> (\<forall>d \<in> set ds. dep_package d \<noteq> q)) \<and>
   (\<forall>vs. bt_get (foldl merge_dep m ds) q = Some vs \<longrightarrow>
      (vs_contains vs w \<longleftrightarrow>
        (\<forall>vs0. bt_get m q = Some vs0 \<longrightarrow> vs_contains vs0 w) \<and>
        (\<forall>d \<in> set ds. dep_package d = q \<longrightarrow> vs_contains (dep_constraint d) w)))"
proof (induction ds arbitrary: m)
  case (Cons d ds)
  have get: "bt_get (merge_dep m d) q =
      (if q = dep_package d
       then Some (case bt_get m q of Some vs \<Rightarrow> vs_intersect vs (dep_constraint d) | None \<Rightarrow> dep_constraint d)
       else bt_get m q)"
    by (simp add: merge_dep_def)
  show ?case
    using Cons.IH [of "merge_dep m d"] get
    by (cases "q = dep_package d"; cases "bt_get m q") (auto simp: member_simps)
qed simp

text \<open>What the adapter records that a consumer puts on a target.\<close>

definition constraint_on :: "adapter \<Rightarrow> string \<Rightarrow> string \<Rightarrow> string option" where
  "constraint_on a target consumer = bt_get (bt_get_or [] (constrainers a) target) consumer"

definition map_at ::
  "(string \<times> (string \<times> string) list) list \<Rightarrow> string \<Rightarrow> string \<Rightarrow> string option" where
  "map_at cs target consumer = bt_get (bt_get_or [] cs target) consumer"

definition maps_ok :: "(string \<times> (string \<times> string) list) list \<Rightarrow> bool" where
  "maps_ok cs \<longleftrightarrow> bt_ok cs \<and> (\<forall>t m. bt_get cs t = Some m \<longrightarrow> bt_ok m)"

lemma maps_ok_or: "maps_ok cs \<Longrightarrow> bt_ok (bt_get_or [] cs t)"
  by (auto simp: maps_ok_def bt_get_or_def split: option.splits)

lemma maps_ok_insert: "maps_ok cs \<Longrightarrow> bt_ok m \<Longrightarrow> maps_ok (bt_insert t m cs)"
  by (auto simp: maps_ok_def)

text \<open>
  The invariant: every record of a consumer is under one of the targets listed for it, so
  clearing the list clears the consumer.
\<close>

definition adapter_ok :: "adapter \<Rightarrow> bool" where
  "adapter_ok a \<longleftrightarrow> maps_ok (constrainers a) \<and> bt_ok (consumer_targets a) \<and>
     (\<forall>t c. map_at (constrainers a) t c \<noteq> None \<longrightarrow> t \<in> set (bt_get_or [] (consumer_targets a) c))"

lemma adapter_link:
  "adapter_ok a \<Longrightarrow> t \<notin> set (bt_get_or [] (consumer_targets a) c) \<Longrightarrow> map_at (constrainers a) t c = None"
  unfolding adapter_ok_def by blast

lemma clear_target_facts:
  assumes "maps_ok cs"
  shows "maps_ok (clear_target c t cs) \<and>
    map_at (clear_target c t cs) t' c' = (if t' = t \<and> c' = c then None else map_at cs t' c')"
proof (cases "bt_get cs t")
  case None
  then show ?thesis using assms by (simp add: clear_target_def map_at_def bt_get_or_def)
next
  case (Some m)
  with assms have "bt_ok m" by (simp add: maps_ok_def)
  with Some assms show ?thesis
    by (simp add: clear_target_def map_at_def bt_get_or_def maps_ok_insert)
qed

lemma clear_targets_facts:
  "maps_ok cs \<Longrightarrow> maps_ok (fold (clear_target c) ts cs) \<and>
   map_at (fold (clear_target c) ts cs) t' c' = (if t' \<in> set ts \<and> c' = c then None else map_at cs t' c')"
proof (induction ts arbitrary: cs)
  case (Cons t ts)
  then show ?case
    using clear_target_facts [of cs c t] Cons.IH [of "clear_target c t cs"] by auto
qed simp

lemma clear_consumer_facts:
  assumes "adapter_ok a"
  shows "maps_ok (constrainers (clear_consumer c a)) \<and> bt_ok (consumer_targets (clear_consumer c a)) \<and>
    map_at (constrainers (clear_consumer c a)) t c' =
      (if c' = c then None else map_at (constrainers a) t c') \<and>
    bt_get (consumer_targets (clear_consumer c a)) c' =
      (if c' = c then None else bt_get (consumer_targets a) c')"
proof (cases "bt_get (consumer_targets a) c")
  case None
  with assms have "map_at (constrainers a) t c = None" for t
    using adapter_link [of a t c] by (simp add: bt_get_or_def)
  with None assms show ?thesis by (auto simp: clear_consumer_def adapter_ok_def)
next
  case (Some prev)
  with assms have "map_at (constrainers a) t c = None" if "t \<notin> set prev" for t
    using that adapter_link [of a t c] by (simp add: bt_get_or_def)
  with Some assms show ?thesis
    using clear_targets_facts [of "constrainers a" c prev t c']
    by (auto simp: clear_consumer_def adapter_ok_def)
qed

text \<open>The entries a call records: the non-full constraints of the merged list.\<close>

definition recorded :: "(string \<times> version_set) list \<Rightarrow> string \<Rightarrow> string option" where
  "recorded merged t =
     (case bt_get merged t of
        Some vs \<Rightarrow> if vs_is_full vs then None else Some (vs_to_constraint_str vs)
      | None \<Rightarrow> None)"

lemma record_targets_facts:
  assumes "maps_ok cs" "distinct (map fst merged)"
    "fold (record_target c) merged (cs, cur) = (cs', cur')"
  shows "maps_ok cs' \<and>
    (\<forall>t c'. map_at cs' t c' =
      (if c' = c \<and> recorded merged t \<noteq> None then recorded merged t else map_at cs t c')) \<and>
    set cur' = set cur \<union> {t. recorded merged t \<noteq> None}"
  using assms
proof (induction merged arbitrary: cs cur)
  case (Cons e merged)
  obtain t vs where e: "e = (t, vs)" by (cases e)
  have fresh: "bt_get merged t = None"
    using Cons.prems(2) by (simp add: e bt_get_None)
  show ?case
  proof (cases "vs_is_full vs")
    case True
    with Cons show ?thesis
      using fresh
      by (auto simp: e record_target_def [of c "(t, vs)"] recorded_def split: if_splits option.splits)
  next
    case False
    define cs1 where "cs1 = bt_insert t (bt_insert c (vs_to_constraint_str vs) (bt_get_or [] cs t)) cs"
    have ok: "maps_ok cs1"
      using Cons.prems(1) by (simp add: cs1_def maps_ok_insert maps_ok_or)
    have "fold (record_target c) merged (cs1, cur @ [t]) = (cs', cur')"
      using Cons.prems(3) False by (simp add: e record_target_def [of c "(t, vs)"] cs1_def)
    with Cons.IH [OF ok, of "cur @ [t]"] Cons.prems(2)
    have ih: "maps_ok cs' \<and>
        (\<forall>t c'. map_at cs' t c' =
          (if c' = c \<and> recorded merged t \<noteq> None then recorded merged t else map_at cs1 t c')) \<and>
        set cur' = set (cur @ [t]) \<union> {t. recorded merged t \<noteq> None}"
      by simp
    have "map_at cs1 t' c' = (if t' = t \<and> c' = c then Some (vs_to_constraint_str vs) else map_at cs t' c')"
      for t' c' by (simp add: cs1_def map_at_def bt_get_or_def)
    moreover have "recorded (e # merged) t' =
        (if t' = t then Some (vs_to_constraint_str vs) else recorded merged t')" for t'
      using False by (simp add: e recorded_def)
    moreover have "recorded merged t = None" using fresh by (simp add: recorded_def)
    ultimately show ?thesis using ih by auto
  qed
qed (simp add: recorded_def)

lemma get_dependencies_step:
  assumes "adapter_ok a" "get_dependencies p a c v = (a', merged)"
  shows "adapter_ok a' \<and> merged = merged_deps p c v \<and>
    constraint_on a' t c' = (if c' = c then recorded merged t else constraint_on a t c')"
proof -
  obtain cs cur where rec: "fold (record_target c) merged (constrainers (clear_consumer c a), []) = (cs, cur)"
    by fastforce
  have m: "merged = merged_deps p c v" and a': "a' = record_consumer c merged (clear_consumer c a)"
    using assms(2) by (auto simp: get_dependencies_def Let_def)
  note clr = clear_consumer_facts [OF assms(1), of c]
  have facts: "maps_ok cs \<and>
    (\<forall>t c'. map_at cs t c' = (if c' = c \<and> recorded merged t \<noteq> None then recorded merged t
       else map_at (constrainers (clear_consumer c a)) t c')) \<and>
    set cur = set [] \<union> {t. recorded merged t \<noteq> None}"
    using clr merged_deps_ok [of p c v] rec
    by (intro record_targets_facts) (auto simp: m bt_ok_distinct)
  have new: "constrainers a' = cs" "consumer_targets a' = (if cur = [] then consumer_targets (clear_consumer c a)
      else bt_insert c cur (consumer_targets (clear_consumer c a)))"
    by (simp_all add: a' record_consumer_def rec)
  have val: "map_at cs t c' = (if c' = c then recorded merged t else map_at (constrainers a) t c')" for t c'
    using facts clr by auto
  have "bt_get_or [] (consumer_targets a') c' = (if c' = c then cur else bt_get_or [] (consumer_targets a) c')" for c'
    using clr by (auto simp: new bt_get_or_def)
  with val facts assms(1) clr have "adapter_ok a'"
    by (auto simp: adapter_ok_def new)
  with val m show ?thesis by (simp add: constraint_on_def map_at_def new)
qed

subsection \<open>A run of callbacks\<close>

text \<open>
  PubGrub calls \<^verbatim>\<open>get_dependencies\<close> once per decision, backtracking in between; the adapter after
  a list of calls.
\<close>

definition run_calls :: "package_provider \<Rightarrow> (string \<times> version) list \<Rightarrow> adapter" where
  "run_calls p calls = foldl (\<lambda>a (c, v). fst (get_dependencies p a c v)) adapter_new calls"

text \<open>The specification: only a consumer's latest call counts.\<close>

definition latest_call :: "(string \<times> version) list \<Rightarrow> string \<Rightarrow> version option" where
  "latest_call calls c = map_of (rev calls) c"

definition constrainer_spec ::
  "package_provider \<Rightarrow> (string \<times> version) list \<Rightarrow> string \<Rightarrow> string \<Rightarrow> string option" where
  "constrainer_spec p calls target c =
     (case latest_call calls c of
        None \<Rightarrow> None
      | Some v \<Rightarrow> recorded (merged_deps p c v) target)"

lemma adapter_new_ok: "adapter_ok adapter_new" "constraint_on adapter_new t c = None"
  by (simp_all add: adapter_ok_def adapter_new_def maps_ok_def map_at_def bt_get_or_def constraint_on_def)

lemma run_calls_facts:
  "adapter_ok (run_calls p calls) \<and>
   constraint_on (run_calls p calls) t c = constrainer_spec p calls t c"
proof (induction calls arbitrary: t c rule: rev_induct)
  case Nil
  then show ?case
    by (simp add: run_calls_def adapter_new_ok constrainer_spec_def latest_call_def)
next
  case (snoc x calls)
  obtain c' v where x: "x = (c', v)" by (cases x)
  obtain a' merged where step: "get_dependencies p (run_calls p calls) c' v = (a', merged)" by fastforce
  then have "run_calls p (calls @ [x]) = a'" by (simp add: run_calls_def x)
  moreover have "adapter_ok (run_calls p calls)" using snoc.IH by simp
  note get_dependencies_step [OF this step, of t c]
  ultimately show ?case
    using snoc.IH [of t c] by (auto simp: constrainer_spec_def latest_call_def x)
qed

lemma constrainers_sorted: "adapter_ok a \<Longrightarrow> bt_ok (bt_get_or [] (constrainers a) t)"
  by (simp add: adapter_ok_def maps_ok_or)

subsection \<open>The refutation\<close>

text \<open>
  The shape of \<^verbatim>\<open>pubgrub::DerivationTree\<close> that the extraction reads: the leaf for a dependency, the
  other external leaves, and a derivation from two causes.
\<close>

datatype derivation =
    FromDependencyOf string version_set string version_set
  | OtherExternal
  | Derived derivation derivation

fun derivation_leaves :: "derivation \<Rightarrow> (string \<times> version_set) list" where
  "derivation_leaves (FromDependencyOf p ps d rs) = [(d, rs)]"
| "derivation_leaves OtherExternal = []"
| "derivation_leaves (Derived l r) = derivation_leaves l @ derivation_leaves r"

type_synonym refutation_map = "(string \<times> (string \<times> version_set) list) list"

definition add_leaf :: "string \<Rightarrow> version_set \<Rightarrow> refutation_map \<Rightarrow> refutation_map" where
  "add_leaf d rs by_pkg =
     (let cstr = vs_to_constraint_str rs; entry = bt_get_or [] by_pkg d
      in bt_insert d (if list_ex (\<lambda>(c, _). c = cstr) entry then entry else entry @ [(cstr, rs)]) by_pkg)"

text \<open>The explicit stack: the loop pops the last pushed cause first.\<close>

function walk_tree :: "derivation list \<Rightarrow> refutation_map \<Rightarrow> refutation_map" where
  "walk_tree [] by_pkg = by_pkg"
| "walk_tree (FromDependencyOf p ps d rs # stack) by_pkg = walk_tree stack (add_leaf d rs by_pkg)"
| "walk_tree (OtherExternal # stack) by_pkg = walk_tree stack by_pkg"
| "walk_tree (Derived l r # stack) by_pkg = walk_tree (r # l # stack) by_pkg"
  by pat_completeness auto
termination
  by (relation "measure (\<lambda>(stack, _). sum_list (map (\<lambda>t. 2 * size t + 1) stack))") auto

record refutation_entry =
  ref_package :: string
  ref_constraint :: string

definition refute_package :: "string \<times> (string \<times> version_set) list \<Rightarrow> refutation_entry list" where
  "refute_package e =
     (case e of (pkg, cs) \<Rightarrow>
        if length cs < 2 then []
        else if vs_is_empty (foldl (\<lambda>acc (_, vs). vs_intersect acc vs) vs_full cs)
        then map (\<lambda>(c, _). \<lparr>ref_package = pkg, ref_constraint = c\<rparr>) cs
        else [])"

definition extract_refutation :: "derivation \<Rightarrow> refutation_entry list" where
  "extract_refutation tree =
     sort_key (\<lambda>r. (ref_package r, ref_constraint r))
       (concat (map refute_package (walk_tree [tree] [])))"

subsection \<open>Solving\<close>

text \<open>
  What \<^verbatim>\<open>pubgrub::resolve\<close> returns: a selection, the provider's own error, no solution with a
  derivation tree, or another failure with its text.
\<close>

datatype pubgrub_result =
    Selected "(string \<times> version) list"
  | ErrorChoosingVersion provider_error
  | NoSolution derivation
  | OtherError string

text \<open>
  \<open>search\<close> is \<^verbatim>\<open>pubgrub::resolve\<close> on the adapter's callbacks, \<open>collapse\<close> and \<open>report\<close> its
  \<^verbatim>\<open>collapse_no_versions\<close> and reporter.
\<close>

definition collect_map :: "(string \<times> version) list \<Rightarrow> (string \<times> version) list" where
  "collect_map kvs = fold (\<lambda>(k, v). bt_insert k v) kvs []"

definition solve ::
  "(string \<Rightarrow> version \<Rightarrow> pubgrub_result) \<Rightarrow> (derivation \<Rightarrow> derivation) \<Rightarrow> (derivation \<Rightarrow> string) \<Rightarrow>
   string \<Rightarrow> version \<Rightarrow> solver_error + (string \<times> version) list" where
  "solve search collapse report root root_version =
     (case search root root_version of
        Selected kvs \<Rightarrow> Inr (collect_map kvs)
      | ErrorChoosingVersion (PVersionUnknownConstrained p cs) \<Rightarrow> Inl (VersionUnknownConstrained p cs)
      | NoSolution tree \<Rightarrow> Inl (Conflict (report (collapse tree)))
      | OtherError msg \<Rightarrow> Inl (Conflict msg))"

definition solve_with_refutation ::
  "(string \<Rightarrow> version \<Rightarrow> pubgrub_result) \<Rightarrow> (derivation \<Rightarrow> derivation) \<Rightarrow> (derivation \<Rightarrow> string) \<Rightarrow>
   string \<Rightarrow> version \<Rightarrow>
   (solver_error \<times> refutation_entry list) + (string \<times> version) list" where
  "solve_with_refutation search collapse report root root_version =
     (case search root root_version of
        Selected kvs \<Rightarrow> Inr (collect_map kvs)
      | ErrorChoosingVersion (PVersionUnknownConstrained p cs) \<Rightarrow>
          Inl (VersionUnknownConstrained p cs, [])
      | NoSolution tree \<Rightarrow>
          Inl (Conflict (report (collapse tree)), extract_refutation (collapse tree))
      | OtherError msg \<Rightarrow> Inl (Conflict msg, []))"

definition refutation_inv :: "(string \<times> version_set) set \<Rightarrow> refutation_map \<Rightarrow> bool" where
  "refutation_inv leaves m \<longleftrightarrow>
     (\<forall>d e c vs. (d, e) \<in> set m \<longrightarrow> (c, vs) \<in> set e \<longrightarrow> c = vs_to_constraint_str vs \<and> (d, vs) \<in> leaves)"

lemma add_leaf_inv:
  assumes "refutation_inv leaves m" "(d, rs) \<in> leaves"
  shows "refutation_inv leaves (add_leaf d rs m)"
proof -
  have old: "c = vs_to_constraint_str vs \<and> (d', vs) \<in> leaves" if "(d', e) \<in> set m" "(c, vs) \<in> set e" for d' e c vs
    using that assms(1) unfolding refutation_inv_def by blast
  define e where "e = bt_get_or [] m d"
  have e: "c = vs_to_constraint_str vs \<and> (d, vs) \<in> leaves" if "(c, vs) \<in> set e" for c vs
  proof (cases "bt_get m d")
    case (Some e')
    with that have "(c, vs) \<in> set e'" by (simp add: e_def bt_get_or_def)
    with old [OF bt_get_in [OF Some]] show ?thesis .
  qed (use that in \<open>simp add: e_def bt_get_or_def\<close>)
  obtain e' where e': "add_leaf d rs m = bt_insert d e' m" "set e' \<subseteq> insert (vs_to_constraint_str rs, rs) (set e)"
    by (rule that [of "if list_ex (\<lambda>(c, _). c = vs_to_constraint_str rs) e then e
        else e @ [(vs_to_constraint_str rs, rs)]"]) (auto simp: add_leaf_def Let_def e_def [symmetric])
  have new: "c = vs_to_constraint_str vs \<and> (d, vs) \<in> leaves" if "(c, vs) \<in> set e'" for c vs
    using that e' e assms(2) by auto
  show ?thesis
    unfolding refutation_inv_def
  proof (intro allI impI)
    fix d' f c vs
    assume "(d', f) \<in> set (add_leaf d rs m)" and in_f: "(c, vs) \<in> set f"
    then consider "(d', f) \<in> set m" | "d' = d" "f = e'"
      using set_bt_insert [of d e' m] e'(1) by auto
    then show "c = vs_to_constraint_str vs \<and> (d', vs) \<in> leaves"
      using old new in_f by cases auto
  qed
qed

lemma walk_tree_inv:
  "refutation_inv leaves m \<Longrightarrow> (\<forall>t \<in> set stack. set (derivation_leaves t) \<subseteq> leaves) \<Longrightarrow>
   refutation_inv leaves (walk_tree stack m)"
  by (induction stack m rule: walk_tree.induct) (auto simp: add_leaf_inv)

lemma refute_package_cases:
  assumes "r \<in> set (refute_package (d, cs))"
  shows "ref_package r = d \<and>
    (\<forall>(c, vs) \<in> set cs. \<lparr>ref_package = d, ref_constraint = c\<rparr> \<in> set (refute_package (d, cs))) \<and>
    vs_is_empty (foldl vs_intersect vs_full (map snd cs)) \<and> (\<exists>vs. (ref_constraint r, vs) \<in> set cs)"
proof -
  have "foldl (\<lambda>acc (_, vs). vs_intersect acc vs) a cs = foldl vs_intersect a (map snd cs)" for a
    by (induction cs arbitrary: a) auto
  with assms show ?thesis by (auto simp: refute_package_def split: if_splits)
qed

lemma extract_refutation_set:
  "r \<in> set (extract_refutation tree) \<longleftrightarrow>
   (\<exists>d cs. (d, cs) \<in> set (walk_tree [tree] []) \<and> r \<in> set (refute_package (d, cs)))"
  by (auto simp: extract_refutation_def)

lemma refutation_sound_aux:
  assumes wf: "\<forall>(d, vs) \<in> set (derivation_leaves tree). wf_set vs"
    and r: "r \<in> set (extract_refutation tree)"
  shows "(\<exists>vs. (ref_package r, vs) \<in> set (derivation_leaves tree) \<and>
      ref_constraint r = vs_to_constraint_str vs) \<and>
    (\<exists>r' \<in> set (extract_refutation tree). ref_package r' = ref_package r \<and>
      (\<exists>s. from_constraint (Some (ref_constraint r')) = Inr s \<and> \<not> vs_contains s v))"
proof -
  obtain d cs where m: "(d, cs) \<in> set (walk_tree [tree] [])" and rin: "r \<in> set (refute_package (d, cs))"
    using r by (auto simp: extract_refutation_set)
  have "refutation_inv (set (derivation_leaves tree)) (walk_tree [tree] [])"
    by (intro walk_tree_inv) (auto simp: refutation_inv_def)
  with m have cs: "c = vs_to_constraint_str vs \<and> (d, vs) \<in> set (derivation_leaves tree)"
    if "(c, vs) \<in> set cs" for c vs
    using that by (auto simp: refutation_inv_def)
  note facts = refute_package_cases [OF rin]
  have "list_all vs_canon (map snd cs)"
    using cs wf by (fastforce simp: list_all_iff wf_set_def)
  moreover have "\<not> vs_contains (foldl vs_intersect vs_full (map snd cs)) v"
    using facts is_empty_sound by blast
  ultimately obtain c vs where bad: "(c, vs) \<in> set cs" "\<not> vs_contains vs v"
    using contains_accumulated [of "map snd cs" v] unfolding list_all_iff by fastforce
  with cs wf have "from_constraint (Some c) = Inr vs"
    using str_roundtrip by fastforce
  moreover have "\<lparr>ref_package = d, ref_constraint = c\<rparr> \<in> set (extract_refutation tree)"
    using facts bad(1) m unfolding extract_refutation_set by blast
  ultimately show ?thesis
    using facts cs bad(2) by (fastforce intro: bexI [of _ "\<lparr>ref_package = d, ref_constraint = c\<rparr>"])
qed

subsection \<open>Properties\<close>

text \<open>
  The strategy and the version-source texts read back, and nothing else is accepted.
\<close>

theorem strategy_text_roundtrip:
  "(strategy_parse s = Some st \<longleftrightarrow> s = strategy_as_str st) \<and>
   (version_source_parse s = Some src \<longleftrightarrow> s = version_source_as_str src)"
  by (cases st; cases src) (auto simp: strategy_parse_def version_source_parse_def)

text \<open>
  A version-unknown package is decided after every package with a version, whatever their
  declaration orders and names; between packages of one class the one declared first is decided
  first, and the name breaks ties, so two packages never have the same priority.
\<close>

theorem prioritize_order:
  "(prov_version_unknown p a \<and> \<not> prov_version_unknown p b \<longrightarrow> prioritize p a < prioritize p b) \<and>
   (prov_version_unknown p a = prov_version_unknown p b \<and>
    prov_declaration_order p b < prov_declaration_order p a \<longrightarrow> prioritize p a < prioritize p b) \<and>
   (prioritize p a = prioritize p b \<longleftrightarrow> a = b)"
  by (auto simp: prioritize_def)

definition demo_provider :: package_provider where
  "demo_provider =
     \<lparr>prov_versions = (\<lambda>p. [rel 1, rel 2]),
      prov_dependencies = (\<lambda>p v. if p = ''app'' then [\<lparr>dep_package = ''lib'', dep_constraint = vs_gte (rel 1)\<rparr>] else []),
      prov_version_unknown = (\<lambda>p. p = ''git''),
      prov_preference = (\<lambda>p. None),
      prov_root_direct = (\<lambda>p. p = ''app''),
      prov_declaration_order = (\<lambda>p. if p = ''app'' then 0 else 1)\<rparr>"

theorem prioritize_order_witness:
  "prioritize demo_provider ''git'' < prioritize demo_provider ''app''"
  using prioritize_order [of demo_provider "''git''" "''app''"] by (simp add: demo_provider_def)



text \<open>
  Choosing a version.  After any run of dependency callbacks, \<^verbatim>\<open>choose_version\<close> fails exactly
  for a version-unknown package with a range other than \<^verbatim>\<open>full()\<close>; the error then names exactly the
  consumers whose latest call puts a non-full constraint on the package, with the constraint's
  text, in order and without repetition; and a chosen version is in the range and equivalent to
  one of the available versions.
\<close>

theorem choose_version_correct:
  "((\<exists>e. choose_version p st (run_calls p calls) pkg rng = Inl e) \<longleftrightarrow>
      prov_version_unknown p pkg \<and> \<not> vs_is_full rng) \<and>
   (choose_version p st (run_calls p calls) pkg rng = Inl (PVersionUnknownConstrained pkg' cs) \<longrightarrow>
      pkg' = pkg \<and> sorted (map fst cs) \<and> distinct (map fst cs) \<and>
      ((c, tx) \<in> set cs \<longleftrightarrow> constrainer_spec p calls pkg c = Some tx)) \<and>
   (choose_version p st (run_calls p calls) pkg rng = Inr (Some v) \<longrightarrow>
      vs_contains rng v \<and> (\<exists>w \<in> set (prov_versions p pkg). veq w v))"
proof -
  let ?cs = "bt_get_or [] (constrainers (run_calls p calls)) pkg"
  have ok: "bt_ok ?cs" using run_calls_facts constrainers_sorted by blast
  then have "sorted (map fst ?cs)" "distinct (map fst ?cs)"
    by (auto simp: bt_ok_def strict_sorted_iff)
  moreover have "(c, tx) \<in> set ?cs \<longleftrightarrow> constrainer_spec p calls pkg c = Some tx"
    using run_calls_facts [of p calls pkg c] bt_get_iff [OF ok, of c tx]
    by (simp add: constraint_on_def)
  moreover have "vs_contains rng v \<and> (\<exists>w \<in> set (prov_versions p pkg). veq w v)"
    if "pick_version (filter (vs_contains rng) (prov_versions p pkg)) rng e q = Some v" for e q
    using pick_version_mem [OF that] contains_veq by auto
  ultimately show ?thesis by (auto simp: choose_version_def Let_def)
qed

theorem choose_version_correct_witness:
  "choose_version demo_provider Maxver (run_calls demo_provider []) ''lib'' (vs_gte (rel 1)) =
     Inr (Some (rel 2)) \<and> vs_contains (vs_gte (rel 1)) (rel 2)"
proof -
  have "choose_version demo_provider Maxver (run_calls demo_provider []) ''lib'' (vs_gte (rel 1)) =
      Inr (Some (rel 2))"
    by (simp add: choose_version_def demo_provider_def member_simps pick_version_def
        pick_strategy_def version_keys precedence_key_def release_def)
  then show ?thesis
    using choose_version_correct [of demo_provider Maxver "[]" "''lib''" "vs_gte (rel 1)"] by blast
qed

text \<open>
  The record of constrainers is correct under backtracking: after any list of dependency
  callbacks the adapter holds for every target and consumer exactly what the consumer's latest
  call demands of the target, so an abandoned decision leaves nothing behind.
\<close>

theorem constrainers_refine:
  "constraint_on (run_calls p calls) target consumer = constrainer_spec p calls target consumer"
  using run_calls_facts by blast

text \<open>
  The dependency list given to PubGrub: sorted by package without repetition, one entry for
  each package some dependency names, admitting exactly the versions that every one of its
  constraints admits.
\<close>

theorem merged_deps_correct:
  "sorted (map fst (merged_deps p pkg v)) \<and> distinct (map fst (merged_deps p pkg v)) \<and>
   fst ` set (merged_deps p pkg v) = dep_package ` set (prov_dependencies p pkg v) \<and>
   ((q, vs) \<in> set (merged_deps p pkg v) \<longrightarrow>
     (vs_contains vs w \<longleftrightarrow>
       (\<forall>d \<in> set (prov_dependencies p pkg v). dep_package d = q \<longrightarrow> vs_contains (dep_constraint d) w)))"
proof -
  note facts = merge_fold_get [of "[]" "prov_dependencies p pkg v", folded merged_deps_def]
  have "q \<in> fst ` set (merged_deps p pkg v) \<longleftrightarrow> q \<in> dep_package ` set (prov_dependencies p pkg v)" for q
    using facts [of q] bt_get_None [of "merged_deps p pkg v" q] by auto
  then have "fst ` set (merged_deps p pkg v) = dep_package ` set (prov_dependencies p pkg v)" by blast
  then show ?thesis
    using facts [of q w] merged_deps_ok [of p pkg v] bt_get_iff [of "merged_deps p pkg v" q vs]
    by (simp add: bt_ok_def strict_sorted_iff)
qed

theorem merged_deps_correct_witness:
  "\<exists>vs. (''lib'', vs) \<in> set (merged_deps demo_provider ''app'' (rel 1)) \<and> vs_contains vs (rel 2)"
proof -
  have m: "merged_deps demo_provider ''app'' (rel 1) = [(''lib'', vs_gte (rel 1))]"
    by (simp add: merged_deps_def demo_provider_def merge_dep_def)
  have "vs_contains (vs_gte (rel 1)) (rel 2)"
    using merged_deps_correct [of demo_provider "''app''" "rel 1" "''lib''" "vs_gte (rel 1)" "rel 2"]
    by (simp add: m) (simp add: demo_provider_def member_simps version_keys precedence_key_def release_def)
  with m show ?thesis by simp
qed

text \<open>
  The refutation is checkable.  Every entry of the failure certificate is the rendering of a
  dependency range of the derivation tree; and for each package it names, whatever the version,
  one of the package's entries parses to a constraint that the version violates.
\<close>

theorem refutation_checkable:
  assumes "\<forall>(d, vs) \<in> set (derivation_leaves tree). wf_set vs"
    and "r \<in> set (extract_refutation tree)"
  shows "(\<exists>vs. (ref_package r, vs) \<in> set (derivation_leaves tree) \<and>
      ref_constraint r = vs_to_constraint_str vs) \<and>
    (\<forall>v. \<exists>r' \<in> set (extract_refutation tree). ref_package r' = ref_package r \<and>
      (\<exists>s. from_constraint (Some (ref_constraint r')) = Inr s \<and> \<not> vs_contains s v))"
  using refutation_sound_aux [OF assms] by blast

text \<open>Two dependencies on disjoint ranges of one package.\<close>

definition demo_tree :: derivation where
  "demo_tree = Derived (FromDependencyOf ''a'' vs_full ''lib'' (vs_lt (rel 0)))
     (FromDependencyOf ''b'' vs_full ''lib'' (vs_gte (rel 1)))"

theorem refutation_checkable_witness:
  "\<exists>r \<in> set (extract_refutation demo_tree). ref_package r = ''lib'' \<and>
     (\<exists>s. from_constraint (Some (ref_constraint r)) = Inr s \<and> \<not> vs_contains s (rel 2))"
proof -
  have wf: "\<forall>(d, vs) \<in> set (derivation_leaves demo_tree). wf_set vs"
    by (simp add: demo_tree_def wf_bounds)
  let ?s0 = "vs_to_constraint_str (vs_lt (rel 0))" and ?s1 = "vs_to_constraint_str (vs_gte (rel 1))"
  have "from_constraint (Some ?s0) = Inr (vs_lt (rel 0))" "from_constraint (Some ?s1) = Inr (vs_gte (rel 1))"
    by (simp_all add: str_roundtrip wf_bounds)
  moreover have "vs_lt (rel 0) \<noteq> vs_gte (rel 1)"
    by (simp add: vs_lt_def vs_gte_def interval_new_def)
  ultimately have ne: "?s1 \<noteq> ?s0" by auto
  have walk: "walk_tree [demo_tree] [] = [(''lib'', [(?s1, vs_gte (rel 1)), (?s0, vs_lt (rel 0))])]"
    using ne by (simp add: demo_tree_def add_leaf_def bt_get_or_def Let_def)
  have "vs_intersect (vs_intersect vs_full (vs_gte (rel 1))) (vs_lt (rel 0)) = vs_empty"
    by (simp add: vs_gte_def full_intersect)
      (simp add: vs_intersect_def vs_lt_def intersect_pair_def version_keys precedence_key_def
        release_def normalize_intervals_def vs_empty_def)
  then have "\<lparr>ref_package = ''lib'', ref_constraint = ?s0\<rparr> \<in> set (extract_refutation demo_tree)"
    by (simp add: extract_refutation_def walk refute_package_def vs_is_empty_def vs_empty_def)
  from refutation_checkable [OF wf this] show ?thesis by auto
qed

text \<open>
  Solving keeps the outcome of the search: a selection is returned as the map of its pairs,
  the provider's error with its package and constrainers, and both entry points agree; only a
  search without solution carries a refutation.
\<close>

theorem solve_agrees:
  "map_sum fst id (solve_with_refutation search collapse report root v) =
     solve search collapse report root v \<and>
   (solve_with_refutation search collapse report root v = Inl (e, refs) \<longrightarrow> refs \<noteq> [] \<longrightarrow>
     (\<exists>tree. search root v = NoSolution tree \<and> refs = extract_refutation (collapse tree))) \<and>
   (search root v = Selected kvs \<longrightarrow> distinct (map fst kvs) \<longrightarrow>
     (\<exists>m. solve search collapse report root v = Inr m \<and> sorted (map fst m) \<and> set m = set kvs))"
proof -
  have "bt_ok (collect_map kvs)"
    using bt.inv_ins_all [of "[]" kvs] by (simp add: collect_map_def bt.ins_all_def)
  moreover have "bt_get (collect_map kvs) k = map_of (rev kvs) k" for k
    using bt.get_ins_all [of "[]" kvs k] by (simp add: collect_map_def bt.ins_all_def split: option.splits)
  ultimately have "sorted (map fst (collect_map kvs)) \<and> set (collect_map kvs) = set kvs"
    if "distinct (map fst kvs)"
    using that bt_get_iff [of "collect_map kvs"]
    by (auto simp: bt_ok_def strict_sorted_iff rev_map [symmetric])
  then show ?thesis
    by (auto simp: solve_def solve_with_refutation_def
        split: pubgrub_result.splits provider_error.splits)
qed

theorem solve_agrees_witness:
  "\<exists>m. solve (\<lambda>r v. Selected [(''b'', rel 1), (''a'', v)]) id (\<lambda>t. []) ''a'' (rel 2) = Inr m \<and>
     set m = {(''a'', rel 2), (''b'', rel 1)}"
  using solve_agrees [of "\<lambda>r v. Selected [(''b'', rel 1), (''a'', v)]" id "\<lambda>t. []" "''a''" "rel 2"
      "Conflict []" "[]" "[(''b'', rel 1), (''a'', rel 2)]"]
  by auto

end
