(* ===== verification/Types.thy ===== *)
theory Types
  imports Version
begin

text \<open>
  The resolver-level keys and origins of \<^verbatim>\<open>milpa-types/src/lib.rs\<close> (\<^verbatim>\<open>DepKey\<close>, \<^verbatim>\<open>SolverKey\<close>,
  \<^verbatim>\<open>dep_dir_name\<close>, \<^verbatim>\<open>Provenance\<close>, \<^verbatim>\<open>FetchableOrigin\<close>, \<^verbatim>\<open>SourceId\<close>) and the two text predicates of
  \<^verbatim>\<open>milpa-manifest/src/lib.rs\<close> that fence their fields.  The main facts: when a solver variable
  determines its key, and when it reads back.
\<close>

subsection \<open>Text fences\<close>

definition valid_flag_name :: "string \<Rightarrow> bool" where
  "valid_flag_name s \<longleftrightarrow>
     s \<noteq> [] \<and> list_all (\<lambda>c. is_alnum c \<or> c = CHR ''_'' \<or> c = CHR ''-'') s"

text \<open>
  On UTF-8 bytes: the ASCII controls are single bytes, U+2028 and U+2029 the sequences
  E2 80 A8 and E2 80 A9.
\<close>

fun contains_unsafe_char :: "string \<Rightarrow> bool" where
  "contains_unsafe_char [] \<longleftrightarrow> False"
| "contains_unsafe_char (c # s) \<longleftrightarrow>
     byte c < 32 \<or> byte c = 127 \<or>
     (byte c = 226 \<and>
       (case s of d # e # t \<Rightarrow> byte d = 128 \<and> (byte e = 168 \<or> byte e = 169) | _ \<Rightarrow> False)) \<or>
     contains_unsafe_char s"

subsection \<open>Dependency keys and solver variables\<close>

record dep_key =
  dk_name :: string
  dk_namespace :: "string option"

definition dep_key_bare :: "string \<Rightarrow> dep_key" where
  "dep_key_bare n = \<lparr>dk_name = n, dk_namespace = None\<rparr>"

definition solver_var :: "dep_key \<Rightarrow> string" where
  "solver_var k =
     (case dk_namespace k of None \<Rightarrow> dk_name k | Some ns \<Rightarrow> ns @ ''::'' @ dk_name k)"

definition from_solver_var :: "string \<Rightarrow> dep_key" where
  "from_solver_var s =
     (case split_once_str ''::'' s of
        Some (ns, n) \<Rightarrow> \<lparr>dk_name = n, dk_namespace = Some ns\<rparr>
      | None \<Rightarrow> dep_key_bare s)"

record solver_key =
  sk_identity :: string
  sk_display :: dep_key

definition solver_key_new :: "string \<Rightarrow> dep_key \<Rightarrow> solver_key" where
  "solver_key_new i d = \<lparr>sk_identity = i, sk_display = d\<rparr>"

definition solver_key_for_depkey :: "dep_key \<Rightarrow> solver_key" where
  "solver_key_for_depkey k = \<lparr>sk_identity = solver_var k, sk_display = k\<rparr>"

definition solver_key_from_str :: "string \<Rightarrow> solver_key" where
  "solver_key_from_str s = \<lparr>sk_identity = s, sk_display = from_solver_var s\<rparr>"

text \<open>Equality, order and hash are on the identity alone.\<close>

definition solver_key_eq :: "solver_key \<Rightarrow> solver_key \<Rightarrow> bool" where
  "solver_key_eq a b \<longleftrightarrow> sk_identity a = sk_identity b"

definition dep_dir_name :: "string \<Rightarrow> string option \<Rightarrow> string" where
  "dep_dir_name n ns = (case ns of None \<Rightarrow> n | Some s \<Rightarrow> ''@'' @ s @ ''/'' @ n)"

subsection \<open>Provenance and origins\<close>

datatype provenance =
    PGit (pgit_url: string) (pgit_ref: string) (pgit_commit: "string option")
  | PTarball (ptar_url: string) (ptar_sha256: "string option") (ptar_strip: u32)
  | PLocal (plocal_path: string)
  | POci (poci_registry: string) (poci_repository: string) (poci_digest: string)
      (poci_source: "string option")

fun cas_admissible :: "provenance \<Rightarrow> bool" where
  "cas_admissible (PLocal p) \<longleftrightarrow> False"
| "cas_admissible _ \<longleftrightarrow> True"

text \<open>Git: url, ref, subpath.  Oci: registry, repository, digest, subpath.\<close>

datatype fetchable_origin =
    Git string "string option" "string option"
  | Oci string string "string option" "string option"
  | Tarball string "string option"
  | Local string
  | Registry string "string option" string

datatype source_id = Fetchable fetchable_origin | Member string

subsection \<open>Attestation claims\<close>

record rekor_ref =
  rekor_uuid :: string
  rekor_log_index :: string
  rekor_integrated_time :: string

datatype attestation_kind = AuthorSigned string | MilpaVendored

record entry_attestation =
  att_kind :: attestation_kind
  att_rekor :: "rekor_ref option"
  att_bundle_pin :: "string option"

subsection \<open>Trust policies\<close>

datatype trust_policy = Warn | Strict | Off

definition parse_trust_policy :: "string \<Rightarrow> trust_policy option" where
  "parse_trust_policy v =
     (if v = ''warn'' then Some Warn else if v = ''strict'' then Some Strict
      else if v = ''off'' then Some Off else None)"

subsection \<open>Facts on keys\<close>

lemma split_dcolon_append:
  "split_once_str ''::'' a = None \<Longrightarrow> a = [] \<or> last a \<noteq> CHR '':'' \<Longrightarrow>
   split_once_str ''::'' (a @ ''::'' @ b) = Some (a, b)"
proof (induction a)
  case (Cons c a)
  show ?case
  proof (cases a)
    case Nil
    with Cons.prems show ?thesis by auto
  next
    case (Cons d a')
    with Cons.prems Cons.IH show ?thesis by (auto split: if_splits option.splits)
  qed
qed simp

lemma flag_name_chars: "valid_flag_name s \<Longrightarrow> c \<in> set s \<Longrightarrow> c \<noteq> CHR '':'' \<and> c \<noteq> CHR ''/'' \<and> c \<noteq> CHR ''@''"
  by (auto simp: valid_flag_name_def list_all_iff is_alnum_def is_digit_def is_alpha_def)

lemma no_dcolon: "CHR '':'' \<notin> set s \<Longrightarrow> split_once_str ''::'' s = None"
  by (induction s) (auto split: option.splits)

text \<open>The last colon separates a valid name from what precedes it.\<close>

lemma append_last_sep:
  fixes d :: char
  assumes "d \<notin> set b" "d \<notin> set b'"
  shows "a @ d # b = a' @ d # b' \<longleftrightarrow> a = a' \<and> b = b'"
proof
  assume "a @ d # b = a' @ d # b'"
  then have "rev b @ d # rev a = rev b' @ d # rev a'" by (metis append.assoc append_Cons append_Nil rev.simps(2) rev_append)
  with assms show "a = a' \<and> b = b'" by (simp add: append_sep_eq)
qed simp

lemma solver_var_inj:
  assumes "CHR '':'' \<notin> set (dk_name k)" "CHR '':'' \<notin> set (dk_name j)" "solver_var k = solver_var j"
  shows "k = (j :: dep_key)"
proof -
  have split: "CHR '':'' \<in> set (solver_var k) \<longleftrightarrow> dk_namespace k \<noteq> None"
    if "CHR '':'' \<notin> set (dk_name k)" for k
    using that by (auto simp: solver_var_def split: option.splits)
  show ?thesis
  proof (cases "dk_namespace k")
    case None
    with split [OF assms(1)] split [OF assms(2)] assms(3) have "dk_namespace j = None" by auto
    with None assms(3) show ?thesis by (simp add: solver_var_def)
  next
    case (Some ns)
    with split [OF assms(1)] split [OF assms(2)] assms(3)
    obtain ns' where ns': "dk_namespace j = Some ns'" by auto
    with Some assms(3) have "(ns @ '':'') @ CHR '':'' # dk_name k = (ns' @ '':'') @ CHR '':'' # dk_name j"
      by (simp add: solver_var_def)
    then have "ns @ '':'' = ns' @ '':'' \<and> dk_name k = dk_name j"
      using append_last_sep [OF assms(1,2)] by blast
    with Some ns' show ?thesis by simp
  qed
qed

lemma solver_var_roundtrip:
  assumes "CHR '':'' \<notin> set (dk_name k)" "\<forall>ns. dk_namespace k = Some ns \<longrightarrow> CHR '':'' \<notin> set ns"
  shows "from_solver_var (solver_var k) = (k :: dep_key)"
proof (cases "dk_namespace k")
  case None
  with assms show ?thesis
    by (simp add: solver_var_def from_solver_var_def no_dcolon dep_key_bare_def)
next
  case (Some ns)
  with assms(2) have "CHR '':'' \<notin> set ns" by simp
  then have "split_once_str ''::'' ns = None" "ns = [] \<or> last ns \<noteq> CHR '':''"
    using no_dcolon last_in_set by fastforce+
  from split_dcolon_append [OF this] Some show ?thesis
    by (simp add: solver_var_def from_solver_var_def)
qed

subsection \<open>Properties\<close>

text \<open>
  Solver variables and directory entries.  Over valid package names two dependency keys have
  the same solver variable only when they are equal, whatever the namespaces contain; a variable
  reads back as its key when the namespace has no colon; and the directory entries of keys with
  valid names are distinct.
\<close>

theorem dep_key_variables:
  assumes "valid_flag_name (dk_name k)" "valid_flag_name (dk_name j)"
  shows "(solver_var k = solver_var j \<longleftrightarrow> k = j) \<and>
    ((\<forall>ns. dk_namespace k = Some ns \<longrightarrow> CHR '':'' \<notin> set ns) \<longrightarrow>
      from_solver_var (solver_var k) = k) \<and>
    (dep_dir_name (dk_name k) (dk_namespace k) = dep_dir_name (dk_name j) (dk_namespace j) \<longleftrightarrow> k = j)"
proof -
  have c: "CHR '':'' \<notin> set (dk_name k)" "CHR '':'' \<notin> set (dk_name j)"
    "CHR ''/'' \<notin> set (dk_name k)" "CHR ''/'' \<notin> set (dk_name j)"
    "CHR ''@'' \<notin> set (dk_name k)" "CHR ''@'' \<notin> set (dk_name j)"
    using assms flag_name_chars by blast+
  have "k = j" if "dep_dir_name (dk_name k) (dk_namespace k) = dep_dir_name (dk_name j) (dk_namespace j)"
  proof (cases "dk_namespace k"; cases "dk_namespace j")
    fix ns ns'
    assume ns: "dk_namespace k = Some ns" "dk_namespace j = Some ns'"
    with that have "ns @ CHR ''/'' # dk_name k = ns' @ CHR ''/'' # dk_name j"
      by (simp add: dep_dir_name_def)
    with ns append_last_sep [OF c(3,4)] show ?thesis by simp
  qed (use c arg_cong [where f = "\<lambda>s. CHR ''@'' \<in> set s", OF that] that in
      \<open>auto simp: dep_dir_name_def\<close>)
  then show ?thesis
    using solver_var_inj [OF c(1,2)] solver_var_roundtrip [OF c(1)] by auto
qed

theorem dep_key_variables_witness:
  "from_solver_var (solver_var \<lparr>dk_name = ''foo'', dk_namespace = Some ''acme''\<rparr>) =
   \<lparr>dk_name = ''foo'', dk_namespace = Some ''acme''\<rparr>"
  using dep_key_variables [of "\<lparr>dk_name = ''foo'', dk_namespace = Some ''acme''\<rparr>" "dep_key_bare ''foo''"]
  by (simp add: valid_flag_name_def dep_key_bare_def is_alnum_def is_alpha_def)

end
