(* ===== verification/SourceId.thy ===== *)
theory SourceId
  imports Types
begin

text \<open>
  \<^verbatim>\<open>milpa-core/src/source_id.rs\<close>: the one-way key \<^verbatim>\<open>canonical\<close> of a source, the field fences, the
  git-source equality \<^verbatim>\<open>normalize_git_url\<close> and the validation boundary \<^verbatim>\<open>normalize_source\<close>.
  Rust's Unicode \<^verbatim>\<open>str::to_lowercase\<close> is the argument \<open>lower\<close>; what is relied on is
  \<open>lowercase_like\<close>.  The main facts: on which validated values the key is injective, and which
  spellings of a git url are one source.
\<close>

subsection \<open>The canonical key\<close>

definition subdir_suffix :: "string option \<Rightarrow> string" where
  "subdir_suffix sp = (case sp of None \<Rightarrow> [] | Some p \<Rightarrow> ''#subdirectory='' @ p)"

definition ref_suffix :: "string option \<Rightarrow> string" where
  "ref_suffix r = (case r of None \<Rightarrow> [] | Some x \<Rightarrow> ''#ref='' @ x)"

definition digest_suffix :: "string option \<Rightarrow> string" where
  "digest_suffix d = (case d of None \<Rightarrow> [] | Some x \<Rightarrow> ''#digest='' @ x)"

fun canonical :: "source_id \<Rightarrow> string" where
  "canonical (Fetchable (Git url r sp)) = ''git+'' @ url @ ref_suffix r @ subdir_suffix sp"
| "canonical (Fetchable (Tarball url sp)) = ''tar+'' @ url @ subdir_suffix sp"
| "canonical (Fetchable (Oci reg repo d sp)) =
     ''oci+'' @ reg @ ''/'' @ repo @ digest_suffix d @ subdir_suffix sp"
| "canonical (Fetchable (Local p)) = ''file+'' @ p"
| "canonical (Fetchable (Registry reg ns n)) =
     (case ns of None \<Rightarrow> ''pkg+'' @ reg @ ''/'' @ n | Some s \<Rightarrow> ''pkg+'' @ reg @ ''/'' @ s @ ''/'' @ n)"
| "canonical (Member n) = ''member+'' @ n"

subsection \<open>Field fences\<close>

definition git_default_port :: "string \<Rightarrow> u16 option" where
  "git_default_port scheme =
     (if scheme = ''https'' then Some 443
      else if scheme = ''http'' then Some 80
      else if scheme = ''ssh'' then Some 22
      else if scheme = ''git'' then Some 9418
      else None)"

definition validate_subpath :: "string \<Rightarrow> bool" where
  "validate_subpath sp \<longleftrightarrow>
     sp \<noteq> [] \<and> \<not> starts_with ''/'' sp \<and> \<not> list_ex (\<lambda>seg. seg = ''..'') (split_on CHR ''/'' sp)"

definition validate_no_delim_collision :: "string \<Rightarrow> bool" where
  "validate_no_delim_collision base \<longleftrightarrow> \<not> contains_str ''#subdirectory='' base"

definition validate_registry_component :: "string \<Rightarrow> bool" where
  "validate_registry_component v \<longleftrightarrow> valid_flag_name v"

definition validate_no_unsafe_char :: "string \<Rightarrow> bool" where
  "validate_no_unsafe_char v \<longleftrightarrow> \<not> contains_unsafe_char v"

definition validate_namespace :: "string \<Rightarrow> bool" where
  "validate_namespace ns \<longleftrightarrow>
     list_all (\<lambda>seg. seg \<noteq> [] \<and> seg \<noteq> ''..'' \<and> validate_no_unsafe_char seg) (split_on CHR ''/'' ns)"

subsection \<open>Git url equality\<close>

text \<open>\<^verbatim>\<open>str::parse::<u16>\<close>: an optional plus sign, then digits, within range.\<close>

definition parse_u16 :: "string \<Rightarrow> u16 option" where
  "parse_u16 s =
     (let t = (case strip_prefix ''+'' s of Some r \<Rightarrow> r | None \<Rightarrow> s)
      in if t = [] \<or> \<not> list_all is_digit t then None else word_of_dec t)"

text \<open>Host and port of an authority without its userinfo; brackets enclose an IPv6 literal.\<close>

definition split_host_port :: "string \<Rightarrow> string \<times> string option" where
  "split_host_port hp =
     (case strip_prefix ''['' hp of
        Some rest \<Rightarrow>
          (case split_once CHR '']'' rest of
             Some (inside, after) \<Rightarrow> (''['' @ inside @ '']'', strip_prefix '':'' after)
           | None \<Rightarrow> (hp, None))
      | None \<Rightarrow>
          (case rsplit_once CHR '':'' hp of
             Some (h, p) \<Rightarrow> (h, Some p)
           | None \<Rightarrow> (hp, None)))"

definition netloc :: "(string \<Rightarrow> string) \<Rightarrow> string \<Rightarrow> string \<Rightarrow> string" where
  "netloc lower scheme authority =
     (let hp = (case rsplit_once CHR ''@'' authority of Some (_, h) \<Rightarrow> h | None \<Rightarrow> authority);
          (host, port) = split_host_port hp;
          host_lower = lower host
      in case Option.bind port parse_u16 of
           Some p \<Rightarrow> if Some p \<noteq> git_default_port scheme
                     then host_lower @ '':'' @ dec_of_word p else host_lower
         | None \<Rightarrow> host_lower)"

definition strip_or_same :: "string \<Rightarrow> string \<Rightarrow> string" where
  "strip_or_same suf s = (case strip_suffix suf s of Some r \<Rightarrow> r | None \<Rightarrow> s)"

text \<open>Everything from the first question mark on is dropped; the path starts at the first slash.\<close>

definition strip_query :: "string \<Rightarrow> string" where
  "strip_query rest = (case split_once CHR ''?'' rest of Some (r, _) \<Rightarrow> r | None \<Rightarrow> rest)"

definition split_path :: "string \<Rightarrow> string \<times> string" where
  "split_path rest =
     (case split_once CHR ''/'' rest of Some (a, p) \<Rightarrow> (a, ''/'' @ p) | None \<Rightarrow> (rest, []))"

definition normalize_git_url :: "(string \<Rightarrow> string) \<Rightarrow> string \<Rightarrow> string" where
  "normalize_git_url lower url =
     (let s = strip_or_same ''.git'' (strip_or_same ''/'' (trim url))
      in case split_once_str ''://'' s of
           None \<Rightarrow> lower s
         | Some (sch, rest) \<Rightarrow>
             let scheme = lower sch; (authority, path) = split_path (strip_query rest)
             in scheme @ ''://'' @ netloc lower scheme authority @ path)"

subsection \<open>The validation boundary\<close>

text \<open>Every refusal carries the one slug \<^verbatim>\<open>SRC-ID-MALFORMED\<close>.\<close>

definition malformed :: string where
  "malformed = ''SRC-ID-MALFORMED''"

definition opt_ok :: "('a \<Rightarrow> bool) \<Rightarrow> 'a option \<Rightarrow> bool" where
  "opt_ok P x \<longleftrightarrow> (case x of None \<Rightarrow> True | Some y \<Rightarrow> P y)"

fun normalize_source :: "(string \<Rightarrow> string) \<Rightarrow> source_id \<Rightarrow> string + source_id" where
  "normalize_source lower (Fetchable (Git url r sp)) =
     (if CHR ''#'' \<in> set url then Inl malformed
      else let n = normalize_git_url lower url
        in if \<not> validate_no_unsafe_char n then Inl malformed
           else if \<not> validate_no_delim_collision n then Inl malformed
           else if \<not> opt_ok validate_subpath sp then Inl malformed
           else if \<not> opt_ok (\<lambda>x. CHR ''#'' \<notin> set x \<and> validate_no_unsafe_char x) r then Inl malformed
           else Inr (Fetchable (Git n r sp)))"
| "normalize_source lower (Fetchable (Oci reg repo d sp)) =
     (if CHR ''/'' \<in> set reg then Inl malformed
      else if \<not> validate_no_unsafe_char reg then Inl malformed
      else if \<not> validate_no_unsafe_char repo then Inl malformed
      else if \<not> validate_no_delim_collision (reg @ ''/'' @ repo) then Inl malformed
      else if \<not> opt_ok validate_subpath sp then Inl malformed
      else if \<not> opt_ok (\<lambda>x. CHR ''#'' \<notin> set x) d then Inl malformed
      else Inr (Fetchable (Oci reg repo d sp)))"
| "normalize_source lower (Fetchable (Tarball url sp)) =
     (if \<not> validate_no_unsafe_char url then Inl malformed
      else if \<not> validate_no_delim_collision url then Inl malformed
      else if \<not> opt_ok validate_subpath sp then Inl malformed
      else Inr (Fetchable (Tarball url sp)))"
| "normalize_source lower (Fetchable (Local p)) =
     (if \<not> validate_no_unsafe_char p then Inl malformed else Inr (Fetchable (Local p)))"
| "normalize_source lower (Fetchable (Registry reg ns n)) =
     (if \<not> validate_registry_component reg then Inl malformed
      else if \<not> opt_ok validate_namespace ns then Inl malformed
      else if \<not> validate_registry_component n then Inl malformed
      else Inr (Fetchable (Registry reg ns n)))"
| "normalize_source lower (Member n) = Inr (Member n)"

text \<open>
  What is relied on of \<^verbatim>\<open>to_lowercase\<close>: on ASCII text it maps the capital letters to the small ones,
  and it brings in no number sign.
\<close>

definition lowercase_like :: "(string \<Rightarrow> string) \<Rightarrow> bool" where
  "lowercase_like lower \<longleftrightarrow>
     (\<forall>s. list_all (\<lambda>c. byte c < 128) s \<longrightarrow> lower s = ascii_lower s) \<and>
     (\<forall>s. CHR ''#'' \<notin> set s \<longrightarrow> CHR ''#'' \<notin> set (lower s))"

lemma ascii_lowercase_like: "lowercase_like ascii_lower"
proof -
  have "char_of (n + 32) \<noteq> CHR ''#''" if "65 \<le> n" "n \<le> 90" for n :: nat
  proof
    assume "char_of (n + 32) = CHR ''#''"
    then have "byte (char_of (n + 32)) = byte (CHR ''#'')" by simp
    with that show False by simp
  qed
  then have "CHR ''#'' \<notin> set (ascii_lower s)" if "CHR ''#'' \<notin> set s" for s
    using that by (auto simp: ascii_lower_def) metis
  then show ?thesis by (simp add: lowercase_like_def)
qed

subsection \<open>Injectivity of the key\<close>

text \<open>A pattern whose first character does not recur in it is found exactly where it was put.\<close>

lemma split_once_str_fresh:
  assumes "d \<notin> set q" "split_once_str (d # q) u = None"
  shows "split_once_str (d # q) (u @ (d # q) @ t) = Some (u, t)"
  using assms(2)
proof (induction u)
  case Nil
  have "strip_prefix (d # q) ((d # q) @ t) = Some t" by (rule strip_prefix_append)
  then show ?case by simp
next
  case (Cons c u)
  have "strip_prefix (d # q) ((c # u) @ (d # q) @ t) = None"
  proof (rule ccontr)
    assume "strip_prefix (d # q) ((c # u) @ (d # q) @ t) \<noteq> None"
    then obtain r where "strip_prefix (d # q) ((c # u) @ (d # q) @ t) = Some r" by blast
    then have eq: "(c # u) @ (d # q) @ t = (d # q) @ r" by (simp only: strip_prefix_Some)
    then have "u @ (d # q @ t) = q @ r" by simp
    then obtain z where "u = q @ z \<or> (u @ z = q \<and> d # q @ t = z @ r)"
      unfolding append_eq_append_conv2 by blast
    then have "\<exists>z. u = q @ z"
    proof
      assume z: "u @ z = q \<and> d # q @ t = z @ r"
      with assms(1) have "z = []" by (cases z) auto
      with z show ?thesis by auto
    qed auto
    with eq have "strip_prefix (d # q) (c # u) \<noteq> None" by (auto simp: strip_prefix_append)
    with Cons.prems show False by (auto split: option.splits)
  qed
  with Cons show ?case by (auto split: option.splits)
qed

lemma subdir_split:
  assumes "\<not> contains_str ''#subdirectory='' u"
  shows "split_once_str ''#subdirectory='' (u @ subdir_suffix sp) =
    (case sp of None \<Rightarrow> None | Some p \<Rightarrow> Some (u, p))"
proof -
  have none: "split_once_str ''#subdirectory='' u = None"
    using assms unfolding contains_str_def by blast
  have "split_once_str ''#subdirectory='' (u @ ''#subdirectory='' @ p) = Some (u, p)" for p
    using split_once_str_fresh [of "CHR ''#''" "''subdirectory=''" u p] none by simp
  with none show ?thesis by (cases sp) (simp_all add: subdir_suffix_def)
qed

lemma subdir_inj:
  assumes "\<not> contains_str ''#subdirectory='' u" "\<not> contains_str ''#subdirectory='' v"
    "u @ subdir_suffix sp = v @ subdir_suffix sq"
  shows "u = v \<and> sp = sq"
  using assms subdir_split [OF assms(1), of sp] subdir_split [OF assms(2), of sq]
  by (cases sp; cases sq) (auto simp: subdir_suffix_def)

text \<open>A first suffix introduced by a number sign, then the subpath suffix.\<close>

definition tagged :: "string \<Rightarrow> string option \<Rightarrow> string" where
  "tagged tag x = (case x of None \<Rightarrow> [] | Some y \<Rightarrow> CHR ''#'' # tag @ ''='' @ y)"

lemma suffixes_tagged:
  "ref_suffix r = tagged ''ref'' r" "digest_suffix d = tagged ''digest'' d"
  by (auto simp: tagged_def ref_suffix_def digest_suffix_def split: option.splits)

text \<open>Without a tag, the text after the number sign starts as the subpath tag does.\<close>

lemma tagged_inj:
  assumes tag: "tag \<noteq> []" "hd tag \<noteq> CHR ''s''"
    and u: "CHR ''#'' \<notin> set u" "CHR ''#'' \<notin> set v"
    and x: "opt_ok (\<lambda>x. CHR ''#'' \<notin> set x) x" "opt_ok (\<lambda>x. CHR ''#'' \<notin> set x) y"
    and eq: "u @ tagged tag x @ subdir_suffix sp = v @ tagged tag y @ subdir_suffix sq"
  shows "u = v \<and> x = y \<and> sp = sq"
proof -
  have cut: "u = v \<and> a = b" if "a = [] \<or> hd a = CHR ''#''" "b = [] \<or> hd b = CHR ''#''" "u @ a = v @ b" for a b
  proof (cases a)
    case Nil
    with that u show ?thesis by (cases b) auto
  next
    case (Cons c a')
    with that u show ?thesis by (cases b) (auto simp: append_sep_eq)
  qed
  have hash: "tagged tag x @ subdir_suffix sp = [] \<or> hd (tagged tag x @ subdir_suffix sp) = CHR ''#''" for x sp
    by (cases x; cases sp) (auto simp: tagged_def subdir_suffix_def)
  have uv: "u = v" and rest: "tagged tag x @ subdir_suffix sp = tagged tag y @ subdir_suffix sq"
    using cut [OF hash hash eq] by auto
  obtain t ts where t: "tag = t # ts" "t \<noteq> CHR ''s''" using tag by (cases tag) auto
  show ?thesis
  proof (cases x; cases y)
    assume "x = None" "y = None"
    with uv rest show ?thesis by (cases sp; cases sq) (auto simp: tagged_def subdir_suffix_def)
  next
    fix y' assume "x = None" "y = Some y'"
    with rest t show ?thesis by (cases sp) (auto simp: tagged_def subdir_suffix_def)
  next
    fix x' assume "x = Some x'" "y = None"
    with rest t show ?thesis by (cases sq) (auto simp: tagged_def subdir_suffix_def)
  next
    fix x' y' assume some: "x = Some x'" "y = Some y'"
    with rest have "x' @ subdir_suffix sp = y' @ subdir_suffix sq" by (simp add: tagged_def)
    moreover have "CHR ''#'' \<notin> set x'" "CHR ''#'' \<notin> set y'" using x some by (auto simp: opt_ok_def)
    ultimately show ?thesis
      using uv some
      by (cases sp; cases sq) (auto simp: subdir_suffix_def append_sep_eq dest: arg_cong [where f = set])
  qed
qed

text \<open>The fields of a validated value, as the key's injectivity needs them.\<close>

fun fields_ok :: "source_id \<Rightarrow> bool" where
  "fields_ok (Fetchable (Git url r sp)) \<longleftrightarrow> CHR ''#'' \<notin> set url \<and> opt_ok (\<lambda>x. CHR ''#'' \<notin> set x) r"
| "fields_ok (Fetchable (Oci reg repo d sp)) \<longleftrightarrow>
     CHR ''/'' \<notin> set reg \<and> CHR ''#'' \<notin> set repo \<and> opt_ok (\<lambda>x. CHR ''#'' \<notin> set x) d"
| "fields_ok (Fetchable (Tarball url sp)) \<longleftrightarrow> \<not> contains_str ''#subdirectory='' url"
| "fields_ok (Fetchable (Registry reg ns n)) \<longleftrightarrow>
     CHR ''/'' \<notin> set reg \<and> CHR ''/'' \<notin> set n"
| "fields_ok _ \<longleftrightarrow> True"

lemma registry_inj:
  assumes "CHR ''/'' \<notin> set a" "CHR ''/'' \<notin> set b" "CHR ''/'' \<notin> set m" "CHR ''/'' \<notin> set n"
    and "a @ ''/'' @ (case ns of None \<Rightarrow> m | Some s \<Rightarrow> s @ ''/'' @ m) =
         b @ ''/'' @ (case ns' of None \<Rightarrow> n | Some s \<Rightarrow> s @ ''/'' @ n)"
  shows "a = b \<and> ns = ns' \<and> m = n"
proof -
  have ab: "a = b" and rest: "(case ns of None \<Rightarrow> m | Some s \<Rightarrow> s @ ''/'' @ m) =
      (case ns' of None \<Rightarrow> n | Some s \<Rightarrow> s @ ''/'' @ n)"
    using assms by (simp_all add: append_sep_eq)
  show ?thesis
    using ab rest assms(3,4)
    by (cases ns; cases ns') (auto simp: append_last_sep)
qed

lemma fields_inj:
  assumes "fields_ok x" "fields_ok y" "canonical x = canonical y"
  shows "x = y"
  using assms
proof (cases x rule: canonical.cases)
  case (1 url r sp)
  with assms obtain url' r' sp' where y: "y = Fetchable (Git url' r' sp')"
    by (cases y rule: canonical.cases) (auto split: option.splits)
  with 1 assms show ?thesis
    using tagged_inj [of "''ref''" url url' r r' sp sp'] by (simp add: suffixes_tagged)
next
  case (2 url sp)
  with assms obtain url' sp' where y: "y = Fetchable (Tarball url' sp')"
    by (cases y rule: canonical.cases) (auto split: option.splits)
  with 2 assms show ?thesis using subdir_inj [of url url' sp sp'] by simp
next
  case (3 reg repo d sp)
  with assms obtain reg' repo' d' sp' where y: "y = Fetchable (Oci reg' repo' d' sp')"
    by (cases y rule: canonical.cases) (auto split: option.splits)
  with 3 assms have "reg = reg' \<and> repo @ tagged ''digest'' d @ subdir_suffix sp =
      repo' @ tagged ''digest'' d' @ subdir_suffix sp'"
    by (simp add: suffixes_tagged append_sep_eq)
  with 3 y assms show ?thesis
    using tagged_inj [of "''digest''" repo repo' d d' sp sp'] by simp
next
  case (4 p)
  with assms show ?thesis by (cases y rule: canonical.cases) (auto split: option.splits)
next
  case (5 reg ns n)
  with assms obtain reg' ns' n' where y: "y = Fetchable (Registry reg' ns' n')"
    by (cases y rule: canonical.cases) (auto split: option.splits)
  have "canonical (Fetchable (Registry a b c)) = ''pkg+'' @ a @ ''/'' @ (case b of None \<Rightarrow> c | Some s \<Rightarrow> s @ ''/'' @ c)"
    for a b c by (simp split: option.splits)
  with 5 y assms show ?thesis using registry_inj [of reg reg' n n' ns ns'] by simp
next
  case (6 n)
  with assms show ?thesis by (cases y rule: canonical.cases) (auto split: option.splits)
qed

subsection \<open>What validation establishes\<close>

lemma set_strip_or_same: "set (strip_or_same p s) \<subseteq> set s"
  by (auto simp: strip_or_same_def strip_suffix_Some split: option.splits)

lemma split_once_sets:
  "split_once d s = Some (a, b) \<Longrightarrow> set a \<subseteq> set s \<and> set b \<subseteq> set s"
  "rsplit_once d s = Some (a, b) \<Longrightarrow> set a \<subseteq> set s \<and> set b \<subseteq> set s"
  "split_once_str p s = Some (a, b) \<Longrightarrow> set a \<subseteq> set s \<and> set b \<subseteq> set s"
  by (auto simp: rsplit_once_Some split_once_Some dest!: split_once_str_sound)

lemma set_host: "set (fst (split_host_port hp)) \<subseteq> set hp"
proof (cases "strip_prefix ''['' hp")
  case None
  then show ?thesis
    using split_once_sets(2) by (auto simp: split_host_port_def split: option.splits)
next
  case (Some rest)
  then have hp: "hp = CHR ''['' # rest" by (simp add: strip_prefix_Some)
  show ?thesis
  proof (cases "split_once CHR '']'' rest")
    case None
    with Some show ?thesis by (simp add: split_host_port_def)
  next
    case split: (Some q)
    obtain i a where "q = (i, a)" by (cases q)
    with split have "rest = i @ CHR '']'' # a" by (simp add: split_once_Some)
    with Some split \<open>q = (i, a)\<close> hp show ?thesis by (auto simp: split_host_port_def)
  qed
qed

lemma netloc_no_hash:
  assumes "lowercase_like lower" "CHR ''#'' \<notin> set a"
  shows "CHR ''#'' \<notin> set (netloc lower scheme a)"
proof -
  define hp where "hp = (case rsplit_once CHR ''@'' a of Some (_, h) \<Rightarrow> h | None \<Rightarrow> a)"
  obtain host port where split: "split_host_port hp = (host, port)" by (cases "split_host_port hp")
  have "set hp \<subseteq> set a" using split_once_sets(2) by (auto simp: hp_def split: option.splits)
  with set_host [of hp] split assms have "CHR ''#'' \<notin> set (lower host)"
    by (auto simp: lowercase_like_def)
  moreover have "CHR ''#'' \<notin> set (dec_of_word w)" for w :: u16
    by (rule not_in_dec) (simp add: is_digit_def)
  ultimately show ?thesis
    by (auto simp: netloc_def hp_def [symmetric] split Let_def split: option.splits)
qed

lemma normalize_git_no_hash:
  assumes lower: "lowercase_like lower" and url: "CHR ''#'' \<notin> set url"
  shows "CHR ''#'' \<notin> set (normalize_git_url lower url)"
proof -
  define s where "s = strip_or_same ''.git'' (strip_or_same ''/'' (trim url))"
  have s: "CHR ''#'' \<notin> set s"
    using url set_trim [of url] set_strip_or_same unfolding s_def by blast
  have l: "CHR ''#'' \<notin> set t \<Longrightarrow> CHR ''#'' \<notin> set (lower t)" for t
    using lower by (simp add: lowercase_like_def)
  show ?thesis
  proof (cases "split_once_str ''://'' s")
    case None
    with s l show ?thesis by (simp add: normalize_git_url_def s_def [symmetric])
  next
    case (Some p)
    obtain sch rest where p: "p = (sch, rest)" by (cases p)
    with Some s have parts: "CHR ''#'' \<notin> set sch" "CHR ''#'' \<notin> set rest"
      using split_once_sets(3) by fastforce+
    have r': "CHR ''#'' \<notin> set (strip_query rest)"
      using parts(2) split_once_sets(1) by (fastforce simp: strip_query_def split: option.splits)
    obtain au pa where ap: "split_path (strip_query rest) = (au, pa)" by fastforce
    with r' have "CHR ''#'' \<notin> set au" "CHR ''#'' \<notin> set pa"
      using split_once_sets(1) by (fastforce simp: split_path_def split: option.splits)+
    with parts l netloc_no_hash [OF lower] show ?thesis
      using Some p ap by (simp add: normalize_git_url_def s_def [symmetric] Let_def)
  qed
qed

text \<open>The one field the boundary leaves open.\<close>

fun oci_clean :: "source_id \<Rightarrow> bool" where
  "oci_clean (Fetchable (Oci reg repo d sp)) \<longleftrightarrow> CHR ''#'' \<notin> set repo"
| "oci_clean _ \<longleftrightarrow> True"

lemma flag_name_no_slash: "valid_flag_name s \<Longrightarrow> CHR ''/'' \<notin> set s"
  using flag_name_chars by blast

lemma normalize_fields:
  assumes "lowercase_like lower" "normalize_source lower raw = Inr x" "oci_clean x"
  shows "fields_ok x"
proof (cases raw rule: canonical.cases)
  case (1 url r sp)
  with assms(2) have "CHR ''#'' \<notin> set url" "x = Fetchable (Git (normalize_git_url lower url) r sp)"
    "opt_ok (\<lambda>x. CHR ''#'' \<notin> set x \<and> validate_no_unsafe_char x) r"
    by (auto simp: Let_def split: if_splits)
  with normalize_git_no_hash [OF assms(1)] show ?thesis by (auto simp: opt_ok_def split: option.splits)
qed (use assms(2,3) in \<open>auto simp: validate_no_delim_collision_def validate_registry_component_def
      flag_name_no_slash split: if_splits\<close>)

subsection \<open>Spellings of one git source\<close>

lemma no_head_no_match: "d \<notin> set u \<Longrightarrow> split_once_str (d # q) u = None"
  by (induction u) auto

lemma netloc_default_port:
  assumes "CHR ''@'' \<notin> set h" "CHR '':'' \<notin> set h" "CHR ''['' \<notin> set h"
    "git_default_port scheme = Some d"
  shows "netloc lower scheme (u @ ''@'' @ h @ '':'' @ dec_of_word d) = lower h"
    "netloc lower scheme h = lower h"
proof -
  have dec: "CHR ''@'' \<notin> set (dec_of_word d)" "CHR '':'' \<notin> set (dec_of_word d)"
    by (simp_all add: not_in_dec is_digit_def)
  have at: "rsplit_once CHR ''@'' (u @ ''@'' @ h @ '':'' @ dec_of_word d) =
      Some (u, h @ '':'' @ dec_of_word d)"
    using assms(1) dec by (simp add: rsplit_once_Some)
  have open_br: "strip_prefix ''['' (h @ t) = None" if "t = [] \<or> hd t \<noteq> CHR ''[''" for t
    using assms(3) that by (cases h; cases t) auto
  have colon: "rsplit_once CHR '':'' (h @ '':'' @ dec_of_word d) = Some (h, dec_of_word d)"
    using dec by (simp add: rsplit_once_Some)
  have "strip_prefix ''+'' (dec_of_word d) = None"
    using dec_word_digits [of "hd (dec_of_word d)" d]
    by (cases "dec_of_word d") (auto simp: is_digit_def)
  then have "parse_u16 (dec_of_word d) = Some d"
    by (auto simp: parse_u16_def list_all_iff Let_def dest: dec_word_digits)
  then show "netloc lower scheme (u @ ''@'' @ h @ '':'' @ dec_of_word d) = lower h"
    using at open_br [of "'':'' @ dec_of_word d"] colon assms(4)
    by (simp add: netloc_def split_host_port_def)
  show "netloc lower scheme h = lower h"
    using assms open_br [of "[]"]
    by (simp add: netloc_def split_host_port_def rsplit_once_None [THEN iffD2])
qed

lemma strip_git_path:
  assumes "strip_suffix ''.git'' p = None"
  shows "strip_suffix ''.git'' (x @ ''/'' @ p) = None"
proof (rule ccontr)
  assume "strip_suffix ''.git'' (x @ ''/'' @ p) \<noteq> None"
  then obtain r where "(x @ ''/'') @ p = r @ ''.git''" by (auto simp: strip_suffix_Some)
  then obtain z where "(x @ ''/'' = r @ z \<and> z @ p = ''.git'') \<or> ((x @ ''/'') @ z = r \<and> p = z @ ''.git'')"
    unfolding append_eq_append_conv2 by blast
  then show False
  proof
    assume z: "x @ ''/'' = r @ z \<and> z @ p = ''.git''"
    show False
    proof (cases z rule: rev_cases)
      case Nil
      with z have "strip_suffix ''.git'' p = Some []" by (simp add: strip_suffix_Some)
      with assms show False by simp
    next
      case (snoc ys y)
      have "last (x @ ''/'') = last (r @ z)" using z by simp
      with snoc have "CHR ''/'' \<in> set (z @ p)" by simp
      moreover have "CHR ''/'' \<notin> set (z @ p)" unfolding conjunct2 [OF z] by simp
      ultimately show False by contradiction
    qed
  next
    assume "(x @ ''/'') @ z = r \<and> p = z @ ''.git''"
    then have "strip_suffix ''.git'' p = Some z" by (simp add: strip_suffix_Some)
    with assms show False by simp
  qed
qed

lemma normalize_parts:
  assumes "trim url = url" "strip_or_same ''.git'' (strip_or_same ''/'' url) = sc @ ''://'' @ au @ ''/'' @ p"
    "CHR '':'' \<notin> set sc" "CHR ''?'' \<notin> set au" "CHR ''?'' \<notin> set p" "CHR ''/'' \<notin> set au"
  shows "normalize_git_url lower url = lower sc @ ''://'' @ netloc lower (lower sc) au @ ''/'' @ p"
proof -
  have "split_once_str ''://'' (sc @ ''://'' @ au @ ''/'' @ p) = Some (sc, au @ ''/'' @ p)"
    using split_once_str_fresh [of "CHR '':''" "''//''" sc "au @ ''/'' @ p"] no_head_no_match [OF assms(3)]
    by simp
  moreover have "strip_query (au @ ''/'' @ p) = au @ ''/'' @ p"
    using assms(4,5) by (simp add: strip_query_def split_once_None [THEN iffD2])
  moreover have "split_path (au @ ''/'' @ p) = (au, ''/'' @ p)"
    using assms(6) split_once_append [of "CHR ''/''" au p] by (simp add: split_path_def)
  ultimately show ?thesis
    using assms(1,2) by (simp add: normalize_git_url_def Let_def)
qed

subsection \<open>Properties\<close>

text \<open>
  C15. The key identifies the source.  Two values that passed the validation boundary have the
  same canonical key exactly when they are equal, provided an OCI repository, the one field the
  boundary does not fence against the delimiter, has no number sign.
\<close>

theorem canonical_injective:
  assumes "lowercase_like lower" "normalize_source lower a = Inr x" "normalize_source lower b = Inr y"
    "oci_clean x" "oci_clean y"
  shows "canonical x = canonical y \<longleftrightarrow> x = y"
  using assms normalize_fields fields_inj by blast

theorem canonical_injective_witness:
  "canonical (Fetchable (Tarball ''u'' None)) \<noteq> canonical (Fetchable (Tarball ''u'' (Some ''s'')))"
  using canonical_injective [OF ascii_lowercase_like,
      of "Fetchable (Tarball ''u'' None)" "Fetchable (Tarball ''u'' None)"
        "Fetchable (Tarball ''u'' (Some ''s''))" "Fetchable (Tarball ''u'' (Some ''s''))"]
  by (simp add: validate_no_unsafe_char_def validate_no_delim_collision_def contains_str_def
      opt_ok_def validate_subpath_def starts_with_def)

text \<open>
  Without that proviso the key is not injective: two OCI pins that both pass the validation
  boundary, one naming its digest inside the repository, share their canonical key.
\<close>

theorem canonical_oci_collision:
  "\<exists>a b. normalize_source lower a = Inr a \<and> normalize_source lower b = Inr b \<and>
     a \<noteq> b \<and> canonical a = canonical b"
proof -
  let ?a = "Fetchable (Oci ''h'' ''r#digest=x'' None None)"
    and ?b = "Fetchable (Oci ''h'' ''r'' (Some ''x'') None)"
  have "normalize_source lower ?a = Inr ?a" "normalize_source lower ?b = Inr ?b"
    by (simp_all add: validate_no_unsafe_char_def validate_no_delim_collision_def contains_str_def
        opt_ok_def)
  moreover have "canonical ?a = canonical ?b"
    by (simp add: digest_suffix_def subdir_suffix_def)
  ultimately show ?thesis by blast
qed

text \<open>
  The git-source equality: credentials, the scheme's default port, a trailing \<^verbatim>\<open>.git\<close> and a
  trailing slash do not distinguish two spellings of a url, and the common form keeps the case
  of the path.
\<close>

theorem git_url_spellings:
  assumes "git_default_port (lower sc) = Some d" "list_all plain sc" "sc \<noteq> []" "CHR '':'' \<notin> set sc"
    and "\<forall>c \<in> set u. c \<noteq> CHR ''/'' \<and> c \<noteq> CHR ''?''"
    and "\<forall>c \<in> set h. c \<notin> set ''/?@:[''"
    and "p \<noteq> []" "plain (last p)" "last p \<noteq> CHR ''/''" "CHR ''?'' \<notin> set p" "strip_suffix ''.git'' p = None"
  shows "normalize_git_url lower (sc @ ''://'' @ u @ ''@'' @ h @ '':'' @ dec_of_word d @ ''/'' @ p @ ''.git/'') =
      lower sc @ ''://'' @ lower h @ ''/'' @ p \<and>
    normalize_git_url lower (sc @ ''://'' @ h @ ''/'' @ p) = lower sc @ ''://'' @ lower h @ ''/'' @ p"
proof
  have dec: "c \<notin> set (dec_of_word d)" if "c \<in> set ''/?''" for c
    using that by (auto simp: not_in_dec is_digit_def)
  have hd_sc: "plain (hd sc)" using assms(2,3) by (cases sc) auto
  have hosts: "CHR ''@'' \<notin> set h" "CHR '':'' \<notin> set h" "CHR ''['' \<notin> set h" "CHR ''/'' \<notin> set h" "CHR ''?'' \<notin> set h"
    using assms(6) by auto
  let ?au = "u @ ''@'' @ h @ '':'' @ dec_of_word d"
  let ?url = "sc @ ''://'' @ ?au @ ''/'' @ p @ ''.git/''"
  have au: "CHR ''?'' \<notin> set ?au" "CHR ''/'' \<notin> set ?au"
    using assms(5) hosts dec by auto
  have "trim ?url = ?url" using hd_sc assms(3) by (intro trim_plain) (simp_all add: plain_def)
  moreover have "strip_or_same ''/'' ?url = sc @ ''://'' @ ?au @ ''/'' @ p @ ''.git''"
    using strip_suffix_Some [of "''/''" ?url "sc @ ''://'' @ ?au @ ''/'' @ p @ ''.git''"]
    by (simp add: strip_or_same_def)
  moreover have "strip_or_same ''.git'' (sc @ ''://'' @ ?au @ ''/'' @ p @ ''.git'') = sc @ ''://'' @ ?au @ ''/'' @ p"
    using strip_suffix_Some [of "''.git''" "sc @ ''://'' @ ?au @ ''/'' @ p @ ''.git''" "sc @ ''://'' @ ?au @ ''/'' @ p"]
    by (simp add: strip_or_same_def)
  ultimately have "normalize_git_url lower ?url = lower sc @ ''://'' @ netloc lower (lower sc) ?au @ ''/'' @ p"
    using assms(4,10) au by (intro normalize_parts) simp_all
  then show "normalize_git_url lower (sc @ ''://'' @ u @ ''@'' @ h @ '':'' @ dec_of_word d @ ''/'' @ p @ ''.git/'') =
      lower sc @ ''://'' @ lower h @ ''/'' @ p"
    using netloc_default_port(1) [OF hosts(1-3) assms(1)] by simp
  let ?plain = "sc @ ''://'' @ h @ ''/'' @ p"
  have "trim ?plain = ?plain" using hd_sc assms(3,7,8) by (intro trim_plain) simp_all
  moreover have "strip_suffix ''/'' ?plain = None"
  proof (rule ccontr)
    assume "strip_suffix ''/'' ?plain \<noteq> None"
    then obtain r where "?plain = r @ ''/''" by (auto simp: strip_suffix_Some)
    then have "last ?plain = CHR ''/''" by simp
    with assms(7,9) show False by simp
  qed
  moreover have "strip_suffix ''.git'' ?plain = None"
    using strip_git_path [OF assms(11), of "sc @ ''://'' @ h"] by simp
  ultimately have "normalize_git_url lower ?plain = lower sc @ ''://'' @ netloc lower (lower sc) h @ ''/'' @ p"
    using assms(4,10) hosts by (intro normalize_parts) (simp_all add: strip_or_same_def)
  then show "normalize_git_url lower ?plain = lower sc @ ''://'' @ lower h @ ''/'' @ p"
    using netloc_default_port(2) [OF hosts(1-3) assms(1)] by simp
qed

lemma lower_ascii: "lowercase_like lower \<Longrightarrow> list_all (\<lambda>c. byte c < 128) s \<Longrightarrow> lower s = ascii_lower s"
  by (simp add: lowercase_like_def)

lemma ascii_lower_simps [simp]:
  "ascii_lower [] = []"
  "ascii_lower (c # s) = (if 65 \<le> byte c \<and> byte c \<le> 90 then char_of (byte c + 32) else c) # ascii_lower s"
  by (simp_all add: ascii_lower_def)

theorem git_url_spellings_witness:
  "normalize_git_url ascii_lower (''https://'' @ ''me'' @ ''@'' @ ''git.example'' @ '':'' @ dec_of_word (443 :: u16) @ ''/'' @ ''Org/repo'' @ ''.git/'') =
   ''https://git.example/Org/repo''"
  using git_url_spellings [of ascii_lower "''https''" 443 "''me''" "''git.example''" "''Org/repo''"]
  by (simp add: git_default_port_def plain_def strip_suffix_def)

text \<open>
  A query is identity-bearing after all when the path ends in \<^verbatim>\<open>.git\<close>: the suffix is stripped
  before the query, so the url with a query keeps the suffix that the url without it loses.
\<close>

theorem git_query_distinguishes:
  assumes "lowercase_like lower"
  shows "normalize_git_url lower ''https://h/r.git?x'' \<noteq> normalize_git_url lower ''https://h/r.git''"
proof -
  have t: "trim ''https://h/r.git?x'' = ''https://h/r.git?x''" "trim ''https://h/r.git'' = ''https://h/r.git''"
    by (rule trim_plain; simp add: plain_def)+
  have l: "lower ''https'' = ''https''" "lower ''h'' = ''h''"
    using lower_ascii [OF assms] by simp_all
  have n: "netloc lower ''https'' ''h'' = ''h''"
    by (simp add: netloc_def split_host_port_def rsplit_once_def l)
  show ?thesis
    by (simp add: normalize_git_url_def t strip_or_same_def strip_suffix_def l n Let_def
        strip_query_def split_path_def)
qed

theorem git_query_distinguishes_witness:
  "normalize_git_url ascii_lower ''https://h/r.git?x'' \<noteq> normalize_git_url ascii_lower ''https://h/r.git''"
  by (rule git_query_distinguishes [OF ascii_lowercase_like])

text \<open>
  A port that does not parse is dropped, not kept: two urls that differ only in such a port,
  as in the \<^verbatim>\<open>ssh://host:org/repo\<close> spelling, are one source.
\<close>

theorem git_bad_port_dropped:
  assumes "lowercase_like lower"
  shows "normalize_git_url lower ''ssh://h:orga/r'' = normalize_git_url lower ''ssh://h:orgb/r''"
proof -
  have t: "trim ''ssh://h:orga/r'' = ''ssh://h:orga/r''" "trim ''ssh://h:orgb/r'' = ''ssh://h:orgb/r''"
    by (rule trim_plain; simp add: plain_def)+
  have l: "lower ''ssh'' = ''ssh''" "lower ''h'' = ''h''"
    using lower_ascii [OF assms] by simp_all
  have n: "netloc lower ''ssh'' ''h:orga'' = ''h''" "netloc lower ''ssh'' ''h:orgb'' = ''h''"
    by (simp_all add: netloc_def split_host_port_def rsplit_once_def parse_u16_def is_digit_def l)
  show ?thesis
    by (simp add: normalize_git_url_def t strip_or_same_def strip_suffix_def l n Let_def
        strip_query_def split_path_def)
qed

theorem git_bad_port_dropped_witness:
  "normalize_git_url ascii_lower ''ssh://h:orga/r'' = normalize_git_url ascii_lower ''ssh://h:orgb/r''"
  by (rule git_bad_port_dropped [OF ascii_lowercase_like])

text \<open>
  The character fence lets the C1 controls through: U+009B, the one-character control
  sequence introducer, is accepted in every free-text origin field.
\<close>

theorem c1_control_accepted:
  "normalize_source lower (Fetchable (Local (map char_of [194, 155 :: nat]))) =
   Inr (Fetchable (Local (map char_of [194, 155 :: nat])))"
  by (simp add: validate_no_unsafe_char_def)

fun origin_safe :: "source_id \<Rightarrow> bool" where
  "origin_safe (Fetchable (Git url r sp)) \<longleftrightarrow>
     CHR ''#'' \<notin> set url \<and> \<not> contains_unsafe_char url \<and>
     opt_ok (\<lambda>x. CHR ''#'' \<notin> set x \<and> \<not> contains_unsafe_char x) r \<and> opt_ok validate_subpath sp"
| "origin_safe (Fetchable (Oci reg repo d sp)) \<longleftrightarrow>
     CHR ''/'' \<notin> set reg \<and> \<not> contains_unsafe_char reg \<and> \<not> contains_unsafe_char repo \<and>
     opt_ok validate_subpath sp"
| "origin_safe (Fetchable (Tarball url sp)) \<longleftrightarrow>
     \<not> contains_unsafe_char url \<and> opt_ok validate_subpath sp"
| "origin_safe (Fetchable (Local p)) \<longleftrightarrow> \<not> contains_unsafe_char p"
| "origin_safe (Fetchable (Registry reg ns n)) \<longleftrightarrow>
     valid_flag_name reg \<and> valid_flag_name n \<and> opt_ok validate_namespace ns"
| "origin_safe (Member n) \<longleftrightarrow> True"

text \<open>
  What validation establishes, for every accepted source: no field carries an ASCII control,
  a git url and its pin carry no number sign, an OCI registry no slash, registry coordinates are
  names, and every subpath is relative and free of parent segments.
\<close>

theorem normalize_source_safe:
  assumes "lowercase_like lower" "normalize_source lower raw = Inr x"
  shows "origin_safe x \<and> (case raw of Member n \<Rightarrow> x = raw | Fetchable (Git url r sp) \<Rightarrow>
      x = Fetchable (Git (normalize_git_url lower url) r sp) | _ \<Rightarrow> x = raw)"
proof (cases raw rule: canonical.cases)
  case (1 url r sp)
  with assms(2) have "CHR ''#'' \<notin> set url" "x = Fetchable (Git (normalize_git_url lower url) r sp)"
    "opt_ok (\<lambda>x. CHR ''#'' \<notin> set x \<and> validate_no_unsafe_char x) r" "opt_ok validate_subpath sp"
    "\<not> contains_unsafe_char (normalize_git_url lower url)"
    by (auto simp: Let_def validate_no_unsafe_char_def split: if_splits)
  with normalize_git_no_hash [OF assms(1)] 1 show ?thesis
    by (auto simp: validate_no_unsafe_char_def)
qed (use assms(2) in \<open>auto simp: validate_no_unsafe_char_def validate_registry_component_def
      split: if_splits\<close>)

theorem normalize_source_safe_witness:
  "origin_safe (Fetchable (Registry ''main'' (Some ''codeberg.org'') ''foo''))"
  using normalize_source_safe [OF ascii_lowercase_like,
      of "Fetchable (Registry ''main'' (Some ''codeberg.org'') ''foo'')"
        "Fetchable (Registry ''main'' (Some ''codeberg.org'') ''foo'')"]
  by (simp add: validate_registry_component_def valid_flag_name_def opt_ok_def is_alnum_def
      is_alpha_def validate_namespace_def validate_no_unsafe_char_def)

end
