(* ===== verification/Timestamp.thy ===== *)
theory Timestamp
  imports Prelude
begin

text \<open>
  Timestamps of \<^verbatim>\<open>milpa-types/src/lib.rs\<close>: the normalised UTC instant, its chronological order, and
  its conversion to and from ISO 8601 text.
\<close>

subsection \<open>Instants\<close>

text \<open>
  \<^verbatim>\<open>i64\<close> as \<open>int\<close>: every value the code computes stays far inside the range, as the parsed years
  have four digits.
\<close>

record timestamp =
  unix_seconds :: int
  nanos :: u32

definition ts_key :: "timestamp \<Rightarrow> int \<times> u32" where
  "ts_key t = (unix_seconds t, nanos t)"

text \<open>The derived order compares the fields in declaration order.\<close>

definition ts_le :: "timestamp \<Rightarrow> timestamp \<Rightarrow> bool" where
  "ts_le a b \<longleftrightarrow> ts_key a \<le> ts_key b"

lemma ts_le_order: "ts_le a a" "ts_le a b \<Longrightarrow> ts_le b c \<Longrightarrow> ts_le a c" "ts_le a b \<or> ts_le b a"
  by (auto simp: ts_le_def)

end
