(* ===== verification/Iso8601.thy ===== *)
theory Iso8601
  imports Timestamp "HOL-Library.Monad_Syntax"
begin

text \<open>
  The ISO 8601 conversions of \<^verbatim>\<open>milpa-types/src/lib.rs\<close> (\<^verbatim>\<open>parse_iso8601_timestamp\<close>,
  \<^verbatim>\<open>format_iso8601_timestamp\<close> and the two civil-calendar functions under them), proved against
  a day-by-day definition of the proleptic Gregorian calendar.
\<close>

subsection \<open>Machine division\<close>

text \<open>Rust's \<^verbatim>\<open>/\<close> and \<^verbatim>\<open>%\<close> on signed integers: the quotient is truncated towards zero.\<close>

definition tdiv :: "int \<Rightarrow> int \<Rightarrow> int" where
  "tdiv a b = sgn a * sgn b * (\<bar>a\<bar> div \<bar>b\<bar>)"

definition trem :: "int \<Rightarrow> int \<Rightarrow> int" where
  "trem a b = a - tdiv a b * b"

lemma tdiv_nonneg [simp]: "0 \<le> a \<Longrightarrow> 0 < b \<Longrightarrow> tdiv a b = a div b"
  by (cases "a = 0") (auto simp: tdiv_def)

lemma trem_nonneg [simp]: "0 \<le> a \<Longrightarrow> 0 < b \<Longrightarrow> trem a b = a mod b"
  by (simp add: trem_def minus_div_mult_eq_mod)

lemma div_eqI:
  fixes n :: int
  assumes "q * b \<le> n" "n < (q + 1) * b" "0 < b"
  shows "n div b = q"
  by (rule int_div_pos_eq [where r = "n - b * q"]) (use assms in \<open>auto simp: algebra_simps\<close>)

lemma tdiv_floor:
  assumes "0 < b" shows "tdiv (if 0 \<le> a then a else a - (b - 1)) b = a div b"
proof (cases "0 \<le> a")
  case False
  have *: "a = a div b * b + a mod b" "0 \<le> a mod b" "a mod b < b" using assms by auto
  have "(b - 1 - a) div b = - (a div b)"
  proof (rule div_eqI)
    show "- (a div b) * b \<le> b - 1 - a" using * unfolding minus_mult_left [symmetric] by linarith
    show "b - 1 - a < (- (a div b) + 1) * b"
      using * unfolding distrib_right minus_mult_left [symmetric] mult_1 by linarith
  qed (rule assms)
  with False assms show ?thesis by (simp add: tdiv_def)
qed (use assms in simp)

subsection \<open>The civil calendar\<close>

definition days_from_civil :: "int \<Rightarrow> int \<Rightarrow> int \<Rightarrow> int" where
  "days_from_civil y0 m d =
     (let y = (if m \<le> 2 then y0 - 1 else y0);
          era = tdiv (if 0 \<le> y then y else y - 399) 400;
          yoe = y - era * 400;
          mp = trem (m + 9) 12;
          doy = tdiv (153 * mp + 2) 5 + d - 1;
          doe = yoe * 365 + tdiv yoe 4 - tdiv yoe 100 + doy
      in era * 146097 + doe - 719468)"

definition civil_from_days :: "int \<Rightarrow> int \<times> int \<times> int" where
  "civil_from_days z0 =
     (let z = z0 + 719468;
          era = tdiv (if 0 \<le> z then z else z - 146096) 146097;
          doe = z - era * 146097;
          yoe = tdiv (doe - tdiv doe 1460 + tdiv doe 36524 - tdiv doe 146096) 365;
          y = yoe + era * 400;
          doy = doe - (365 * yoe + tdiv yoe 4 - tdiv yoe 100);
          mp = tdiv (5 * doy + 2) 153;
          d = doy - tdiv (153 * mp + 2) 5 + 1;
          m = (if mp < 10 then mp + 3 else mp - 9)
      in (if m \<le> 2 then y + 1 else y, m, d))"

text \<open>
  The reference: which dates exist, and which date follows which.  It is independent of the
  arithmetic above.
\<close>

definition leap :: "int \<Rightarrow> bool" where
  "leap y \<longleftrightarrow> 4 dvd y \<and> (\<not> 100 dvd y \<or> 400 dvd y)"

definition month_len :: "int \<Rightarrow> int \<Rightarrow> int" where
  "month_len y m = (if m = 2 then (if leap y then 29 else 28) else if m \<in> {4, 6, 9, 11} then 30 else 31)"

definition valid_date :: "int \<Rightarrow> int \<Rightarrow> int \<Rightarrow> bool" where
  "valid_date y m d \<longleftrightarrow> 1 \<le> m \<and> m \<le> 12 \<and> 1 \<le> d \<and> d \<le> month_len y m"

definition next_date :: "int \<times> int \<times> int \<Rightarrow> int \<times> int \<times> int" where
  "next_date t = (case t of (y, m, d) \<Rightarrow>
     if d < month_len y m then (y, m, d + 1) else if m < 12 then (y, m + 1, 1) else (y + 1, 1, 1))"

subsection \<open>The arithmetic of the March-based year\<close>

text \<open>Months counted from March: the day of the year a month starts at, and its longest length.\<close>

definition mstart :: "int \<Rightarrow> int" where "mstart mp = (153 * mp + 2) div 5"
definition mlen :: "int \<Rightarrow> int" where
  "mlen mp = (if mp = 11 then 29 else if mp \<in> {1, 3, 6, 8} then 30 else 31)"

lemma month_cases:
  assumes "0 \<le> (mp::int)" "mp \<le> 11"
  shows "mp = 0 \<or> mp = 1 \<or> mp = 2 \<or> mp = 3 \<or> mp = 4 \<or> mp = 5 \<or> mp = 6 \<or> mp = 7 \<or> mp = 8 \<or> mp = 9 \<or> mp = 10 \<or> mp = 11"
  using assms by presburger

lemma month_of_doy:
  assumes "0 \<le> mp" "mp \<le> 11" "1 \<le> d" "d \<le> mlen mp" "doy = mstart mp + d - 1"
  shows "(5 * doy + 2) div 153 = mp" "0 \<le> doy" "doy \<le> 365" "doy = 365 \<longleftrightarrow> mp = 11 \<and> d = 29"
proof -
  have *: "mp * 153 \<le> 5 * doy + 2 \<and> 5 * doy + 2 < (mp + 1) * 153 \<and>
      0 \<le> doy \<and> doy \<le> 365 \<and> (doy = 365 \<longleftrightarrow> mp = 11 \<and> d = 29)"
    using month_cases [OF assms(1,2)] assms(3-)
    by (elim disjE) (simp_all add: mstart_def mlen_def)
  then show "(5 * doy + 2) div 153 = mp" by (intro div_eqI) auto
  show "0 \<le> doy" "doy \<le> 365" "doy = 365 \<longleftrightarrow> mp = 11 \<and> d = 29" using * by auto
qed

lemma doy_of_month:
  assumes "0 \<le> doy" "doy \<le> 365" "mp = (5 * doy + 2) div 153" "d = doy - mstart mp + 1"
  shows "0 \<le> mp" "mp \<le> 11" "1 \<le> d" "d \<le> mlen mp"
proof -
  have b: "153 * mp \<le> 5 * doy + 2" "5 * doy + 2 < 153 * (mp + 1)"
    using assms(3) pos_mod_sign [of 153 "5 * doy + 2"] pos_mod_bound [of 153 "5 * doy + 2"]
      mult_div_mod_eq [of 153 "5 * doy + 2"] by simp_all
  have mp: "0 \<le> mp" using b assms(1) by (smt (verit))
  then show "0 \<le> mp" .
  show mp': "mp \<le> 11" using b assms(2) by (smt (verit))
  show "1 \<le> d" "d \<le> mlen mp"
    using month_cases [OF mp mp'] b assms(1,2,4) by (elim disjE; simp add: mstart_def mlen_def)+
qed

lemma year_of_era:
  fixes a b e doy :: int
  assumes a: "0 \<le> a" "a \<le> 3" and b: "0 \<le> b" "b \<le> 24" and e: "0 \<le> e" "e \<le> 3"
    and doy: "0 \<le> doy" "doy \<le> 365" "doy = 365 \<Longrightarrow> e = 3 \<and> (b < 24 \<or> a = 3)"
    and n: "n = 36524 * a + 1461 * b + 365 * e + doy"
  shows "(n - n div 1460 + n div 36524 - n div 146096) div 365 = 100 * a + 4 * b + e"
proof (cases "n = 146096")
  case True
  then have "a = 3" "b = 24" "e = 3" using assms by linarith+
  then show ?thesis using True by simp
next
  case False
  define k :: int where "k = (if 24 * a + b + 365 * e + doy < 1460 then 0 else 1)"
  have le: "n < 146096"
    using assms False by (smt (verit))
  have c: "n div 36524 = a"
    by (rule div_eqI) (use assms False le in \<open>smt (verit)\<close>)+
  have z: "n div 146096 = 0" using le n a b e doy by simp
  have y: "n div 1460 = 25 * a + b + k"
    by (rule div_eqI) (use assms in \<open>auto simp: k_def algebra_simps\<close>)
  have "0 \<le> doy - k" "doy - k < 365"
    using a b e doy by (cases "doy = 365"; simp add: k_def)+
  then have "(n - (25 * a + b + k) + a) div 365 = 100 * a + 4 * b + e"
    by (intro div_eqI) (simp_all add: n algebra_simps)
  then show ?thesis by (simp add: c z y)
qed


text \<open>Days before the first of March of year \<open>yoe\<close> of an era.\<close>

definition era_days :: "int \<Rightarrow> int" where
  "era_days yoe = yoe * 365 + yoe div 4 - yoe div 100"

lemma era_days_decomp:
  assumes "0 \<le> a" "0 \<le> b" "b \<le> 24" "0 \<le> e" "e \<le> 3"
  shows "era_days (100 * a + 4 * b + e) = 36524 * a + 1461 * b + 365 * e"
proof -
  have "(100 * a + 4 * b + e) div 4 = 25 * a + b" by (rule div_eqI) (use assms in auto)
  moreover have "(100 * a + 4 * b + e) div 100 = a" by (rule div_eqI) (use assms in auto)
  ultimately show ?thesis unfolding era_days_def by simp
qed

lemma era_split:
  assumes "0 \<le> (yoe::int)" "yoe < 400"
  obtains a b e where "yoe = 100 * a + 4 * b + e" "0 \<le> a" "a \<le> 3" "0 \<le> b" "b \<le> 24" "0 \<le> e" "e \<le> 3"
    "era_days yoe = 36524 * a + 1461 * b + 365 * e"
    "leap (yoe + 1) \<longleftrightarrow> e = 3 \<and> (b < 24 \<or> a = 3)"
proof
  define a b e where "a = yoe div 100" and "b = (yoe mod 100) div 4" and "e = yoe mod 4"
  have "yoe mod 4 = (yoe mod 100) mod 4" by (simp add: mod_mod_cancel)
  then show y: "yoe = 100 * a + 4 * b + e" by (simp add: a_def b_def e_def)
  show *: "0 \<le> a" "a \<le> 3" "0 \<le> b" "b \<le> 24" "0 \<le> e" "e \<le> 3"
    using assms by (auto simp: a_def b_def e_def)
  show "era_days yoe = 36524 * a + 1461 * b + 365 * e"
    unfolding y by (rule era_days_decomp) (use * in auto)
  have dvd_top: "k dvd x \<longleftrightarrow> x = k" if "0 < x" "x \<le> k" for k x :: int
    using that zdvd_imp_le [of k x] by auto
  have "4 dvd yoe + 1 \<longleftrightarrow> e = 3"
    using dvd_top [of "e + 1" 4] * dvd_add_right_iff [of 4 "4 * (25 * a + b)" "e + 1"]
    by (simp add: y algebra_simps)
  moreover have "100 dvd yoe + 1 \<longleftrightarrow> b = 24 \<and> e = 3"
    using dvd_top [of "4 * b + e + 1" 100] * dvd_add_right_iff [of 100 "100 * a" "4 * b + e + 1"]
    by (simp add: y algebra_simps) linarith
  moreover have "400 dvd yoe + 1 \<longleftrightarrow> a = 3 \<and> b = 24 \<and> e = 3"
    using dvd_top [of "yoe + 1" 400] * by (simp add: y) linarith
  ultimately show "leap (yoe + 1) \<longleftrightarrow> e = 3 \<and> (b < 24 \<or> a = 3)"
    using * by (auto simp: leap_def)
qed

lemma era_of_day:
  assumes "0 \<le> (n::int)" "n < 146097"
  obtains yoe doy where "0 \<le> yoe" "yoe < 400" "n = era_days yoe + doy" "0 \<le> doy" "doy \<le> 365"
    "doy = 365 \<longrightarrow> leap (yoe + 1)"
proof -
  define a where "a = min 3 (n div 36524)"
  define r where "r = n - 36524 * a"
  define b where "b = min 24 (r div 1461)"
  define s where "s = r - 1461 * b"
  define e where "e = min 3 (s div 365)"
  define yoe where "yoe = 100 * a + 4 * b + e"
  have n: "36524 * (n div 36524) \<le> n" "n < 36524 * (n div 36524) + 36524" by presburger+
  have a: "0 \<le> a" "a \<le> 3" using assms by (auto simp: a_def)
  have r: "0 \<le> r" "r \<le> 36524" "r = 36524 \<longrightarrow> a = 3" using n assms by (auto simp: r_def a_def min_def)
  have r': "1461 * (r div 1461) \<le> r" "r < 1461 * (r div 1461) + 1461" by presburger+
  have b: "0 \<le> b" "b \<le> 24" using r by (auto simp: b_def)
  have s: "0 \<le> s" "s \<le> 1460" "s = 1460 \<longrightarrow> b < 24 \<or> a = 3"
    using r r' by (auto simp: s_def b_def min_def)
  have s': "365 * (s div 365) \<le> s" "s < 365 * (s div 365) + 365" by presburger+
  have e: "0 \<le> e" "e \<le> 3" using s by (auto simp: e_def)
  have y: "0 \<le> yoe" "yoe < 400" using a b e by (auto simp: yoe_def)
  obtain a' b' e' where d: "yoe = 100 * a' + 4 * b' + e'" "0 \<le> a'" "a' \<le> 3" "0 \<le> b'" "b' \<le> 24"
      "0 \<le> e'" "e' \<le> 3" "era_days yoe = 36524 * a' + 1461 * b' + 365 * e'"
      "leap (yoe + 1) \<longleftrightarrow> e' = 3 \<and> (b' < 24 \<or> a' = 3)"
    by (rule era_split [OF y])
  have "a' = a" using d(1-7) a b e by (auto simp: yoe_def)
  moreover from this have "b' = b" using d(1-7) a b e by (auto simp: yoe_def)
  ultimately have abe: "a' = a" "b' = b" "e' = e" using d(1) by (auto simp: yoe_def)
  show thesis
  proof (rule that [OF y, of "s - 365 * e"])
    show "n = era_days yoe + (s - 365 * e)" by (simp add: d(8) abe s_def r_def)
    show "0 \<le> s - 365 * e" "s - 365 * e \<le> 365" using s s' by (auto simp: e_def min_def)
    show "s - 365 * e = 365 \<longrightarrow> leap (yoe + 1)"
      using s s' by (auto simp: d(9) abe e_def min_def split: if_splits)
  qed
qed


lemma leap_mod: "leap (y mod 400 + 1) = leap (y + 1)"
proof -
  have "k dvd y mod 400 + 1 \<longleftrightarrow> k dvd y + 1" if k: "k dvd 400" for k :: int
  proof -
    have "y + 1 = 400 * (y div 400) + (y mod 400 + 1)" by simp
    then show ?thesis using k by (metis dvd_add_right_iff dvd_mult2)
  qed
  from this [of 4] this [of 100] this [of 400] show ?thesis by (simp add: leap_def)
qed

definition march_year :: "int \<Rightarrow> int \<Rightarrow> int" where
  "march_year y m = (if m \<le> 2 then y - 1 else y)"

definition march_month :: "int \<Rightarrow> int" where
  "march_month m = (m + 9) mod 12"

lemma days_alt:
  assumes "1 \<le> m" "m \<le> 12" "1 \<le> d"
  shows "days_from_civil y m d = march_year y m div 400 * 146097 + era_days (march_year y m mod 400)
    + mstart (march_month m) + d - 1 - 719468"
proof -
  have era: "tdiv (if 0 \<le> x then x else x - 399) 400 = x div 400" for x
    using tdiv_floor [of 400 x] by (simp split: if_splits)
  have yoe: "x - x div 400 * 400 = x mod 400" for x :: int by (simp add: minus_div_mult_eq_mod)
  show ?thesis
    using assms
    by (simp only: days_from_civil_def Let_def era yoe flip: march_year_def)
      (simp add: march_month_def era_days_def mstart_def)
qed

definition date_of :: "int \<Rightarrow> int \<Rightarrow> int \<times> int \<times> int" where
  "date_of y doy =
     (let mp = (5 * doy + 2) div 153; m = (if mp < 10 then mp + 3 else mp - 9)
      in (if m \<le> 2 then y + 1 else y, m, doy - mstart mp + 1))"

lemma civil_alt:
  assumes "0 \<le> yoe" "yoe < 400" "0 \<le> doy" "doy \<le> 365" "doy = 365 \<longrightarrow> leap (yoe + 1)"
    and z: "z + 719468 = era * 146097 + era_days yoe + doy"
  shows "civil_from_days z = date_of (yoe + era * 400) doy"
proof -
  obtain a b e where s: "yoe = 100 * a + 4 * b + e" "0 \<le> a" "a \<le> 3" "0 \<le> b" "b \<le> 24" "0 \<le> e" "e \<le> 3"
      "era_days yoe = 36524 * a + 1461 * b + 365 * e"
      "leap (yoe + 1) \<longleftrightarrow> e = 3 \<and> (b < 24 \<or> a = 3)"
    by (rule era_split [OF assms(1,2)])
  define n where "n = era_days yoe + doy"
  have n0: "0 \<le> n" using s assms by (simp add: n_def)
  have n1: "n < 146097"
    using s assms(3-5) by (cases "doy = 365") (auto simp: n_def)
  have yoe: "(n - n div 1460 + n div 36524 - n div 146096) div 365 = yoe"
    unfolding s(1) by (rule year_of_era) (use s assms in \<open>auto simp: n_def\<close>)
  have era: "(z + 719468) div 146097 = era"
    by (rule div_eqI) (use n0 n1 z in \<open>auto simp: n_def\<close>)
  have tera: "tdiv (if 0 \<le> x then x else x - 146096) 146097 = x div 146097" for x
    using tdiv_floor [of 146097 x] by (simp split: if_splits)
  have nn: "z + 719468 - era * 146097 = n" using z by (simp add: n_def)
  have g: "0 \<le> n - n div 1460 + n div 36524 - n div 146096"
    using n0 zdiv_mono2 [of n 36524 146096] div_le_dividend [of "nat n" 1460]
    by (simp add: zdiv_int flip: nat_le_iff)
  have t1: "tdiv (n - tdiv n 1460 + tdiv n 36524 - tdiv n 146096) 365 = yoe"
    using g n0 yoe by simp
  have t2: "n - (365 * yoe + tdiv yoe 4 - tdiv yoe 100) = doy"
    using assms(1) by (simp add: n_def era_days_def)
  have t3: "tdiv (5 * doy + 2) 153 = (5 * doy + 2) div 153" using assms(3) by simp
  have t4: "tdiv (153 * ((5 * doy + 2) div 153) + 2) 5 = mstart ((5 * doy + 2) div 153)"
    using assms(3) by (simp add: mstart_def)
  show ?thesis
    by (simp only: civil_from_days_def Let_def tera era nn t1 t2 t3 t4 date_of_def)
qed

lemma mlen_month_len:
  assumes "1 \<le> m" "m \<le> 12"
  shows "month_len y m \<le> mlen (march_month m)"
    "month_len y m = (if m = 2 \<and> \<not> leap y then 28 else mlen (march_month m))"
proof -
  have "m = 1 \<or> m = 2 \<or> m = 3 \<or> m = 4 \<or> m = 5 \<or> m = 6 \<or> m = 7 \<or> m = 8 \<or> m = 9 \<or> m = 10 \<or> m = 11 \<or> m = 12"
    using assms by presburger
  then show "month_len y m = (if m = 2 \<and> \<not> leap y then 28 else mlen (march_month m))"
    by (elim disjE) (simp_all add: month_len_def mlen_def march_month_def)
  then show "month_len y m \<le> mlen (march_month m)"
    by (auto simp: mlen_def march_month_def)
qed

lemma civil_of_days:
  assumes v: "valid_date y m d"
  shows "civil_from_days (days_from_civil y m d) = (y, m, d)"
proof -
  have m: "1 \<le> m" "m \<le> 12" "1 \<le> d" "d \<le> month_len y m" using v by (auto simp: valid_date_def)
  define mp where "mp = march_month m"
  define doy where "doy = mstart mp + d - 1"
  have mp: "0 \<le> mp" "mp \<le> 11" by (simp_all add: mp_def march_month_def)
  have d: "d \<le> mlen mp" using m mlen_month_len(1) [OF m(1,2), of y] by (simp add: mp_def)
  note doy = month_of_doy [OF mp m(3) d doy_def]
  have "m = 1 \<or> m = 2 \<or> m = 3 \<or> m = 4 \<or> m = 5 \<or> m = 6 \<or> m = 7 \<or> m = 8 \<or> m = 9 \<or> m = 10 \<or> m = 11 \<or> m = 12"
    using m(1,2) by presburger
  then have mm: "(if mp < 10 then mp + 3 else mp - 9) = m" "mp = 11 \<longleftrightarrow> m = 2"
    unfolding mp_def march_month_def by (elim disjE; simp)+
  note m2 = mm(2)
  have "civil_from_days (days_from_civil y m d) = date_of (march_year y m mod 400 + march_year y m div 400 * 400) doy"
  proof (rule civil_alt)
    show "doy = 365 \<longrightarrow> leap (march_year y m mod 400 + 1)"
      using doy(4) m2 m(4) by (auto simp: leap_mod march_year_def month_len_def split: if_splits)
  qed (use doy in \<open>auto simp: days_alt m doy_def mp_def\<close>)
  also have "\<dots> = date_of (march_year y m) doy" by simp
  also have "\<dots> = (y, m, d)"
    by (simp add: date_of_def Let_def doy(1) mm(1)) (simp add: doy_def march_year_def)
  finally show ?thesis .
qed

lemma days_of_civil:
  obtains y m d where "civil_from_days z = (y, m, d)" "valid_date y m d" "days_from_civil y m d = z"
proof -
  define era n where "era = (z + 719468) div 146097" and "n = (z + 719468) mod 146097"
  have n: "0 \<le> n" "n < 146097" by (simp_all add: n_def)
  obtain yoe doy where *: "0 \<le> yoe" "yoe < 400" "n = era_days yoe + doy" "0 \<le> doy" "doy \<le> 365"
      "doy = 365 \<longrightarrow> leap (yoe + 1)"
    by (rule era_of_day [OF n])
  have z: "z + 719468 = era * 146097 + era_days yoe + doy"
    using div_mult_mod_eq [of "z + 719468" 146097] *(3) unfolding era_def n_def by linarith
  define mp where "mp = (5 * doy + 2) div 153"
  define m where "m = (if mp < 10 then mp + 3 else mp - 9)"
  define Y where "Y = yoe + era * 400"
  define y where "y = (if m \<le> 2 then Y + 1 else Y)"
  define d where "d = doy - mstart mp + 1"
  note mp = doy_of_month [OF *(4,5) mp_def d_def]
  have eq: "civil_from_days z = (y, m, d)"
    using civil_alt [OF *(1,2,4,5,6) z]
    by (simp add: date_of_def Let_def mp_def [symmetric] m_def [symmetric] Y_def [symmetric] y_def d_def)
  have m: "1 \<le> m" "m \<le> 12" using mp by (auto simp: m_def)
  have my: "march_year y m = Y" by (simp add: march_year_def y_def)
  have mm: "march_month m = mp" using mp unfolding march_month_def m_def by auto
  have m2: "m = 2 \<longleftrightarrow> mp = 11" using mp by (auto simp: m_def)
  have Y: "Y div 400 = era" "Y mod 400 = yoe" using *(1,2) by (simp_all add: Y_def)
  have "d \<le> month_len y m"
  proof (cases "m = 2 \<and> \<not> leap y")
    case True
    then have "\<not> leap (yoe + 1)"
      using leap_mod [of Y] Y by (auto simp: y_def)
    then have "doy \<noteq> 365" using * by simp
    then have "doy \<le> 364" using *(5) by simp
    then show ?thesis using True m2 by (simp add: d_def mstart_def month_len_def)
  next
    case False
    then show ?thesis using mp mlen_month_len(2) [OF m, of y] by (auto simp: mm)
  qed
  then have "valid_date y m d" using m mp by (simp add: valid_date_def)
  moreover have "days_from_civil y m d = z"
    using z days_alt [OF m mp(3), of y] by (simp add: my mm Y) (simp add: d_def)
  ultimately show thesis using that eq by blast
qed


lemma days_next:
  assumes v: "valid_date y m d"
  shows "(case next_date (y, m, d) of (y', m', d') \<Rightarrow> days_from_civil y' m' d') = days_from_civil y m d + 1"
proof -
  have m: "1 \<le> m" "m \<le> 12" "1 \<le> d" "d \<le> month_len y m" using v by (auto simp: valid_date_def)
  consider (day) "d < month_len y m" | (month) "d = month_len y m" "m < 12" "m \<noteq> 2" | (feb) "d = month_len y 2" "m = 2"
    | (year) "d = month_len y 12" "m = 12"
    using m by fastforce
  then show ?thesis
  proof cases
    case day
    then show ?thesis using m by (simp add: next_date_def days_alt)
  next
    case month
    then have "m = 1 \<or> m = 3 \<or> m = 4 \<or> m = 5 \<or> m = 6 \<or> m = 7 \<or> m = 8 \<or> m = 9 \<or> m = 10 \<or> m = 11"
      using m by presburger
    with month m show ?thesis
      by (elim disjE) (simp_all add: next_date_def days_alt month_len_def march_year_def march_month_def mstart_def)
  next
    case year
    then show ?thesis
      by (simp add: next_date_def days_alt month_len_def march_year_def march_month_def mstart_def)
  next
    case feb
    define yoe where "yoe = (y - 1) mod 400"
    have b: "0 \<le> yoe" "yoe < 400" by (simp_all add: yoe_def)
    obtain a b e where s: "yoe = 100 * a + 4 * b + e" "0 \<le> a" "a \<le> 3" "0 \<le> b" "b \<le> 24" "0 \<le> e" "e \<le> 3"
        "era_days yoe = 36524 * a + 1461 * b + 365 * e"
        "leap (yoe + 1) \<longleftrightarrow> e = 3 \<and> (b < 24 \<or> a = 3)"
      by (rule era_split [OF b])
    have l: "leap y \<longleftrightarrow> leap (yoe + 1)" using leap_mod [of "y - 1"] by (simp add: yoe_def)
    have step: "y div 400 * 146097 + era_days (y mod 400) =
        (y - 1) div 400 * 146097 + era_days yoe + (if leap y then 366 else 365)"
    proof (cases "yoe = 399")
      case True
      then have y: "y = 400 * ((y - 1) div 400 + 1)"
        using mult_div_mod_eq [of 400 "y - 1"] unfolding yoe_def by (smt (verit))
      have d: "y div 400 = (y - 1) div 400 + 1"
        by (rule div_eqI) (use y in \<open>smt (verit)\<close>)+
      moreover have "y mod 400 = 0"
        using mult_div_mod_eq [of 400 y] y unfolding d by (smt (verit))
      moreover have "leap y" using True unfolding l by (simp add: leap_def)
      ultimately show ?thesis using True by (simp add: era_days_def)
    next
      case False
      with b have "yoe + 1 < 400" by simp
      have y: "y = 400 * ((y - 1) div 400) + (yoe + 1)"
        using mult_div_mod_eq [of 400 "y - 1"] unfolding yoe_def by (smt (verit))
      have d: "y div 400 = (y - 1) div 400"
        by (rule div_eqI) (use y b \<open>yoe + 1 < 400\<close> in \<open>smt (verit)\<close>)+
      moreover have "y mod 400 = yoe + 1"
        using mult_div_mod_eq [of 400 y] y unfolding d by (smt (verit))
      moreover have "era_days (yoe + 1) = era_days yoe + (if leap y then 366 else 365)"
      proof -
        consider "e < 3" | "e = 3" "b < 24" | "e = 3" "b = 24" "a < 3"
          using s False by fastforce
        then show ?thesis
        proof cases
          case 1
          have "yoe + 1 = 100 * a + 4 * b + (e + 1)" using s(1) by simp
          then have "era_days (yoe + 1) = 36524 * a + 1461 * b + 365 * (e + 1)"
            using s(2-6) 1 by (simp only:) (rule era_days_decomp; simp)
          then show ?thesis using 1 by (simp add: l s(8,9))
        next
          case 2
          have "yoe + 1 = 100 * a + 4 * (b + 1) + 0" using s(1) 2 by simp
          then have "era_days (yoe + 1) = 36524 * a + 1461 * (b + 1) + 365 * 0"
            using s(2-6) 2 by (simp only:) (rule era_days_decomp; simp)
          then show ?thesis using 2 by (simp add: l s(8,9))
        next
          case 3
          have "yoe + 1 = 100 * (a + 1) + 4 * 0 + 0" using s(1) 3 by simp
          then have "era_days (yoe + 1) = 36524 * (a + 1) + 1461 * 0 + 365 * 0"
            using s(2-6) 3 by (simp only:) (rule era_days_decomp; simp)
          then show ?thesis using 3 by (simp add: l s(8,9))
        qed
      qed
      ultimately show ?thesis by simp
    qed
    show ?thesis using feb step
      by (simp add: next_date_def days_alt month_len_def march_year_def march_month_def mstart_def
          yoe_def [symmetric])
  qed
qed


text \<open>
  The civil-calendar arithmetic is the proleptic Gregorian calendar: day 0 is 1970-01-01, the
  date after a date has the next day number, every existing date is recovered from its number, and
  every day number denotes an existing date with that number.
\<close>

theorem civil_calendar:
  assumes "valid_date y m d"
  shows "days_from_civil 1970 1 1 = 0 \<and>
    (case next_date (y, m, d) of (y', m', d') \<Rightarrow> days_from_civil y' m' d') = days_from_civil y m d + 1 \<and>
    civil_from_days (days_from_civil y m d) = (y, m, d) \<and>
    (case civil_from_days z of (y', m', d') \<Rightarrow> valid_date y' m' d' \<and> days_from_civil y' m' d' = z)"
proof (intro conjI)
  show "days_from_civil 1970 1 1 = 0" by (simp add: days_from_civil_def Let_def)
  show "case civil_from_days z of (y', m', d') \<Rightarrow> valid_date y' m' d' \<and> days_from_civil y' m' d' = z"
    by (rule days_of_civil [of z]) simp
qed (use assms days_next civil_of_days in auto)

theorem civil_calendar_witness:
  "civil_from_days (days_from_civil 2000 2 29) = (2000, 2, 29) \<and>
   days_from_civil 2000 3 1 = days_from_civil 2000 2 29 + 1"
proof -
  have v: "valid_date 2000 2 29" by (simp add: valid_date_def month_len_def leap_def)
  show ?thesis
    using civil_calendar [OF v] by (simp add: next_date_def month_len_def leap_def)
qed

subsection \<open>Parsing\<close>

definition guard_opt :: "bool \<Rightarrow> unit option" where
  "guard_opt b = (if b then Some () else None)"

lemma guard_opt_simps [simp]: "guard_opt True = Some ()" "guard_opt False = None"
  by (simp_all add: guard_opt_def)

definition ts_get :: "string \<Rightarrow> nat \<Rightarrow> char option" where
  "ts_get raw i = (if i < length raw then Some (raw ! i) else None)"

definition ts_digit :: "string \<Rightarrow> nat \<Rightarrow> int option" where
  "ts_digit raw i = do {
     b \<leftarrow> ts_get raw i;
     guard_opt (is_digit b);
     Some (int (digit_val b)) }"

definition ts_two :: "string \<Rightarrow> nat \<Rightarrow> int option" where
  "ts_two raw i = do {
     a \<leftarrow> ts_digit raw i;
     b \<leftarrow> ts_digit raw (i + 1);
     Some (a * 10 + b) }"

definition ts_four :: "string \<Rightarrow> nat \<Rightarrow> int option" where
  "ts_four raw i = do {
     a \<leftarrow> ts_digit raw i;
     b \<leftarrow> ts_digit raw (i + 1);
     c \<leftarrow> ts_digit raw (i + 2);
     d \<leftarrow> ts_digit raw (i + 3);
     Some (a * 1000 + b * 100 + c * 10 + d) }"

text \<open>
  The optional fraction at \<open>idx\<close>: the index behind it and the nanoseconds.  At most nine digits
  are kept, so the parse into \<^verbatim>\<open>u32\<close> never overflows.
\<close>

definition ts_fraction :: "string \<Rightarrow> nat \<Rightarrow> (nat \<times> u32) option" where
  "ts_fraction raw idx =
     (if ts_get raw idx = Some CHR ''.'' \<or> ts_get raw idx = Some CHR '','' then
        (let frac = takeWhile is_digit (drop (idx + 1) raw);
             digits = take 9 frac
         in do {
           guard_opt (frac \<noteq> []);
           ns \<leftarrow> word_of_dec (digits @ replicate (9 - length digits) CHR ''0'');
           Some (idx + 1 + length frac, ns) })
      else Some (idx, 0))"

text \<open>The offset at \<open>idx\<close>: the index behind it and the seconds to subtract.\<close>

definition ts_offset :: "string \<Rightarrow> nat \<Rightarrow> (nat \<times> int) option" where
  "ts_offset raw idx =
     (case ts_get raw idx of
        None \<Rightarrow> Some (idx, 0)
      | Some c \<Rightarrow>
          if c = CHR ''Z'' \<or> c = CHR ''z'' then Some (idx + 1, 0)
          else if c = CHR ''+'' \<or> c = CHR ''-'' then do {
            oh \<leftarrow> ts_two raw (idx + 1);
            guard_opt (ts_get raw (idx + 3) = Some CHR '':'');
            om \<leftarrow> ts_two raw (idx + 4);
            guard_opt (0 \<le> oh \<and> oh \<le> 23 \<and> 0 \<le> om \<and> om \<le> 59);
            Some (idx + 6, (if c = CHR ''+'' then 1 else - 1) * (oh * 3600 + om * 60)) }
          else None)"

definition parse_iso8601_timestamp :: "string \<Rightarrow> timestamp option" where
  "parse_iso8601_timestamp raw = do {
     guard_opt (\<not> length raw < 19);
     year \<leftarrow> ts_four raw 0;
     guard_opt (ts_get raw 4 = Some CHR ''-'');
     month \<leftarrow> ts_two raw 5;
     guard_opt (ts_get raw 7 = Some CHR ''-'');
     day \<leftarrow> ts_two raw 8;
     guard_opt (ts_get raw 10 = Some CHR ''T'' \<or> ts_get raw 10 = Some CHR ''t'' \<or>
       ts_get raw 10 = Some CHR '' '');
     hour \<leftarrow> ts_two raw 11;
     guard_opt (ts_get raw 13 = Some CHR '':'');
     minute \<leftarrow> ts_two raw 14;
     guard_opt (ts_get raw 16 = Some CHR '':'');
     second \<leftarrow> ts_two raw 17;
     guard_opt (1 \<le> month \<and> month \<le> 12 \<and> 1 \<le> day \<and> day \<le> 31 \<and> 0 \<le> hour \<and> hour \<le> 23 \<and>
       0 \<le> minute \<and> minute \<le> 59 \<and> 0 \<le> second \<and> second \<le> 60);
     (idx, ns) \<leftarrow> ts_fraction raw 19;
     (idx', offset_seconds) \<leftarrow> ts_offset raw idx;
     guard_opt (idx' = length raw);
     Some \<lparr> unix_seconds = days_from_civil year month day * 86400 + hour * 3600 + minute * 60 + second
              - offset_seconds,
            nanos = ns \<rparr> }"

subsection \<open>Formatting\<close>

text \<open>\<^verbatim>\<open>{:0w}\<close>: zeros up to the width, after the sign.\<close>

definition pad_dec :: "nat \<Rightarrow> nat \<Rightarrow> string" where
  "pad_dec w n = replicate (w - length (dec_of_nat n)) CHR ''0'' @ dec_of_nat n"

definition pad_int :: "nat \<Rightarrow> int \<Rightarrow> string" where
  "pad_int w i = (if 0 \<le> i then pad_dec w (nat i) else CHR ''-'' # pad_dec (w - 1) (nat (- i)))"

definition trim_zeros :: "string \<Rightarrow> string" where
  "trim_zeros s = rev (dropWhile (\<lambda>c. c = CHR ''0'') (rev s))"

definition format_iso8601_timestamp :: "timestamp \<Rightarrow> string" where
  "format_iso8601_timestamp ts =
     (case civil_from_days (unix_seconds ts div 86400) of (y, m, d) \<Rightarrow>
        let secs_of_day = unix_seconds ts mod 86400;
            hour = tdiv secs_of_day 3600;
            minute = tdiv (trem secs_of_day 3600) 60;
            second = trem secs_of_day 60;
            core = pad_int 4 y @ ''-'' @ pad_int 2 m @ ''-'' @ pad_int 2 d @ ''T'' @
              pad_int 2 hour @ '':'' @ pad_int 2 minute @ '':'' @ pad_int 2 second
        in if nanos ts = 0 then core @ ''Z''
           else core @ ''.'' @ trim_zeros (pad_dec 9 (unat (nanos ts))) @ ''Z'')"

lemma dec_single: "n < 10 \<Longrightarrow> dec_of_nat n = [digit_char n]"
  by (subst dec_of_nat.simps) simp

lemma dec_step: "\<not> n < 10 \<Longrightarrow> dec_of_nat n = dec_of_nat (n div 10) @ [digit_char (n mod 10)]"
  by (subst dec_of_nat.simps) simp

lemma pad_dec_1: "n < 10 \<Longrightarrow> pad_dec (Suc 0) n = [digit_char n]"
  by (simp add: pad_dec_def dec_single)

lemma digit_char_0: "digit_char 0 = CHR ''0''"
  by code_simp

lemma pad_dec_Suc: "0 < w \<Longrightarrow> pad_dec (Suc w) n = pad_dec w (n div 10) @ [digit_char (n mod 10)]"
proof (cases "n < 10")
  case True
  assume w: "0 < w"
  have n: "dec_of_nat n = [digit_char n]" "dec_of_nat 0 = [CHR ''0'']" using True
    by (simp_all add: dec_single digit_char_0)
  obtain v where "w = Suc v" using w by (cases w) auto
  with True n show ?thesis
    by (simp add: pad_dec_def replicate_append_same [symmetric])
next
  case False
  then have "dec_of_nat n = dec_of_nat (n div 10) @ [digit_char (n mod 10)]"
    by (subst dec_of_nat.simps) simp
  then show ?thesis by (simp add: pad_dec_def)
qed

lemma pad_int_2:
  assumes "0 \<le> i" "i < 100"
  shows "pad_int 2 i = [digit_char (nat i div 10), digit_char (nat i mod 10)]"
proof -
  have "nat i div 10 < 10" using assms by linarith
  then show ?thesis using assms pad_dec_Suc [of 1 "nat i"] by (simp add: pad_int_def pad_dec_1 numeral_2_eq_2)
qed

lemma pad_int_4:
  assumes "0 \<le> i" "i < 10000"
  shows "pad_int 4 i = [digit_char (nat i div 1000), digit_char (nat i div 100 mod 10),
    digit_char (nat i div 10 mod 10), digit_char (nat i mod 10)]"
proof -
  have l: "nat i div 1000 < 10" using assms by linarith
  have d: "n div 10 div 10 div 10 = n div 1000" "n div 10 div 10 = n div 100" "n div 100 div 10 = n div 1000" for n :: nat
    by (simp_all flip: div_mult2_eq)
  have "pad_dec (Suc (Suc (Suc (Suc 0)))) (nat i) = pad_dec (Suc 0) (nat i div 10 div 10 div 10) @
    [digit_char (nat i div 10 div 10 mod 10), digit_char (nat i div 10 mod 10), digit_char (nat i mod 10)]"
    by (simp only: pad_dec_Suc zero_less_Suc append_assoc append.simps)
  moreover have "Suc (Suc (Suc (Suc 0))) = 4" by simp
  ultimately show ?thesis using assms(1) pad_dec_1 [OF l] by (simp only: pad_int_def d if_True append.simps)
qed


lemma two_digits:
  assumes "0 \<le> (i::int)"
  shows "int (nat i div 10) * 10 + int (nat i mod 10) = i"
proof -
  have "int (nat i div 10 * 10 + nat i mod 10) = i" using assms unfolding div_mult_mod_eq by simp
  then show ?thesis by (simp only: of_nat_add of_nat_mult of_nat_numeral)
qed

lemma four_digits:
  assumes "0 \<le> (i::int)"
  shows "int (nat i div 1000) * 1000 + int (nat i div 100 mod 10) * 100 + int (nat i div 10 mod 10) * 10
    + int (nat i mod 10) = i"
proof -
  have pos: "w * 1000 + a * 100 + b * 10 + c = (x :: nat)"
    if "z * 10 + b = y" "y * 10 + c = x" "w * 10 + a = z" for a b c w x y z
    using that by simp
  have d: "n div 1000 = n div 10 div 10 div 10" "n div 100 = n div 10 div 10" for n :: nat
    by (simp_all flip: div_mult2_eq)
  have "n div 1000 * 1000 + n div 100 mod 10 * 100 + n div 10 mod 10 * 10 + n mod 10 = n" for n :: nat
    unfolding d by (rule pos; rule div_mult_mod_eq)
  from arg_cong [OF this [of "nat i"], of int] show ?thesis using assms by simp
qed

lemma ts_two_digits:
  assumes "raw ! i = digit_char a" "raw ! (i + 1) = digit_char b" "a < 10" "b < 10" "i + 1 < length raw"
  shows "ts_two raw i = Some (int a * 10 + int b)"
  using assms by (simp add: ts_two_def ts_digit_def ts_get_def)

lemma ts_four_digits:
  assumes "raw ! i = digit_char a" "raw ! (i + 1) = digit_char b" "raw ! (i + 2) = digit_char c"
    "raw ! (i + 3) = digit_char d" "a < 10" "b < 10" "c < 10" "d < 10" "i + 3 < length raw"
  shows "ts_four raw i = Some (int a * 1000 + int b * 100 + int c * 10 + int d)"
  using assms by (simp add: ts_four_def ts_digit_def ts_get_def)

definition core_text :: "int \<Rightarrow> int \<Rightarrow> int \<Rightarrow> int \<Rightarrow> int \<Rightarrow> int \<Rightarrow> string" where
  "core_text y m d h mi se = pad_int 4 y @ ''-'' @ pad_int 2 m @ ''-'' @ pad_int 2 d @ ''T'' @
     pad_int 2 h @ '':'' @ pad_int 2 mi @ '':'' @ pad_int 2 se"

lemma parse_core:
  assumes "0 \<le> y" "y < 10000" "1 \<le> m" "m \<le> 12" "1 \<le> d" "d \<le> 31" "0 \<le> h" "h \<le> 23" "0 \<le> mi" "mi \<le> 59"
    "0 \<le> se" "se \<le> 59"
    and raw: "raw = core_text y m d h mi se @ tail"
  shows "parse_iso8601_timestamp raw =
    do { (idx, ns) \<leftarrow> ts_fraction raw 19;
         (idx', off) \<leftarrow> ts_offset raw idx;
         guard_opt (idx' = length raw);
         Some \<lparr> unix_seconds = days_from_civil y m d * 86400 + h * 3600 + mi * 60 + se - off, nanos = ns \<rparr> }"
    and "length raw = 19 + length tail" and "drop 19 raw = tail"
proof -
  have e: "raw = [digit_char (nat y div 1000), digit_char (nat y div 100 mod 10), digit_char (nat y div 10 mod 10),
      digit_char (nat y mod 10), CHR ''-'', digit_char (nat m div 10), digit_char (nat m mod 10), CHR ''-'',
      digit_char (nat d div 10), digit_char (nat d mod 10), CHR ''T'', digit_char (nat h div 10),
      digit_char (nat h mod 10), CHR '':'', digit_char (nat mi div 10), digit_char (nat mi mod 10), CHR '':'',
      digit_char (nat se div 10), digit_char (nat se mod 10)] @ tail"
    using assms(1-12) by (simp add: raw core_text_def pad_int_2 pad_int_4)
  show l: "length raw = 19 + length tail" by (simp add: e)
  show "drop 19 raw = tail" by (simp add: e)
  have small: "nat y div 1000 < 10" "nat m div 10 < 10" "nat d div 10 < 10" "nat h div 10 < 10"
      "nat mi div 10 < 10" "nat se div 10 < 10"
    using assms(1-12) by linarith+
  have nthr: "raw ! 0 = digit_char (nat y div 1000)" "raw ! 1 = digit_char (nat y div 100 mod 10)"
      "raw ! 2 = digit_char (nat y div 10 mod 10)" "raw ! 3 = digit_char (nat y mod 10)"
      "raw ! 5 = digit_char (nat m div 10)" "raw ! 6 = digit_char (nat m mod 10)"
      "raw ! 8 = digit_char (nat d div 10)" "raw ! 9 = digit_char (nat d mod 10)"
      "raw ! 11 = digit_char (nat h div 10)" "raw ! 12 = digit_char (nat h mod 10)"
      "raw ! 14 = digit_char (nat mi div 10)" "raw ! 15 = digit_char (nat mi mod 10)"
      "raw ! 17 = digit_char (nat se div 10)" "raw ! 18 = digit_char (nat se mod 10)"
    unfolding e by simp_all
  have "ts_four raw 0 = Some (int (nat y div 1000) * 1000 + int (nat y div 100 mod 10) * 100
      + int (nat y div 10 mod 10) * 10 + int (nat y mod 10))"
    by (rule ts_four_digits) (simp_all add: nthr nthr(2) [unfolded One_nat_def] nthr(3) [unfolded numeral_2_eq_2] small l)
  then have f: "ts_four raw 0 = Some y" by (simp only: four_digits [OF assms(1)])
  have two: "ts_two raw i = Some x"
    if "raw ! i = digit_char (nat x div 10)" "raw ! (i + 1) = digit_char (nat x mod 10)"
      "i + 1 < length raw" "0 \<le> x" "nat x div 10 < 10" for i x
  proof -
    have "ts_two raw i = Some (int (nat x div 10) * 10 + int (nat x mod 10))"
      by (rule ts_two_digits) (use that in simp_all)
    then show ?thesis by (simp only: two_digits [OF that(4)])
  qed
  have t: "ts_two raw 5 = Some m" "ts_two raw 8 = Some d" "ts_two raw 11 = Some h" "ts_two raw 14 = Some mi"
      "ts_two raw 17 = Some se"
  proof -
    have "0 \<le> m" "0 \<le> d" using assms(3,5) by simp_all
    note nn = this assms(7,9,11)
    show "ts_two raw 5 = Some m" by (rule two [OF nthr(5) _ _ nn(1) small(2)]) (simp_all add: nthr l)
    show "ts_two raw 8 = Some d" by (rule two [OF nthr(7) _ _ nn(2) small(3)]) (simp_all add: nthr l)
    show "ts_two raw 11 = Some h" by (rule two [OF nthr(9) _ _ nn(3) small(4)]) (simp_all add: nthr l)
    show "ts_two raw 14 = Some mi" by (rule two [OF nthr(11) _ _ nn(4) small(5)]) (simp_all add: nthr l)
    show "ts_two raw 17 = Some se" by (rule two [OF nthr(13) _ _ nn(5) small(6)]) (simp_all add: nthr l)
  qed
  have g: "ts_get raw 4 = Some CHR ''-''" "ts_get raw 7 = Some CHR ''-''" "ts_get raw 10 = Some CHR ''T''"
      "ts_get raw 13 = Some CHR '':''" "ts_get raw 16 = Some CHR '':''"
    unfolding ts_get_def l by (simp_all add: e)
  show "parse_iso8601_timestamp raw =
    do { (idx, ns) \<leftarrow> ts_fraction raw 19;
         (idx', off) \<leftarrow> ts_offset raw idx;
         guard_opt (idx' = length raw);
         Some \<lparr> unix_seconds = days_from_civil y m d * 86400 + h * 3600 + mi * 60 + se - off, nanos = ns \<rparr> }"
    using assms(1-12) by (simp add: parse_iso8601_timestamp_def f t g) (simp add: l)
qed


lemma drop_Cons_get:
  "drop i raw = c # t \<Longrightarrow> ts_get raw i = Some c" "drop i raw = c # t \<Longrightarrow> drop (i + 1) raw = t"
  "drop i raw = [] \<Longrightarrow> ts_get raw i = None"
proof -
  show "ts_get raw i = Some c" "drop (i + 1) raw = t" if d: "drop i raw = c # t"
  proof -
    have "i < length raw" using d by (metis drop_all leI list.distinct(1))
    then show "ts_get raw i = Some c" using d by (simp add: ts_get_def nth_via_drop)
    show "drop (i + 1) raw = t" using d by (metis drop_drop add.commute drop_0 drop_Suc_Cons One_nat_def)
  qed
qed (simp add: ts_get_def)

lemma length_pad_dec: "n < 10 ^ Suc w \<Longrightarrow> length (pad_dec (Suc w) n) = Suc w"
proof (induction w arbitrary: n)
  case (Suc w)
  then have "n div 10 < 10 ^ Suc w" by (simp add: less_mult_imp_div_less)
  with Suc.IH show ?case by (simp add: pad_dec_Suc)
qed (simp add: pad_dec_1)

lemma nat_of_dec_zeros: "nat_of_dec (replicate k CHR ''0'' @ s) = nat_of_dec s"
  by (induction k) (simp_all add: nat_of_dec_def digit_val_def)

lemma nat_of_pad_dec [simp]: "nat_of_dec (pad_dec w n) = n"
  by (simp add: pad_dec_def nat_of_dec_zeros)

lemma pad_dec_digits: "c \<in> set (pad_dec w n) \<Longrightarrow> is_digit c"
  using dec_digits by (auto simp: pad_dec_def) (simp add: is_digit_def)

lemma trim_zeros_pad:
  "trim_zeros s @ replicate (length s - length (trim_zeros s)) CHR ''0'' = s"
proof -
  let ?r = "takeWhile (\<lambda>c. c = CHR ''0'') (rev s)"
  have s: "s = trim_zeros s @ rev ?r"
    unfolding trim_zeros_def rev_append [symmetric] by simp
  have "?r = replicate (length ?r) CHR ''0''"
    by (metis (full_types) replicate_eqI set_takeWhileD)
  then have "rev ?r = replicate (length ?r) CHR ''0''" by (metis rev_replicate)
  moreover have "length s - length (trim_zeros s) = length ?r"
    by (subst s) simp
  ultimately show ?thesis using s by simp
qed

lemma fraction_round:
  assumes "ns \<noteq> 0" "unat ns < 10 ^ 9"
    and raw: "drop 19 raw = ''.'' @ trim_zeros (pad_dec 9 (unat ns)) @ ''Z''"
  shows "ts_fraction raw 19 = Some (20 + length (trim_zeros (pad_dec 9 (unat ns))), ns)"
proof -
  define p where "p = pad_dec 9 (unat ns)"
  define frac where "frac = trim_zeros p"
  have "length (pad_dec (Suc 8) (unat ns)) = Suc 8" by (rule length_pad_dec) (use assms(2) in simp)
  then have len: "length p = 9" by (simp add: p_def)
  have pad: "frac @ replicate (9 - length frac) CHR ''0'' = p"
    using trim_zeros_pad [of p] by (simp add: frac_def len)
  then have lf: "length frac \<le> 9" using len by (metis length_append nat_le_iff_add)
  have "set frac \<subseteq> set p" using pad by (metis Un_upper1 set_append)
  then have dig: "\<forall>c \<in> set frac. is_digit c" using pad_dec_digits by (auto simp: p_def)
  have ne: "frac \<noteq> []"
  proof
    assume "frac = []"
    then have "nat_of_dec p = nat_of_dec (replicate 9 CHR ''0'' @ [])" using pad by simp
    then have "nat_of_dec p = 0" unfolding nat_of_dec_zeros by (simp add: nat_of_dec_def)
    then show False using assms(1) by (simp add: p_def unat_eq_zero)
  qed
  have raw': "drop 19 raw = CHR ''.'' # (frac @ ''Z'')" by (simp add: raw frac_def p_def)
  have tw: "takeWhile is_digit (frac @ ''Z'') = frac"
    using dig by (simp add: is_digit_def)
  have "word_of_dec p = Some ns"
    using unsigned_less [of ns] by (simp add: word_of_dec_def p_def Let_def)
  then show ?thesis
    using drop_Cons_get(1,2) [OF raw'] ne lf
    by (simp add: ts_fraction_def tw Let_def pad frac_def [symmetric] p_def [symmetric])
qed

lemma time_of_day:
  assumes "0 \<le> (sod::int)" "sod < 86400"
  shows "0 \<le> sod div 3600" "sod div 3600 \<le> 23" "0 \<le> sod mod 3600 div 60" "sod mod 3600 div 60 \<le> 59"
    "0 \<le> sod mod 60" "sod mod 60 \<le> 59" "sod div 3600 * 3600 + sod mod 3600 div 60 * 60 + sod mod 60 = sod"
proof -
  show "0 \<le> sod div 3600" "0 \<le> sod mod 3600 div 60" "0 \<le> sod mod 60" "sod mod 60 \<le> 59"
    "sod div 3600 \<le> 23" using assms by simp_all
  show "sod mod 3600 div 60 \<le> 59" using pos_mod_bound [of 3600 sod] by linarith
  have "sod mod 3600 mod 60 = sod mod 60" by (simp add: mod_mod_cancel)
  then have m: "sod mod 3600 div 60 * 60 + sod mod 60 = sod mod 3600"
    using div_mult_mod_eq [of "sod mod 3600" 60] by (simp only:)
  show "sod div 3600 * 3600 + sod mod 3600 div 60 * 60 + sod mod 60 = sod"
    unfolding add.assoc m by (rule div_mult_mod_eq)
qed

definition tail_text :: "u32 \<Rightarrow> string" where
  "tail_text ns = (if ns = 0 then ''Z'' else ''.'' @ trim_zeros (pad_dec 9 (unat ns)) @ ''Z'')"

lemma tail_parses:
  assumes "unat ns < 10 ^ 9" "drop 19 raw = tail_text ns" "length raw = 19 + length (tail_text ns)"
  obtains idx where "ts_fraction raw 19 = Some (idx, ns)" "ts_offset raw idx = Some (length raw, 0)"
proof -
  have "\<exists>idx. ts_fraction raw 19 = Some (idx, ns) \<and> drop idx raw = ''Z'' \<and> idx + 1 = length raw"
  proof (cases "ns = 0")
    case True
    then have "drop 19 raw = CHR ''Z'' # []" using assms(2) by (simp add: tail_text_def)
    from drop_Cons_get(1) [OF this] this show ?thesis
      using True assms(3) by (simp add: ts_fraction_def tail_text_def)
  next
    case False
    let ?f = "trim_zeros (pad_dec 9 (unat ns))"
    have t: "drop 19 raw = ''.'' @ ?f @ ''Z''" using False assms(2) by (simp add: tail_text_def)
    have "drop (20 + length ?f) raw = drop (1 + length ?f) (drop 19 raw)" by (simp add: add.commute)
    also have "\<dots> = ''Z''" by (simp add: t)
    finally show ?thesis
      using fraction_round [OF False assms(1) t] assms(3) False by (simp add: tail_text_def)
  qed
  then obtain idx where i: "ts_fraction raw 19 = Some (idx, ns)" "drop idx raw = CHR ''Z'' # []" "idx + 1 = length raw"
    by auto
  have "ts_offset raw idx = Some (length raw, 0)"
    using drop_Cons_get(1) [OF i(2)] i(3) by (simp add: ts_offset_def)
  with i(1) show thesis by (rule that)
qed

lemma format_text:
  assumes "civil_from_days (unix_seconds ts div 86400) = (y, m, d)" "sod = unix_seconds ts mod 86400"
  shows "format_iso8601_timestamp ts =
    core_text y m d (sod div 3600) (sod mod 3600 div 60) (sod mod 60) @ tail_text (nanos ts)"
  by (simp add: format_iso8601_timestamp_def assms Let_def core_text_def tail_text_def)

text \<open>
  Formatting and parsing are inverse on every normalised instant whose UTC year has at most
  four digits and is not negative: the parsed text gives back the same second and nanosecond.
\<close>

theorem iso8601_roundtrip:
  assumes "unat (nanos ts) < 10 ^ 9"
    and "civil_from_days (unix_seconds ts div 86400) = (y, m, d)" "0 \<le> y" "y \<le> 9999"
  shows "parse_iso8601_timestamp (format_iso8601_timestamp ts) = Some ts"
proof -
  define sod where "sod = unix_seconds ts mod 86400"
  have "0 \<le> sod" "sod < 86400" by (simp_all add: sod_def)
  note hms = time_of_day [OF this]
  have v: "valid_date y m d" and days: "days_from_civil y m d = unix_seconds ts div 86400"
    using days_of_civil [of "unix_seconds ts div 86400"] assms(2) by auto
  have md: "1 \<le> m" "m \<le> 12" "1 \<le> d" "d \<le> 31" "y < 10000"
    using v assms(4) by (auto simp: valid_date_def month_len_def split: if_splits)
  define raw where "raw = format_iso8601_timestamp ts"
  note pc = parse_core [OF assms(3) md(5,1-4) hms(1-6), of raw "tail_text (nanos ts)"]
  have raw: "raw = core_text y m d (sod div 3600) (sod mod 3600 div 60) (sod mod 60) @ tail_text (nanos ts)"
    unfolding raw_def by (rule format_text [OF assms(2) sod_def])
  obtain idx where "ts_fraction raw 19 = Some (idx, nanos ts)" "ts_offset raw idx = Some (length raw, 0)"
    by (rule tail_parses [OF assms(1) pc(3,2) [OF raw]])
  then have "parse_iso8601_timestamp raw = Some \<lparr> unix_seconds = days_from_civil y m d * 86400
      + sod div 3600 * 3600 + sod mod 3600 div 60 * 60 + sod mod 60, nanos = nanos ts \<rparr>"
    using pc(1) [OF raw] by simp
  moreover have "days_from_civil y m d * 86400 + sod div 3600 * 3600 + sod mod 3600 div 60 * 60 + sod mod 60
      = unix_seconds ts"
  proof -
    have "days_from_civil y m d * 86400 + (sod div 3600 * 3600 + sod mod 3600 div 60 * 60 + sod mod 60)
        = unix_seconds ts"
      unfolding hms(7) unfolding days sod_def by (rule div_mult_mod_eq)
    then show ?thesis by (simp only: add.assoc)
  qed
  ultimately show ?thesis by (simp add: raw_def)
qed


lemma iso_digit_chars:
  "digit_char 0 = CHR ''0''" "digit_char 1 = CHR ''1''" "digit_char 2 = CHR ''2''" "digit_char 3 = CHR ''3''"
  "digit_char 4 = CHR ''4''" "digit_char 5 = CHR ''5''" "digit_char 6 = CHR ''6''" "digit_char 7 = CHR ''7''"
  "digit_char 8 = CHR ''8''" "digit_char 9 = CHR ''9''"
  by code_simp+

lemmas core_eval = core_text_def pad_int_2 pad_int_4 iso_digit_chars iso_digit_chars(2) [unfolded One_nat_def]
  iso_digit_chars(3) [unfolded numeral_2_eq_2]

lemma parse_core_Z:
  assumes "0 \<le> y" "y < 10000" "1 \<le> m" "m \<le> 12" "1 \<le> d" "d \<le> 31" "0 \<le> h" "h \<le> 23" "0 \<le> mi" "mi \<le> 59"
    "0 \<le> se" "se \<le> 59"
  shows "parse_iso8601_timestamp (core_text y m d h mi se @ ''Z'') =
    Some \<lparr> unix_seconds = days_from_civil y m d * 86400 + h * 3600 + mi * 60 + se, nanos = 0 \<rparr>"
proof -
  let ?raw = "core_text y m d h mi se @ ''Z''"
  note pc = parse_core [OF assms refl, of "''Z''"]
  have "ts_get ?raw 19 = Some CHR ''Z''" using drop_Cons_get(1) pc(3) by blast
  then show ?thesis using pc(2) by (simp add: pc(1) ts_fraction_def ts_offset_def)
qed

lemma parse_no_dash: "ts_get raw 4 \<noteq> Some CHR ''-'' \<Longrightarrow> parse_iso8601_timestamp raw = None"
  by (simp add: parse_iso8601_timestamp_def)

theorem iso8601_roundtrip_witness:
  "parse_iso8601_timestamp (format_iso8601_timestamp \<lparr> unix_seconds = 1709210096, nanos = 500000000 \<rparr>) =
     Some \<lparr> unix_seconds = 1709210096, nanos = 500000000 \<rparr>"
proof (rule iso8601_roundtrip)
  have "days_from_civil 2024 2 29 = 19782" by (simp add: days_from_civil_def Let_def)
  moreover have "valid_date 2024 2 29" by (simp add: valid_date_def month_len_def leap_def)
  ultimately have "civil_from_days 19782 = (2024, 2, 29)" using civil_of_days by metis
  then show "civil_from_days (unix_seconds \<lparr> unix_seconds = 1709210096, nanos = 500000000 \<rparr> div 86400) = (2024, 2, 29)"
    by simp
qed simp_all

text \<open>
  The parser does not compare the day with the length of the month: 31 February is accepted
  and denotes 3 March.
\<close>

theorem iso8601_day_of_month_unchecked:
  "parse_iso8601_timestamp ''2023-02-31T00:00:00Z'' = parse_iso8601_timestamp ''2023-03-03T00:00:00Z'' \<and>
   parse_iso8601_timestamp ''2023-02-31T00:00:00Z'' \<noteq> None \<and> \<not> valid_date 2023 2 31"
proof -
  have a: "''2023-02-31T00:00:00Z'' = core_text 2023 2 31 0 0 0 @ ''Z''" by (simp add: core_eval)
  have b: "''2023-03-03T00:00:00Z'' = core_text 2023 3 3 0 0 0 @ ''Z''" by (simp add: core_eval)
  have d: "days_from_civil 2023 2 31 = days_from_civil 2023 3 3"
    by (simp add: days_from_civil_def Let_def)
  show ?thesis unfolding a b by (subst (1 2 3) parse_core_Z) (simp_all add: d valid_date_def month_len_def leap_def)
qed

text \<open>
  The formatter is not the inverse of the parser on every parsed instant: an offset can move an
  accepted text out of the years of four digits, and the text it is formatted to is refused.
\<close>

theorem iso8601_reparse_fails:
  "\<exists>t. parse_iso8601_timestamp ''9999-12-31T23:59:59-01:00'' = Some t \<and>
       parse_iso8601_timestamp (format_iso8601_timestamp t) = None"
proof -
  let ?raw = "core_text 9999 12 31 23 59 59 @ ''-01:00''"
  define t where "t = \<lparr> unix_seconds = 253402304399, nanos = 0 \<rparr>"
  have a: "''9999-12-31T23:59:59-01:00'' = ?raw" by (simp add: core_eval)
  have pc: "parse_iso8601_timestamp ?raw =
     do { (idx, ns) \<leftarrow> ts_fraction ?raw 19;
         (idx', off) \<leftarrow> ts_offset ?raw idx;
         guard_opt (idx' = length ?raw);
         Some \<lparr> unix_seconds = days_from_civil 9999 12 31 * 86400 + 23 * 3600 + 59 * 60 + 59 - off, nanos = ns \<rparr> }"
    by (rule parse_core [OF _ _ _ _ _ _ _ _ _ _ _ _ refl]) simp_all
  have g: "ts_get ?raw 19 = Some CHR ''-''" "ts_two ?raw 20 = Some 1" "ts_get ?raw 22 = Some CHR '':''"
      "ts_two ?raw 23 = Some 0" "length ?raw = 25"
    unfolding a [symmetric] by (simp_all add: ts_get_def ts_two_def ts_digit_def is_digit_def digit_val_def)
  have "parse_iso8601_timestamp ?raw = Some t"
    unfolding pc using g(5) by (simp add: ts_fraction_def ts_offset_def g t_def days_from_civil_def Let_def)
  moreover have pad10000: "pad_int 4 10000 = ''10000''"
  proof -
    have "dec_of_nat 10000 = [digit_char 1, digit_char 0, digit_char 0, digit_char 0, digit_char 0]"
      by (simp add: dec_step dec_single)
    then show ?thesis by (simp add: pad_int_def pad_dec_def iso_digit_chars iso_digit_chars(2) [unfolded One_nat_def])
  qed
  moreover have "civil_from_days 2932897 = (10000, 1, 1)"
  proof -
    have "days_from_civil 10000 1 1 = 2932897" by (simp add: days_from_civil_def Let_def)
    moreover have "valid_date 10000 1 1" by (simp add: valid_date_def month_len_def)
    ultimately show ?thesis using civil_of_days by metis
  qed
  then have "format_iso8601_timestamp t = ''10000-01-01T00:59:59Z''"
    by (simp add: format_iso8601_timestamp_def t_def core_eval pad10000)
  moreover have "parse_iso8601_timestamp ''10000-01-01T00:59:59Z'' = None"
    by (rule parse_no_dash) (simp add: ts_get_def)
  ultimately show ?thesis unfolding a by (intro exI [of _ t]) (simp only: simp_thms)
qed
end
