(* ===== verification/Registry.thy ===== *)
theory Registry
  imports Constraint Types Timestamp
begin

text \<open>
  The registry index of \<^verbatim>\<open>milpa-core/src/registry.rs\<close> as the resolver queries it: lookups by bare
  and by qualified name, the candidate filter both named lookups share, and the time bound on
  candidates.  The parsing of \<^verbatim>\<open>index.kdl\<close> is not part of this theory.  The main facts: which
  versions are candidates, and which error is raised when there is none.
\<close>

subsection \<open>The index\<close>

record index_version =
  iv_version :: string
  iv_content_hash :: string
  iv_provenances :: "provenance list"
  iv_dep_decl :: "string option"
  iv_dep_decl_schema :: "int option"
  iv_attestation :: "entry_attestation option"
  iv_namespace :: string
  iv_published_at :: "timestamp option"
  iv_yanked :: bool
  iv_yanked_at :: "timestamp option"
  iv_yanked_reason :: "string option"
  iv_published_at_raw :: "string option"

record index_package =
  pk_name :: string
  pk_namespace :: string
  pk_versions :: "index_version list"

datatype bare_lookup = Found index_package | Ambiguous "string list" | NotFound

record index =
  ix_packages :: "index_package list"

subsection \<open>Lookups and candidates\<close>

definition lookup_bare :: "index \<Rightarrow> string \<Rightarrow> bare_lookup" where
  "lookup_bare ix n =
     (case filter (\<lambda>p. pk_name p = n) (ix_packages ix) of
        [] \<Rightarrow> NotFound
      | [one] \<Rightarrow> Found one
      | many \<Rightarrow> Ambiguous (map pk_namespace many))"

definition lookup_qualified :: "index \<Rightarrow> string \<Rightarrow> string \<Rightarrow> index_package option" where
  "lookup_qualified ix ns n = find (\<lambda>p. pk_name p = n \<and> pk_namespace p = ns) (ix_packages ix)"

text \<open>
  The loop of \<^verbatim>\<open>filter_candidates\<close> with its three accumulators: satisfying, without provenance,
  excluded as yanked.
\<close>

type_synonym candidates = "index_version list \<times> string list \<times> index_version list"

definition candidate_step :: "version_set \<Rightarrow> candidates \<Rightarrow> index_version \<Rightarrow> candidates" where
  "candidate_step vs acc v =
     (case acc of (satisfying, provenance_less, yanked_excluded) \<Rightarrow>
        (case parse_version (iv_version v) of
          None \<Rightarrow> acc
        | Some parsed \<Rightarrow>
            if iv_yanked v
            then (if vs_contains vs parsed then (satisfying, provenance_less, yanked_excluded @ [v]) else acc)
            else if vs_contains vs parsed
            then (if iv_provenances v = []
                  then (satisfying, provenance_less @ [iv_version v], yanked_excluded)
                  else (satisfying @ [v], provenance_less, yanked_excluded))
            else acc))"

definition filter_candidates :: "index_version list \<Rightarrow> version_set \<Rightarrow> candidates" where
  "filter_candidates versions vs = foldl (candidate_step vs) ([], [], []) versions"

text \<open>The common tail of both named lookups: the slug when nothing satisfies.\<close>

definition select_candidates :: "index_package \<Rightarrow> version_set \<Rightarrow> string + index_version list" where
  "select_candidates pkg vs =
     (let (satisfying, provenance_less, yanked_excluded) = filter_candidates (pk_versions pkg) vs
      in if satisfying = []
         then (if provenance_less \<noteq> [] then Inl ''TNG-NO-PROVENANCE''
               else Inl ''TNG-NO-SATISFYING-VERSION'')
         else Inr satisfying)"

definition resolve_named_all :: "index \<Rightarrow> string \<Rightarrow> version_set \<Rightarrow> string + index_version list" where
  "resolve_named_all ix n vs =
     (case lookup_bare ix n of
        NotFound \<Rightarrow> Inl ''TNG-NOT-FOUND''
      | Ambiguous nss \<Rightarrow> Inl ''TNG-AMBIGUOUS-NAME''
      | Found pkg \<Rightarrow> select_candidates pkg vs)"

definition resolve_named_all_qualified ::
  "index \<Rightarrow> string \<Rightarrow> string \<Rightarrow> version_set \<Rightarrow> string + index_version list" where
  "resolve_named_all_qualified ix ns n vs =
     (case lookup_qualified ix ns n of
        None \<Rightarrow> Inl ''TNG-NOT-FOUND''
      | Some pkg \<Rightarrow> select_candidates pkg vs)"

definition filter_by_exclude_newer ::
  "index_version list \<Rightarrow> timestamp option \<Rightarrow> index_version list \<times> nat" where
  "filter_by_exclude_newer versions bound =
     (case bound of
        None \<Rightarrow> (versions, 0)
      | Some ts \<Rightarrow>
          (let kept = filter (\<lambda>iv. case iv_published_at iv of Some pa \<Rightarrow> ts_le pa ts | None \<Rightarrow> False) versions
           in (kept, length versions - length kept)))"

subsection \<open>Facts\<close>

definition satisfies :: "version_set \<Rightarrow> index_version \<Rightarrow> bool" where
  "satisfies vs v \<longleftrightarrow>
     (case parse_version (iv_version v) of None \<Rightarrow> False | Some p \<Rightarrow> vs_contains vs p)"

lemma candidate_fold:
  "foldl (candidate_step vs) (s, p, y) xs =
   (s @ filter (\<lambda>v. satisfies vs v \<and> \<not> iv_yanked v \<and> iv_provenances v \<noteq> []) xs,
    p @ map iv_version (filter (\<lambda>v. satisfies vs v \<and> \<not> iv_yanked v \<and> iv_provenances v = []) xs),
    y @ filter (\<lambda>v. satisfies vs v \<and> iv_yanked v) xs)"
proof (induction xs arbitrary: s p y)
  case (Cons x xs)
  then show ?case
    by (cases "parse_version (iv_version x)") (simp_all add: candidate_step_def satisfies_def)
qed simp

lemma filter_candidates_eq:
  "filter_candidates xs vs =
   (filter (\<lambda>v. satisfies vs v \<and> \<not> iv_yanked v \<and> iv_provenances v \<noteq> []) xs,
    map iv_version (filter (\<lambda>v. satisfies vs v \<and> \<not> iv_yanked v \<and> iv_provenances v = []) xs),
    filter (\<lambda>v. satisfies vs v \<and> iv_yanked v) xs)"
  by (simp add: filter_candidates_def candidate_fold)

lemma lookup_bare_Found:
  "lookup_bare ix n = Found p \<longleftrightarrow> filter (\<lambda>q. pk_name q = n) (ix_packages ix) = [p]"
  by (auto simp: lookup_bare_def split: list.splits)

lemma found_qualified:
  assumes "lookup_bare ix n = Found p"
  shows "lookup_qualified ix (pk_namespace p) n = Some p"
proof -
  have "filter (\<lambda>q. pk_name q = n) xs = [p] \<Longrightarrow>
      find (\<lambda>q. pk_name q = n \<and> pk_namespace q = pk_namespace p) xs = Some p" for xs
    by (induction xs) (auto split: if_splits)
  with assms show ?thesis by (simp add: lookup_bare_Found lookup_qualified_def)
qed

subsection \<open>Properties\<close>

text \<open>
  Candidate selection.  A named lookup that succeeds returns, in index order, exactly the
  versions of the package that parse, satisfy the constraint, are not yanked and have a
  provenance, and there is at least one; a yanked version is never a candidate.  When there is
  none, the error says whether a version was lost for want of provenance alone.
\<close>

theorem named_candidates:
  assumes "lookup_bare ix n = Found p"
  shows "(resolve_named_all ix n vs = Inr vers \<longleftrightarrow>
      vers \<noteq> [] \<and>
      vers = filter (\<lambda>v. satisfies vs v \<and> \<not> iv_yanked v \<and> iv_provenances v \<noteq> []) (pk_versions p)) \<and>
    (resolve_named_all ix n vs = Inl ''TNG-NO-PROVENANCE'' \<longleftrightarrow>
      (\<forall>v \<in> set (pk_versions p). satisfies vs v \<and> \<not> iv_yanked v \<longrightarrow> iv_provenances v = []) \<and>
      (\<exists>v \<in> set (pk_versions p). satisfies vs v \<and> \<not> iv_yanked v)) \<and>
    resolve_named_all_qualified ix (pk_namespace p) n vs = resolve_named_all ix n vs"
  using assms found_qualified [OF assms]
  by (auto simp: resolve_named_all_def resolve_named_all_qualified_def select_candidates_def
      filter_candidates_eq filter_empty_conv)

definition demo_version :: "string \<Rightarrow> bool \<Rightarrow> index_version" where
  "demo_version v y =
     \<lparr>iv_version = v, iv_content_hash = [], iv_provenances = [PLocal ''p''], iv_dep_decl = None,
      iv_dep_decl_schema = None, iv_attestation = None, iv_namespace = ''acme'',
      iv_published_at = Some \<lparr>unix_seconds = 5, nanos = 0\<rparr>, iv_yanked = y, iv_yanked_at = None,
      iv_yanked_reason = None, iv_published_at_raw = None\<rparr>"

definition demo_index :: index where
  "demo_index = \<lparr>ix_packages = [\<lparr>pk_name = ''foo'', pk_namespace = ''acme'',
     pk_versions = [demo_version (format_version (rel 1)) True, demo_version (format_version (rel 1)) False]\<rparr>]\<rparr>"

theorem named_candidates_witness:
  "resolve_named_all demo_index ''foo'' vs_full = Inr [demo_version (format_version (rel 1)) False]"
proof -
  have "lookup_bare demo_index ''foo'' = Found (hd (ix_packages demo_index))"
    by (simp add: lookup_bare_def demo_index_def)
  from named_candidates [OF this] show ?thesis
    by (simp add: demo_index_def demo_version_def satisfies_def parse_format_wf contains_full)
qed

text \<open>
  The time bound is fail-closed: without a bound nothing changes; with one, a version is
  kept exactly when its publication time is known and not later, the count is of the rest, and an
  earlier bound keeps no more.
\<close>

theorem exclude_newer_fail_closed:
  "filter_by_exclude_newer xs None = (xs, 0) \<and>
   (v \<in> set (fst (filter_by_exclude_newer xs (Some ts))) \<longleftrightarrow>
     v \<in> set xs \<and> (\<exists>pa. iv_published_at v = Some pa \<and> ts_le pa ts)) \<and>
   snd (filter_by_exclude_newer xs (Some ts)) + length (fst (filter_by_exclude_newer xs (Some ts))) = length xs \<and>
   (ts_le ts ts' \<longrightarrow> set (fst (filter_by_exclude_newer xs (Some ts))) \<subseteq>
     set (fst (filter_by_exclude_newer xs (Some ts'))))"
  using ts_le_order(2)
  by (auto simp: filter_by_exclude_newer_def Let_def split: option.splits)

theorem exclude_newer_fail_closed_witness:
  "demo_version ''1.0.0'' False \<in>
   set (fst (filter_by_exclude_newer [demo_version ''1.0.0'' False] (Some \<lparr>unix_seconds = 9, nanos = 0\<rparr>)))"
  using exclude_newer_fail_closed [of "[demo_version ''1.0.0'' False]" "demo_version ''1.0.0'' False"
      "\<lparr>unix_seconds = 5, nanos = 0\<rparr>" "\<lparr>unix_seconds = 9, nanos = 0\<rparr>"]
  by (auto simp: demo_version_def ts_le_def ts_key_def)

end
