(* ===== verification/Binding.thy ===== *)
theory Binding
  imports Registry SourceId
begin

text \<open>
  \<^verbatim>\<open>milpa-core/src/binding.rs\<close>: the binding phase.  A \<^verbatim>\<open>BindingResolver\<close> maps dependency keys to
  sources; root claims are bound at construction, transitive claims are submitted one by one.
  Also the reconciliation of root declarations with overrides, the solver key a requirement will
  have, and the registry-shadow check.  The main facts: root bindings never change, the outcome
  of a set of claims does not depend on their order, and reconciled claims never disagree.
\<close>

subsection \<open>Claims and decisions\<close>

record claim =
  cl_name :: string
  cl_source :: source_id
  cl_is_root :: bool
  cl_claimant :: string

datatype bind_outcome = New | Duplicate | LostToRoot

record binding_decision =
  bd_accepted :: source_id
  bd_outcome :: bind_outcome

text \<open>A call ends in a panic, an error with its slug, or a value.\<close>

datatype 'a run = Panics | Raises string | Returns 'a

definition key_for :: "claim \<Rightarrow> dep_key" where
  "key_for c = from_solver_var (cl_name c)"

subsection \<open>The resolver\<close>

text \<open>The hash maps and the hash set are only looked up, never iterated.\<close>

record binding_resolver =
  br_bindings :: "dep_key \<rightharpoonup> source_id"
  br_root_keys :: "dep_key set"
  br_solverkey_index :: "string \<rightharpoonup> solver_key"

definition br_empty :: binding_resolver where
  "br_empty = \<lparr>br_bindings = Map.empty, br_root_keys = {}, br_solverkey_index = Map.empty\<rparr>"

text \<open>\<^verbatim>\<open>entry(ck).or_insert_with(..)\<close>: the first key bound to an origin is its display.\<close>

definition intern_key :: "source_id \<Rightarrow> dep_key \<Rightarrow> (string \<rightharpoonup> solver_key) \<Rightarrow> (string \<rightharpoonup> solver_key)" where
  "intern_key sid k ix =
     (case ix (canonical sid) of
        Some _ \<Rightarrow> ix
      | None \<Rightarrow> ix(canonical sid \<mapsto> solver_key_new (canonical sid) k))"

definition bind_root :: "claim \<Rightarrow> binding_resolver \<Rightarrow> binding_resolver run" where
  "bind_root c br =
     (if \<not> cl_is_root c then Panics
      else if (case br_bindings br (key_for c) of Some e \<Rightarrow> e \<noteq> cl_source c | None \<Rightarrow> False) then Panics
      else Returns
        \<lparr>br_bindings = (br_bindings br)(key_for c \<mapsto> cl_source c),
         br_root_keys = insert (key_for c) (br_root_keys br),
         br_solverkey_index = intern_key (cl_source c) (key_for c) (br_solverkey_index br)\<rparr>)"

fun binding_new_loop :: "claim list \<Rightarrow> binding_resolver \<Rightarrow> binding_resolver run" where
  "binding_new_loop [] br = Returns br"
| "binding_new_loop (c # cs) br =
     (case bind_root c br of Returns br' \<Rightarrow> binding_new_loop cs br' | r \<Rightarrow> r)"

definition binding_new :: "claim list \<Rightarrow> binding_resolver run" where
  "binding_new root_claims = binding_new_loop root_claims br_empty"

definition submit :: "claim \<Rightarrow> binding_resolver \<Rightarrow> (binding_decision \<times> binding_resolver) run" where
  "submit c br =
     (if cl_is_root c then Panics
      else case br_bindings br (key_for c) of
        None \<Rightarrow>
          Returns (\<lparr>bd_accepted = cl_source c, bd_outcome = New\<rparr>,
            \<lparr>br_bindings = (br_bindings br)(key_for c \<mapsto> cl_source c),
             br_root_keys = br_root_keys br,
             br_solverkey_index = intern_key (cl_source c) (key_for c) (br_solverkey_index br)\<rparr>)
      | Some existing \<Rightarrow>
          if existing = cl_source c
          then Returns (\<lparr>bd_accepted = existing, bd_outcome = Duplicate\<rparr>, br)
          else if key_for c \<in> br_root_keys br
          then Returns (\<lparr>bd_accepted = existing, bd_outcome = LostToRoot\<rparr>, br)
          else Raises ''RES-BINDING-CONFLICT'')"

definition source_id_for :: "binding_resolver \<Rightarrow> dep_key \<Rightarrow> source_id option" where
  "source_id_for br k = br_bindings br k"

definition is_root_authority :: "binding_resolver \<Rightarrow> dep_key \<Rightarrow> bool" where
  "is_root_authority br k \<longleftrightarrow> k \<in> br_root_keys br"

definition canonical_for :: "binding_resolver \<Rightarrow> dep_key \<Rightarrow> string + solver_key" where
  "canonical_for br k =
     (case br_bindings br k of
        None \<Rightarrow> Inl ''MILPA-INTERNAL''
      | Some sid \<Rightarrow>
          (case br_solverkey_index br (canonical sid) of
             Some sk \<Rightarrow> Inr sk
           | None \<Rightarrow> Inr (solver_key_new (canonical sid) k)))"

definition display_for :: "binding_resolver \<Rightarrow> string \<Rightarrow> dep_key option" where
  "display_for br v = map_option sk_display (br_solverkey_index br v)"

subsection \<open>Declarations, overrides and the sources they denote\<close>

text \<open>The fields of the manifest's dependency forms and override targets that binding reads.\<close>

datatype dep_decl =
    UrlDep string string string "string option"
  | NamedDep string "string option"
  | LocalDep string string
  | TarballDep string string "string option"
  | MemberDep string

fun dep_decl_name :: "dep_decl \<Rightarrow> string" where
  "dep_decl_name (UrlDep n g r sp) = n"
| "dep_decl_name (NamedDep n ns) = n"
| "dep_decl_name (LocalDep n p) = n"
| "dep_decl_name (TarballDep n u sp) = n"
| "dep_decl_name (MemberDep n) = n"

datatype override_target =
    OGit string string "string option"
  | OLocal string
  | OMember string
  | OOci string string string "string option"
  | OTarball string "string option"
  | ORegistry string "string option"

record override_rule =
  ov_name :: string
  ov_target :: override_target

definition default_registry_alias :: string where
  "default_registry_alias = ''tianguis''"

definition resolved_registry_namespace :: "string \<Rightarrow> string option \<Rightarrow> index \<Rightarrow> string option" where
  "resolved_registry_namespace n ns ix =
     (case ns of
        Some s \<Rightarrow> Some s
      | None \<Rightarrow>
          (case lookup_bare ix n of
             Found p \<Rightarrow> if pk_namespace p = [] then None else Some (pk_namespace p)
           | _ \<Rightarrow> None))"

definition registry_origin :: "string \<Rightarrow> string option \<Rightarrow> index \<Rightarrow> source_id" where
  "registry_origin n ns ix =
     Fetchable (Registry default_registry_alias (resolved_registry_namespace n ns ix) n)"

definition override_target_to_raw_origin :: "override_rule \<Rightarrow> index \<Rightarrow> source_id" where
  "override_target_to_raw_origin ov ix =
     (case ov_target ov of
        OGit url r sp \<Rightarrow> Fetchable (Git url (Some r) sp)
      | OLocal p \<Rightarrow> Fetchable (Local p)
      | OMember m \<Rightarrow> Member m
      | OOci reg repo d sp \<Rightarrow> Fetchable (Oci reg repo (Some d) sp)
      | OTarball url sp \<Rightarrow> Fetchable (Tarball url sp)
      | ORegistry n ns \<Rightarrow> registry_origin n ns ix)"

fun dep_declared_raw_origin :: "dep_decl \<Rightarrow> index \<Rightarrow> source_id option" where
  "dep_declared_raw_origin (UrlDep n g r sp) ix = Some (Fetchable (Git g (Some r) sp))"
| "dep_declared_raw_origin (NamedDep n ns) ix = Some (registry_origin n ns ix)"
| "dep_declared_raw_origin (TarballDep n u sp) ix = Some (Fetchable (Tarball u sp))"
| "dep_declared_raw_origin (LocalDep n p) ix = Some (Fetchable (Local p))"
| "dep_declared_raw_origin (MemberDep n) ix = None"

text \<open>
  The solver key a requirement would claim: the binding if there is one, else the default of its
  kind.  \<open>overrides\<close> is the map from names to override rules.
\<close>

definition canonical_key_for_requirement ::
  "(string \<Rightarrow> string) \<Rightarrow> string \<Rightarrow> string option \<Rightarrow> string option \<Rightarrow> string option \<Rightarrow>
   (string \<rightharpoonup> override_rule) \<Rightarrow> index \<Rightarrow> string option \<Rightarrow> binding_resolver option \<Rightarrow>
   string + solver_key" where
  "canonical_key_for_requirement lower n ns url git_ref overrides ix root_self br_opt =
     (let dk = \<lparr>dk_name = n, dk_namespace = ns\<rparr>
      in case Option.bind br_opt (\<lambda>br. if source_id_for br dk \<noteq> None then Some br else None) of
           Some br \<Rightarrow> canonical_for br dk
         | None \<Rightarrow>
             if ns = None \<and> url = None \<and> root_self = Some n
             then Inr (solver_key_new (canonical (Member n)) dk)
             else
               (let raw = (case overrides n of
                     Some ov \<Rightarrow> override_target_to_raw_origin ov ix
                   | None \<Rightarrow> (case url of
                         Some u \<Rightarrow> Fetchable (Git u git_ref None)
                       | None \<Rightarrow> registry_origin n ns ix))
                in case normalize_source lower raw of
                     Inl e \<Rightarrow> Inl e
                   | Inr sid \<Rightarrow> Inr (solver_key_new (canonical sid) dk)))"

subsection \<open>Reconciling root declarations with overrides\<close>

record reconcile_state =
  rc_claims :: "claim list"
  rc_seen_names :: "string set"
  rc_seen_keys :: "dep_key set"
  rc_key_source :: "dep_key \<rightharpoonup> source_id"

definition rc_init :: reconcile_state where
  "rc_init = \<lparr>rc_claims = [], rc_seen_names = {}, rc_seen_keys = {}, rc_key_source = Map.empty\<rparr>"

text \<open>Collecting a list into a hash map: the last rule of a name wins.\<close>

definition overrides_by_name :: "override_rule list \<Rightarrow> string \<rightharpoonup> override_rule" where
  "overrides_by_name ovs = map_of (rev (map (\<lambda>ov. (ov_name ov, ov)) ovs))"

definition dep_decl_key :: "dep_decl \<Rightarrow> dep_key" where
  "dep_decl_key d =
     \<lparr>dk_name = dep_decl_name d, dk_namespace = (case d of NamedDep n ns \<Rightarrow> ns | _ \<Rightarrow> None)\<rparr>"

text \<open>The raw source, the claimant and the name of the claim a declaration makes, if any.\<close>

definition declared_claim ::
  "(string \<rightharpoonup> override_rule) \<Rightarrow> index \<Rightarrow> dep_decl \<Rightarrow> (source_id \<times> string \<times> string) option" where
  "declared_claim ovs ix d =
     (case ovs (dep_decl_name d) of
        Some ov \<Rightarrow>
          Some (override_target_to_raw_origin ov ix, ''override:'' @ dep_decl_name d, dep_decl_name d)
      | None \<Rightarrow>
          (case dep_declared_raw_origin d ix of
             Some raw \<Rightarrow> Some (raw, ''root'', solver_var (dep_decl_key d))
           | None \<Rightarrow> None))"

definition reconcile_dep ::
  "(string \<Rightarrow> string) \<Rightarrow> (string \<rightharpoonup> override_rule) \<Rightarrow> index \<Rightarrow> dep_decl \<Rightarrow> reconcile_state \<Rightarrow>
   string + reconcile_state" where
  "reconcile_dep lower ovs ix d st =
     (let key = dep_decl_key d;
          first_time = (key \<notin> rc_seen_keys st);
          st = st\<lparr>rc_seen_keys := insert key (rc_seen_keys st),
                  rc_seen_names := insert (dep_decl_name d) (rc_seen_names st)\<rparr>
      in case declared_claim ovs ix d of
           None \<Rightarrow> Inr st
         | Some (raw, claimant, name) \<Rightarrow>
             (case normalize_source lower raw of
                Inl e \<Rightarrow> Inl e
              | Inr sid \<Rightarrow>
                  if \<not> first_time
                  then (if (case rc_key_source st key of Some prior \<Rightarrow> prior \<noteq> sid | None \<Rightarrow> False)
                        then Inl ''RES-BINDING-CONFLICT'' else Inr st)
                  else Inr (st\<lparr>rc_key_source := (rc_key_source st)(key \<mapsto> sid),
                       rc_claims := rc_claims st @
                         [\<lparr>cl_name = name, cl_source = sid, cl_is_root = True, cl_claimant = claimant\<rparr>]\<rparr>)))"

fun reconcile_deps ::
  "(string \<Rightarrow> string) \<Rightarrow> (string \<rightharpoonup> override_rule) \<Rightarrow> index \<Rightarrow> dep_decl list \<Rightarrow> reconcile_state \<Rightarrow>
   string + reconcile_state" where
  "reconcile_deps lower ovs ix [] st = Inr st"
| "reconcile_deps lower ovs ix (d # ds) st =
     (case reconcile_dep lower ovs ix d st of
        Inl e \<Rightarrow> Inl e | Inr st' \<Rightarrow> reconcile_deps lower ovs ix ds st')"

text \<open>The catch-up loop: overrides of names that no root declaration has.\<close>

fun reconcile_overrides ::
  "(string \<Rightarrow> string) \<Rightarrow> index \<Rightarrow> override_rule list \<Rightarrow> reconcile_state \<Rightarrow> string + reconcile_state" where
  "reconcile_overrides lower ix [] st = Inr st"
| "reconcile_overrides lower ix (ov # ovs) st =
     (if ov_name ov \<in> rc_seen_names st then reconcile_overrides lower ix ovs st
      else case normalize_source lower (override_target_to_raw_origin ov ix) of
        Inl e \<Rightarrow> Inl e
      | Inr sid \<Rightarrow>
          reconcile_overrides lower ix ovs
            (st\<lparr>rc_seen_names := insert (ov_name ov) (rc_seen_names st),
                rc_claims := rc_claims st @
                  [\<lparr>cl_name = ov_name ov, cl_source = sid, cl_is_root = True,
                    cl_claimant = ''override:'' @ ov_name ov\<rparr>]\<rparr>))"

definition reconcile_root_claims ::
  "(string \<Rightarrow> string) \<Rightarrow> dep_decl list \<Rightarrow> override_rule list \<Rightarrow> index \<Rightarrow> string + claim list" where
  "reconcile_root_claims lower deps ovs ix =
     (case reconcile_deps lower (overrides_by_name ovs) ix deps rc_init of
        Inl e \<Rightarrow> Inl e
      | Inr st \<Rightarrow>
          (case reconcile_overrides lower ix ovs st of
             Inl e \<Rightarrow> Inl e | Inr st' \<Rightarrow> Inr (rc_claims st')))"

subsection \<open>The registry-shadow check\<close>

text \<open>Acceptance in silence, or acceptance with a warning.\<close>

datatype shadow = Silent | Warned

definition owning_packages :: "index \<Rightarrow> string \<Rightarrow> index_package list" where
  "owning_packages ix n =
     (case lookup_bare ix n of
        Found p \<Rightarrow> [p]
      | Ambiguous nss \<Rightarrow> concat (map (\<lambda>ns. case lookup_qualified ix ns n of Some p \<Rightarrow> [p] | None \<Rightarrow> []) nss)
      | NotFound \<Rightarrow> [])"

fun upstream_url :: "provenance \<Rightarrow> string option" where
  "upstream_url (PGit url r c) = Some url"
| "upstream_url (POci reg repo d src) =
     (case src of Some u \<Rightarrow> if u \<noteq> [] then Some u else None | None \<Rightarrow> None)"
| "upstream_url _ = None"

fun claim_url :: "source_id \<Rightarrow> string option" where
  "claim_url (Fetchable (Git url r sp)) = Some url"
| "claim_url (Fetchable (Tarball url sp)) = Some url"
| "claim_url _ = None"

fun self_sourced :: "source_id \<Rightarrow> bool" where
  "self_sourced (Fetchable (Git url r sp)) \<longleftrightarrow> True"
| "self_sourced (Fetchable (Tarball url sp)) \<longleftrightarrow> True"
| "self_sourced (Fetchable (Oci reg repo d sp)) \<longleftrightarrow> True"
| "self_sourced _ \<longleftrightarrow> False"

definition same_upstream :: "(string \<Rightarrow> string) \<Rightarrow> string \<Rightarrow> provenance \<Rightarrow> bool" where
  "same_upstream lower url prov \<longleftrightarrow>
     (case upstream_url prov of
        Some u \<Rightarrow> normalize_git_url lower u = normalize_git_url lower url
      | None \<Rightarrow> False)"

definition check_registry_shadow ::
  "(string \<Rightarrow> string) \<Rightarrow> claim \<Rightarrow> index \<Rightarrow> bool \<Rightarrow> string + shadow" where
  "check_registry_shadow lower c ix strict =
     (if \<not> self_sourced (cl_source c) then Inr Silent
      else let packages = owning_packages ix (dk_name (from_solver_var (cl_name c)))
        in if packages = [] then Inr Silent
           else if (case claim_url (cl_source c) of
                 Some url \<Rightarrow>
                   list_ex (\<lambda>p. list_ex (\<lambda>v. list_ex (same_upstream lower url) (iv_provenances v))
                     (pk_versions p)) packages
               | None \<Rightarrow> False)
           then Inr Silent
           else if strict then Inl ''RES-REGISTRY-SHADOW'' else Inr Warned)"

subsection \<open>The resolver's invariant\<close>

text \<open>
  Root keys are bound; every bound source is interned; and every interned key displays a key
  that is bound to its origin.
\<close>

definition br_ok :: "binding_resolver \<Rightarrow> bool" where
  "br_ok br \<longleftrightarrow> br_root_keys br \<subseteq> dom (br_bindings br) \<and>
     (\<forall>k s. br_bindings br k = Some s \<longrightarrow> br_solverkey_index br (canonical s) \<noteq> None) \<and>
     (\<forall>v j. br_solverkey_index br v = Some j \<longrightarrow> sk_identity j = v \<and>
        (\<exists>s. br_bindings br (sk_display j) = Some s \<and> canonical s = v))"

text \<open>Binding a key to a source, as both entry points do for a key that is free or agrees.\<close>

definition bind :: "claim \<Rightarrow> binding_resolver \<Rightarrow> binding_resolver" where
  "bind c br =
     br\<lparr>br_bindings := (br_bindings br)(key_for c \<mapsto> cl_source c),
        br_solverkey_index := intern_key (cl_source c) (key_for c) (br_solverkey_index br)\<rparr>"

definition free_or_equal :: "claim \<Rightarrow> binding_resolver \<Rightarrow> bool" where
  "free_or_equal c br \<longleftrightarrow>
     br_bindings br (key_for c) = None \<or> br_bindings br (key_for c) = Some (cl_source c)"

lemma intern_key_cases:
  "intern_key s k ix v =
     (if v = canonical s \<and> ix v = None then Some (solver_key_new v k) else ix v)"
  by (auto simp: intern_key_def split: option.splits)

lemma bind_bindings:
  "br_bindings (bind c br) k = (if k = key_for c then Some (cl_source c) else br_bindings br k)"
  "br_root_keys (bind c br) = br_root_keys br"
  "br_solverkey_index (bind c br) v =
     (if v = canonical (cl_source c) \<and> br_solverkey_index br v = None
      then Some (solver_key_new v (key_for c)) else br_solverkey_index br v)"
  by (simp_all add: bind_def intern_key_cases)

lemma bind_keeps: "free_or_equal c br \<Longrightarrow> br_bindings br k = Some s \<Longrightarrow> br_bindings (bind c br) k = Some s"
  by (auto simp: bind_bindings free_or_equal_def)

lemma bind_ok:
  assumes ok: "br_ok br" and free: "free_or_equal c br"
  shows "br_ok (bind c br)"
  unfolding br_ok_def
proof (intro conjI allI impI)
  show "br_root_keys (bind c br) \<subseteq> dom (br_bindings (bind c br))"
    using ok by (auto simp: br_ok_def bind_bindings)
next
  fix k s assume "br_bindings (bind c br) k = Some s"
  then consider "s = cl_source c" | "br_bindings br k = Some s"
    by (cases "k = key_for c") (simp_all add: bind_bindings(1) eq_commute)
  then show "br_solverkey_index (bind c br) (canonical s) \<noteq> None"
  proof cases
    case 2
    with ok have "br_solverkey_index br (canonical s) \<noteq> None" unfolding br_ok_def by blast
    then show ?thesis by (simp add: bind_bindings)
  qed (simp add: bind_bindings)
next
  fix v j assume "br_solverkey_index (bind c br) v = Some j"
  then consider "v = canonical (cl_source c)" "j = solver_key_new v (key_for c)" | "br_solverkey_index br v = Some j"
    unfolding bind_bindings(3) by (metis option.inject)
  then have "sk_identity j = v \<and> (\<exists>s. br_bindings (bind c br) (sk_display j) = Some s \<and> canonical s = v)"
  proof cases
    case 1
    then show ?thesis by (simp add: solver_key_new_def bind_bindings)
  next
    case 2
    with ok obtain s where "sk_identity j = v" "br_bindings br (sk_display j) = Some s" "canonical s = v"
      unfolding br_ok_def by blast
    with bind_keeps [OF free] show ?thesis by blast
  qed
  then show "sk_identity j = v" "\<exists>s. br_bindings (bind c br) (sk_display j) = Some s \<and> canonical s = v"
    by simp_all
qed

lemma br_empty_ok: "br_ok br_empty"
  by (simp add: br_ok_def br_empty_def)

lemma bind_root_eq:
  "bind_root c br =
     (if cl_is_root c \<and> free_or_equal c br
      then Returns ((bind c br)\<lparr>br_root_keys := insert (key_for c) (br_root_keys br)\<rparr>) else Panics)"
  by (auto simp: bind_root_def free_or_equal_def bind_def split: option.splits)

lemma root_keys_ok:
  "br_ok br \<Longrightarrow> br_bindings br k \<noteq> None \<Longrightarrow> br_ok (br\<lparr>br_root_keys := insert k (br_root_keys br)\<rparr>)"
  by (auto simp: br_ok_def)

lemma bind_root_ok: "br_ok br \<Longrightarrow> bind_root c br = Returns br' \<Longrightarrow> br_ok br'"
  using bind_ok [of br c] root_keys_ok [of "bind c br" "key_for c"]
  by (auto simp: bind_root_eq bind_def split: if_splits)

lemma submit_eq:
  "submit c br =
     (if cl_is_root c then Panics
      else case br_bindings br (key_for c) of
        None \<Rightarrow> Returns (\<lparr>bd_accepted = cl_source c, bd_outcome = New\<rparr>, bind c br)
      | Some e \<Rightarrow>
          if e = cl_source c then Returns (\<lparr>bd_accepted = e, bd_outcome = Duplicate\<rparr>, br)
          else if key_for c \<in> br_root_keys br then Returns (\<lparr>bd_accepted = e, bd_outcome = LostToRoot\<rparr>, br)
          else Raises ''RES-BINDING-CONFLICT'')"
  by (simp add: submit_def bind_def split: option.splits)

lemma submit_ok: "br_ok br \<Longrightarrow> submit c br = Returns (d, br') \<Longrightarrow> br_ok br'"
  using bind_ok [of br c]
  by (auto simp: submit_eq free_or_equal_def split: option.splits if_splits)

text \<open>What one submission does to the bindings.\<close>

lemma submit_bindings:
  assumes "submit c br = Returns (d, br')"
  shows "br_bindings br' k =
      (case br_bindings br k of Some s \<Rightarrow> Some s | None \<Rightarrow> if k = key_for c then Some (cl_source c) else None) \<and>
    br_root_keys br' = br_root_keys br \<and> br_bindings br' (key_for c) = Some (bd_accepted d)"
  using assms by (auto simp: submit_eq bind_def split: option.splits if_splits)

lemma canonical_for_bound:
  assumes "br_ok br" "br_bindings br k = Some s"
  obtains j where "canonical_for br k = Inr j" "sk_identity j = canonical s"
    "\<exists>s'. br_bindings br (sk_display j) = Some s' \<and> canonical s' = canonical s"
proof -
  from assms obtain j where j: "br_solverkey_index br (canonical s) = Some j"
    unfolding br_ok_def by blast
  with assms(1) have "sk_identity j = canonical s"
    "\<exists>s'. br_bindings br (sk_display j) = Some s' \<and> canonical s' = canonical s"
    unfolding br_ok_def by blast+
  with that [of j] j assms(2) show ?thesis by (simp add: canonical_for_def)
qed

subsection \<open>Runs of submissions\<close>

fun submit_all :: "claim list \<Rightarrow> binding_resolver \<Rightarrow> binding_resolver run" where
  "submit_all [] br = Returns br"
| "submit_all (c # cs) br =
     (case submit c br of
        Returns (d, br') \<Rightarrow> submit_all cs br'
      | Raises e \<Rightarrow> Raises e
      | Panics \<Rightarrow> Panics)"

text \<open>
  No conflict: a claim on a bound key agrees with it or loses to the root, and the claims on an
  unbound key agree with each other.
\<close>

definition settled :: "binding_resolver \<Rightarrow> claim \<Rightarrow> bool" where
  "settled br c \<longleftrightarrow>
     (case br_bindings br (key_for c) of
        Some s \<Rightarrow> s = cl_source c \<or> key_for c \<in> br_root_keys br
      | None \<Rightarrow> False)"

definition agreeing :: "binding_resolver \<Rightarrow> claim list \<Rightarrow> claim \<Rightarrow> bool" where
  "agreeing br cs c \<longleftrightarrow> br_bindings br (key_for c) = None \<and>
     list_all (\<lambda>d. key_for d = key_for c \<longrightarrow> cl_source d = cl_source c) cs"

definition compatible :: "binding_resolver \<Rightarrow> claim list \<Rightarrow> bool" where
  "compatible br cs \<longleftrightarrow> list_all (\<lambda>c. settled br c \<or> agreeing br cs c) cs"

lemma agreeing_same:
  assumes "agreeing br cs c" "d \<in> set cs" "key_for d = key_for c"
  shows "cl_source d = cl_source c"
proof -
  from assms(1) have "\<forall>d \<in> set cs. key_for d = key_for c \<longrightarrow> cl_source d = cl_source c"
    unfolding agreeing_def list_all_iff by (rule conjunct2)
  with assms(2,3) show ?thesis by blast
qed

lemma agreeing_Cons:
  "agreeing br (c # cs) d \<longleftrightarrow> agreeing br cs d \<and> (key_for c = key_for d \<longrightarrow> cl_source c = cl_source d)"
  by (auto simp: agreeing_def)

lemma settled_bind:
  "key_for c \<notin> br_root_keys br \<Longrightarrow>
   settled (bind c br) d \<longleftrightarrow> (if key_for d = key_for c then cl_source c = cl_source d else settled br d)"
  "agreeing (bind c br) cs d \<longleftrightarrow> key_for d \<noteq> key_for c \<and> agreeing br cs d"
  by (simp_all add: settled_def agreeing_def bind_bindings split: option.split)

lemma not_settled_free: "br_bindings br (key_for d) = None \<Longrightarrow> \<not> settled br d"
  by (simp add: settled_def)

lemma compatible_bound:
  assumes "br_bindings br (key_for c) = Some s"
  shows "compatible br (c # cs) \<longleftrightarrow> (s = cl_source c \<or> key_for c \<in> br_root_keys br) \<and> compatible br cs"
proof -
  have "agreeing br (c # cs) d \<longleftrightarrow> agreeing br cs d" for d
    using assms by (auto simp: agreeing_def)
  then show ?thesis
    using assms by (simp add: compatible_def settled_def [of br c] agreeing_def [of br cs c])
qed

lemma compatible_free:
  assumes free: "br_bindings br (key_for c) = None" and root: "key_for c \<notin> br_root_keys br"
  shows "compatible br (c # cs) \<longleftrightarrow> compatible (bind c br) cs"
proof -
  have c: "settled br c \<or> agreeing br (c # cs) c \<longleftrightarrow>
      list_all (\<lambda>d. key_for d = key_for c \<longrightarrow> cl_source d = cl_source c) cs"
    using free by (simp add: agreeing_def not_settled_free)
  have d: "settled br d \<or> agreeing br (c # cs) d \<longleftrightarrow> settled (bind c br) d \<or> agreeing (bind c br) cs d"
    if "list_all (\<lambda>d. key_for d = key_for c \<longrightarrow> cl_source d = cl_source c) cs" "d \<in> set cs" for d
  proof (cases "key_for d = key_for c")
    case True
    with that have src: "cl_source d = cl_source c" by (simp add: list_all_iff)
    from that(1) True src free have "agreeing br (c # cs) d" by (simp add: agreeing_def)
    moreover from True src have "settled (bind c br) d" by (simp add: settled_bind(1) [OF root])
    ultimately show ?thesis by simp
  next
    case False
    then show ?thesis by (simp add: settled_bind(1) [OF root] settled_bind(2) agreeing_Cons)
  qed
  have conv: "list_all (\<lambda>d. key_for d = key_for c \<longrightarrow> cl_source d = cl_source c) cs" if "compatible (bind c br) cs"
    using that by (auto simp: compatible_def list_all_iff settled_bind(1) [OF root] settled_bind(2) split: if_splits)
  show ?thesis
    using c d conv unfolding compatible_def list_all_iff by (simp only: list.set insert_iff) blast
qed

lemma compatible_Cons:
  assumes "br_root_keys br \<subseteq> dom (br_bindings br)" "\<not> cl_is_root c"
  shows "compatible br (c # cs) \<longleftrightarrow>
    (\<exists>d br'. submit c br = Returns (d, br') \<and> compatible br' cs)"
proof (cases "br_bindings br (key_for c)")
  case (Some s)
  with assms(2) show ?thesis by (auto simp: submit_eq compatible_bound)
next
  case None
  with assms(1) have "key_for c \<notin> br_root_keys br" by auto
  with None assms(2) show ?thesis by (simp add: submit_eq compatible_free)
qed

lemma submit_all_iff:
  "br_root_keys br \<subseteq> dom (br_bindings br) \<Longrightarrow> list_all (\<lambda>c. \<not> cl_is_root c) cs \<Longrightarrow>
   (\<exists>br'. submit_all cs br = Returns br') \<longleftrightarrow> compatible br cs"
proof (induction cs arbitrary: br)
  case (Cons c cs)
  have root: "br_root_keys br' \<subseteq> dom (br_bindings br')" if "submit c br = Returns (d, br')" for d br'
  proof
    fix k assume "k \<in> br_root_keys br'"
    then have "k \<in> dom (br_bindings br)" using submit_bindings [OF that, of k] Cons.prems(1) by auto
    then show "k \<in> dom (br_bindings br')" using submit_bindings [OF that, of k] by (auto split: option.splits)
  qed
  have "(\<exists>br'. submit_all (c # cs) br = Returns br') \<longleftrightarrow>
      (\<exists>d br'. submit c br = Returns (d, br') \<and> compatible br' cs)"
    using Cons.IH root Cons.prems(2) by (fastforce split: run.splits prod.splits)
  with Cons.prems compatible_Cons [of br c cs] show ?case by simp
qed (simp add: compatible_def)

lemma submit_all_bindings:
  "submit_all cs br = Returns br' \<Longrightarrow>
   br_bindings br' k =
     (case br_bindings br k of Some s \<Rightarrow> Some s
      | None \<Rightarrow> map_of (map (\<lambda>c. (key_for c, cl_source c)) cs) k) \<and>
   br_root_keys br' = br_root_keys br"
proof (induction cs arbitrary: br)
  case (Cons c cs)
  from Cons.prems obtain d br1 where s: "submit c br = Returns (d, br1)" "submit_all cs br1 = Returns br'"
    by (auto split: run.splits prod.splits)
  show ?case
    using Cons.IH [OF s(2)] submit_bindings [OF s(1), of k] by (auto split: option.splits)
qed (simp split: option.splits)

lemma submit_all_ok: "br_ok br \<Longrightarrow> submit_all cs br = Returns br' \<Longrightarrow> br_ok br'"
proof (induction cs arbitrary: br)
  case (Cons c cs)
  from Cons.prems obtain d br1 where s: "submit c br = Returns (d, br1)" "submit_all cs br1 = Returns br'"
    by (auto split: run.splits prod.splits)
  with Cons.IH [OF submit_ok [OF Cons.prems(1) s(1)]] show ?case by simp
qed simp

text \<open>Compatible claims of one key carry one source, so their order is immaterial.\<close>

lemma map_of_agree:
  assumes "\<forall>c \<in> set cs. f c = k \<longrightarrow> g c = x" "c \<in> set cs" "f c = k"
  shows "map_of (map (\<lambda>c. (f c, g c)) cs) k = Some x"
  using assms by (induction cs) auto

lemma submit_perm:
  assumes "br_root_keys br \<subseteq> dom (br_bindings br)" "list_all (\<lambda>c. \<not> cl_is_root c) cs"
    and "mset cs = mset cs'" "submit_all cs br = Returns r"
  shows "\<exists>r'. submit_all cs' br = Returns r' \<and> br_bindings r' = br_bindings r \<and> br_root_keys r' = br_root_keys r"
proof -
  have set: "set cs = set cs'" using assms(3) by (rule mset_eq_setD)
  have comp: "compatible br cs" using submit_all_iff assms(1,2,4) by blast
  with set have "compatible br cs'" by (simp add: compatible_def agreeing_def list_all_iff)
  moreover have "list_all (\<lambda>c. \<not> cl_is_root c) cs'" using assms(2) set by (simp add: list_all_iff)
  ultimately obtain r' where r': "submit_all cs' br = Returns r'"
    using submit_all_iff assms(1) by blast
  have "br_bindings r' k = br_bindings r k" for k
  proof (cases "br_bindings br k")
    case None
    show ?thesis
    proof (cases "\<exists>c \<in> set cs. key_for c = k")
      case True
      then obtain c where c: "c \<in> set cs" "key_for c = k" by blast
      have "\<not> settled br c" using None c(2) by (simp add: not_settled_free)
      with comp c(1) have "agreeing br cs c" unfolding compatible_def list_all_iff by blast
      then have one: "\<forall>d \<in> set cs. key_for d = k \<longrightarrow> cl_source d = cl_source c"
        using agreeing_same [of br cs c] by (simp only: c(2)) blast
      have "map_of (map (\<lambda>c. (key_for c, cl_source c)) cs) k = Some (cl_source c)"
        using map_of_agree [OF one c] .
      moreover have "map_of (map (\<lambda>c. (key_for c, cl_source c)) cs') k = Some (cl_source c)"
        using map_of_agree [OF one [unfolded set] c(1) [unfolded set] c(2)] .
      ultimately show ?thesis
        using submit_all_bindings [OF assms(4), of k] submit_all_bindings [OF r', of k] None by simp
    next
      case False
      then have "map_of (map (\<lambda>c. (key_for c, cl_source c)) cs) k = None"
        "map_of (map (\<lambda>c. (key_for c, cl_source c)) cs') k = None"
        using set by (simp_all add: map_of_eq_None_iff image_iff eq_commute [of k])
      then show ?thesis
        using submit_all_bindings [OF assms(4), of k] submit_all_bindings [OF r', of k] None by simp
    qed
  qed (use submit_all_bindings [OF assms(4), of k] submit_all_bindings [OF r', of k] in simp)
  then show ?thesis
    using r' submit_all_bindings [OF assms(4)] submit_all_bindings [OF r'] by blast
qed

subsection \<open>Construction from root claims\<close>

lemma from_solver_var_inj: "from_solver_var s = from_solver_var t \<Longrightarrow> s = t"
  by (auto simp: from_solver_var_def dep_key_bare_def split: option.splits prod.splits
      dest!: split_once_str_sound)

lemma key_for_inj: "key_for c = key_for d \<longleftrightarrow> cl_name c = cl_name d"
  using from_solver_var_inj by (auto simp: key_for_def)

definition consistent :: "claim list \<Rightarrow> bool" where
  "consistent cs \<longleftrightarrow> (\<forall>c \<in> set cs. cl_is_root c \<and>
     (\<forall>d \<in> set cs. cl_name d = cl_name c \<longrightarrow> cl_source d = cl_source c))"

lemma consistent_same:
  "consistent cs \<Longrightarrow> c \<in> set cs \<Longrightarrow> d \<in> set cs \<Longrightarrow> cl_name d = cl_name c \<Longrightarrow> cl_source d = cl_source c"
  unfolding consistent_def by blast

lemma binding_new_loop_ok:
  assumes "consistent (done @ cs)" "br_ok br"
    "\<forall>k s. br_bindings br k = Some s \<longleftrightarrow> (\<exists>c \<in> set done. key_for c = k \<and> cl_source c = s)"
  shows "\<exists>br'. binding_new_loop cs br = Returns br' \<and> br_ok br' \<and>
    (\<forall>k s. br_bindings br' k = Some s \<longleftrightarrow> (\<exists>c \<in> set (done @ cs). key_for c = k \<and> cl_source c = s)) \<and>
    br_root_keys br' = br_root_keys br \<union> key_for ` set cs"
  using assms
proof (induction cs arbitrary: br "done")
  case (Cons c cs)
  have c: "cl_is_root c" using Cons.prems(1) by (simp add: consistent_def)
  have free: "free_or_equal c br"
  proof (cases "br_bindings br (key_for c)")
    case (Some s)
    with Cons.prems(3) obtain d where "d \<in> set done" "key_for d = key_for c" "cl_source d = s" by blast
    then have "s = cl_source c"
      using consistent_same [OF Cons.prems(1), of c d] by (simp add: key_for_inj)
    with Some show ?thesis by (simp add: free_or_equal_def)
  qed (simp add: free_or_equal_def)
  define br1 where "br1 = (bind c br)\<lparr>br_root_keys := insert (key_for c) (br_root_keys br)\<rparr>"
  have step: "bind_root c br = Returns br1" using c free by (simp add: bind_root_eq br1_def)
  have ok: "br_ok br1" using bind_root_ok [OF Cons.prems(2) step] .
  have dom: "br_bindings br1 k = Some s \<longleftrightarrow> (\<exists>d \<in> set (done @ [c]). key_for d = k \<and> cl_source d = s)" for k s
  proof (cases "k = key_for c")
    case True
    have "cl_source d = cl_source c" if "d \<in> set done" "key_for d = key_for c" for d
      using that consistent_same [OF Cons.prems(1), of c d] by (simp add: key_for_inj)
    with True show ?thesis by (auto simp: br1_def bind_bindings)
  next
    case False
    with Cons.prems(3) show ?thesis by (auto simp: br1_def bind_bindings)
  qed
  have "consistent ((done @ [c]) @ cs)" using Cons.prems(1) by simp
  from Cons.IH [OF this ok] dom obtain br' where "binding_new_loop cs br1 = Returns br'" "br_ok br'"
    "\<forall>k s. br_bindings br' k = Some s \<longleftrightarrow> (\<exists>d \<in> set ((done @ [c]) @ cs). key_for d = k \<and> cl_source d = s)"
    "br_root_keys br' = br_root_keys br1 \<union> key_for ` set cs" by blast
  with step show ?case by (auto simp: br1_def)
qed auto

lemma binding_new_ok:
  assumes "consistent cs"
  shows "\<exists>br. binding_new cs = Returns br \<and> br_ok br \<and> br_root_keys br = key_for ` set cs \<and>
    (\<forall>k s. br_bindings br k = Some s \<longleftrightarrow> (\<exists>c \<in> set cs. key_for c = k \<and> cl_source c = s))"
proof -
  have e: "br_bindings br_empty = Map.empty" "br_root_keys br_empty = {}" by (simp_all add: br_empty_def)
  from binding_new_loop_ok [of "[]" cs br_empty] assms br_empty_ok show ?thesis
    unfolding binding_new_def by (simp add: e) blast
qed

lemma binding_new_root:
  "binding_new_loop cs br = Returns br' \<Longrightarrow> br_ok br \<Longrightarrow> br_ok br'"
proof (induction cs arbitrary: br)
  case (Cons c cs)
  then show ?case using bind_root_ok [of br c] by (auto split: run.splits)
qed simp

subsection \<open>Reconciled claims agree\<close>

text \<open>Where a claim comes from: an override of its name, or a declaration without override.\<close>

definition claim_origin ::
  "(string \<Rightarrow> string) \<Rightarrow> (string \<rightharpoonup> override_rule) \<Rightarrow> index \<Rightarrow> (dep_key \<rightharpoonup> source_id) \<Rightarrow> claim \<Rightarrow> bool" where
  "claim_origin lower ovs ix src c \<longleftrightarrow> cl_is_root c \<and>
     ((\<exists>ov. ovs (cl_name c) = Some ov \<and>
         normalize_source lower (override_target_to_raw_origin ov ix) = Inr (cl_source c)) \<or>
      (\<exists>k. cl_name c = solver_var k \<and> CHR '':'' \<notin> set (dk_name k) \<and> ovs (dk_name k) = None \<and>
         src k = Some (cl_source c)))"

definition rc_ok ::
  "(string \<Rightarrow> string) \<Rightarrow> (string \<rightharpoonup> override_rule) \<Rightarrow> index \<Rightarrow> reconcile_state \<Rightarrow> bool" where
  "rc_ok lower ovs ix st \<longleftrightarrow> dom (rc_key_source st) \<subseteq> rc_seen_keys st \<and>
     (\<forall>c \<in> set (rc_claims st). claim_origin lower ovs ix (rc_key_source st) c)"

lemma claim_origin_mono:
  "claim_origin lower ovs ix src c \<Longrightarrow> src \<subseteq>\<^sub>m src' \<Longrightarrow> claim_origin lower ovs ix src' c"
  unfolding claim_origin_def map_le_def by (metis domI)

lemma reconcile_dep_ok:
  assumes ok: "rc_ok lower ovs ix st" and name: "CHR '':'' \<notin> set (dep_decl_name d)"
    and step: "reconcile_dep lower ovs ix d st = Inr st'"
  shows "rc_ok lower ovs ix st'"
proof -
  let ?k = "dep_decl_key d"
  show ?thesis
  proof (cases "declared_claim ovs ix d")
    case None
    with step ok show ?thesis
      by (clarsimp simp: reconcile_dep_def Let_def rc_ok_def subset_insertI2)
  next
    case (Some t)
    obtain raw cm n where t: "t = (raw, cm, n)" by (cases t)
    with Some step obtain sid where sid: "normalize_source lower raw = Inr sid"
      by (auto simp: reconcile_dep_def Let_def split: sum.splits)
    show ?thesis
    proof (cases "?k \<in> rc_seen_keys st")
      case True
      with Some t sid step ok show ?thesis
        by (clarsimp simp: reconcile_dep_def Let_def rc_ok_def subset_insertI2 split: if_splits)
    next
      case False
      let ?c = "\<lparr>cl_name = n, cl_source = sid, cl_is_root = True, cl_claimant = cm\<rparr>"
      let ?src = "(rc_key_source st)(?k \<mapsto> sid)"
      have st': "rc_key_source st' = ?src" "rc_claims st' = rc_claims st @ [?c]"
        "rc_seen_keys st' = insert ?k (rc_seen_keys st)"
        using False Some t sid step by (auto simp: reconcile_dep_def Let_def)
      have "?k \<notin> dom (rc_key_source st)" using False ok by (auto simp: rc_ok_def)
      then have mono: "rc_key_source st \<subseteq>\<^sub>m ?src" by (auto simp: map_le_def)
      have "claim_origin lower ovs ix ?src ?c"
      proof (cases "ovs (dep_decl_name d)")
        case None
        with Some t have "n = solver_var ?k"
          by (auto simp: declared_claim_def split: option.splits)
        with None name show ?thesis
          unfolding claim_origin_def by (auto simp: dep_decl_key_def intro!: exI [of _ ?k])
      next
        case ov: (Some ov)
        with Some t sid show ?thesis
          by (auto simp: declared_claim_def claim_origin_def)
      qed
      with ok mono claim_origin_mono st' show ?thesis
        unfolding rc_ok_def by (auto intro: claim_origin_mono)
    qed
  qed
qed

lemma reconcile_deps_ok:
  "rc_ok lower ovs ix st \<Longrightarrow> list_all (\<lambda>d. CHR '':'' \<notin> set (dep_decl_name d)) ds \<Longrightarrow>
   reconcile_deps lower ovs ix ds st = Inr st' \<Longrightarrow> rc_ok lower ovs ix st'"
  by (induction ds arbitrary: st) (auto split: sum.splits dest: reconcile_dep_ok)

lemma reconcile_overrides_ok:
  assumes "rc_ok lower ovs ix st" "\<forall>ov \<in> set os. ovs (ov_name ov) = Some ov"
    "reconcile_overrides lower ix os st = Inr st'"
  shows "rc_ok lower ovs ix st'"
  using assms
proof (induction os arbitrary: st)
  case (Cons ov os)
  show ?case
  proof (cases "ov_name ov \<in> rc_seen_names st")
    case True
    with Cons show ?thesis by simp
  next
    case False
    with Cons.prems(3) obtain sid where
      sid: "normalize_source lower (override_target_to_raw_origin ov ix) = Inr sid"
      by (auto split: sum.splits)
    let ?st = "st\<lparr>rc_seen_names := insert (ov_name ov) (rc_seen_names st),
        rc_claims := rc_claims st @ [\<lparr>cl_name = ov_name ov, cl_source = sid, cl_is_root = True,
          cl_claimant = ''override:'' @ ov_name ov\<rparr>]\<rparr>"
    have "rc_ok lower ovs ix ?st"
      using Cons.prems(1,2) sid by (auto simp: rc_ok_def claim_origin_def)
    with Cons.IH [of ?st] Cons.prems(2,3) False sid show ?thesis by simp
  qed
qed simp

lemma overrides_map:
  "distinct (map ov_name ovs) \<Longrightarrow> ov \<in> set ovs \<Longrightarrow> overrides_by_name ovs (ov_name ov) = Some ov"
  unfolding overrides_by_name_def
  by (rule map_of_is_SomeI) (auto simp: rev_map [symmetric] comp_def)

lemma overrides_map_name: "overrides_by_name ovs n = Some ov \<Longrightarrow> ov \<in> set ovs \<and> ov_name ov = n"
  unfolding overrides_by_name_def by (auto dest!: map_of_SomeD)

lemma origin_consistent:
  assumes cs: "\<forall>c \<in> set cs. claim_origin lower ovs ix src c"
    and names: "\<forall>n. ovs n \<noteq> None \<longrightarrow> CHR '':'' \<notin> set n"
  shows "consistent cs"
proof -
  have plain: "dk_name k = n \<and> solver_var k = n" if "solver_var k = n" "CHR '':'' \<notin> set n" for k n
    using that by (auto simp: solver_var_def split: option.splits)
  have "cl_source d = cl_source c"
    if c: "claim_origin lower ovs ix src c" and d: "claim_origin lower ovs ix src d" and eq: "cl_name d = cl_name c" for c d
  proof (cases "ovs (cl_name c)")
    case (Some ov)
    with names have nc: "CHR '':'' \<notin> set (cl_name c)" by simp
    have only: "normalize_source lower (override_target_to_raw_origin ov ix) = Inr (cl_source e)"
      if "claim_origin lower ovs ix src e" "cl_name e = cl_name c" for e
      using that Some plain [OF _ nc] unfolding claim_origin_def by auto
    from only [OF c] only [OF d eq] show ?thesis by simp
  next
    case None
    with c obtain k where
      k: "cl_name c = solver_var k" "CHR '':'' \<notin> set (dk_name k)" "src k = Some (cl_source c)"
      unfolding claim_origin_def by auto
    from None d eq obtain j where
      j: "cl_name d = solver_var j" "CHR '':'' \<notin> set (dk_name j)" "src j = Some (cl_source d)"
      unfolding claim_origin_def by auto
    from k j eq solver_var_inj [of k j] show ?thesis by simp
  qed
  note same = this
  have root: "claim_origin lower ovs ix src c \<Longrightarrow> cl_is_root c" for c
    by (simp add: claim_origin_def)
  show ?thesis
    unfolding consistent_def
  proof (intro ballI conjI impI)
    fix c d assume "c \<in> set cs" "d \<in> set cs" "cl_name d = cl_name c"
    with cs same show "cl_source d = cl_source c" by simp
  qed (use cs root in blast)
qed

lemma reconcile_consistent:
  assumes "reconcile_root_claims lower deps ovs ix = Inr cs"
    and "list_all (\<lambda>d. CHR '':'' \<notin> set (dep_decl_name d)) deps"
    and "list_all (\<lambda>ov. CHR '':'' \<notin> set (ov_name ov)) ovs" "distinct (map ov_name ovs)"
  shows "consistent cs"
proof -
  let ?o = "overrides_by_name ovs"
  from assms(1) obtain st st' where st: "reconcile_deps lower ?o ix deps rc_init = Inr st"
    "reconcile_overrides lower ix ovs st = Inr st'" "cs = rc_claims st'"
    by (auto simp: reconcile_root_claims_def split: sum.splits)
  have "rc_ok lower ?o ix rc_init" by (simp add: rc_ok_def rc_init_def)
  from reconcile_deps_ok [OF this assms(2) st(1)] have "rc_ok lower ?o ix st" .
  from reconcile_overrides_ok [OF this _ st(2)] overrides_map [OF assms(4)]
  have "rc_ok lower ?o ix st'" by blast
  then have "\<forall>c \<in> set cs. claim_origin lower ?o ix (rc_key_source st') c"
    by (simp add: rc_ok_def st(3))
  moreover have "\<forall>n. ?o n \<noteq> None \<longrightarrow> CHR '':'' \<notin> set n"
    using assms(3) overrides_map_name by (fastforce simp: list_all_iff)
  ultimately show ?thesis by (rule origin_consistent)
qed

lemma binding_new_loop_keeps:
  "binding_new_loop cs br = Returns br' \<Longrightarrow>
   (\<forall>k s. br_bindings br k = Some s \<longrightarrow> br_bindings br' k = Some s) \<and>
   (\<forall>c \<in> set cs. br_bindings br' (key_for c) = Some (cl_source c)) \<and>
   br_root_keys br' = br_root_keys br \<union> key_for ` set cs"
proof (induction cs arbitrary: br)
  case (Cons c cs)
  from Cons.prems obtain br1 where s: "bind_root c br = Returns br1" "binding_new_loop cs br1 = Returns br'"
    by (auto split: run.splits)
  then have free: "free_or_equal c br" and br1: "br1 = (bind c br)\<lparr>br_root_keys := insert (key_for c) (br_root_keys br)\<rparr>"
    by (auto simp: bind_root_eq split: if_splits)
  have "br_bindings br1 (key_for c) = Some (cl_source c)" by (simp add: br1 bind_bindings)
  moreover have "br_bindings br k = Some s \<Longrightarrow> br_bindings br1 k = Some s" for k s
    using bind_keeps [OF free] by (simp add: br1)
  ultimately show ?case using Cons.IH [OF s(2)] by (auto simp: br1)
qed simp

lemma same_upstream_iff:
  "same_upstream lower url prov \<longleftrightarrow>
   (\<exists>u. upstream_url prov = Some u \<and> normalize_git_url lower u = normalize_git_url lower url)"
  by (simp add: same_upstream_def split: option.splits)

lemma shadow_found:
  "owning_packages ix n \<noteq> [] \<longleftrightarrow> (\<exists>p \<in> set (ix_packages ix). pk_name p = n)"
proof
  assume "owning_packages ix n \<noteq> []"
  then have "filter (\<lambda>p. pk_name p = n) (ix_packages ix) \<noteq> []"
    by (auto simp: owning_packages_def lookup_bare_def)
  then show "\<exists>p \<in> set (ix_packages ix). pk_name p = n" by (simp add: filter_empty_conv)
next
  assume "\<exists>p \<in> set (ix_packages ix). pk_name p = n"
  then obtain p where p: "p \<in> set (ix_packages ix)" "pk_name p = n" by blast
  then have ne: "lookup_qualified ix (pk_namespace p) n \<noteq> None"
    by (auto simp: lookup_qualified_def find_None_iff)
  show "owning_packages ix n \<noteq> []"
  proof (cases "filter (\<lambda>p. pk_name p = n) (ix_packages ix)")
    case Nil
    with p show ?thesis by (auto simp: filter_empty_conv)
  next
    case (Cons a rest)
    from p have "p \<in> set (a # rest)" unfolding Cons [symmetric] by simp
    with Cons ne show ?thesis
      by (cases rest) (auto simp: owning_packages_def lookup_bare_def split: option.splits)
  qed
qed

subsection \<open>Properties\<close>

text \<open>
  C8. Root authority.  Whatever transitive claims are submitted after construction, every root
  claim keeps its source, exactly the root claims' keys have root authority, and a binding once
  made is never changed.
\<close>

theorem root_bindings_final:
  assumes "binding_new roots = Returns br" "submit_all cs br = Returns br'"
  shows "(\<forall>c \<in> set roots. source_id_for br' (key_for c) = Some (cl_source c)) \<and>
    (is_root_authority br' k \<longleftrightarrow> k \<in> key_for ` set roots) \<and>
    (source_id_for br k = Some s \<longrightarrow> source_id_for br' k = Some s)"
  using binding_new_loop_keeps [of roots br_empty br] assms(1) submit_all_bindings [OF assms(2)]
  by (simp add: binding_new_def source_id_for_def is_root_authority_def br_empty_def)

definition demo_claim :: "string \<Rightarrow> string \<Rightarrow> bool \<Rightarrow> claim" where
  "demo_claim n p r =
     \<lparr>cl_name = n, cl_source = Fetchable (Local p), cl_is_root = r, cl_claimant = ''c''\<rparr>"

lemma demo_key [simp]: "key_for (demo_claim ''foo'' p r) = dep_key_bare ''foo''"
  "key_for (demo_claim ''bar'' p r) = dep_key_bare ''bar''"
  by (simp_all add: key_for_def demo_claim_def from_solver_var_def)

lemma demo_sel [simp]: "cl_is_root (demo_claim n p r) = r" "cl_source (demo_claim n p r) = Fetchable (Local p)"
  by (simp_all add: demo_claim_def)

lemma demo_new:
  "binding_new [demo_claim ''foo'' ''a'' True] =
   Returns \<lparr>br_bindings = [dep_key_bare ''foo'' \<mapsto> Fetchable (Local ''a'')],
     br_root_keys = {dep_key_bare ''foo''},
     br_solverkey_index = [''file+a'' \<mapsto> solver_key_new ''file+a'' (dep_key_bare ''foo'')]\<rparr>"
  by (simp add: binding_new_def bind_root_def br_empty_def intern_key_def)

theorem root_bindings_final_witness:
  "\<exists>br br'. binding_new [demo_claim ''foo'' ''a'' True] = Returns br \<and>
     submit_all [demo_claim ''foo'' ''b'' False, demo_claim ''bar'' ''b'' False] br = Returns br' \<and>
     source_id_for br' (dep_key_bare ''foo'') = Some (Fetchable (Local ''a''))"
proof -
  obtain br' where run: "submit_all [demo_claim ''foo'' ''b'' False, demo_claim ''bar'' ''b'' False]
      \<lparr>br_bindings = [dep_key_bare ''foo'' \<mapsto> Fetchable (Local ''a'')],
     br_root_keys = {dep_key_bare ''foo''},
     br_solverkey_index = [''file+a'' \<mapsto> solver_key_new ''file+a'' (dep_key_bare ''foo'')]\<rparr> = Returns br'"
    by (simp add: submit_def dep_key_bare_def)
  from root_bindings_final [OF demo_new run] have
    "source_id_for br' (dep_key_bare ''foo'') = Some (Fetchable (Local ''a''))" by simp
  with demo_new run show ?thesis by blast
qed

text \<open>
  C22. Order independence of the binding phase.  Whether a set of transitive claims binds without
  conflict, and what it binds, does not depend on the order of submission.
\<close>

theorem submit_order_independent:
  assumes "binding_new roots = Returns br" "list_all (\<lambda>c. \<not> cl_is_root c) cs" "mset cs = mset cs'"
  shows "(\<forall>r. submit_all cs br = Returns r \<longrightarrow>
      (\<exists>r'. submit_all cs' br = Returns r' \<and> source_id_for r' = source_id_for r \<and>
         is_root_authority r' = is_root_authority r)) \<and>
    ((\<exists>r. submit_all cs br = Returns r) \<longleftrightarrow> (\<exists>r. submit_all cs' br = Returns r))"
proof -
  have "br_ok br"
    using assms(1) binding_new_root [of roots br_empty br] br_empty_ok by (simp add: binding_new_def)
  then have dom: "br_root_keys br \<subseteq> dom (br_bindings br)" by (simp add: br_ok_def)
  have nr: "list_all (\<lambda>c. \<not> cl_is_root c) cs'"
    using assms(2) mset_eq_setD [OF assms(3)] by (simp add: list_all_iff)
  have "source_id_for r' = source_id_for r" if "br_bindings r' = br_bindings r" for r r'
    using that by (simp add: source_id_for_def fun_eq_iff)
  moreover have "is_root_authority r' = is_root_authority r" if "br_root_keys r' = br_root_keys r" for r r'
    using that by (simp add: is_root_authority_def fun_eq_iff)
  ultimately show ?thesis
    using submit_perm [OF dom assms(2,3)] submit_perm [OF dom nr assms(3) [symmetric]] by blast
qed

theorem submit_order_independent_witness:
  "\<exists>br r. binding_new [demo_claim ''foo'' ''a'' True] = Returns br \<and>
     submit_all [demo_claim ''bar'' ''b'' False, demo_claim ''foo'' ''b'' False] br = Returns r"
proof -
  let ?br = "\<lparr>br_bindings = [dep_key_bare ''foo'' \<mapsto> Fetchable (Local ''a'')],
     br_root_keys = {dep_key_bare ''foo''},
     br_solverkey_index = [''file+a'' \<mapsto> solver_key_new ''file+a'' (dep_key_bare ''foo'')]\<rparr>"
  have "\<exists>r. submit_all [demo_claim ''foo'' ''b'' False, demo_claim ''bar'' ''b'' False] ?br = Returns r"
    by (simp add: submit_def dep_key_bare_def)
  moreover have "list_all (\<lambda>c. \<not> cl_is_root c) [demo_claim ''foo'' ''b'' False, demo_claim ''bar'' ''b'' False]"
    by simp
  moreover have "mset [demo_claim ''foo'' ''b'' False, demo_claim ''bar'' ''b'' False] =
      mset [demo_claim ''bar'' ''b'' False, demo_claim ''foo'' ''b'' False]"
    by simp
  ultimately have "\<exists>r. submit_all [demo_claim ''bar'' ''b'' False, demo_claim ''foo'' ''b'' False] ?br = Returns r"
    using submit_order_independent [OF demo_new] by metis
  with demo_new show ?thesis by blast
qed

text \<open>
  Reconciled root claims never disagree: for declarations and overrides whose names have no
  colon, with each name overridden at most once, the resolver built from the reconciled claims
  does not panic, and binds every claim.
\<close>

theorem reconciled_claims_bind:
  assumes "reconcile_root_claims lower deps ovs ix = Inr cs"
    and "list_all (\<lambda>d. CHR '':'' \<notin> set (dep_decl_name d)) deps"
    and "list_all (\<lambda>ov. CHR '':'' \<notin> set (ov_name ov)) ovs" "distinct (map ov_name ovs)"
  shows "\<exists>br. binding_new cs = Returns br \<and>
    (\<forall>k s. source_id_for br k = Some s \<longleftrightarrow> (\<exists>c \<in> set cs. key_for c = k \<and> cl_source c = s))"
  using binding_new_ok [OF reconcile_consistent [OF assms]] by (auto simp: source_id_for_def)

lemma demo_reconcile:
  "reconcile_root_claims lower [LocalDep ''foo'' ''a''] [\<lparr>ov_name = ''bar'', ov_target = OLocal ''b''\<rparr>] \<lparr>ix_packages = []\<rparr> =
   Inr [\<lparr>cl_name = ''foo'', cl_source = Fetchable (Local ''a''), cl_is_root = True, cl_claimant = ''root''\<rparr>,
     \<lparr>cl_name = ''bar'', cl_source = Fetchable (Local ''b''), cl_is_root = True, cl_claimant = ''override:bar''\<rparr>]"
  by (simp add: reconcile_root_claims_def reconcile_dep_def rc_init_def overrides_by_name_def
      declared_claim_def dep_decl_key_def solver_var_def override_target_to_raw_origin_def
      validate_no_unsafe_char_def Let_def)

theorem reconciled_claims_bind_witness:
  "\<exists>cs br. reconcile_root_claims ascii_lower [LocalDep ''foo'' ''a''] [\<lparr>ov_name = ''bar'', ov_target = OLocal ''b''\<rparr>] \<lparr>ix_packages = []\<rparr> = Inr cs \<and>
     binding_new cs = Returns br"
  using reconciled_claims_bind [OF demo_reconcile [of ascii_lower]] demo_reconcile [of ascii_lower] by auto

text \<open>
  The proviso on override names matters: the parser accepts any text there, and an override
  spelled like a qualified dependency makes the construction panic on two root claims that
  disagree.
\<close>

theorem override_name_panics:
  "\<exists>cs. reconcile_root_claims lower [NamedDep ''foo'' (Some ''ns'')]
      [\<lparr>ov_name = ''ns::foo'', ov_target = OLocal ''a''\<rparr>] ix = Inr cs \<and> binding_new cs = Panics"
proof -
  let ?cs = "[\<lparr>cl_name = ''ns::foo'', cl_source = Fetchable (Registry default_registry_alias (Some ''ns'') ''foo''),
        cl_is_root = True, cl_claimant = ''root''\<rparr>,
      \<lparr>cl_name = ''ns::foo'', cl_source = Fetchable (Local ''a''), cl_is_root = True,
        cl_claimant = ''override:ns::foo''\<rparr>]"
  have "reconcile_root_claims lower [NamedDep ''foo'' (Some ''ns'')]
      [\<lparr>ov_name = ''ns::foo'', ov_target = OLocal ''a''\<rparr>] ix = Inr ?cs"
    by (simp add: reconcile_root_claims_def reconcile_dep_def rc_init_def overrides_by_name_def
        declared_claim_def dep_decl_key_def solver_var_def override_target_to_raw_origin_def
        validate_no_unsafe_char_def Let_def registry_origin_def resolved_registry_namespace_def
        validate_registry_component_def valid_flag_name_def default_registry_alias_def is_alnum_def
        is_alpha_def opt_ok_def validate_namespace_def)
  moreover have "binding_new ?cs = Panics"
    by (simp add: binding_new_def bind_root_def key_for_def)
  ultimately show ?thesis by blast
qed

text \<open>
  A workspace-member declaration hides a later root declaration of the same name: with the
  member first the other declaration binds nothing, in the other order it binds its source.
\<close>

theorem member_declaration_hides:
  "reconcile_root_claims lower [MemberDep ''foo'', LocalDep ''foo'' ''a''] [] ix = Inr [] \<and>
   (\<exists>c. reconcile_root_claims lower [LocalDep ''foo'' ''a'', MemberDep ''foo''] [] ix = Inr [c] \<and>
      cl_name c = ''foo'' \<and> cl_source c = Fetchable (Local ''a''))"
  by (simp add: reconcile_root_claims_def reconcile_dep_def rc_init_def overrides_by_name_def
      declared_claim_def dep_decl_key_def solver_var_def validate_no_unsafe_char_def Let_def)

text \<open>
  The solver key of a bound dependency.  After construction and any submissions,
  \<^verbatim>\<open>canonical_for\<close> of a bound key never falls back: it returns the interned key, whose identity is
  the canonical form of the bound source and whose display is a key bound to that same origin; so
  two keys have the same solver variable exactly when their sources have the same canonical form.
\<close>

theorem canonical_for_interned:
  assumes "binding_new roots = Returns br0" "submit_all cs br0 = Returns br"
    and "source_id_for br k = Some s"
  shows "\<exists>j. canonical_for br k = Inr j \<and> sk_identity j = canonical s \<and>
    display_for br (canonical s) = Some (sk_display j) \<and>
    (\<exists>s'. source_id_for br (sk_display j) = Some s' \<and> canonical s' = canonical s)"
proof -
  have "br_ok br0"
    using assms(1) binding_new_root [of roots br_empty br0] br_empty_ok by (simp add: binding_new_def)
  with assms(2) have ok: "br_ok br" by (rule submit_all_ok [rotated])
  from ok assms(3) obtain j where j: "br_solverkey_index br (canonical s) = Some j"
    unfolding br_ok_def source_id_for_def by blast
  with ok have "sk_identity j = canonical s"
    "\<exists>s'. br_bindings br (sk_display j) = Some s' \<and> canonical s' = canonical s"
    unfolding br_ok_def by blast+
  with j assms(3) show ?thesis by (simp add: canonical_for_def display_for_def source_id_for_def)
qed

theorem canonical_for_interned_witness:
  "\<exists>br j. binding_new [demo_claim ''foo'' ''a'' True] = Returns br \<and>
     canonical_for br (dep_key_bare ''foo'') = Inr j \<and> sk_identity j = ''file+a''"
proof -
  let ?br = "\<lparr>br_bindings = [dep_key_bare ''foo'' \<mapsto> Fetchable (Local ''a'')],
     br_root_keys = {dep_key_bare ''foo''},
     br_solverkey_index = [''file+a'' \<mapsto> solver_key_new ''file+a'' (dep_key_bare ''foo'')]\<rparr>"
  have "submit_all [] ?br = Returns ?br" "source_id_for ?br (dep_key_bare ''foo'') = Some (Fetchable (Local ''a''))"
    by (simp_all add: source_id_for_def)
  from canonical_for_interned [OF demo_new this] demo_new show ?thesis by auto
qed

text \<open>
  The key guessed before submission is the key after it.  When a requirement's key is not
  bound yet, the solver variable computed for it equals the one \<^verbatim>\<open>canonical_for\<close> reports once a
  claim for that key with the same normalised source is accepted.
\<close>

theorem guessed_key_stable:
  assumes "br_ok br" "source_id_for br \<lparr>dk_name = n, dk_namespace = ns\<rparr> = None"
    and "root_self \<noteq> Some n" "ovs n = None"
    and "canonical_key_for_requirement lower n ns url git_ref ovs ix root_self (Some br) = Inr guess"
    and "key_for c = \<lparr>dk_name = n, dk_namespace = ns\<rparr>" "\<not> cl_is_root c"
    and "normalize_source lower (case url of Some u \<Rightarrow> Fetchable (Git u git_ref None)
          | None \<Rightarrow> registry_origin n ns ix) = Inr (cl_source c)"
  shows "\<exists>d br' j. submit c br = Returns (d, br') \<and> bd_outcome d = New \<and>
    canonical_for br' (key_for c) = Inr j \<and> sk_identity j = sk_identity guess"
proof -
  have guess: "guess = solver_key_new (canonical (cl_source c)) \<lparr>dk_name = n, dk_namespace = ns\<rparr>"
    using assms by (auto simp: canonical_key_for_requirement_def Let_def)
  have free: "free_or_equal c br" using assms(2,6) by (simp add: free_or_equal_def source_id_for_def)
  have sub: "submit c br = Returns (\<lparr>bd_accepted = cl_source c, bd_outcome = New\<rparr>, bind c br)"
    using assms(2,6,7) by (simp add: submit_eq source_id_for_def)
  obtain j where "canonical_for (bind c br) (key_for c) = Inr j" "sk_identity j = canonical (cl_source c)"
    using canonical_for_bound [OF bind_ok [OF assms(1) free], of "key_for c" "cl_source c"]
    by (auto simp: bind_bindings)
  with sub guess show ?thesis by (simp add: solver_key_new_def)
qed

theorem guessed_key_stable_witness:
  "\<exists>guess. canonical_key_for_requirement ascii_lower ''foo'' None None None Map.empty \<lparr>ix_packages = []\<rparr> None (Some br_empty) = Inr guess \<and>
     (\<exists>d br' j. submit \<lparr>cl_name = ''foo'', cl_source = Fetchable (Registry default_registry_alias None ''foo''),
        cl_is_root = False, cl_claimant = ''c''\<rparr> br_empty = Returns (d, br') \<and> bd_outcome d = New \<and>
        canonical_for br' (dep_key_bare ''foo'') = Inr j \<and> sk_identity j = sk_identity guess)"
proof -
  let ?c = "\<lparr>cl_name = ''foo'', cl_source = Fetchable (Registry default_registry_alias None ''foo''),
        cl_is_root = False, cl_claimant = ''c''\<rparr>"
  let ?ix = "\<lparr>ix_packages = []\<rparr>"
  have norm: "normalize_source ascii_lower (registry_origin ''foo'' None ?ix) = Inr (cl_source ?c)"
    by (simp add: registry_origin_def resolved_registry_namespace_def lookup_bare_def
        validate_registry_component_def valid_flag_name_def default_registry_alias_def is_alnum_def
        is_alpha_def opt_ok_def)
  have free: "source_id_for br_empty \<lparr>dk_name = ''foo'', dk_namespace = None\<rparr> = None"
    by (simp add: source_id_for_def br_empty_def)
  have key: "key_for ?c = \<lparr>dk_name = ''foo'', dk_namespace = None\<rparr>"
    by (simp add: key_for_def from_solver_var_def dep_key_bare_def)
  obtain guess where g: "canonical_key_for_requirement ascii_lower ''foo'' None None None Map.empty ?ix None (Some br_empty) = Inr guess"
    using norm free by (simp add: canonical_key_for_requirement_def Let_def)
  from guessed_key_stable [OF br_empty_ok free _ _ g key] norm key g show ?thesis
    by (simp add: dep_key_bare_def)
qed

text \<open>The bare name of a claim, and the packages that record the claim's git source as an upstream.\<close>

definition shadow_name :: "claim \<Rightarrow> string" where
  "shadow_name c = dk_name (from_solver_var (cl_name c))"

definition shadow_pinned :: "(string \<Rightarrow> string) \<Rightarrow> index \<Rightarrow> claim \<Rightarrow> bool" where
  "shadow_pinned lower ix c \<longleftrightarrow> (\<exists>url. claim_url (cl_source c) = Some url \<and>
    (\<exists>p \<in> set (owning_packages ix (shadow_name c)). \<exists>v \<in> set (pk_versions p).
       \<exists>prov \<in> set (iv_provenances v). \<exists>u. upstream_url prov = Some u \<and>
         normalize_git_url lower u = normalize_git_url lower url))"

text \<open>
  The dependency-confusion check.  A self-sourced claim passes in silence exactly when no
  package of the index has its bare name, or some recorded upstream of an owning package is the
  same git source; under the strict policy every other such claim is refused, otherwise it is
  accepted with a warning.  Registry, local and member claims always pass.
\<close>

theorem registry_shadow_decision:
  "(check_registry_shadow lower c ix strict \<noteq> Inr Silent \<longleftrightarrow>
      self_sourced (cl_source c) \<and> (\<exists>p \<in> set (ix_packages ix). pk_name p = shadow_name c) \<and>
      \<not> shadow_pinned lower ix c) \<and>
   (check_registry_shadow lower c ix True = Inl ''RES-REGISTRY-SHADOW'' \<longleftrightarrow>
      check_registry_shadow lower c ix False = Inr Warned)"
proof -
  have pinned: "(case claim_url (cl_source c) of
        Some url \<Rightarrow> list_ex (\<lambda>p. list_ex (\<lambda>v. list_ex (same_upstream lower url) (iv_provenances v))
          (pk_versions p)) (owning_packages ix (shadow_name c))
      | None \<Rightarrow> False) \<longleftrightarrow> shadow_pinned lower ix c"
    by (cases "claim_url (cl_source c)") (simp_all add: shadow_pinned_def list_ex_iff same_upstream_iff)
  have check: "check_registry_shadow lower c ix st =
      (if \<not> self_sourced (cl_source c) then Inr Silent
       else if owning_packages ix (shadow_name c) = [] then Inr Silent
       else if shadow_pinned lower ix c then Inr Silent
       else if st then Inl ''RES-REGISTRY-SHADOW'' else Inr Warned)" for st
    unfolding check_registry_shadow_def shadow_name_def [symmetric] Let_def pinned ..
  have "(\<exists>p \<in> set (ix_packages ix). pk_name p = shadow_name c) \<longleftrightarrow> owning_packages ix (shadow_name c) \<noteq> []"
    using shadow_found by blast
  then show ?thesis unfolding check by auto
qed

definition shadow_index :: index where
  "shadow_index = \<lparr>ix_packages = [\<lparr>pk_name = ''foo'', pk_namespace = ''acme'',
     pk_versions = [(demo_version ''1.0.0'' False)\<lparr>iv_provenances := [PGit ''https://h/r.git'' ''main'' None]\<rparr>]\<rparr>]\<rparr>"

text \<open>
  The check normalises a source that is normalised already, and so accepts more than the
  git-source equality: a url ending in \<^verbatim>\<open>.git.git\<close> is a different source from the one ending in
  \<^verbatim>\<open>.git\<close> that the registry records, and still passes in silence under the strict policy.
\<close>

theorem shadow_renormalizes:
  assumes "lowercase_like lower"
  shows "\<exists>c. normalize_source lower (Fetchable (Git ''https://h/r.git.git'' None None)) = Inr (cl_source c) \<and>
    normalize_source lower (Fetchable (Git ''https://h/r.git'' None None)) \<noteq> Inr (cl_source c) \<and>
    cl_name c = ''foo'' \<and> check_registry_shadow lower c shadow_index True = Inr Silent"
proof -
  have t: "trim ''https://h/r.git.git'' = ''https://h/r.git.git''" "trim ''https://h/r.git'' = ''https://h/r.git''"
    by (rule trim_plain; simp add: plain_def)+
  have l: "lower ''https'' = ''https''" "lower ''h'' = ''h''"
    using lower_ascii [OF assms] by simp_all
  have net: "netloc lower ''https'' ''h'' = ''h''"
    by (simp add: netloc_def split_host_port_def rsplit_once_def l)
  have norm: "normalize_git_url lower ''https://h/r.git.git'' = ''https://h/r.git''"
    "normalize_git_url lower ''https://h/r.git'' = ''https://h/r''"
    by (simp_all add: normalize_git_url_def t strip_or_same_def strip_suffix_def l net Let_def
        strip_query_def split_path_def)
  let ?c = "\<lparr>cl_name = ''foo'', cl_source = Fetchable (Git ''https://h/r.git'' None None),
      cl_is_root = False, cl_claimant = ''c''\<rparr>"
  have "normalize_source lower (Fetchable (Git ''https://h/r.git.git'' None None)) = Inr (cl_source ?c)"
    "normalize_source lower (Fetchable (Git ''https://h/r.git'' None None)) \<noteq> Inr (cl_source ?c)"
    by (simp_all add: norm validate_no_unsafe_char_def validate_no_delim_collision_def contains_str_def opt_ok_def)
  moreover have "check_registry_shadow lower ?c shadow_index True = Inr Silent"
    by (simp add: check_registry_shadow_def from_solver_var_def dep_key_bare_def owning_packages_def
        lookup_bare_def shadow_index_def same_upstream_def)
  ultimately show ?thesis by (intro exI [of _ ?c]) simp
qed

theorem shadow_renormalizes_witness:
  "\<exists>c. cl_name c = ''foo'' \<and> check_registry_shadow ascii_lower c shadow_index True = Inr Silent"
  using shadow_renormalizes [OF ascii_lowercase_like] by blast

end
