(* ===== verification/Ratchet.thy ===== *)
theory Ratchet
  imports Types OrdMap
begin

text \<open>
  The consumer ratchet of \<^verbatim>\<open>milpa-core/src/ratchet.rs\<close>: does a fetched index legally dominate the
  recorded one?  Each field has an order kind; the fold over all fields and entries yields the
  violations, the transitions of the yank flag and the canonical digest.  The locale
  \<open>accepting\<close> states what makes such a verdict a ratchet; it is interpreted for every order kind,
  for entries and for whole index states.
\<close>

subsection \<open>Order kinds and violation classes\<close>

datatype order_kind =
  SetOnce | AttestationMonotone | AppendOnlyMultiset | AdvisoryMutable | OrdinalNonDecreasing | AppendOnce

definition ROOT_MUTATED :: string where "ROOT_MUTATED = ''TNG-INDEX-ROOT-MUTATED''"
definition ROLLBACK :: string where "ROLLBACK = ''TNG-INDEX-ROLLBACK''"
definition ENTRY_MUTATED :: string where "ENTRY_MUTATED = ''TNG-ENTRY-MUTATED''"

definition class_rank :: "string \<Rightarrow> nat" where
  "class_rank c =
     (if c = ROOT_MUTATED then 0 else if c = ROLLBACK then 1 else if c = ENTRY_MUTATED then 2 else 255)"

definition FROZEN_CHANGED :: string where "FROZEN_CHANGED = ''frozen-changed''"
definition FROZEN_UNSET :: string where "FROZEN_UNSET = ''frozen-unset''"
definition MONOTONE_STRIPPED :: string where "MONOTONE_STRIPPED = ''monotone-stripped''"
definition MONOTONE_REATTRIBUTED :: string where "MONOTONE_REATTRIBUTED = ''monotone-reattributed''"
definition MONOTONE_DOWNGRADED :: string where "MONOTONE_DOWNGRADED = ''monotone-downgraded''"
definition MONOTONE_REPINNED :: string where "MONOTONE_REPINNED = ''monotone-repinned''"
definition PROVENANCE_REMOVED :: string where "PROVENANCE_REMOVED = ''provenance-removed''"
definition ROOT_FIELD_CHANGED :: string where "ROOT_FIELD_CHANGED = ''root-field-changed''"

subsection \<open>Entry keys\<close>

datatype entry_key = EntryKey (ek_namespace: string) (ek_name: string) (ek_version: string)

definition ek_tuple :: "entry_key \<Rightarrow> string \<times> string \<times> string" where
  "ek_tuple k = (ek_namespace k, ek_name k, ek_version k)"

lemma ek_tuple_inj [simp]: "ek_tuple a = ek_tuple b \<longleftrightarrow> a = b"
  by (cases a; cases b) (auto simp: ek_tuple_def)

text \<open>The derived \<^verbatim>\<open>Ord\<close>: lexicographic in declaration order.\<close>

instantiation entry_key :: linorder
begin

definition less_eq_entry_key :: "entry_key \<Rightarrow> entry_key \<Rightarrow> bool" where
  "less_eq_entry_key a b \<longleftrightarrow> ek_tuple a \<le> ek_tuple b"

definition less_entry_key :: "entry_key \<Rightarrow> entry_key \<Rightarrow> bool" where
  "less_entry_key a b \<longleftrightarrow> ek_tuple a < ek_tuple b"

instance
proof
  fix x y z :: entry_key
  show "(x < y) = (x \<le> y \<and> \<not> y \<le> x)"
    unfolding less_eq_entry_key_def less_entry_key_def by (rule less_le_not_le)
  show "x \<le> x" by (simp add: less_eq_entry_key_def)
  show "x \<le> y \<Longrightarrow> y \<le> z \<Longrightarrow> x \<le> z" unfolding less_eq_entry_key_def by (rule order_trans)
  show "x \<le> y \<Longrightarrow> y \<le> x \<Longrightarrow> x = y"
    unfolding less_eq_entry_key_def by (metis antisym ek_tuple_inj)
  show "x \<le> y \<or> y \<le> x" unfolding less_eq_entry_key_def by (rule linear)
qed

end

definition entry_key_root :: entry_key where
  "entry_key_root = EntryKey [] [] []"

definition is_root :: "entry_key \<Rightarrow> bool" where
  "is_root k \<longleftrightarrow> ek_namespace k = [] \<and> ek_name k = [] \<and> ek_version k = []"

lemma is_root_iff [simp]: "is_root k \<longleftrightarrow> k = entry_key_root"
  by (cases k) (simp add: is_root_def entry_key_root_def)

subsection \<open>Fields, entries and index states\<close>

record attestation_value =
  av_kind :: string
  av_signer :: "string option"
  av_bundle_pin :: "string option"

datatype field_value =
    FStr string
  | FInt int
  | FBool bool
  | FProvenances "provenance list"
  | FAttestation attestation_value
  | FRekor rekor_ref

record raw_field =
  rf_value :: "field_value option"
  rf_raw :: "string option"

definition rf_absent :: raw_field where
  "rf_absent = \<lparr>rf_value = None, rf_raw = None\<rparr>"

text \<open>
  \<open>dbg\<close> stands for the derived \<^verbatim>\<open>Debug\<close> text of the structured values, which the code falls back to
  when a structured field comes without its document text.
\<close>

definition raw_str :: "(field_value \<Rightarrow> string) \<Rightarrow> raw_field \<Rightarrow> string" where
  "raw_str dbg f =
     (case rf_value f of
        None \<Rightarrow> []
      | Some v \<Rightarrow>
          (case rf_raw f of
             Some r \<Rightarrow> r
           | None \<Rightarrow>
               (case v of
                  FStr s \<Rightarrow> s
                | FInt i \<Rightarrow> dec_of_int i
                | FBool b \<Rightarrow> if b then ''true'' else ''false''
                | _ \<Rightarrow> dbg v)))"

type_synonym ratchet_entry = "string \<Rightarrow> raw_field option"
type_synonym index_state = "(entry_key \<times> ratchet_entry) list"

definition entry_get :: "ratchet_entry \<Rightarrow> string \<Rightarrow> raw_field" where
  "entry_get e n = (case e n of Some f \<Rightarrow> f | None \<Rightarrow> rf_absent)"

definition entry_set :: "string \<Rightarrow> raw_field \<Rightarrow> ratchet_entry \<Rightarrow> ratchet_entry" where
  "entry_set n f e = e(n \<mapsto> f)"

text \<open>The value the order kinds compare.\<close>

abbreviation field_val :: "ratchet_entry \<Rightarrow> string \<Rightarrow> field_value option" where
  "field_val e n \<equiv> rf_value (entry_get e n)"

lemma entry_get_simps [simp]:
  "entry_get (entry_set n f e) m = (if m = n then f else entry_get e m)"
  "entry_get Map.empty m = rf_absent"
  by (simp_all add: entry_get_def entry_set_def)

lemma rf_absent_val [simp]: "rf_value rf_absent = None"
  by (simp add: rf_absent_def)

subsection \<open>Verdicts\<close>

record violation =
  vi_class :: string
  vi_key :: entry_key
  vi_field :: string
  vi_kind :: string
  vi_baseline :: string
  vi_candidate :: string

record transition =
  tr_key :: entry_key
  tr_kind :: string
  tr_direction :: string
  tr_reason :: "string option"

record ratchet_outcome =
  ro_violations :: "violation list"
  ro_advanced :: bool
  ro_transitions :: "transition list"

definition ro_clean :: "ratchet_outcome \<Rightarrow> bool" where
  "ro_clean r \<longleftrightarrow> ro_violations r = []"

subsection \<open>The lattice\<close>

definition lattice :: "(string \<times> order_kind) list" where
  "lattice =
     [(''content_hash'', SetOnce),
      (''published_at'', SetOnce),
      (''rekor'', SetOnce),
      (''attestation'', AttestationMonotone),
      (''provenances'', AppendOnlyMultiset),
      (''yanked'', AdvisoryMutable),
      (''schema_version'', OrdinalNonDecreasing),
      (''attestation-epoch'', SetOnce),
      (''attestation-epoch-commitment'', AppendOnce)]"

definition LOCKSTEP_GROUPS :: "string list list" where
  "LOCKSTEP_GROUPS = [[''dep_decl'', ''dep_decl_schema_version'']]"

subsection \<open>Dominance, one function per order kind\<close>

text \<open>The result is the kind of the violation, \<open>None\<close> when the change is legal.\<close>

definition dominates_set_once :: "field_value option \<Rightarrow> field_value option \<Rightarrow> string option" where
  "dominates_set_once b c =
     (case (b, c) of
        (None, _) \<Rightarrow> None
      | (Some _, None) \<Rightarrow> Some FROZEN_UNSET
      | (Some x, Some y) \<Rightarrow> if x \<noteq> y then Some FROZEN_CHANGED else None)"

definition dominates_append_once :: "field_value option \<Rightarrow> field_value option \<Rightarrow> string option" where
  "dominates_append_once b c = dominates_set_once b c"

definition as_i64 :: "field_value option \<Rightarrow> int" where
  "as_i64 v = (case v of Some (FInt i) \<Rightarrow> i | _ \<Rightarrow> 1)"

definition dominates_ordinal :: "field_value option \<Rightarrow> field_value option \<Rightarrow> string option" where
  "dominates_ordinal b c = (if as_i64 c < as_i64 b then Some ROOT_FIELD_CHANGED else None)"

definition attestation_change :: "attestation_value \<Rightarrow> attestation_value \<Rightarrow> string option" where
  "attestation_change b c =
     (if av_kind b = av_kind c
      then (if av_kind b = ''author-signed'' \<and> av_signer b \<noteq> av_signer c then Some MONOTONE_REATTRIBUTED
            else if av_bundle_pin b \<noteq> av_bundle_pin c then Some MONOTONE_REPINNED
            else None)
      else if av_kind b = ''author-signed'' \<and> av_kind c = ''milpa-vendored'' then Some MONOTONE_DOWNGRADED
      else None)"

definition dominates_attestation :: "field_value option \<Rightarrow> field_value option \<Rightarrow> string option" where
  "dominates_attestation baseline candidate =
     (case baseline of
        None \<Rightarrow> None
      | Some (FAttestation b) \<Rightarrow>
          (case candidate of
             None \<Rightarrow> Some MONOTONE_STRIPPED
           | Some (FAttestation c) \<Rightarrow> attestation_change b c
           | Some _ \<Rightarrow> None)
      | Some _ \<Rightarrow> None)"

definition as_provenance_list :: "field_value option \<Rightarrow> provenance list" where
  "as_provenance_list v = (case v of Some (FProvenances ps) \<Rightarrow> ps | _ \<Rightarrow> [])"

fun multiset_loop :: "provenance list \<Rightarrow> provenance list \<Rightarrow> string option" where
  "multiset_loop [] remaining = None"
| "multiset_loop (b # bs) remaining =
     (if b \<in> set remaining then multiset_loop bs (remove1 b remaining) else Some PROVENANCE_REMOVED)"

definition dominates_multiset :: "field_value option \<Rightarrow> field_value option \<Rightarrow> string option" where
  "dominates_multiset b c = multiset_loop (as_provenance_list b) (as_provenance_list c)"

definition dominates_advisory :: "field_value option \<Rightarrow> field_value option \<Rightarrow> string option" where
  "dominates_advisory b c = None"

definition dispatch :: "order_kind \<Rightarrow> field_value option \<Rightarrow> field_value option \<Rightarrow> string option" where
  "dispatch k b c =
     (case k of
        SetOnce \<Rightarrow> dominates_set_once b c
      | OrdinalNonDecreasing \<Rightarrow> dominates_ordinal b c
      | AttestationMonotone \<Rightarrow> dominates_attestation b c
      | AppendOnlyMultiset \<Rightarrow> dominates_multiset b c
      | AdvisoryMutable \<Rightarrow> dominates_advisory b c
      | AppendOnce \<Rightarrow> dominates_append_once b c)"


subsection \<open>The dominance fold\<close>

definition lockstep_raw :: "(field_value \<Rightarrow> string) \<Rightarrow> ratchet_entry \<Rightarrow> string list \<Rightarrow> string" where
  "lockstep_raw dbg e grp = join [CHR 0x1F] (map (\<lambda>f. raw_str dbg (entry_get e f)) grp)"

definition lockstep_change :: "ratchet_entry \<Rightarrow> ratchet_entry \<Rightarrow> string list \<Rightarrow> string option" where
  "lockstep_change baseline candidate grp =
     (let b_vals = map (field_val baseline) grp; c_vals = map (field_val candidate) grp
      in if \<not> list_ex (\<lambda>v. v \<noteq> None) b_vals then None
         else if \<not> list_ex (\<lambda>v. v \<noteq> None) c_vals then Some FROZEN_UNSET
         else if b_vals \<noteq> c_vals then Some FROZEN_CHANGED
         else None)"

definition violation_class :: "entry_key \<Rightarrow> string" where
  "violation_class k = (if is_root k then ROOT_MUTATED else ENTRY_MUTATED)"

definition reported_kind :: "entry_key \<Rightarrow> string \<Rightarrow> string" where
  "reported_kind k kind = (if is_root k then ROOT_FIELD_CHANGED else kind)"

definition group_violation ::
  "(field_value \<Rightarrow> string) \<Rightarrow> entry_key \<Rightarrow> ratchet_entry \<Rightarrow> ratchet_entry \<Rightarrow> string list \<Rightarrow> violation list" where
  "group_violation dbg key b c grp =
     (case lockstep_change b c grp of
        None \<Rightarrow> []
      | Some kind \<Rightarrow>
          [\<lparr>vi_class = violation_class key, vi_key = key, vi_field = hd grp,
            vi_kind = reported_kind key kind,
            vi_baseline = lockstep_raw dbg b grp, vi_candidate = lockstep_raw dbg c grp\<rparr>])"

definition field_violation ::
  "(field_value \<Rightarrow> string) \<Rightarrow> entry_key \<Rightarrow> ratchet_entry \<Rightarrow> ratchet_entry \<Rightarrow> string \<times> order_kind \<Rightarrow> violation list" where
  "field_violation dbg key b c fs =
     (case dispatch (snd fs) (field_val b (fst fs)) (field_val c (fst fs)) of
        None \<Rightarrow> []
      | Some kind \<Rightarrow>
          [\<lparr>vi_class = violation_class key, vi_key = key, vi_field = fst fs,
            vi_kind = reported_kind key kind,
            vi_baseline = raw_str dbg (entry_get b (fst fs)), vi_candidate = raw_str dbg (entry_get c (fst fs))\<rparr>])"

definition dominates_entry ::
  "(field_value \<Rightarrow> string) \<Rightarrow> entry_key \<Rightarrow> ratchet_entry \<Rightarrow> ratchet_entry \<Rightarrow> violation list" where
  "dominates_entry dbg key b c =
     concat (map (group_violation dbg key b c) LOCKSTEP_GROUPS) @
     concat (map (field_violation dbg key b c) lattice)"

definition rollback_violation :: "entry_key \<Rightarrow> violation" where
  "rollback_violation key =
     \<lparr>vi_class = ROLLBACK, vi_key = key, vi_field = [], vi_kind = FROZEN_UNSET,
      vi_baseline = ''present'', vi_candidate = []\<rparr>"

definition str_of :: "field_value option \<Rightarrow> string option" where
  "str_of v = (case v of Some (FStr s) \<Rightarrow> Some s | _ \<Rightarrow> None)"

definition yank_transition :: "entry_key \<Rightarrow> ratchet_entry \<Rightarrow> ratchet_entry \<Rightarrow> transition option" where
  "yank_transition key baseline candidate =
     (let b = (field_val baseline ''yanked'' = Some (FBool True));
          c = (field_val candidate ''yanked'' = Some (FBool True))
      in if b = c then None
         else if c then
           Some \<lparr>tr_key = key, tr_kind = ''yank'', tr_direction = ''yanked'',
             tr_reason = str_of (field_val candidate ''yanked_reason'')\<rparr>
         else
           Some \<lparr>tr_key = key, tr_kind = ''yank'', tr_direction = ''unyanked'',
             tr_reason = str_of (field_val baseline ''yanked_reason'')\<rparr>)"

definition violation_key :: "violation \<Rightarrow> nat \<times> string \<times> string \<times> string \<times> string" where
  "violation_key v =
     (class_rank (vi_class v), ek_namespace (vi_key v), ek_name (vi_key v), ek_version (vi_key v), vi_field v)"

text \<open>One turn of the loop over the baseline entries.\<close>

definition check_entry ::
  "(field_value \<Rightarrow> string) \<Rightarrow> index_state \<Rightarrow> entry_key \<times> ratchet_entry \<Rightarrow> violation list \<times> transition list" where
  "check_entry dbg candidate kv =
     (if is_root (fst kv) then ([], [])
      else case bt_get candidate (fst kv) of
        None \<Rightarrow> ([rollback_violation (fst kv)], [])
      | Some c \<Rightarrow>
          (dominates_entry dbg (fst kv) (snd kv) c,
           case yank_transition (fst kv) (snd kv) c of None \<Rightarrow> [] | Some t \<Rightarrow> [t]))"

definition found_violations :: "(field_value \<Rightarrow> string) \<Rightarrow> index_state \<Rightarrow> index_state \<Rightarrow> violation list" where
  "found_violations dbg baseline candidate =
     dominates_entry dbg entry_key_root
       (bt_get_or Map.empty baseline entry_key_root) (bt_get_or Map.empty candidate entry_key_root) @
     concat (map (fst \<circ> check_entry dbg candidate) baseline)"

text \<open>The sort is stable, as \<^verbatim>\<open>sort_by\<close>.\<close>

definition ratchet_check :: "(field_value \<Rightarrow> string) \<Rightarrow> index_state \<Rightarrow> index_state \<Rightarrow> ratchet_outcome" where
  "ratchet_check dbg baseline candidate =
     (let violations = sort_key violation_key (found_violations dbg baseline candidate)
      in \<lparr>ro_violations = violations, ro_advanced = (violations = []),
          ro_transitions = concat (map (snd \<circ> check_entry dbg candidate) baseline)\<rparr>)"

subsection \<open>The canonical digest\<close>

text \<open>\<open>sha\<close> stands for the hexadecimal text of the SHA-256 digest.\<close>

definition violation_line :: "violation \<Rightarrow> string" where
  "violation_line v =
     join [CHR 0x09] [vi_class v, ek_namespace (vi_key v), ek_name (vi_key v), ek_version (vi_key v),
       vi_field v, vi_kind v, vi_candidate v] @ [CHR 0x0A]"

definition digest_preimage :: "violation list \<Rightarrow> string" where
  "digest_preimage vs = concat (map violation_line (sort_key violation_key vs))"

definition canonical_digest :: "(string \<Rightarrow> string) \<Rightarrow> violation list \<Rightarrow> string" where
  "canonical_digest sha vs = sha (digest_preimage vs)"

subsection \<open>The ratchet as an interface\<close>

text \<open>
  What the callers rely on: comparing a state with itself is accepted, and two accepted steps in a
  row are one accepted step, as long as the values are of the shapes a parsed index has.
\<close>

locale accepting =
  fixes ok :: "'a \<Rightarrow> 'a \<Rightarrow> bool" and wt :: "'a \<Rightarrow> bool"
  assumes refl: "wt x \<Longrightarrow> ok x x"
    and trans: "wt x \<Longrightarrow> wt y \<Longrightarrow> wt z \<Longrightarrow> ok x y \<Longrightarrow> ok y z \<Longrightarrow> ok x z"
begin

lemma chain: "successively ok (x # xs) \<Longrightarrow> \<forall>y \<in> set (x # xs). wt y \<Longrightarrow> ok x (last (x # xs))"
proof (induction xs arbitrary: x)
  case (Cons y ys)
  then have yl: "ok y (last (y # ys))" and wt: "wt x" "wt y" "wt (last (y # ys))" and xy: "ok x y"
    using last_in_set [of "y # ys"] by auto
  show ?case using trans [OF wt xy yl] by simp
qed (simp add: refl)

end

definition attested :: "field_value option \<Rightarrow> bool" where
  "attested v \<longleftrightarrow>
     (case v of None \<Rightarrow> True
      | Some (FAttestation a) \<Rightarrow> av_kind a = ''author-signed'' \<or> av_kind a = ''milpa-vendored''
      | Some _ \<Rightarrow> False)"

definition well_kinded :: "order_kind \<Rightarrow> field_value option \<Rightarrow> bool" where
  "well_kinded k v \<longleftrightarrow> (k = AttestationMonotone \<longrightarrow> attested v)"

lemma multiset_loop_iff: "multiset_loop bs rs = None \<longleftrightarrow> mset bs \<subseteq># mset rs"
proof (induction bs arbitrary: rs)
  case (Cons b bs)
  show ?case
    by (simp add: Cons insert_subset_eq_iff)
qed simp

text \<open>The order each kind imposes, stated without the loops.\<close>

definition attestation_le :: "attestation_value \<Rightarrow> attestation_value \<Rightarrow> bool" where
  "attestation_le b c \<longleftrightarrow>
     (if av_kind b = av_kind c
      then av_bundle_pin b = av_bundle_pin c \<and> (av_kind b \<noteq> ''author-signed'' \<or> av_signer b = av_signer c)
      else av_kind b \<noteq> ''author-signed'' \<or> av_kind c \<noteq> ''milpa-vendored'')"

definition field_le :: "order_kind \<Rightarrow> field_value option \<Rightarrow> field_value option \<Rightarrow> bool" where
  "field_le k b c =
     (case k of
        SetOnce \<Rightarrow> b = None \<or> c = b
      | AppendOnce \<Rightarrow> b = None \<or> c = b
      | OrdinalNonDecreasing \<Rightarrow> as_i64 b \<le> as_i64 c
      | AppendOnlyMultiset \<Rightarrow> mset (as_provenance_list b) \<subseteq># mset (as_provenance_list c)
      | AdvisoryMutable \<Rightarrow> True
      | AttestationMonotone \<Rightarrow>
          (case (b, c) of
             (Some (FAttestation x), Some (FAttestation y)) \<Rightarrow> attestation_le x y
           | (Some (FAttestation x), None) \<Rightarrow> False
           | _ \<Rightarrow> True))"

lemma dispatch_iff: "dispatch k b c = None \<longleftrightarrow> field_le k b c"
  by (cases k)
    (auto simp: dispatch_def field_le_def dominates_set_once_def dominates_append_once_def
      dominates_ordinal_def dominates_multiset_def multiset_loop_iff dominates_advisory_def
      dominates_attestation_def attestation_change_def attestation_le_def
      split: option.splits field_value.splits)

interpretation field: accepting "field_le k" "well_kinded k" for k
proof
  show "field_le k x x" for x
    by (cases k) (auto simp: field_le_def attestation_le_def split: option.splits field_value.splits)
  show "field_le k x z"
    if "well_kinded k x" "well_kinded k y" "well_kinded k z" "field_le k x y" "field_le k y z" for x y z
    using that
    by (cases k)
      (auto simp: field_le_def attestation_le_def well_kinded_def attested_def
        intro: subset_mset.order_trans split: option.splits field_value.splits if_splits)
qed


subsection \<open>Entries\<close>

definition group_le :: "ratchet_entry \<Rightarrow> ratchet_entry \<Rightarrow> string list \<Rightarrow> bool" where
  "group_le b c grp \<longleftrightarrow>
     map (field_val b) grp = map (\<lambda>_. None) grp \<or> map (field_val b) grp = map (field_val c) grp"

definition entry_le :: "ratchet_entry \<Rightarrow> ratchet_entry \<Rightarrow> bool" where
  "entry_le b c \<longleftrightarrow>
     list_all (group_le b c) LOCKSTEP_GROUPS \<and>
     list_all (\<lambda>(f, k). field_le k (field_val b f) (field_val c f)) lattice"

definition entry_wt :: "ratchet_entry \<Rightarrow> bool" where
  "entry_wt e \<longleftrightarrow> attested (field_val e ''attestation'')"

lemma lockstep_iff: "lockstep_change b c grp = None \<longleftrightarrow> group_le b c grp"
proof -
  have none: "map (field_val e) grp = map (\<lambda>_. None) grp \<longleftrightarrow> \<not> list_ex (\<lambda>v. v \<noteq> None) (map (field_val e) grp)" for e
    by (simp add: list_ex_iff)
  show ?thesis unfolding lockstep_change_def Let_def group_le_def none by (auto simp del: map_eq_conv)
qed

lemma dominates_entry_iff: "dominates_entry dbg key b c = [] \<longleftrightarrow> entry_le b c"
  by (auto simp: dominates_entry_def entry_le_def group_violation_def field_violation_def list_all_iff
      lockstep_iff [symmetric] dispatch_iff [symmetric] split: option.splits)

lemma entry_wt_kinds: "entry_wt e \<Longrightarrow> (f, k) \<in> set lattice \<Longrightarrow> well_kinded k (field_val e f)"
  by (auto simp: entry_wt_def well_kinded_def lattice_def)

interpretation entry: accepting entry_le entry_wt
proof
  show "entry_le x x" if "entry_wt x" for x
    using that entry_wt_kinds
    by (auto simp: entry_le_def group_le_def list_all_iff intro!: field.refl)
  show "entry_le x z" if wt: "entry_wt x" "entry_wt y" "entry_wt z" and le: "entry_le x y" "entry_le y z" for x y z
  proof -
    have "group_le x z grp" if "grp \<in> set LOCKSTEP_GROUPS" for grp
    proof -
      have "group_le x y grp" "group_le y z grp" using le that by (auto simp: entry_le_def list_all_iff)
      then show ?thesis unfolding group_le_def by (metis (no_types))
    qed
    moreover have "field_le k (field_val x f) (field_val z f)" if fk: "(f, k) \<in> set lattice" for f k
    proof (rule field.trans [OF wt [THEN entry_wt_kinds [OF _ fk]]])
      show "field_le k (field_val x f) (field_val y f)" "field_le k (field_val y f) (field_val z f)"
        using le fk by (auto simp: entry_le_def list_all_iff)
    qed
    ultimately show ?thesis by (auto simp: entry_le_def list_all_iff)
  qed
qed

subsection \<open>Index states\<close>

definition root_entry :: "index_state \<Rightarrow> ratchet_entry" where
  "root_entry s = bt_get_or Map.empty s entry_key_root"

definition state_le :: "index_state \<Rightarrow> index_state \<Rightarrow> bool" where
  "state_le b c \<longleftrightarrow>
     entry_le (root_entry b) (root_entry c) \<and>
     list_all (\<lambda>(k, e). k = entry_key_root \<or>
       (case bt_get c k of None \<Rightarrow> False | Some e' \<Rightarrow> entry_le e e')) b"

definition state_wt :: "index_state \<Rightarrow> bool" where
  "state_wt s \<longleftrightarrow> bt_ok s \<and> list_all (\<lambda>(k, e). entry_wt e) s"

lemma root_entry_wt: "state_wt s \<Longrightarrow> entry_wt (root_entry s)"
  by (auto simp: state_wt_def root_entry_def bt_get_or_def list_all_iff entry_wt_def attested_def
      dest: bt_get_in split: option.splits)

interpretation state: accepting state_le state_wt
proof
  show "state_le x x" if x: "state_wt x" for x
  proof -
    have "bt_get x k = Some e \<and> entry_le e e" if "(k, e) \<in> set x" for k e
      using that x entry.refl by (auto simp: state_wt_def list_all_iff bt_get_iff)
    then show ?thesis
      using entry.refl [OF root_entry_wt [OF x]] by (fastforce simp: state_le_def list_all_iff)
  qed
  show "state_le x z" if wt: "state_wt x" "state_wt y" "state_wt z" and le: "state_le x y" "state_le y z" for x y z
  proof -
    have "entry_le (root_entry x) (root_entry z)"
      using entry.trans [OF wt [THEN root_entry_wt]] le by (simp add: state_le_def)
    moreover have "case bt_get z k of None \<Rightarrow> False | Some e' \<Rightarrow> entry_le e e'"
      if k: "(k, e) \<in> set x" "k \<noteq> entry_key_root" for k e
    proof -
      obtain e' where e': "bt_get y k = Some e'" "entry_le e e'"
        using le(1) k by (auto simp: state_le_def list_all_iff split: option.splits)
      from bt_get_in [OF e'(1)] le(2) k(2) obtain e'' where e'': "bt_get z k = Some e''" "entry_le e' e''"
        by (auto simp: state_le_def list_all_iff split: option.splits)
      have "entry_wt e" "entry_wt e'" "entry_wt e''"
        using wt k(1) bt_get_in [OF e'(1)] bt_get_in [OF e''(1)] by (auto simp: state_wt_def list_all_iff)
      from entry.trans [OF this e'(2) e''(2)] e''(1) show ?thesis by simp
    qed
    ultimately show ?thesis by (auto simp: state_le_def list_all_iff)
  qed
qed

lemma check_entry_iff:
  "fst (check_entry dbg c (k, e)) = [] \<longleftrightarrow>
     k = entry_key_root \<or> (case bt_get c k of None \<Rightarrow> False | Some e' \<Rightarrow> entry_le e e')"
  by (simp add: check_entry_def dominates_entry_iff split: option.splits)

lemma found_iff: "found_violations dbg b c = [] \<longleftrightarrow> state_le b c"
  by (auto simp: found_violations_def state_le_def list_all_iff dominates_entry_iff root_entry_def
      check_entry_iff comp_def)

lemma advanced_iff: "ro_advanced (ratchet_check dbg b c) \<longleftrightarrow> state_le b c"
  by (simp add: ratchet_check_def Let_def length_zero_sort found_iff)

subsection \<open>The order of the violations\<close>

lemma dominates_entry_key: "v \<in> set (dominates_entry dbg key b c) \<Longrightarrow> vi_key v = key"
  by (auto simp: dominates_entry_def group_violation_def field_violation_def split: option.splits)

lemma check_entry_key: "v \<in> set (fst (check_entry dbg c kv)) \<Longrightarrow> vi_key v = fst kv \<and> fst kv \<noteq> entry_key_root"
  by (auto simp: check_entry_def rollback_violation_def split: if_splits option.splits dest: dominates_entry_key)

lemma violation_key_key: "violation_key v = violation_key w \<Longrightarrow> vi_key v = vi_key w"
  by (cases "vi_key v"; cases "vi_key w") (simp add: violation_key_def)

lemma map_field_concat:
  assumes "\<And>x. x \<in> set xs \<Longrightarrow> g x = [] \<or> (\<exists>v. g x = [v] \<and> h v = p x)"
    and "distinct (map p xs)"
  shows "distinct (map h (concat (map g xs))) \<and> h ` set (concat (map g xs)) \<subseteq> p ` set xs"
  using assms
proof (induction xs)
  case (Cons x xs)
  then have IH: "distinct (map h (concat (map g xs)))" "h ` set (concat (map g xs)) \<subseteq> p ` set xs" by simp_all
  consider "g x = []" | v where "g x = [v]" "h v = p x" using Cons.prems(1) [of x] by auto
  then show ?case
  proof cases
    case 2
    then have "h v \<notin> h ` set (concat (map g xs))" using IH(2) Cons.prems(2) by auto
    then show ?thesis using IH 2 by auto
  qed (use IH in auto)
qed simp

lemma dominates_entry_fields: "distinct (map vi_field (dominates_entry dbg key b c))"
proof -
  let ?G = "concat (map (group_violation dbg key b c) LOCKSTEP_GROUPS)"
  let ?F = "concat (map (field_violation dbg key b c) lattice)"
  have "distinct (map vi_field ?G) \<and> vi_field ` set ?G \<subseteq> hd ` set LOCKSTEP_GROUPS"
    by (rule map_field_concat) (auto simp: group_violation_def LOCKSTEP_GROUPS_def split: option.splits)
  moreover have "distinct (map vi_field ?F) \<and> vi_field ` set ?F \<subseteq> fst ` set lattice"
    by (rule map_field_concat) (auto simp: field_violation_def split: option.splits, simp add: lattice_def)
  moreover have "hd ` set LOCKSTEP_GROUPS \<inter> fst ` set lattice = {}"
    by (simp add: LOCKSTEP_GROUPS_def lattice_def)
  ultimately have "vi_field ` set ?G \<inter> vi_field ` set ?F = {}" "distinct (map vi_field ?G)"
      "distinct (map vi_field ?F)" by blast+
  then show ?thesis
    unfolding dominates_entry_def by (simp only: map_append distinct_append set_map)
qed

lemma distinct_violation_keys:
  "distinct (map vi_field vs) \<Longrightarrow> distinct (map violation_key vs)"
  by (auto simp: distinct_map violation_key_def intro!: inj_onI dest: inj_onD)

lemma check_entry_distinct: "distinct (map violation_key (fst (check_entry dbg c kv)))"
  by (auto simp: check_entry_def intro!: distinct_violation_keys dominates_entry_fields split: option.splits)

lemma distinct_concat_by:
  assumes "\<And>x. x \<in> set xs \<Longrightarrow> distinct (map h (g x))"
    and "\<And>x v. x \<in> set xs \<Longrightarrow> v \<in> set (g x) \<Longrightarrow> p v = q x"
    and "\<And>v w. h v = h w \<Longrightarrow> p v = p w" and "distinct (map q xs)"
  shows "distinct (map h (concat (map g xs)))"
  using assms
proof (induction xs)
  case Nil
  show ?case by simp
next
  case (Cons x xs)
  have "h v \<noteq> h w" if "v \<in> set (g x)" "w \<in> set (concat (map g xs))" for v w
  proof
    assume "h v = h w"
    then have "p v = p w" by (rule Cons.prems(3))
    moreover from that(2) obtain y where y: "y \<in> set xs" "w \<in> set (g y)" by auto
    ultimately have "q x = q y" using that(1) Cons.prems(2) [of x v] Cons.prems(2) [of y w] by simp
    then show False using Cons.prems(4) y(1) by auto
  qed
  then have "h ` set (g x) \<inter> h ` set (concat (map g xs)) = {}" by blast
  moreover have "distinct (map h (concat (map g xs)))"
    by (rule Cons.IH [OF _ _ Cons.prems(3)]) (use Cons.prems(1,2,4) in auto)
  moreover have "distinct (map h (g x))" using Cons.prems(1) by simp
  ultimately show ?case by (simp only: list.map concat.simps map_append distinct_append set_map)
qed

lemma found_distinct:
  assumes "bt_ok b" shows "distinct (map violation_key (found_violations dbg b c))"
proof -
  let ?R = "dominates_entry dbg entry_key_root (bt_get_or Map.empty b entry_key_root) (bt_get_or Map.empty c entry_key_root)"
  let ?E = "concat (map (fst \<circ> check_entry dbg c) b)"
  have "distinct (map violation_key ?R)" by (rule distinct_violation_keys) (rule dominates_entry_fields)
  moreover have "distinct (map violation_key ?E)"
  proof (rule distinct_concat_by [where p = vi_key and q = fst])
    show "distinct (map violation_key ((fst \<circ> check_entry dbg c) kv))" for kv
      unfolding comp_def by (rule check_entry_distinct)
    show "vi_key v = fst kv" if "v \<in> set ((fst \<circ> check_entry dbg c) kv)" for kv v
      by (rule check_entry_key [THEN conjunct1]) (use that in \<open>simp only: comp_def\<close>)
    show "distinct (map fst b)" by (rule bt_ok_distinct [OF assms])
    show "vi_key v = vi_key w" if "violation_key v = violation_key w" for v w
      using that by (rule violation_key_key)
  qed
  moreover have ne: "violation_key v \<noteq> violation_key w" if "v \<in> set ?R" "w \<in> set ?E" for v w
  proof
    assume "violation_key v = violation_key w"
    then have "vi_key v = vi_key w" by (rule violation_key_key)
    moreover have "vi_key v = entry_key_root" using that(1) by (rule dominates_entry_key)
    moreover have "\<exists>kv. w \<in> set (fst (check_entry dbg c kv))"
      using that(2) unfolding set_concat set_map comp_def by blast
    then have "vi_key w \<noteq> entry_key_root" using check_entry_key by metis
    ultimately show False by simp
  qed
  from ne have "violation_key ` set ?R \<inter> violation_key ` set ?E = {}" by blast
  ultimately show ?thesis
    unfolding found_violations_def by (simp only: map_append distinct_append set_map)
qed

lemma concat_lines_inj:
  assumes "concat (map (\<lambda>x. x @ [d]) xs) = concat (map (\<lambda>x. x @ [d]) ys)"
    and "\<forall>x \<in> set xs. d \<notin> set x" "\<forall>y \<in> set ys. d \<notin> set y"
  shows "xs = (ys :: string list)"
  using assms
proof (induction xs arbitrary: ys)
  case Nil
  then show ?case by (cases ys) auto
next
  case (Cons x xs)
  then obtain y ys' where ys: "ys = y # ys'" by (cases ys) auto
  have "x @ d # concat (map (\<lambda>x. x @ [d]) xs) = y @ d # concat (map (\<lambda>x. x @ [d]) ys')"
    using Cons.prems(1) by (simp add: ys)
  then have "x = y \<and> concat (map (\<lambda>x. x @ [d]) xs) = concat (map (\<lambda>x. x @ [d]) ys')"
    using Cons.prems(2,3) by (simp add: append_sep_eq ys)
  then show ?case using Cons by (simp add: ys)
qed


subsection \<open>Properties\<close>


text \<open>
  C11. Nothing drifts through the ratchet: over any sequence of index states that were accepted one
  after the other, the last state dominates the first one, so no sequence of small steps reaches a
  state that the first baseline would have refused.
\<close>

theorem ratchet_no_drift:
  assumes "\<forall>s \<in> set (s0 # ss). state_wt s"
    and "successively (\<lambda>b c. ro_advanced (ratchet_check dbg b c)) (s0 # ss)"
  shows "ro_advanced (ratchet_check dbg s0 (last (s0 # ss)))"
  using state.chain [of s0 ss] assms unfolding advanced_iff by blast

definition demo_entry :: "bool \<Rightarrow> ratchet_entry" where
  "demo_entry y = entry_set ''content_hash'' \<lparr>rf_value = Some (FStr ''h''), rf_raw = None\<rparr>
     (entry_set ''yanked'' \<lparr>rf_value = Some (FBool y), rf_raw = None\<rparr> Map.empty)"

definition demo_state :: "bool \<Rightarrow> index_state" where
  "demo_state y = [(EntryKey ''ns'' ''pkg'' ''1.0.0'', demo_entry y)]"

lemma demo_state_wt: "state_wt (demo_state y)"
  by (simp add: demo_state_def state_wt_def entry_wt_def attested_def demo_entry_def)

lemma demo_state_le: "state_le (demo_state x) (demo_state y)"
  by (simp add: demo_state_def state_le_def root_entry_def bt_get_or_def entry_key_root_def entry_le_def
      LOCKSTEP_GROUPS_def group_le_def lattice_def field_le_def demo_entry_def)

theorem ratchet_no_drift_witness:
  "ro_advanced (ratchet_check (\<lambda>_. []) (demo_state False) (demo_state False))"
  using ratchet_no_drift [of "demo_state False" "[demo_state True, demo_state False]" "\<lambda>_. []"]
  by (simp add: demo_state_wt advanced_iff demo_state_le)

text \<open>
  The violations of a check are strictly sorted by class, entry and field, so the diagnosis is
  deterministic, and the canonical digest does not depend on the order in which they are presented.
\<close>

theorem ratchet_violations_canonical:
  assumes "bt_ok b" "mset vs = mset (ro_violations (ratchet_check dbg b c))"
  shows "sorted_wrt (\<lambda>v w. violation_key v < violation_key w) (ro_violations (ratchet_check dbg b c)) \<and>
    canonical_digest sha vs = canonical_digest sha (ro_violations (ratchet_check dbg b c))"
proof -
  let ?ws = "ro_violations (ratchet_check dbg b c)"
  have ws: "?ws = sort_key violation_key (found_violations dbg b c)"
    by (simp add: ratchet_check_def Let_def)
  have d: "distinct (map violation_key ?ws)"
    using found_distinct [OF assms(1), of dbg c] by (simp add: ws distinct_map)
  then have "sorted_wrt (<) (map violation_key ?ws)"
    unfolding strict_sorted_iff by (simp add: ws)
  moreover have "sort_key violation_key vs = sort_key violation_key ?ws"
    by (rule sym, rule sort_key_perm) (use assms(2) d in simp_all)
  ultimately show ?thesis
    by (simp add: canonical_digest_def digest_preimage_def sorted_wrt_map)
qed

definition demo_rewritten :: index_state where
  "demo_rewritten = [(EntryKey ''ns'' ''pkg'' ''1.0.0'',
     entry_set ''content_hash'' \<lparr>rf_value = Some (FStr ''g''), rf_raw = None\<rparr> Map.empty)]"

theorem ratchet_violations_canonical_witness:
  "canonical_digest (\<lambda>s. s) (ro_violations (ratchet_check (\<lambda>_. []) (demo_state False) demo_rewritten)) =
   canonical_digest (\<lambda>s. s) (rev (ro_violations (ratchet_check (\<lambda>_. []) (demo_state False) demo_rewritten)))"
proof -
  have "bt_ok (demo_state False)" by (simp add: demo_state_def)
  from ratchet_violations_canonical [OF this mset_rev] show ?thesis by metis
qed

text \<open>The texts a violation contributes to the digest, and the texts that cannot be confused.\<close>

definition line_fields :: "violation \<Rightarrow> string list" where
  "line_fields v = [vi_class v, ek_namespace (vi_key v), ek_name (vi_key v), ek_version (vi_key v),
     vi_field v, vi_kind v, vi_candidate v]"

definition line_safe :: "violation \<Rightarrow> bool" where
  "line_safe v \<longleftrightarrow> list_all (\<lambda>s. CHR 0x09 \<notin> set s \<and> CHR 0x0A \<notin> set s) (line_fields v)"

lemma digest_preimage_lines:
  "digest_preimage vs =
     concat (map (\<lambda>x. x @ [CHR 0x0A]) (map (join [CHR 0x09] \<circ> line_fields) (sort_key violation_key vs)))"
proof -
  have "violation_line = (\<lambda>v. join [CHR 0x09] (line_fields v) @ [CHR 0x0A])"
    by (rule ext) (simp only: violation_line_def line_fields_def)
  then show ?thesis by (simp only: digest_preimage_def map_map comp_def)
qed

text \<open>
  The preimage of the canonical digest determines what it reports: when no text carries a tab or
  a line feed, two lists of violations with the same preimage agree, in sorted order, in the class,
  the entry key, the field, the kind and the candidate value of every violation.
\<close>

theorem ratchet_digest_injective:
  assumes "list_all line_safe vs" "list_all line_safe ws" "digest_preimage vs = digest_preimage ws"
  shows "map line_fields (sort_key violation_key vs) = map line_fields (sort_key violation_key ws)"
proof -
  let ?tab = "join [CHR 0x09]" let ?s = "sort_key violation_key"
  have nl: "\<forall>x \<in> set (map (?tab \<circ> line_fields) (?s us)). CHR 0x0A \<notin> set x" if "list_all line_safe us" for us
    using that set_join [of "[CHR 0x09]"] by (auto simp: line_safe_def list_all_iff) blast
  have "map (?tab \<circ> line_fields) (?s vs) = map (?tab \<circ> line_fields) (?s ws)"
    using concat_lines_inj [OF assms(3) [unfolded digest_preimage_lines]] nl assms(1,2) by blast
  then have len: "length (?s vs) = length (?s ws)"
    and eq: "i < length (?s vs) \<Longrightarrow> ?tab (line_fields (?s vs ! i)) = ?tab (line_fields (?s ws ! i))" for i
    by (auto simp: list_eq_iff_nth_eq)
  show ?thesis
  proof (rule nth_equalityI)
    fix i assume "i < length (map line_fields (?s vs))"
    then have i: "i < length (?s vs)" "i < length (?s ws)" using len by simp_all
    then have "line_safe (?s vs ! i)" "line_safe (?s ws ! i)"
      using assms(1,2) nth_mem [OF i(1)] nth_mem [OF i(2)] by (auto simp: list_all_iff)
    then have "line_fields (?s vs ! i) = line_fields (?s ws ! i)"
      by (intro join_inj_fresh [OF eq [OF i(1)]]) (auto simp: line_safe_def line_fields_def list_all_iff)
    then show "map line_fields (?s vs) ! i = map line_fields (?s ws) ! i" using i by simp
  qed (use len in simp)
qed

theorem ratchet_digest_injective_witness:
  "digest_preimage [rollback_violation (EntryKey ''a'' ''b'' ''1'')] \<noteq>
   digest_preimage [rollback_violation (EntryKey ''a'' ''b'' ''2'')]"
  using ratchet_digest_injective [of "[rollback_violation (EntryKey ''a'' ''b'' ''1'')]"
      "[rollback_violation (EntryKey ''a'' ''b'' ''2'')]"]
  by (auto simp: rollback_violation_def line_safe_def line_fields_def ROLLBACK_def FROZEN_UNSET_def)

end
