(* ===== verification/Kdl.thy ===== *)
theory Kdl
  imports Prelude
begin

text \<open>
  The interface of the third-party \<^verbatim>\<open>kdl\<close> crate, as data: what its accessors return for a parsed
  document (\<^verbatim>\<open>name().value()\<close>, \<^verbatim>\<open>entries()\<close>, \<^verbatim>\<open>ty()\<close>, \<^verbatim>\<open>as_string()\<close>, \<^verbatim>\<open>as_integer()\<close>,
  \<^verbatim>\<open>as_bool()\<close>, \<^verbatim>\<open>children()\<close>).  The parser itself is not modelled: it is a parameter
  \<open>kdl :: string \<Rightarrow> kdl_node list option\<close> of the functions that start from text.  Also here: the
  two nesting scans of \<^verbatim>\<open>milpa-manifest/src/lib.rs\<close> that run before the crate's parser.
\<close>

subsection \<open>Documents\<close>

datatype kdl_value = KString string | KInt int | KBool bool | KOther

record kdl_entry =
  ke_name :: "string option"
  ke_ty :: "string option"
  ke_value :: kdl_value

datatype kdl_node =
  KNode (kn_name: string) (kn_entries: "kdl_entry list") (kn_children: "kdl_node list")

fun as_string :: "kdl_value \<Rightarrow> string option" where
  "as_string (KString s) = Some s"
| "as_string _ = None"

fun as_integer :: "kdl_value \<Rightarrow> int option" where
  "as_integer (KInt i) = Some i"
| "as_integer _ = None"

fun as_bool :: "kdl_value \<Rightarrow> bool option" where
  "as_bool (KBool b) = Some b"
| "as_bool _ = None"

text \<open>The first positional argument, and the first child or node of a name.\<close>

definition first_arg :: "kdl_node \<Rightarrow> kdl_value option" where
  "first_arg n = map_option ke_value (List.find (\<lambda>e. ke_name e = None) (kn_entries n))"

definition find_node :: "kdl_node list \<Rightarrow> string \<Rightarrow> kdl_node option" where
  "find_node ns nm = List.find (\<lambda>c. kn_name c = nm) ns"

text \<open>All positional arguments, and a string property.\<close>

definition pos_args :: "kdl_node \<Rightarrow> kdl_entry list" where
  "pos_args node = filter (\<lambda>e. ke_name e = None) (kn_entries node)"

definition prop_str :: "kdl_node \<Rightarrow> string \<Rightarrow> string option" where
  "prop_str node key =
     (case List.find (\<lambda>e. ke_name e = Some key) (kn_entries node) of
        None \<Rightarrow> None | Some e \<Rightarrow> as_string (ke_value e))"

definition i64_range :: "int \<Rightarrow> bool" where
  "i64_range i \<longleftrightarrow> - (2 ^ 63) \<le> i \<and> i < 2 ^ 63"

text \<open>\<^verbatim>\<open>i64::try_from\<close> on the \<^verbatim>\<open>i128\<close> of the crate.\<close>

definition try_i64 :: "int \<Rightarrow> int option" where
  "try_i64 i = (if i64_range i then Some i else None)"

subsection \<open>The nesting scans\<close>

definition KDL_MAX_NESTING_DEPTH :: nat where
  "KDL_MAX_NESTING_DEPTH = 32"

fun brace_scan :: "nat \<Rightarrow> nat \<Rightarrow> string \<Rightarrow> nat" where
  "brace_scan depth mx [] = mx"
| "brace_scan depth mx (b # bs) =
     (if b = CHR ''{'' then brace_scan (depth + 1) (if mx < depth + 1 then depth + 1 else mx) bs
      else if b = CHR ''}'' then brace_scan (depth - 1) mx bs
      else brace_scan depth mx bs)"

definition kdl_brace_depth :: "string \<Rightarrow> nat" where
  "kdl_brace_depth text = brace_scan 0 0 text"

fun comment_scan :: "nat \<Rightarrow> nat \<Rightarrow> string \<Rightarrow> nat" where
  "comment_scan depth mx (a # b # bs) =
     (if a = CHR ''/'' \<and> b = CHR ''*''
      then comment_scan (depth + 1) (if mx < depth + 1 then depth + 1 else mx) bs
      else if a = CHR ''*'' \<and> b = CHR ''/'' then comment_scan (depth - 1) mx bs
      else comment_scan depth mx (b # bs))"
| "comment_scan depth mx _ = mx"

definition kdl_block_comment_depth :: "string \<Rightarrow> nat" where
  "kdl_block_comment_depth text = comment_scan 0 0 text"

text \<open>
  The scan over-approximates: no prefix of the text opens more braces than it closes by more than
  the reported depth, whatever strings and comments the braces stand in.
\<close>

lemma brace_scan_mono: "mx \<le> brace_scan d mx s"
  by (induction d mx s rule: brace_scan.induct) auto

lemma brace_scan_bound:
  "int d + int (count_list p CHR ''{'') - int (count_list p CHR ''}'') \<le> int (brace_scan d mx (p @ q))"
  if "d \<le> mx"
  using that
proof (induction d mx p rule: brace_scan.induct)
  case (1 d mx)
  then show ?case using brace_scan_mono [of mx d q] by simp
next
  case (2 d mx b bs)
  have "d - 1 \<le> mx" "Suc d \<le> max mx (Suc d)" using 2(4) by simp_all
  with 2 show ?case by (cases "d = 0") (auto split: if_splits)
qed

text \<open>
  The nesting guard is sound: if a prefix of the text has more than 32 unclosed braces, the scan
  reports a depth above the limit, so the recursive parser behind it is never called.
\<close>

theorem brace_depth_sound:
  "int (count_list p CHR ''{'') - int (count_list p CHR ''}'') \<le> int (kdl_brace_depth (p @ q))"
  using brace_scan_bound [of 0 0 p q] by (simp add: kdl_brace_depth_def)

lemma comment_openings: "comment_scan d d (concat (replicate n ''/*'')) = d + n"
  by (induction n arbitrary: d) auto

lemma comment_star: "comment_scan 0 0 (CHR ''*'' # concat (replicate n ''/*'')) = 0"
  by (induction n) auto

text \<open>
  The scan for nested block comments is not an upper bound: it reads the text in byte pairs, so
  a star in front of \<open>n\<close> openings makes it see \<open>n\<close> closings instead.  It then reports depth 0,
  where the same openings without the star count \<open>n\<close>.
\<close>

theorem comment_depth_bypass:
  "kdl_block_comment_depth (concat (replicate n ''/*'')) = n \<and>
   kdl_block_comment_depth (''*'' @ concat (replicate n ''/*'')) = 0"
  by (simp add: kdl_block_comment_depth_def comment_openings comment_star)

end
