(* ===== verification/IndexParse.thy ===== *)
theory IndexParse
  imports Registry Kdl Iso8601
begin

text \<open>
  The trust boundary of the registry index: \<^verbatim>\<open>Index::parse\<close> of \<^verbatim>\<open>milpa-core/src/registry.rs\<close>
  and its validators, from the nodes the \<^verbatim>\<open>kdl\<close> crate returns to the typed index.  The collapse
  diagnostics the code prints are not part of the results here.  The main facts: what every field of
  an accepted index satisfies, and the order of its versions.
\<close>

subsection \<open>Validators\<close>

definition is_safe_name :: "string \<Rightarrow> bool" where
  "is_safe_name n \<longleftrightarrow>
     \<not> (contains_str ''..'' n \<or> CHR ''/'' \<in> set n \<or> CHR 0x5C \<in> set n \<or> starts_with ''/'' n)"

definition validate_safe_name :: "string \<Rightarrow> string + unit" where
  "validate_safe_name n = ensure (is_safe_name n) ''TNG-UNSAFE-NAME''"

definition validate_no_leading_dash :: "string \<Rightarrow> string \<Rightarrow> string + unit" where
  "validate_no_leading_dash v code = ensure (\<not> starts_with ''-'' v) code"

definition has_control_char :: "string \<Rightarrow> bool" where
  "has_control_char s \<longleftrightarrow> list_ex (\<lambda>c. byte c \<le> 31 \<or> byte c = 127) s"

definition validate_no_control_chars :: "string \<Rightarrow> string + unit" where
  "validate_no_control_chars v = ensure (\<not> has_control_char v) ''TNG-UNSAFE-CONTROL-CHAR''"

definition lower_hex_len :: "string \<Rightarrow> nat \<Rightarrow> bool" where
  "lower_hex_len s n \<longleftrightarrow> length s = n \<and> list_all is_lower_hex s"

definition validate_commit_sha :: "string \<Rightarrow> string + unit" where
  "validate_commit_sha sha = ensure (lower_hex_len sha 40) ''TNG-BAD-COMMIT-SHA''"

definition sha256_text :: "string \<Rightarrow> bool" where
  "sha256_text s \<longleftrightarrow>
     (case strip_prefix ''sha256:'' s of None \<Rightarrow> False | Some h \<Rightarrow> lower_hex_len h 64)"

definition validate_oci_digest :: "string \<Rightarrow> string + unit" where
  "validate_oci_digest d = ensure (sha256_text d) ''TNG-BAD-OCI-DIGEST''"

definition validate_dep_decl_pointer :: "string \<Rightarrow> string + unit" where
  "validate_dep_decl_pointer p = ensure (sha256_text p) ''TNG-BAD-DEP-DECL''"

subsection \<open>Accessors\<close>

definition first_arg_str :: "kdl_node \<Rightarrow> string option" where
  "first_arg_str n = Option.bind (first_arg n) as_string"

definition child_arg :: "kdl_node \<Rightarrow> string \<Rightarrow> kdl_value option" where
  "child_arg n nm = Option.bind (find_node (kn_children n) nm) first_arg"

definition child_arg_str :: "kdl_node \<Rightarrow> string \<Rightarrow> string option" where
  "child_arg_str n nm = Option.bind (child_arg n nm) as_string"

definition child_arg_i64 :: "kdl_node \<Rightarrow> string \<Rightarrow> int option" where
  "child_arg_i64 n nm = Option.bind (Option.bind (child_arg n nm) as_integer) try_i64"

definition child_arg_bool :: "kdl_node \<Rightarrow> string \<Rightarrow> bool option" where
  "child_arg_bool n nm = Option.bind (child_arg n nm) as_bool"

definition child_prop_str :: "kdl_node \<Rightarrow> string \<Rightarrow> string option" where
  "child_prop_str n key =
     Option.bind (List.find (\<lambda>e. ke_name e = Some key) (kn_entries n)) (\<lambda>e. as_string (ke_value e))"

text \<open>\<^verbatim>\<open>unwrap_or_default\<close> on strings.\<close>

definition or_empty :: "string option \<Rightarrow> string" where
  "or_empty s = (case s of None \<Rightarrow> [] | Some x \<Rightarrow> x)"

definition check_opt :: "('a \<Rightarrow> 'e + unit) \<Rightarrow> 'a option \<Rightarrow> 'e + unit" where
  "check_opt f v = (case v of None \<Rightarrow> Inr () | Some x \<Rightarrow> f x)"

subsection \<open>One version node\<close>

definition TIANGUIS_INDEX_SCHEMA_VERSION :: int where
  "TIANGUIS_INDEX_SCHEMA_VERSION = 1"

definition check_schema_version :: "kdl_node list \<Rightarrow> string + unit" where
  "check_schema_version doc =
     (case find_node doc ''schema_version'' of
        None \<Rightarrow> Inr ()
      | Some node \<Rightarrow>
          (case Option.bind (first_arg node) as_integer of
             None \<Rightarrow> Inr ()
           | Some n \<Rightarrow> ensure (\<not> TIANGUIS_INDEX_SCHEMA_VERSION < n) ''TNG-SCHEMA-UNKNOWN''))"

definition parse_git_provenance :: "kdl_node \<Rightarrow> string + provenance" where
  "parse_git_provenance child =
     (let url = or_empty (child_arg_str child ''url'');
          git_ref = or_empty (child_arg_str child ''ref'');
          commit = child_arg_str child ''commit_sha''
      in rbind (validate_no_control_chars url) (\<lambda>_.
         rbind (validate_no_control_chars git_ref) (\<lambda>_.
         rbind (validate_no_leading_dash url ''TNG-UNSAFE-URL'') (\<lambda>_.
         rbind (validate_no_leading_dash git_ref ''TNG-UNSAFE-REF'') (\<lambda>_.
         rbind (check_opt validate_commit_sha commit) (\<lambda>_.
         Inr (PGit url git_ref commit)))))))"

definition parse_oci_provenance :: "kdl_node \<Rightarrow> string + provenance" where
  "parse_oci_provenance child =
     (let registry = or_empty (child_arg_str child ''registry'');
          repository = or_empty (child_arg_str child ''repository'');
          digest = or_empty (child_arg_str child ''digest'');
          source_url = child_arg_str child ''source''
      in rbind (validate_no_control_chars registry) (\<lambda>_.
         rbind (validate_no_control_chars repository) (\<lambda>_.
         rbind (check_opt validate_no_control_chars source_url) (\<lambda>_.
         rbind (validate_no_leading_dash registry ''TNG-UNSAFE-OCI-FIELD'') (\<lambda>_.
         rbind (validate_no_leading_dash repository ''TNG-UNSAFE-OCI-FIELD'') (\<lambda>_.
         rbind (validate_oci_digest digest) (\<lambda>_.
         Inr (POci registry repository digest source_url))))))))"

text \<open>One turn of the loop over the children: other nodes and unknown kinds add nothing.\<close>

definition parse_provenance_child :: "kdl_node \<Rightarrow> string + provenance list" where
  "parse_provenance_child child =
     (if kn_name child \<noteq> ''provenance'' then Inr []
      else if child_arg_str child ''kind'' = Some ''git''
      then rbind (parse_git_provenance child) (\<lambda>p. Inr [p])
      else if child_arg_str child ''kind'' = Some ''oci''
      then rbind (parse_oci_provenance child) (\<lambda>p. Inr [p])
      else Inr [])"

definition parse_rekor_block :: "kdl_node \<Rightarrow> string + rekor_ref option" where
  "parse_rekor_block node =
     (case find_node (kn_children node) ''rekor'' of
        None \<Rightarrow> Inr None
      | Some child \<Rightarrow>
          (let uuid = or_empty (child_arg_str child ''uuid'');
               log_index = or_empty (child_arg_str child ''log_index'');
               integrated_time = or_empty (child_arg_str child ''integrated_time'')
           in rbind (validate_no_control_chars uuid) (\<lambda>_.
              rbind (validate_no_control_chars log_index) (\<lambda>_.
              rbind (validate_no_control_chars integrated_time) (\<lambda>_.
              Inr (Some \<lparr>rekor_uuid = uuid, rekor_log_index = log_index,
                rekor_integrated_time = integrated_time\<rparr>))))))"

definition parse_bundle_pin :: "kdl_node \<Rightarrow> string option" where
  "parse_bundle_pin node =
     (case find_node (kn_children node) ''bundle'' of
        None \<Rightarrow> None
      | Some child \<Rightarrow>
          (case child_prop_str child ''sha256'' of
             None \<Rightarrow> None
           | Some raw \<Rightarrow> if lower_hex_len raw 64 then Some raw else None))"

definition parse_entry_attestation :: "kdl_node \<Rightarrow> string + entry_attestation option" where
  "parse_entry_attestation node =
     rbind (parse_rekor_block node) (\<lambda>rekor.
       let bundle_pin = parse_bundle_pin node;
           claim = (\<lambda>kind. Inr (Some \<lparr>att_kind = kind, att_rekor = rekor, att_bundle_pin = bundle_pin\<rparr>))
       in case child_arg_str node ''attestation'' of
            None \<Rightarrow> Inr None
          | Some label \<Rightarrow>
              if label = ''author-signed''
              then (case child_arg_str node ''signed_by'' of
                      None \<Rightarrow> Inr None
                    | Some signer \<Rightarrow>
                        if signer = [] then Inr None
                        else rbind (validate_no_control_chars signer) (\<lambda>_. claim (AuthorSigned signer)))
              else if label = ''milpa-vendored'' then claim MilpaVendored
              else Inr None)"

definition parse_version_node :: "string \<Rightarrow> string \<Rightarrow> kdl_node \<Rightarrow> string + index_version" where
  "parse_version_node namespace ver node =
     (let content_hash = or_empty (child_arg_str node ''content_hash'') in
      rbind (validate_no_control_chars content_hash) (\<lambda>_.
      let dep_decl = (case child_arg_str node ''dep_decl'' of
            Some s \<Rightarrow> if s \<noteq> [] then Some s else None | None \<Rightarrow> None) in
      rbind (check_opt validate_dep_decl_pointer dep_decl) (\<lambda>_.
      rbind (rmap parse_provenance_child (kn_children node)) (\<lambda>provenances.
      rbind (parse_entry_attestation node) (\<lambda>attestation.
      let published_at_raw = child_arg_str node ''published_at'';
          yanked_reason = child_arg_str node ''yanked_reason'' in
      rbind (check_opt validate_no_control_chars yanked_reason) (\<lambda>_.
      Inr \<lparr>iv_version = ver, iv_content_hash = content_hash, iv_provenances = concat provenances,
           iv_dep_decl = dep_decl, iv_dep_decl_schema = child_arg_i64 node ''dep_decl_schema_version'',
           iv_attestation = attestation, iv_namespace = namespace,
           iv_published_at = Option.bind published_at_raw parse_iso8601_timestamp,
           iv_yanked = (child_arg_bool node ''yanked'' = Some True),
           iv_yanked_at = Option.bind (child_arg_str node ''yanked_at'') parse_iso8601_timestamp,
           iv_yanked_reason = yanked_reason, iv_published_at_raw = published_at_raw\<rparr>))))))"

subsection \<open>Packages and the index\<close>

text \<open>One turn of the loop over the version nodes: the seen version texts and the versions.\<close>

definition version_step ::
  "string \<Rightarrow> string list \<times> index_version list \<Rightarrow> kdl_node \<Rightarrow> string + (string list \<times> index_version list)" where
  "version_step namespace acc child =
     (if kn_name child \<noteq> ''version'' then Inr acc
      else case first_arg_str child of
        None \<Rightarrow> Inr acc
      | Some ver \<Rightarrow>
          rbind (validate_no_control_chars ver) (\<lambda>_.
            if ver \<in> set (fst acc) then Inr acc
            else rbind (parse_version_node namespace ver child) (\<lambda>iv.
              Inr (fst acc @ [ver], snd acc @ [iv]))))"

text \<open>Newest first: parseable versions in descending order (a stable sort), the others behind.\<close>

definition parsed_version :: "index_version \<Rightarrow> version" where
  "parsed_version iv = the (parse_version (iv_version iv))"

fun insert_newest :: "index_version \<Rightarrow> index_version list \<Rightarrow> index_version list" where
  "insert_newest v [] = [v]"
| "insert_newest v (w # ws) =
     (if parsed_version w < parsed_version v then v # w # ws else w # insert_newest v ws)"

definition sort_newest :: "index_version list \<Rightarrow> index_version list" where
  "sort_newest vs = fold insert_newest vs []"

definition order_versions :: "index_version list \<Rightarrow> index_version list" where
  "order_versions vs =
     sort_newest (filter (\<lambda>v. parse_version (iv_version v) \<noteq> None) vs) @
     filter (\<lambda>v. parse_version (iv_version v) = None) vs"

definition parse_package :: "kdl_node \<Rightarrow> string + index_package list" where
  "parse_package node =
     (if kn_name node \<noteq> ''package'' then Inr []
      else case first_arg_str node of
        None \<Rightarrow> Inr []
      | Some name \<Rightarrow>
          rbind (validate_safe_name name) (\<lambda>_.
          rbind (validate_no_control_chars name) (\<lambda>_.
          let namespace = or_empty (child_arg_str node ''namespace'') in
          rbind (validate_no_control_chars namespace) (\<lambda>_.
          rbind (rfold (version_step namespace) ([], []) (kn_children node)) (\<lambda>acc.
          Inr [\<lparr>pk_name = name, pk_namespace = namespace, pk_versions = order_versions (snd acc)\<rparr>])))))"

definition index_parse :: "(string \<Rightarrow> kdl_node list option) \<Rightarrow> string \<Rightarrow> string + index" where
  "index_parse kdl text =
     (if KDL_MAX_NESTING_DEPTH < kdl_brace_depth text then Inl ''TNG-KDL-SYNTAX''
      else if KDL_MAX_NESTING_DEPTH < kdl_block_comment_depth text then Inl ''TNG-KDL-SYNTAX''
      else case kdl text of
        None \<Rightarrow> Inl ''TNG-KDL-SYNTAX''
      | Some doc \<Rightarrow>
          rbind (check_schema_version doc) (\<lambda>_.
          rbind (rmap parse_package doc) (\<lambda>packages.
          Inr \<lparr>ix_packages = concat packages\<rparr>)))"


subsection \<open>What an accepted index satisfies\<close>

definition text_ok :: "string \<Rightarrow> bool" where
  "text_ok s \<longleftrightarrow> \<not> has_control_char s"

definition all_opt :: "('a \<Rightarrow> bool) \<Rightarrow> 'a option \<Rightarrow> bool" where
  "all_opt P v \<longleftrightarrow> (case v of None \<Rightarrow> True | Some x \<Rightarrow> P x)"

fun provenance_ok :: "provenance \<Rightarrow> bool" where
  "provenance_ok (PGit url ref commit) \<longleftrightarrow>
     text_ok url \<and> text_ok ref \<and> \<not> starts_with ''-'' url \<and> \<not> starts_with ''-'' ref \<and>
     all_opt (\<lambda>c. lower_hex_len c 40) commit"
| "provenance_ok (POci registry repository digest source) \<longleftrightarrow>
     text_ok registry \<and> text_ok repository \<and> all_opt text_ok source \<and>
     \<not> starts_with ''-'' registry \<and> \<not> starts_with ''-'' repository \<and> sha256_text digest"
| "provenance_ok _ \<longleftrightarrow> False"

definition rekor_ok :: "rekor_ref \<Rightarrow> bool" where
  "rekor_ok r \<longleftrightarrow> text_ok (rekor_uuid r) \<and> text_ok (rekor_log_index r) \<and> text_ok (rekor_integrated_time r)"

definition attestation_ok :: "entry_attestation \<Rightarrow> bool" where
  "attestation_ok a \<longleftrightarrow>
     (case att_kind a of AuthorSigned s \<Rightarrow> s \<noteq> [] \<and> text_ok s | MilpaVendored \<Rightarrow> True) \<and>
     all_opt rekor_ok (att_rekor a) \<and> all_opt (\<lambda>p. lower_hex_len p 64) (att_bundle_pin a)"

definition version_ok :: "string \<Rightarrow> index_version \<Rightarrow> bool" where
  "version_ok namespace v \<longleftrightarrow>
     text_ok (iv_version v) \<and> text_ok (iv_content_hash v) \<and>
     list_all provenance_ok (iv_provenances v) \<and> all_opt sha256_text (iv_dep_decl v) \<and>
     all_opt i64_range (iv_dep_decl_schema v) \<and>
     all_opt attestation_ok (iv_attestation v) \<and> iv_namespace v = namespace \<and>
     iv_published_at v = Option.bind (iv_published_at_raw v) parse_iso8601_timestamp \<and>
     all_opt text_ok (iv_yanked_reason v)"

text \<open>Newest first, the versions that do not parse behind all others.\<close>

definition newest_first :: "index_version list \<Rightarrow> bool" where
  "newest_first = sorted_wrt (\<lambda>a b.
     case (parse_version (iv_version a), parse_version (iv_version b)) of
       (Some x, Some y) \<Rightarrow> y \<le> x
     | (None, Some y) \<Rightarrow> False
     | (_, None) \<Rightarrow> True)"

definition package_ok :: "index_package \<Rightarrow> bool" where
  "package_ok p \<longleftrightarrow>
     is_safe_name (pk_name p) \<and> text_ok (pk_name p) \<and> text_ok (pk_namespace p) \<and>
     distinct (map iv_version (pk_versions p)) \<and> newest_first (pk_versions p) \<and>
     list_all (version_ok (pk_namespace p)) (pk_versions p)"

named_theorems index_simps \<open>the validators, as equivalences\<close>

lemma validator_iffs [index_simps]:
  "validate_safe_name n = Inr u \<longleftrightarrow> is_safe_name n"
  "validate_no_leading_dash v c = Inr u \<longleftrightarrow> \<not> starts_with ''-'' v"
  "validate_no_control_chars v = Inr u \<longleftrightarrow> text_ok v"
  "validate_commit_sha v = Inr u \<longleftrightarrow> lower_hex_len v 40"
  "validate_oci_digest v = Inr u \<longleftrightarrow> sha256_text v"
  "validate_dep_decl_pointer v = Inr u \<longleftrightarrow> sha256_text v"
  by (simp_all add: validate_safe_name_def validate_no_leading_dash_def validate_no_control_chars_def
      validate_commit_sha_def validate_oci_digest_def validate_dep_decl_pointer_def text_ok_def)

lemma check_opt_iff [index_simps]:
  "check_opt f v = Inr u \<longleftrightarrow> all_opt (\<lambda>x. f x = Inr ()) v"
  by (auto simp: check_opt_def all_opt_def split: option.splits)

lemma all_opt_simps [simp]: "all_opt P None" "all_opt P (Some x) \<longleftrightarrow> P x"
  by (simp_all add: all_opt_def)

lemma parse_provenance_ok:
  "parse_provenance_child child = Inr ps \<Longrightarrow> list_all provenance_ok ps"
  by (auto simp: parse_provenance_child_def parse_git_provenance_def parse_oci_provenance_def Let_def
      rbind_Inr index_simps split: if_splits)

lemma parse_rekor_ok: "parse_rekor_block node = Inr r \<Longrightarrow> all_opt rekor_ok r"
  by (auto simp: parse_rekor_block_def Let_def rbind_Inr index_simps rekor_ok_def split: option.splits)

lemma parse_bundle_ok: "all_opt (\<lambda>p. lower_hex_len p 64) (parse_bundle_pin node)"
  by (auto simp: parse_bundle_pin_def split: option.splits)

lemma parse_attestation_ok:
  "parse_entry_attestation node = Inr a \<Longrightarrow> all_opt attestation_ok a"
proof -
  assume a: "parse_entry_attestation node = Inr a"
  then obtain r where r: "parse_rekor_block node = Inr r"
    by (auto simp: parse_entry_attestation_def rbind_Inr)
  from parse_rekor_ok [OF r] have ro: "all_opt rekor_ok r" .
  show ?thesis
    using a ro parse_bundle_ok [of node]
    by (simp add: parse_entry_attestation_def r Let_def split: option.splits if_splits)
      (auto simp: attestation_ok_def rbind_Inr index_simps)
qed

lemma parse_version_ok:
  assumes "parse_version_node namespace ver node = Inr v" "text_ok ver"
  shows "version_ok namespace v \<and> iv_version v = ver"
proof -
  have schema: "all_opt i64_range (child_arg_i64 node ''dep_decl_schema_version'')"
    by (auto simp: child_arg_i64_def try_i64_def all_opt_def split: option.splits if_splits bind_splits)
  obtain provs where p: "rmap parse_provenance_child (kn_children node) = Inr provs"
      "iv_provenances v = concat provs"
    using assms(1) by (auto simp: parse_version_node_def Let_def rbind_Inr)
  then have "list_all provenance_ok (iv_provenances v)"
    using parse_provenance_ok by (fastforce simp: rmap_Inr list_all2_conv_all_nth list_all_iff in_set_conv_nth)
  then show ?thesis
    using assms schema
    by (auto simp: parse_version_node_def Let_def rbind_Inr index_simps version_ok_def
        dest!: parse_attestation_ok)
qed

lemma version_step_ok:
  assumes "version_step namespace acc child = Inr acc'"
    and "fst acc = map iv_version (snd acc) \<and> distinct (fst acc) \<and> list_all (version_ok namespace) (snd acc)"
  shows "fst acc' = map iv_version (snd acc') \<and> distinct (fst acc') \<and> list_all (version_ok namespace) (snd acc')"
  using assms
  by (auto simp: version_step_def rbind_Inr index_simps split: if_splits option.splits dest!: parse_version_ok)

lemma mset_insert_newest: "mset (insert_newest v ws) = add_mset v (mset ws)"
  by (induction ws) auto

lemma mset_sort_newest: "mset (sort_newest vs) = mset vs"
proof -
  have "mset (fold insert_newest vs ws) = mset vs + mset ws" for ws
    by (induction vs arbitrary: ws) (auto simp: mset_insert_newest)
  then show ?thesis by (simp add: sort_newest_def)
qed

lemma sorted_insert_newest:
  "sorted_wrt (\<lambda>a b. parsed_version b \<le> parsed_version a) ws \<Longrightarrow>
   sorted_wrt (\<lambda>a b. parsed_version b \<le> parsed_version a) (insert_newest v ws)"
proof (induction ws)
  case (Cons w ws)
  have set: "set (insert_newest v ws) = insert v (set ws)"
    using arg_cong [OF mset_insert_newest [of v ws], of set_mset] by simp
  show ?case
  proof (cases "parsed_version w < parsed_version v")
    case True
    then have "parsed_version w \<le> parsed_version v" by (simp add: less_le_not_le)
    with Cons.prems True show ?thesis by (auto intro: order_trans)
  next
    case False
    then have "parsed_version v \<le> parsed_version w" by (simp add: version_not_less)
    with Cons False show ?thesis by (auto simp: set)
  qed
qed simp

lemma sort_newest_sorted: "sorted_wrt (\<lambda>a b. parsed_version b \<le> parsed_version a) (sort_newest vs)"
proof -
  have "sorted_wrt (\<lambda>a b. parsed_version b \<le> parsed_version a) ws \<Longrightarrow>
      sorted_wrt (\<lambda>a b. parsed_version b \<le> parsed_version a) (fold insert_newest vs ws)" for ws
    by (induction vs arbitrary: ws) (auto simp: sorted_insert_newest)
  then show ?thesis by (simp add: sort_newest_def)
qed

lemma mset_order_versions: "mset (order_versions vs) = mset vs"
  by (simp add: order_versions_def mset_sort_newest flip: multiset_partition)

lemma order_versions_newest: "newest_first (order_versions vs)"
proof -
  let ?ok = "\<lambda>v. parse_version (iv_version v) \<noteq> None"
  have "set (sort_newest (filter ?ok vs)) = set (filter ?ok vs)"
    using mset_sort_newest mset_eq_setD by blast
  then have mem: "\<exists>y. parse_version (iv_version v) = Some y" if "v \<in> set (sort_newest (filter ?ok vs))" for v
    using that by simp
  have "newest_first (sort_newest (filter ?ok vs))"
    unfolding newest_first_def
  proof (rule sorted_wrt_mono_rel [OF _ sort_newest_sorted])
    fix x y assume xy: "x \<in> set (sort_newest (filter ?ok vs))" "y \<in> set (sort_newest (filter ?ok vs))"
      "parsed_version y \<le> parsed_version x"
    show "case (parse_version (iv_version x), parse_version (iv_version y)) of
       (Some x, Some y) \<Rightarrow> y \<le> x | (None, Some y) \<Rightarrow> False | (_, None) \<Rightarrow> True"
      using mem [OF xy(1)] mem [OF xy(2)] xy(3) by (auto simp: parsed_version_def)
  qed
  moreover have "newest_first (filter (\<lambda>v. parse_version (iv_version v) = None) vs)"
    by (induction vs) (auto simp: newest_first_def)
  moreover have "case (parse_version (iv_version x), parse_version (iv_version y)) of
       (Some x, Some y) \<Rightarrow> y \<le> x | (None, Some y) \<Rightarrow> False | (_, None) \<Rightarrow> True"
    if "x \<in> set (sort_newest (filter ?ok vs))" "y \<in> set (filter (\<lambda>v. parse_version (iv_version v) = None) vs)" for x y
    using mem [OF that(1)] that(2) by auto
  ultimately show ?thesis
    unfolding order_versions_def newest_first_def sorted_wrt_append by blast
qed

lemma parse_package_ok: "parse_package node = Inr ps \<Longrightarrow> list_all package_ok ps"
proof -
  assume r: "parse_package node = Inr ps"
  show ?thesis
  proof (cases "ps = []")
    case False
    then obtain name where n: "kn_name node = ''package''" "first_arg_str node = Some name"
      using r by (auto simp: parse_package_def split: if_splits option.splits)
    obtain acc where *: "is_safe_name name" "text_ok name" "text_ok (or_empty (child_arg_str node ''namespace''))"
        "rfold (version_step (or_empty (child_arg_str node ''namespace''))) ([], []) (kn_children node) = Inr acc"
        "ps = [\<lparr>pk_name = name, pk_namespace = or_empty (child_arg_str node ''namespace''),
           pk_versions = order_versions (snd acc)\<rparr>]"
      using r by (auto simp: parse_package_def n Let_def rbind_Inr index_simps)
    let ?ns = "or_empty (child_arg_str node ''namespace'')"
    have "fst acc = map iv_version (snd acc) \<and> distinct (fst acc) \<and> list_all (version_ok ?ns) (snd acc)"
    proof (rule rfold_invariant [OF *(4)])
      show "fst ([], []) = map iv_version (snd ([], [])) \<and> distinct (fst ([] :: string list, [] :: index_version list)) \<and>
          list_all (version_ok ?ns) (snd ([] :: string list, []))" by simp
    qed (rule version_step_ok)
    moreover have "set (order_versions (snd acc)) = set (snd acc)"
      using mset_order_versions mset_eq_setD by blast
    moreover have "distinct (map iv_version (order_versions (snd acc))) = distinct (map iv_version (snd acc))"
      using mset_order_versions by (metis mset_eq_imp_distinct_iff mset_map)
    ultimately show ?thesis
      using * order_versions_newest by (auto simp: package_ok_def list_all_iff)
  qed simp
qed

text \<open>A package node with one version, by its content hash.\<close>

definition demo_arg :: "string \<Rightarrow> kdl_entry" where
  "demo_arg s = \<lparr>ke_name = None, ke_ty = None, ke_value = KString s\<rparr>"

definition demo_package :: "string \<Rightarrow> kdl_node" where
  "demo_package h = KNode ''package'' [demo_arg ''foo'']
     [KNode ''namespace'' [demo_arg ''acme''] [],
      KNode ''version'' [demo_arg ''1.0.0''] [KNode ''content_hash'' [demo_arg h] []]]"

definition demo_iv :: "string \<Rightarrow> index_version" where
  "demo_iv h = \<lparr>iv_version = ''1.0.0'', iv_content_hash = h, iv_provenances = [], iv_dep_decl = None,
     iv_dep_decl_schema = None, iv_attestation = None, iv_namespace = ''acme'', iv_published_at = None,
     iv_yanked = False, iv_yanked_at = None, iv_yanked_reason = None, iv_published_at_raw = None\<rparr>"

definition demo_pkg :: "string \<Rightarrow> index_package" where
  "demo_pkg h = \<lparr>pk_name = ''foo'', pk_namespace = ''acme'', pk_versions = [demo_iv h]\<rparr>"

lemma order_versions_single: "order_versions [v] = [v]"
  by (cases "parse_version (iv_version v)") (simp_all add: order_versions_def sort_newest_def)

lemma demo_package_parses:
  assumes "h = ''h'' \<or> h = ''evil''"
  shows "parse_package (demo_package h) = Inr [demo_pkg h]"
proof -
  have ok: "\<not> has_control_char h" "\<not> has_control_char ''foo''" "\<not> has_control_char ''acme''"
      "\<not> has_control_char ''1.0.0''" "is_safe_name ''foo''"
    using assms by (auto simp: has_control_char_def is_safe_name_def contains_str_def starts_with_def)
  have v: "parse_version_node ''acme'' ''1.0.0'' (KNode ''version'' [demo_arg ''1.0.0'']
      [KNode ''content_hash'' [demo_arg h] []]) = Inr (demo_iv h)"
    using ok(1)
    by (simp add: parse_version_node_def child_arg_str_def child_arg_def first_arg_def find_node_def demo_arg_def
        Let_def or_empty_def validate_no_control_chars_def check_opt_def parse_provenance_child_def
        parse_entry_attestation_def parse_rekor_block_def child_arg_i64_def child_arg_bool_def demo_iv_def)
  show ?thesis
    using ok v
    by (simp add: parse_package_def demo_package_def first_arg_str_def first_arg_def demo_arg_def child_arg_str_def
        child_arg_def find_node_def Let_def or_empty_def validate_no_control_chars_def validate_safe_name_def
        version_step_def order_versions_single demo_pkg_def)
qed

text \<open>
  C21. The trust boundary of the index: in every accepted index the package names are safe path
  components, no name, namespace, version, hash, url, ref, registry, repository, signer, log field or
  yank reason carries an ASCII control character, nothing that reaches a command line starts with a
  dash, commits, digests, pointers and pins have their exact hexadecimal shape, versions are unique
  within a package node and listed newest first, and a publication time is the parse of its own text.
\<close>

theorem index_trust_boundary:
  assumes "index_parse kdl text = Inr ix"
  shows "list_all package_ok (ix_packages ix)"
proof -
  obtain doc packages where "rmap parse_package doc = Inr packages" "ix = \<lparr>ix_packages = concat packages\<rparr>"
    using assms by (auto simp: index_parse_def rbind_Inr split: if_splits option.splits)
  then show ?thesis
    using parse_package_ok
    by (fastforce simp: rmap_Inr list_all2_conv_all_nth list_all_iff in_set_conv_nth)
qed

theorem index_trust_boundary_witness:
  "list_all package_ok [demo_pkg ''h'']"
proof -
  have n: "find_node [demo_package ''h''] nm = None" if "nm \<noteq> ''package''" for nm
    using that by (auto simp: find_node_def demo_package_def)
  have "index_parse (\<lambda>_. Some [demo_package ''h'']) [] = Inr \<lparr>ix_packages = [demo_pkg ''h'']\<rparr>"
    by (simp add: index_parse_def kdl_brace_depth_def kdl_block_comment_depth_def check_schema_version_def
        n demo_package_parses)
  from index_trust_boundary [OF this] show ?thesis by simp
qed

end
