(* ===== verification/IndexGate.thy ===== *)
theory IndexGate
  imports IndexParse Ratchet
begin

text \<open>
  The index-history gate of \<^verbatim>\<open>milpa-core/src/index_ratchet_seam.rs\<close> and its two callers in
  \<^verbatim>\<open>index_cache.rs\<close>: from a fetched index text to a ratchet state, the decision of the gate under
  each policy, and the writes to the baseline sidecars.  The sidecars are a small state machine whose
  steps are the refreshes of the cache; the main fact is that its baseline never moves backwards.
\<close>

subsection \<open>Canonical texts of structured values\<close>

text \<open>\<open>dbgp\<close> stands for the derived \<^verbatim>\<open>Debug\<close> text of the provenance kinds an index never holds.\<close>

definition provenance_text :: "(provenance \<Rightarrow> string) \<Rightarrow> provenance \<Rightarrow> string" where
  "provenance_text dbgp p =
     (case p of
        PGit url ref commit \<Rightarrow> join [CHR 0x1F] [''git'', url, ref, or_empty commit]
      | POci registry repository digest source \<Rightarrow>
          join [CHR 0x1F] [''oci'', registry, repository, digest, or_empty source]
      | _ \<Rightarrow> join [CHR 0x1F] [''unrecognized'', dbgp p])"

definition provenance_canonical_raw :: "(provenance \<Rightarrow> string) \<Rightarrow> provenance list \<Rightarrow> string" where
  "provenance_canonical_raw dbgp ps = join [CHR 0x1E] (sort (map (provenance_text dbgp) ps))"

definition encode_attestation :: "entry_attestation \<Rightarrow> attestation_value" where
  "encode_attestation a =
     (case att_kind a of
        AuthorSigned signer \<Rightarrow>
          \<lparr>av_kind = ''author-signed'', av_signer = Some signer, av_bundle_pin = att_bundle_pin a\<rparr>
      | MilpaVendored \<Rightarrow>
          \<lparr>av_kind = ''milpa-vendored'', av_signer = None, av_bundle_pin = att_bundle_pin a\<rparr>)"

definition attestation_canonical_raw :: "entry_attestation option \<Rightarrow> string" where
  "attestation_canonical_raw att =
     (case att of
        None \<Rightarrow> []
      | Some a \<Rightarrow>
          (case att_kind a of
             AuthorSigned signer \<Rightarrow> join [CHR 0x1F] [''author-signed'', signer, or_empty (att_bundle_pin a)]
           | MilpaVendored \<Rightarrow> join [CHR 0x1F] [''milpa-vendored'', [], or_empty (att_bundle_pin a)]))"

definition rekor_canonical_raw :: "rekor_ref option \<Rightarrow> string" where
  "rekor_canonical_raw rekor =
     (case rekor of
        None \<Rightarrow> []
      | Some r \<Rightarrow> join [CHR 0x1F] [rekor_uuid r, rekor_log_index r, rekor_integrated_time r])"

subsection \<open>The ratchet state of an index\<close>

definition set_some :: "string \<Rightarrow> ('a \<Rightarrow> raw_field) \<Rightarrow> 'a option \<Rightarrow> ratchet_entry \<Rightarrow> ratchet_entry" where
  "set_some n f v e = (case v of None \<Rightarrow> e | Some x \<Rightarrow> entry_set n (f x) e)"

definition plain_field :: "field_value \<Rightarrow> raw_field" where
  "plain_field v = \<lparr>rf_value = Some v, rf_raw = None\<rparr>"

definition raw_field_of :: "field_value \<Rightarrow> string \<Rightarrow> raw_field" where
  "raw_field_of v r = \<lparr>rf_value = Some v, rf_raw = Some r\<rparr>"

text \<open>Saturating \<^verbatim>\<open>i64\<close> arithmetic.\<close>

definition sat_i64 :: "int \<Rightarrow> int" where
  "sat_i64 x = max (- (2 ^ 63)) (min (2 ^ 63 - 1) x)"

definition published_encoded :: "timestamp \<Rightarrow> int" where
  "published_encoded ts = sat_i64 (sat_i64 (unix_seconds ts * 1000000000) + int (unat (nanos ts)))"

definition entry_state :: "(provenance \<Rightarrow> string) \<Rightarrow> index_version \<Rightarrow> ratchet_entry" where
  "entry_state dbgp iv =
     (let e0 = (if iv_content_hash iv \<noteq> []
            then entry_set ''content_hash'' (plain_field (FStr (iv_content_hash iv))) Map.empty else Map.empty);
          e1 = set_some ''published_at''
            (\<lambda>ts. raw_field_of (FInt (published_encoded ts)) (or_empty (iv_published_at_raw iv))) (iv_published_at iv) e0;
          e2 = set_some ''dep_decl'' (\<lambda>d. plain_field (FStr d)) (iv_dep_decl iv) e1;
          e3 = set_some ''dep_decl_schema_version'' (\<lambda>v. plain_field (FInt v)) (iv_dep_decl_schema iv) e2;
          e4 = (if iv_provenances iv \<noteq> []
            then entry_set ''provenances'' (raw_field_of (FProvenances (iv_provenances iv))
              (provenance_canonical_raw dbgp (iv_provenances iv))) e3 else e3);
          e5 = entry_set ''yanked'' (plain_field (FBool (iv_yanked iv))) e4;
          e6 = set_some ''yanked_reason'' (\<lambda>r. plain_field (FStr r)) (iv_yanked_reason iv) e5;
          e7 = set_some ''attestation''
            (\<lambda>a. raw_field_of (FAttestation (encode_attestation a)) (attestation_canonical_raw (Some a))) (iv_attestation iv) e6
      in set_some ''rekor'' (\<lambda>r. raw_field_of (FRekor r) (rekor_canonical_raw (Some r)))
           (Option.bind (iv_attestation iv) att_rekor) e7)"

definition root_state :: "int option \<Rightarrow> string option \<Rightarrow> string option \<Rightarrow> ratchet_entry" where
  "root_state schema_version epoch commitment =
     set_some ''attestation-epoch-commitment'' (\<lambda>c. plain_field (FStr c)) commitment
     (set_some ''attestation-epoch'' (\<lambda>e. plain_field (FStr e)) epoch
     (set_some ''schema_version'' (\<lambda>v. plain_field (FInt v)) schema_version Map.empty))"

definition version_key :: "index_package \<Rightarrow> index_version \<Rightarrow> entry_key" where
  "version_key pkg iv = EntryKey (iv_namespace iv) (pk_name pkg) (iv_version iv)"

definition package_states :: "(provenance \<Rightarrow> string) \<Rightarrow> index_package \<Rightarrow> index_state \<Rightarrow> index_state" where
  "package_states dbgp pkg s =
     fold (\<lambda>iv. bt_insert (version_key pkg iv) (entry_state dbgp iv)) (pk_versions pkg) s"

definition index_state_from ::
  "(provenance \<Rightarrow> string) \<Rightarrow> int option \<Rightarrow> string option \<Rightarrow> string option \<Rightarrow> index \<Rightarrow> index_state" where
  "index_state_from dbgp schema_version epoch commitment ix =
     fold (package_states dbgp) (ix_packages ix)
       (bt_insert entry_key_root (root_state schema_version epoch commitment) [])"

definition raw_schema_version :: "kdl_node list \<Rightarrow> int option" where
  "raw_schema_version doc =
     (case find_node doc ''schema_version'' of
        None \<Rightarrow> None
      | Some node \<Rightarrow> Option.bind (Option.bind (first_arg node) as_integer) try_i64)"

text \<open>\<^verbatim>\<open>raw_attestation_epoch\<close> and \<^verbatim>\<open>raw_attestation_epoch_commitment\<close>: the same walk for two names.\<close>

definition raw_root_text :: "string \<Rightarrow> kdl_node list \<Rightarrow> string + string option" where
  "raw_root_text nm doc =
     (case find_node doc nm of
        None \<Rightarrow> Inr None
      | Some node \<Rightarrow>
          (let v = first_arg_str node
           in rbind (check_opt validate_no_control_chars v) (\<lambda>_. Inr v)))"

definition build_index_state ::
  "(string \<Rightarrow> kdl_node list option) \<Rightarrow> (provenance \<Rightarrow> string) \<Rightarrow> string \<Rightarrow> string + index \<times> index_state" where
  "build_index_state kdl dbgp text =
     rbind (index_parse kdl text) (\<lambda>ix.
       case kdl text of
         None \<Rightarrow> Inl ''TNG-KDL-SYNTAX''
       | Some doc \<Rightarrow>
           rbind (raw_root_text ''attestation-epoch'' doc) (\<lambda>epoch.
           rbind (raw_root_text ''attestation-epoch-commitment'' doc) (\<lambda>commitment.
           Inr (ix, index_state_from dbgp (raw_schema_version doc) epoch commitment ix))))"

definition parse_baseline ::
  "(string \<Rightarrow> kdl_node list option) \<Rightarrow> (provenance \<Rightarrow> string) \<Rightarrow> string \<Rightarrow> string + index_state" where
  "parse_baseline kdl dbgp text =
     (case build_index_state kdl dbgp text of
        Inr (ix, s) \<Rightarrow> Inr s
      | Inl e \<Rightarrow> Inl ''TNG-INDEX-BASELINE-CORRUPT'')"

subsection \<open>The sidecar notes\<close>

record baseline_meta =
  bm_established_at :: "string option"
  bm_reported_digest :: "string option"
  bm_reported_at :: "string option"

definition meta_default :: baseline_meta where
  "meta_default = \<lparr>bm_established_at = None, bm_reported_digest = None, bm_reported_at = None\<rparr>"

definition meta_line :: "string \<Rightarrow> string option \<Rightarrow> string list" where
  "meta_line nm v = (case v of None \<Rightarrow> [] | Some x \<Rightarrow> [nm @ '' '' @ [CHR 0x22] @ x @ [CHR 0x22]])"

definition meta_render :: "baseline_meta \<Rightarrow> string" where
  "meta_render m =
     (let lines = meta_line ''established_at'' (bm_established_at m) @
            meta_line ''reported_digest'' (bm_reported_digest m) @ meta_line ''reported_at'' (bm_reported_at m)
      in if lines = [] then [] else join [CHR 0x0A] lines @ [CHR 0x0A])"

definition parse_baseline_meta :: "(string \<Rightarrow> kdl_node list option) \<Rightarrow> string \<Rightarrow> baseline_meta" where
  "parse_baseline_meta kdl text =
     (case kdl text of
        None \<Rightarrow> meta_default
      | Some doc \<Rightarrow>
          (let top = (\<lambda>nm. Option.bind (find_node doc nm) first_arg_str)
           in \<lparr>bm_established_at = top ''established_at'', bm_reported_digest = top ''reported_digest'',
               bm_reported_at = top ''reported_at''\<rparr>))"

definition iso_timestamp :: "int \<Rightarrow> string" where
  "iso_timestamp now =
     (case civil_from_days (now div 86400) of (y, m, d) \<Rightarrow>
        let sod = now mod 86400
        in core_text y m d (tdiv sod 3600) (tdiv (trem sod 3600) 60) (trem sod 60) @ ''+00:00'')"

subsection \<open>The gate\<close>

text \<open>The message of a violation: its parts, without the wording.\<close>

record gate_message =
  gm_violations :: "violation list"
  gm_digest :: string
  gm_recurring :: bool

record gate_decision =
  gd_index :: index
  gd_advance :: bool
  gd_new_meta :: "baseline_meta option"
  gd_warn_message :: "gate_message option"

datatype gate_error = GateSlug string | RatchetViolation string string

definition gate_slug :: "string + 'a \<Rightarrow> gate_error + 'a" where
  "gate_slug r = (case r of Inl e \<Rightarrow> Inl (GateSlug e) | Inr x \<Rightarrow> Inr x)"

definition kept_established :: "baseline_meta \<Rightarrow> int \<Rightarrow> string" where
  "kept_established m now =
     (case bm_established_at m of
        None \<Rightarrow> iso_timestamp now
      | Some s \<Rightarrow> if s = [] then iso_timestamp now else s)"

definition evaluate_gate ::
  "(string \<Rightarrow> kdl_node list option) \<Rightarrow> (provenance \<Rightarrow> string) \<Rightarrow> (field_value \<Rightarrow> string) \<Rightarrow> (string \<Rightarrow> string) \<Rightarrow>
   trust_policy \<Rightarrow> string \<Rightarrow> string option \<Rightarrow> baseline_meta \<Rightarrow> int \<Rightarrow> gate_error + gate_decision" where
  "evaluate_gate kdl dbgp dbg sha policy candidate_text baseline_text existing now =
     rbind (gate_slug (build_index_state kdl dbgp candidate_text)) (\<lambda>(ix, candidate_state).
       if policy = Off
       then Inr \<lparr>gd_index = ix, gd_advance = False, gd_new_meta = None, gd_warn_message = None\<rparr>
       else case baseline_text of
         None \<Rightarrow>
           Inr \<lparr>gd_index = ix, gd_advance = True,
             gd_new_meta = Some \<lparr>bm_established_at = Some (iso_timestamp now), bm_reported_digest = None,
               bm_reported_at = None\<rparr>,
             gd_warn_message = None\<rparr>
       | Some b \<Rightarrow>
           rbind (gate_slug (parse_baseline kdl dbgp b)) (\<lambda>baseline_state.
             let outcome = ratchet_check dbg baseline_state candidate_state;
                 violations = ro_violations outcome
             in if ro_clean outcome
                then Inr \<lparr>gd_index = ix, gd_advance = True,
                  gd_new_meta = Some \<lparr>bm_established_at = Some (kept_established existing now),
                    bm_reported_digest = None, bm_reported_at = None\<rparr>,
                  gd_warn_message = None\<rparr>
                else
                  let digest = canonical_digest sha violations;
                      recurring = (bm_reported_digest existing = Some digest)
                  in if policy = Strict
                     then Inl (RatchetViolation (vi_class (hd violations)) digest)
                     else Inr \<lparr>gd_index = ix, gd_advance = False,
                       gd_new_meta = (if recurring then None
                         else Some \<lparr>bm_established_at = bm_established_at existing,
                           bm_reported_digest = Some digest, bm_reported_at = Some (iso_timestamp now)\<rparr>),
                       gd_warn_message = Some \<lparr>gm_violations = violations, gm_digest = digest,
                         gm_recurring = recurring\<rparr>\<rparr>))"

subsection \<open>The sidecar files\<close>

record sidecars =
  sc_baseline :: "string option"
  sc_meta :: "string option"

text \<open>
  \<^verbatim>\<open>run_ratchet_gate\<close> on the contents of the sidecar files; \<open>utf8\<close> is \<^verbatim>\<open>std::str::from_utf8\<close>
  succeeding.
\<close>

definition run_ratchet_gate ::
  "(string \<Rightarrow> bool) \<Rightarrow> (string \<Rightarrow> kdl_node list option) \<Rightarrow> (provenance \<Rightarrow> string) \<Rightarrow> (field_value \<Rightarrow> string) \<Rightarrow>
   (string \<Rightarrow> string) \<Rightarrow> trust_policy \<Rightarrow> sidecars \<Rightarrow> string \<Rightarrow> int \<Rightarrow> gate_error + gate_decision" where
  "run_ratchet_gate utf8 kdl dbgp dbg sha policy sc candidate now =
     (if \<not> utf8 candidate then Inl (GateSlug ''TNG-KDL-SYNTAX'')
      else let baseline = (if policy \<noteq> Off then sc_baseline sc else None)
      in if (case baseline of None \<Rightarrow> False | Some b \<Rightarrow> \<not> utf8 b)
         then Inl (GateSlug ''TNG-INDEX-BASELINE-CORRUPT'')
         else
           let meta = (case (if policy \<noteq> Off then sc_meta sc else None) of
                 None \<Rightarrow> meta_default
               | Some m \<Rightarrow> if utf8 m then parse_baseline_meta kdl m else meta_default)
           in evaluate_gate kdl dbgp dbg sha policy candidate baseline meta now)"

definition apply_ratchet_writes :: "gate_decision \<Rightarrow> string \<Rightarrow> sidecars \<Rightarrow> sidecars" where
  "apply_ratchet_writes d candidate sc =
     \<lparr>sc_baseline = (if gd_advance d then Some candidate else sc_baseline sc),
      sc_meta = (case gd_new_meta d of Some m \<Rightarrow> Some (meta_render m) | None \<Rightarrow> sc_meta sc)\<rparr>"


text \<open>Refreshes of the cache: each reads the sidecars, asks the gate, and writes what it says.\<close>

inductive gate_run ::
  "(string \<Rightarrow> bool) \<Rightarrow> (string \<Rightarrow> kdl_node list option) \<Rightarrow> (provenance \<Rightarrow> string) \<Rightarrow> (field_value \<Rightarrow> string) \<Rightarrow>
   (string \<Rightarrow> string) \<Rightarrow> sidecars \<Rightarrow> sidecars \<Rightarrow> bool"
  for utf8 kdl dbgp dbg sha sc0 where
  start: "gate_run utf8 kdl dbgp dbg sha sc0 sc0"
| accepted: "gate_run utf8 kdl dbgp dbg sha sc0 sc \<Longrightarrow>
    run_ratchet_gate utf8 kdl dbgp dbg sha policy sc candidate now = Inr d \<Longrightarrow>
    gate_run utf8 kdl dbgp dbg sha sc0 (apply_ratchet_writes d candidate sc)"
| refused: "gate_run utf8 kdl dbgp dbg sha sc0 sc \<Longrightarrow>
    run_ratchet_gate utf8 kdl dbgp dbg sha policy sc candidate now = Inl e \<Longrightarrow>
    gate_run utf8 kdl dbgp dbg sha sc0 sc"

subsection \<open>Facts\<close>

lemma set_some_simps [simp]:
  "entry_get (set_some n f v e) m =
     (if m = n then (case v of None \<Rightarrow> entry_get e m | Some x \<Rightarrow> f x) else entry_get e m)"
  by (simp add: set_some_def split: option.splits)

lemma plain_field_simps [simp]:
  "rf_value (plain_field v) = Some v" "rf_value (raw_field_of v r) = Some v"
  by (simp_all add: plain_field_def raw_field_of_def)

lemma entry_state_wt: "entry_wt (entry_state dbgp iv)"
  by (auto simp: entry_wt_def entry_state_def Let_def attested_def encode_attestation_def
      split: option.splits attestation_kind.splits)

lemma root_state_wt: "entry_wt (root_state a b c)"
  by (simp add: entry_wt_def root_state_def attested_def)

lemma state_wt_insert: "state_wt s \<Longrightarrow> entry_wt e \<Longrightarrow> state_wt (bt_insert k e s)"
  using set_bt_insert [of k e s] by (auto simp: state_wt_def list_all_iff)

lemma package_states_wt: "state_wt s \<Longrightarrow> state_wt (package_states dbgp pkg s)"
proof -
  have "state_wt s \<Longrightarrow> state_wt (fold (\<lambda>iv. bt_insert (version_key pkg iv) (entry_state dbgp iv)) vs s)" for vs
    by (induction vs arbitrary: s) (auto intro: state_wt_insert entry_state_wt)
  then show "state_wt s \<Longrightarrow> state_wt (package_states dbgp pkg s)" by (simp add: package_states_def)
qed

lemma index_state_wt: "state_wt (index_state_from dbgp a b c ix)"
proof -
  have "state_wt s \<Longrightarrow> state_wt (fold (package_states dbgp) ps s)" for ps s
    by (induction ps arbitrary: s) (auto intro: package_states_wt)
  then show ?thesis
    by (simp add: index_state_from_def state_wt_def root_state_wt)
qed

lemma build_state_wt: "build_index_state kdl dbgp text = Inr (ix, s) \<Longrightarrow> state_wt s"
  by (auto simp: build_index_state_def rbind_Inr index_state_wt split: option.splits)

lemma parse_baseline_iff: "parse_baseline kdl dbgp text = Inr s \<longleftrightarrow> (\<exists>ix. build_index_state kdl dbgp text = Inr (ix, s))"
  by (auto simp: parse_baseline_def split: sum.splits)

lemma gate_slug_Inr [simp]: "gate_slug r = Inr x \<longleftrightarrow> r = Inr x"
  by (simp add: gate_slug_def split: sum.splits)

lemma clean_iff: "ro_clean (ratchet_check dbg b c) \<longleftrightarrow> state_le b c"
  by (simp add: ro_clean_def ratchet_check_def Let_def length_zero_sort found_iff)

lemma evaluate_off:
  "evaluate_gate kdl dbgp dbg sha Off cand b m now = Inr d \<Longrightarrow>
   \<not> gd_advance d \<and> gd_new_meta d = None \<and> gd_warn_message d = None"
  by (auto simp: evaluate_gate_def rbind_Inr)

lemma evaluate_some:
  assumes "evaluate_gate kdl dbgp dbg sha policy cand (Some b) m now = Inr d" "policy \<noteq> Off"
  obtains ix c s where "build_index_state kdl dbgp cand = Inr (ix, c)" "parse_baseline kdl dbgp b = Inr s"
    "gd_advance d \<longleftrightarrow> state_le s c" "policy = Strict \<Longrightarrow> gd_advance d"
    "gd_warn_message d = None \<longleftrightarrow> gd_advance d" "gd_index d = ix"
    "\<not> gd_advance d \<Longrightarrow> gd_new_meta d = None \<longleftrightarrow>
       bm_reported_digest m = Some (canonical_digest sha (ro_violations (ratchet_check dbg s c)))"
  using assms
  by (auto simp: evaluate_gate_def rbind_Inr Let_def clean_iff split: if_splits)

lemma gate_run_invariant:
  assumes "gate_run utf8 kdl dbgp dbg sha sc0 sc"
    and "sc_baseline sc0 = Some b0" "parse_baseline kdl dbgp b0 = Inr s0"
  shows "\<exists>b s. sc_baseline sc = Some b \<and> parse_baseline kdl dbgp b = Inr s \<and> state_le s0 s"
  using assms(1)
proof (induction rule: gate_run.induct)
  case start
  have "state_wt s0" using assms(3) build_state_wt by (auto simp: parse_baseline_iff)
  from state.refl [OF this] assms(2,3) show ?case by blast
next
  case (accepted sc policy candidate now d)
  then obtain b s where b: "sc_baseline sc = Some b" "parse_baseline kdl dbgp b = Inr s" "state_le s0 s" by blast
  show ?case
  proof (cases "gd_advance d")
    case False
    then show ?thesis using b by (simp add: apply_ratchet_writes_def)
  next
    case True
    obtain m where e: "evaluate_gate kdl dbgp dbg sha policy candidate
        (if policy \<noteq> Off then Some b else None) m now = Inr d"
      using accepted.hyps(2) b(1)
      by (auto simp: run_ratchet_gate_def Let_def split: if_splits)
    have "policy \<noteq> Off" using True e evaluate_off by metis
    with e have "evaluate_gate kdl dbgp dbg sha policy candidate (Some b) m now = Inr d" by simp
    then obtain ix c where c: "build_index_state kdl dbgp candidate = Inr (ix, c)" "state_le s c"
      by (rule evaluate_some [OF _ \<open>policy \<noteq> Off\<close>]) (use b(2) True in auto)
    have "state_le s0 c"
      using state.trans [OF _ _ _ b(3) c(2)] assms(3) b(2) c(1) build_state_wt
      by (auto simp: parse_baseline_iff)
    then show ?thesis using True c(1) by (auto simp: apply_ratchet_writes_def parse_baseline_iff)
  qed
qed simp

subsection \<open>Properties\<close>

text \<open>
  C4. The recorded baseline never moves backwards.  Whatever sequence of index texts is fetched,
  under whatever mixture of the three policies, the baseline that is on disk afterwards parses and
  dominates the one that was on disk before.
\<close>

theorem gate_never_regresses:
  assumes "gate_run utf8 kdl dbgp dbg sha sc0 sc"
    and "sc_baseline sc0 = Some b0" "parse_baseline kdl dbgp b0 = Inr s0"
  shows "\<exists>b s. sc_baseline sc = Some b \<and> parse_baseline kdl dbgp b = Inr s \<and>
    ro_advanced (ratchet_check dbg s0 s)"
  unfolding advanced_iff by (rule gate_run_invariant [OF assms])

theorem gate_never_regresses_witness:
  "ro_advanced (ratchet_check (\<lambda>_. []) [(entry_key_root, root_state None None None)]
     [(entry_key_root, root_state None None None)])"
proof -
  let ?kdl = "\<lambda>_ :: string. Some [] :: kdl_node list option"
  let ?sc = "\<lparr>sc_baseline = Some [], sc_meta = None\<rparr>"
  have p: "parse_baseline ?kdl (\<lambda>_. []) b = Inr [(entry_key_root, root_state None None None)]"
    if "b = []" for b
    using that
    by (simp add: parse_baseline_def build_index_state_def index_parse_def kdl_brace_depth_def
        kdl_block_comment_depth_def check_schema_version_def find_node_def raw_root_text_def
        raw_schema_version_def index_state_from_def)
  have "gate_run (\<lambda>_. True) ?kdl (\<lambda>_. []) (\<lambda>_. []) (\<lambda>s. s) ?sc ?sc" by (rule gate_run.start)
  from gate_never_regresses [OF this _ p] p show ?thesis by auto
qed

text \<open>
  What the gate decides against a recorded baseline.  The baseline advances exactly when the
  policy is on and the candidate dominates the baseline; under the strict policy nothing else is
  served; a candidate that does not dominate is served only with a message; and under \<^verbatim>\<open>off\<close> the
  sidecars are not touched.
\<close>

theorem gate_decisions:
  assumes "evaluate_gate kdl dbgp dbg sha policy cand (Some b) m now = Inr d"
  shows "(gd_advance d \<longleftrightarrow> policy \<noteq> Off \<and> (\<exists>ix c s. build_index_state kdl dbgp cand = Inr (ix, c) \<and>
      parse_baseline kdl dbgp b = Inr s \<and> state_le s c)) \<and>
    (policy = Strict \<longrightarrow> gd_advance d) \<and>
    (gd_warn_message d = None \<longleftrightarrow> policy = Off \<or> gd_advance d) \<and>
    (policy = Off \<longrightarrow> apply_ratchet_writes d cand sc = sc)"
proof (cases "policy = Off")
  case True
  then show ?thesis using evaluate_off assms by (fastforce simp: apply_ratchet_writes_def)
next
  case False
  from assms this show ?thesis by (rule evaluate_some) (use False in auto)
qed

theorem gate_decisions_witness:
  "\<exists>d. evaluate_gate (\<lambda>_. Some []) (\<lambda>_. []) (\<lambda>_. []) (\<lambda>s. s) Strict [] (Some []) meta_default 0 = Inr d \<and>
     gd_advance d"
proof -
  let ?kdl = "\<lambda>_ :: string. Some [] :: kdl_node list option"
  have "state_le s s" if "build_index_state ?kdl (\<lambda>_. []) [] = Inr (ix, s)" for ix s
    using state.refl [OF build_state_wt [OF that]] .
  moreover obtain ix s where b: "build_index_state ?kdl (\<lambda>_. []) [] = Inr (ix, s)"
    by (auto simp: build_index_state_def index_parse_def kdl_brace_depth_def kdl_block_comment_depth_def
        check_schema_version_def find_node_def raw_root_text_def)
  ultimately obtain d where d: "evaluate_gate ?kdl (\<lambda>_. []) (\<lambda>_. []) (\<lambda>s. s) Strict [] (Some []) meta_default 0 = Inr d"
    by (auto simp: evaluate_gate_def gate_slug_def parse_baseline_def clean_iff)
  with gate_decisions [OF d, of "\<lparr>sc_baseline = None, sc_meta = None\<rparr>"] show ?thesis by blast
qed


text \<open>Three index texts: the recorded one, one with a rewritten hash, and one with both nodes.\<close>

definition demo_kdl :: "string \<Rightarrow> kdl_node list option" where
  "demo_kdl t =
     (if t = ''recorded'' then Some [demo_package ''h'']
      else if t = ''rewritten'' then Some [demo_package ''evil'']
      else Some [demo_package ''evil'', demo_package ''h''])"

definition demo_index_state :: "string \<Rightarrow> index_state" where
  "demo_index_state h = [(entry_key_root, root_state None None None),
     (EntryKey ''acme'' ''foo'' ''1.0.0'', entry_state (\<lambda>_. []) (demo_iv h))]"

lemma demo_builds:
  assumes "kdl t = Some (map demo_package hs)" "set hs \<subseteq> {''h'', ''evil''}" "hs \<noteq> []"
    "kdl_brace_depth t = 0" "kdl_block_comment_depth t = 0"
  shows "build_index_state kdl (\<lambda>_. []) t = Inr (\<lparr>ix_packages = map demo_pkg hs\<rparr>, demo_index_state (last hs))"
proof -
  have names: "find_node (map demo_package hs) nm = None" if "nm \<noteq> ''package''" for nm
    using that by (auto simp: find_node_def find_None_iff demo_package_def)
  have "rmap parse_package (map demo_package hs) = Inr (map (\<lambda>h. [demo_pkg h]) hs)"
    using assms(2) by (induction hs) (auto simp: demo_package_parses)
  then have p: "index_parse kdl t = Inr \<lparr>ix_packages = map demo_pkg hs\<rparr>"
    using assms(1,4,5)
    by (simp add: index_parse_def check_schema_version_def names comp_def)
  have keys: "EntryKey ''acme'' ''foo'' ''1.0.0'' \<noteq> entry_key_root" "entry_key_root < EntryKey ''acme'' ''foo'' ''1.0.0''"
    by (simp_all add: entry_key_root_def less_entry_key_def ek_tuple_def)
  have step: "package_states (\<lambda>_. []) (demo_pkg h) (bt_insert entry_key_root r
      [(EntryKey ''acme'' ''foo'' ''1.0.0'', e)]) = 
      [(entry_key_root, r), (EntryKey ''acme'' ''foo'' ''1.0.0'', entry_state (\<lambda>_. []) (demo_iv h))]" for h r e
    using keys by (simp add: package_states_def demo_pkg_def version_key_def demo_iv_def)
  have first: "package_states (\<lambda>_. []) (demo_pkg h) [(entry_key_root, r)] =
      [(entry_key_root, r), (EntryKey ''acme'' ''foo'' ''1.0.0'', entry_state (\<lambda>_. []) (demo_iv h))]" for h r
    using keys by (simp add: package_states_def demo_pkg_def version_key_def demo_iv_def)
  have again: "package_states (\<lambda>_. []) (demo_pkg h)
      [(entry_key_root, r), (EntryKey ''acme'' ''foo'' ''1.0.0'', e)] =
      [(entry_key_root, r), (EntryKey ''acme'' ''foo'' ''1.0.0'', entry_state (\<lambda>_. []) (demo_iv h))]" for h r e
    using keys by (simp add: package_states_def demo_pkg_def version_key_def demo_iv_def)
  have loop: "fold (package_states (\<lambda>_. [])) (map demo_pkg hs)
      [(entry_key_root, r), (EntryKey ''acme'' ''foo'' ''1.0.0'', e)] =
      [(entry_key_root, r), (EntryKey ''acme'' ''foo'' ''1.0.0'',
        if hs = [] then e else entry_state (\<lambda>_. []) (demo_iv (last hs)))]" for hs r e
    by (induction hs arbitrary: e) (simp_all add: again)
  obtain h hs' where hs: "hs = h # hs'" using assms(3) by (cases hs) auto
  have "index_state_from (\<lambda>_. []) None None None \<lparr>ix_packages = map demo_pkg hs\<rparr> = demo_index_state (last hs)"
    by (simp add: index_state_from_def hs first loop demo_index_state_def)
  then show ?thesis
    using p assms(1) by (simp add: build_index_state_def raw_root_text_def names raw_schema_version_def)
qed

text \<open>
  The gate can be evaded with a repeated package node.  A rewritten hash is refused under the
  strict policy; but when the rewritten node stands in front of an unchanged node of the same
  coordinate, the ratchet compares only the last one and lets the index through, while the qualified
  lookup serves the first one.
\<close>

theorem gate_duplicate_package:
  "\<exists>d. evaluate_gate demo_kdl (\<lambda>_. []) (\<lambda>_. []) sha Strict ''doubled'' (Some ''recorded'') m now = Inr d \<and>
     gd_advance d \<and>
     map_option (map iv_content_hash \<circ> pk_versions) (lookup_qualified (gd_index d) ''acme'' ''foo'') = Some [''evil''] \<and>
     (\<exists>digest. evaluate_gate demo_kdl (\<lambda>_. []) (\<lambda>_. []) sha Strict ''rewritten'' (Some ''recorded'') m now =
        Inl (RatchetViolation ENTRY_MUTATED digest))"
proof -
  have b: "build_index_state demo_kdl (\<lambda>_. []) ''recorded'' = Inr (\<lparr>ix_packages = [demo_pkg ''h'']\<rparr>, demo_index_state ''h'')"
      "build_index_state demo_kdl (\<lambda>_. []) ''rewritten'' = Inr (\<lparr>ix_packages = [demo_pkg ''evil'']\<rparr>, demo_index_state ''evil'')"
      "build_index_state demo_kdl (\<lambda>_. []) ''doubled'' =
        Inr (\<lparr>ix_packages = [demo_pkg ''evil'', demo_pkg ''h'']\<rparr>, demo_index_state ''h'')"
    using demo_builds [of demo_kdl "''recorded''" "[''h'']"] demo_builds [of demo_kdl "''rewritten''" "[''evil'']"]
      demo_builds [of demo_kdl "''doubled''" "[''evil'', ''h'']"]
    by (simp_all add: demo_kdl_def kdl_brace_depth_def kdl_block_comment_depth_def)
  have "state_wt (demo_index_state ''h'')" using build_state_wt [OF b(1)] .
  then have le: "state_le (demo_index_state ''h'') (demo_index_state ''h'')" by (rule state.refl)
  let ?found = "found_violations (\<lambda>_. []) (demo_index_state ''h'') (demo_index_state ''evil'')"
  have "\<exists>v. ?found = [v] \<and> vi_class v = ENTRY_MUTATED"
    by (simp add: found_violations_def check_entry_def demo_index_state_def bt_get_or_def dominates_entry_def
        LOCKSTEP_GROUPS_def lattice_def group_violation_def field_violation_def lockstep_change_def
        root_state_def entry_state_def demo_iv_def Let_def dispatch_def dominates_set_once_def
        dominates_append_once_def dominates_attestation_def dominates_multiset_def dominates_advisory_def
        dominates_ordinal_def as_i64_def as_provenance_list_def entry_key_root_def violation_class_def)
  then have "\<exists>v. ro_violations (ratchet_check (\<lambda>_. []) (demo_index_state ''h'') (demo_index_state ''evil'')) = [v]
      \<and> vi_class v = ENTRY_MUTATED"
    by (auto simp: ratchet_check_def Let_def)
  with le show ?thesis
    by (auto simp: evaluate_gate_def gate_slug_def b parse_baseline_def clean_iff Let_def ro_clean_def
        lookup_qualified_def demo_pkg_def demo_iv_def)
      (auto simp: ratchet_check_def Let_def length_zero_sort found_iff)
qed

end
