(* ===== verification/DagIdentity.thy ===== *)
theory DagIdentity
  imports Prelude "HOL-Library.AList"
begin

text \<open>
  Content identity: \<^verbatim>\<open>milpa-core/src/dag_identity.rs\<close> (the Merkle DAG over a materialized tree) and
  \<^verbatim>\<open>milpa-core/src/identity.rs\<close> (the grammar of identity texts, and the walk of a tree on disk).
  \<open>H\<close> stands for the 32 raw bytes of SHA-256, \<open>utf8\<close> for \<^verbatim>\<open>std::str::from_utf8\<close> succeeding.  The
  properties need no assumption about \<open>H\<close> on all texts: they ask for injectivity on the finitely many
  texts that are hashed in the computations they speak about.
\<close>

subsection \<open>The builder\<close>

definition MODE_REGULAR :: char where "MODE_REGULAR = CHR 0x00"
definition MODE_EXECUTABLE :: char where "MODE_EXECUTABLE = CHR 0x01"
definition MODE_SYMLINK :: char where "MODE_SYMLINK = CHR 0x80"
definition MODE_TREE :: char where "MODE_TREE = CHR 0x40"

definition NAME_BYTE_CEILING :: nat where "NAME_BYTE_CEILING = 4096"
definition GIT_COMPONENT :: string where "GIT_COMPONENT = ''.git''"

record materialized_entry =
  me_relpath :: string
  me_mode_byte :: char
  me_content :: string

text \<open>The two hash maps of a directory node, as association lists with distinct keys.\<close>

datatype dag_node =
  DagNode (dn_blobs: "(string \<times> char \<times> string) list") (dn_subdirs: "(string \<times> dag_node) list")

definition empty_node :: dag_node where "empty_node = DagNode [] []"

definition check_name :: "string \<Rightarrow> string + string" where
  "check_name name =
     (if NAME_BYTE_CEILING < length name then Inl ''ID-NAME-TOO-LONG'' else Inr name)"

text \<open>
  The descent of \<^verbatim>\<open>insert\<close> along the directory components; the components of a relative path are
  never empty as a list.
\<close>

fun dag_insert :: "dag_node \<Rightarrow> string list \<Rightarrow> char \<Rightarrow> string \<Rightarrow> string + dag_node" where
  "dag_insert (DagNode blobs subdirs) [] mode_byte content = Inl ''panic''"
| "dag_insert (DagNode blobs subdirs) [leaf] mode_byte content =
     rbind (check_name leaf) (\<lambda>_.
     Inr (DagNode (AList.update leaf (mode_byte, content) blobs) subdirs))"
| "dag_insert (DagNode blobs subdirs) (d # rest) mode_byte content =
     rbind (check_name d) (\<lambda>_.
     rbind (dag_insert (case map_of subdirs d of Some n \<Rightarrow> n | None \<Rightarrow> empty_node) rest mode_byte content) (\<lambda>n.
     Inr (DagNode blobs (AList.update d n subdirs))))"

definition be32 :: "nat \<Rightarrow> string" where
  "be32 n = map char_of [n div 16777216, n div 65536, n div 256, n]"

definition encode_entry :: "string \<times> char \<times> string \<Rightarrow> string" where
  "encode_entry e = be32 (length (fst e)) @ fst e @ [fst (snd e)] @ snd (snd e)"

fun hash_tree :: "(string \<Rightarrow> string) \<Rightarrow> dag_node \<Rightarrow> string + (string \<times> bool)" where
  "hash_tree H (DagNode blobs subdirs) =
     rbind (rmap (\<lambda>(leaf, mode_byte, content).
       rbind (check_name leaf) (\<lambda>name. Inr (name, mode_byte, H content))) blobs) (\<lambda>blob_items.
     rbind (rmap (\<lambda>(leaf, sub).
       rbind (hash_tree H sub) (\<lambda>(digest, is_empty).
         if is_empty then Inr []
         else rbind (check_name leaf) (\<lambda>name. Inr [(name, MODE_TREE, digest)]))) subdirs) (\<lambda>tree_items.
     let items = sort_key fst (blob_items @ concat tree_items)
     in Inr (H (concat (map encode_entry items)), items = [])))"

definition hex_digit :: "nat \<Rightarrow> char" where
  "hex_digit d = char_of (if d < 10 then 48 + d else 87 + d)"

definition hex_lower :: "string \<Rightarrow> string" where
  "hex_lower bytes = concat (map (\<lambda>b. [hex_digit (byte b div 16), hex_digit (byte b mod 16)]) bytes)"

definition excluded :: "string \<Rightarrow> bool" where
  "excluded relpath \<longleftrightarrow> GIT_COMPONENT \<in> set (split_on CHR ''/'' relpath)"

text \<open>One turn of the loop of \<^verbatim>\<open>compute_dag_identity\<close>.\<close>

definition add_entry :: "dag_node \<Rightarrow> materialized_entry \<Rightarrow> string + dag_node" where
  "add_entry root e =
     (if excluded (me_relpath e) then Inr root
      else dag_insert root (split_on CHR ''/'' (me_relpath e)) (me_mode_byte e) (me_content e))"

definition compute_dag_identity :: "(string \<Rightarrow> string) \<Rightarrow> materialized_entry list \<Rightarrow> string + string" where
  "compute_dag_identity H entries =
     rbind (rfold add_entry empty_node entries) (\<lambda>root.
     rbind (hash_tree H root) (\<lambda>(digest, _).
     Inr (''dag-sha256:'' @ hex_lower digest)))"

subsection \<open>Identity texts\<close>

definition SUPPORTED_ALGORITHMS :: "(string \<times> nat) list" where
  "SUPPORTED_ALGORITHMS = [(''dag-sha256'', 64)]"

definition split_identity_scheme :: "string \<Rightarrow> string + (string \<times> string)" where
  "split_identity_scheme s =
     (case split_once CHR '':'' s of None \<Rightarrow> Inl ''ID-NO-ALGORITHM-PREFIX'' | Some p \<Rightarrow> Inr p)"

definition parse_identity :: "string \<Rightarrow> string + (string \<times> string)" where
  "parse_identity s =
     rbind (split_identity_scheme s) (\<lambda>(algorithm, digest).
       case map_of SUPPORTED_ALGORITHMS algorithm of
         None \<Rightarrow> Inl ''ID-UNSUPPORTED-ALGORITHM''
       | Some expected_len \<Rightarrow>
           if length digest \<noteq> expected_len then Inl ''ID-WRONG-DIGEST-LENGTH''
           else if \<not> list_all is_lower_hex digest then Inl ''ID-NON-HEX-DIGEST''
           else Inr (algorithm, digest))"

subsection \<open>The walk of a tree on disk\<close>

text \<open>
  What the file system calls of \<^verbatim>\<open>walk\<close> return: the contents and any execute bit of a regular file,
  the target of a symbolic link, the named children of a directory.  Fifos, sockets and devices are
  \<open>FOther\<close>.  Failing system calls are not modelled.
\<close>

datatype fs_node =
    FFile (ff_executable: bool) (ff_content: string)
  | FSymlink (fl_target: string)
  | FDir (fd_children: "(string \<times> fs_node) list")
  | FOther

text \<open>\<open>path\<close> is the relative path of the directory that is read, \<open>[]\<close> at the root.\<close>

definition join_path :: "string \<Rightarrow> string \<Rightarrow> string" where
  "join_path path name = (if path = [] then name else path @ ''/'' @ name)"

fun walk :: "(string \<Rightarrow> bool) \<Rightarrow> string \<Rightarrow> fs_node \<Rightarrow> string + materialized_entry list" where
  "walk utf8 path (FDir children) =
     rbind (rmap (\<lambda>(name, child).
         if name = ''.git'' then Inr []
         else if \<not> utf8 (join_path path name) then Inl ''ID-NON-UTF8-RELPATH''
         else case child of
           FSymlink target \<Rightarrow>
             if utf8 target
             then Inr [\<lparr>me_relpath = join_path path name, me_mode_byte = MODE_SYMLINK, me_content = target\<rparr>]
             else Inl ''ID-NON-UTF8-SYMLINK-TARGET''
         | FDir _ \<Rightarrow> walk utf8 (join_path path name) child
         | FFile executable content \<Rightarrow>
             Inr [\<lparr>me_relpath = join_path path name,
               me_mode_byte = (if executable then MODE_EXECUTABLE else MODE_REGULAR), me_content = content\<rparr>]
         | FOther \<Rightarrow> Inr [])
       (sort_key fst children)) (\<lambda>entries. Inr (concat entries))"
| "walk utf8 path _ = Inl ''MILPA-INTERNAL-IO''"

definition compute_content_hash :: "(string \<Rightarrow> bool) \<Rightarrow> (string \<Rightarrow> string) \<Rightarrow> fs_node \<Rightarrow> string + string" where
  "compute_content_hash utf8 H root = rbind (walk utf8 [] root) (compute_dag_identity H)"

subsection \<open>The files of a tree\<close>

text \<open>What a list of entries says of each path: a later entry replaces an earlier one.\<close>

definition files :: "materialized_entry list \<Rightarrow> string \<Rightarrow> (char \<times> string) option" where
  "files entries =
     fold (\<lambda>e m. if excluded (me_relpath e) then m
                 else m(me_relpath e \<mapsto> (me_mode_byte e, me_content e))) entries Map.empty"

fun node_files :: "dag_node \<Rightarrow> string list \<Rightarrow> (char \<times> string) option" where
  "node_files (DagNode blobs subdirs) [] = None"
| "node_files (DagNode blobs subdirs) [leaf] = map_of blobs leaf"
| "node_files (DagNode blobs subdirs) (d # x # rest) =
     (case map_of subdirs d of None \<Rightarrow> None | Some n \<Rightarrow> node_files n (x # rest))"

definition name_ok :: "string \<Rightarrow> bool" where
  "name_ok name \<longleftrightarrow> length name \<le> NAME_BYTE_CEILING"

fun node_ok :: "dag_node \<Rightarrow> bool" where
  "node_ok (DagNode blobs subdirs) \<longleftrightarrow>
     distinct (map fst blobs) \<and> distinct (map fst subdirs) \<and>
     list_all (\<lambda>b. name_ok (fst b) \<and> fst (snd b) \<noteq> MODE_TREE) blobs \<and>
     list_all (\<lambda>d. name_ok (fst d)) subdirs \<and> list_all (\<lambda>d. node_ok (snd d)) subdirs"

lemma check_name_simps [simp]:
  "check_name n = Inr m \<longleftrightarrow> name_ok n \<and> m = n"
  "check_name n = Inl e \<longleftrightarrow> \<not> name_ok n \<and> e = ''ID-NAME-TOO-LONG''"
  by (auto simp: check_name_def name_ok_def)

lemma list_all_update:
  "list_all P xs \<Longrightarrow> P (k, v) \<Longrightarrow> list_all P (AList.update k v xs)"
  by (induction xs) auto

lemma distinct_update_keys: "distinct (map fst xs) \<Longrightarrow> distinct (map fst (AList.update k v xs))"
  by (rule distinct_update)

lemma map_of_in_list_all: "list_all P xs \<Longrightarrow> map_of xs k = Some v \<Longrightarrow> P (k, v)"
  by (auto simp: list_all_iff dest: map_of_SomeD)

lemma node_files_Nil [simp]: "node_files n [] = None"
  by (cases n) simp

lemma empty_node_simps [simp]: "node_ok empty_node" "node_files empty_node ps = None"
proof -
  show "node_files empty_node ps = None"
    unfolding empty_node_def by (cases ps; cases "tl ps") auto
qed (simp add: empty_node_def)

lemma insert_ok:
  assumes "dag_insert n ps m c = Inr n'" "node_ok n" "m \<noteq> MODE_TREE"
  shows "node_ok n' \<and> node_files n' = (node_files n)(ps \<mapsto> (m, c))"
  using assms
proof (induction n ps m c arbitrary: n' rule: dag_insert.induct)
  case (2 blobs subdirs leaf m c)
  then have n': "n' = DagNode (AList.update leaf (m, c) blobs) subdirs" and ok: "name_ok leaf"
    by (auto simp: rbind_Inr)
  have "node_files n' ps = ((node_files (DagNode blobs subdirs))([leaf] \<mapsto> (m, c))) ps" for ps
    by (cases "(DagNode blobs subdirs, ps)" rule: node_files.cases) (auto simp: n' update_conv')
  then show ?case
    using 2 n' ok by (auto intro!: list_all_update distinct_update_keys)
next
  case (3 blobs subdirs d x rest m c)
  let ?sub = "case map_of subdirs d of Some n \<Rightarrow> n | None \<Rightarrow> empty_node"
  obtain n where n: "dag_insert ?sub (x # rest) m c = Inr n" "name_ok d"
      "n' = DagNode blobs (AList.update d n subdirs)"
    using "3.prems"(1) by (auto simp: rbind_Inr)
  have "node_ok ?sub"
    using "3.prems"(2) by (auto split: option.split dest: map_of_in_list_all)
  from "3.IH" [OF n(1) this "3.prems"(3)] n(2)
  have IH: "node_ok n" "node_files n = (node_files ?sub)(x # rest \<mapsto> (m, c))" by auto
  have "node_files n' ps = ((node_files (DagNode blobs subdirs))(d # x # rest \<mapsto> (m, c))) ps" for ps
    by (cases "(DagNode blobs subdirs, ps)" rule: node_files.cases)
      (auto simp: n(3) update_conv' IH(2) split: option.splits)
  then show ?case
    using "3.prems"(2) n(2,3) IH(1) by (auto intro!: list_all_update distinct_update_keys)
qed simp

lemma insert_err:
  "node_ok n \<Longrightarrow> ps \<noteq> [] \<Longrightarrow>
   (\<exists>n'. dag_insert n ps m c = Inr n') \<longleftrightarrow> list_all name_ok ps"
  "ps \<noteq> [] \<Longrightarrow> dag_insert n ps m c = Inl e \<Longrightarrow> e = ''ID-NAME-TOO-LONG''"
proof -
  show "node_ok n \<Longrightarrow> ps \<noteq> [] \<Longrightarrow> (\<exists>n'. dag_insert n ps m c = Inr n') \<longleftrightarrow> list_all name_ok ps"
  proof (induction n ps m c rule: dag_insert.induct)
    case (3 blobs subdirs d x rest m c)
    have "node_ok (case map_of subdirs d of Some n \<Rightarrow> n | None \<Rightarrow> empty_node)"
      using "3.prems"(1) by (auto split: option.split dest: map_of_in_list_all)
    then show ?case using "3.IH" by (auto simp: rbind_Inr)
  qed (auto simp: rbind_Inr)
  show "ps \<noteq> [] \<Longrightarrow> dag_insert n ps m c = Inl e \<Longrightarrow> e = ''ID-NAME-TOO-LONG''"
  proof (induction n ps m c rule: dag_insert.induct)
    case (3 blobs subdirs d x rest m c)
    then show ?case by (auto simp: rbind_def split: sum.splits)
  qed (auto simp: rbind_def split: sum.splits)
qed


subsection \<open>The items of a node\<close>

fun node_items :: "(string \<Rightarrow> string) \<Rightarrow> dag_node \<Rightarrow> (string \<times> char \<times> string) list" where
  "node_items H (DagNode blobs subdirs) =
     map (\<lambda>b. (fst b, fst (snd b), H (snd (snd b)))) blobs @
     concat (map (\<lambda>d. if node_items H (snd d) = [] then []
       else [(fst d, MODE_TREE, H (concat (map encode_entry (sort_key fst (node_items H (snd d))))))]) subdirs)"

definition node_text :: "(string \<Rightarrow> string) \<Rightarrow> dag_node \<Rightarrow> string" where
  "node_text H n = concat (map encode_entry (sort_key fst (node_items H n)))"

text \<open>Every text that is hashed while the digest of a node is computed.\<close>

fun hashed :: "(string \<Rightarrow> string) \<Rightarrow> dag_node \<Rightarrow> string set" where
  "hashed H (DagNode blobs subdirs) =
     insert (node_text H (DagNode blobs subdirs))
       ((snd \<circ> snd) ` set blobs \<union> \<Union> (set (map (\<lambda>d. hashed H (snd d)) subdirs)))"

lemma node_items_def2:
  "node_items H (DagNode blobs subdirs) =
     map (\<lambda>b. (fst b, fst (snd b), H (snd (snd b)))) blobs @
     concat (map (\<lambda>d. if node_items H (snd d) = [] then []
       else [(fst d, MODE_TREE, H (node_text H (snd d)))]) subdirs)"
  by (simp add: node_text_def [abs_def] cong: if_cong)

declare node_items.simps [simp del]

lemma hash_tree_total: "node_ok n \<Longrightarrow> hash_tree H n = Inr (H (node_text H n), node_items H n = [])"
proof (induction n)
  case (DagNode blobs subdirs)
  have b: "rmap (\<lambda>(leaf, mode_byte, content).
       rbind (check_name leaf) (\<lambda>name. Inr (name, mode_byte, H content))) blobs =
     Inr (map (\<lambda>b. (fst b, fst (snd b), H (snd (snd b)))) blobs)"
    using DagNode.prems by (intro rmap_total) (auto simp: list_all_iff check_name_def name_ok_def)
  have d: "rmap (\<lambda>(leaf, sub).
       rbind (hash_tree H sub) (\<lambda>(digest, is_empty).
         if is_empty then Inr []
         else rbind (check_name leaf) (\<lambda>name. Inr [(name, MODE_TREE, digest)]))) subdirs =
     Inr (map (\<lambda>d. if node_items H (snd d) = [] then [] else [(fst d, MODE_TREE, H (node_text H (snd d)))]) subdirs)"
  proof (rule rmap_total)
    fix x assume x: "x \<in> set subdirs"
    then have "node_ok (snd x)" "name_ok (fst x)" using DagNode.prems by (auto simp: list_all_iff)
    moreover have "hash_tree H (snd x) = Inr (H (node_text H (snd x)), node_items H (snd x) = [])"
      by (rule DagNode.IH [OF x _ \<open>node_ok (snd x)\<close>]) (simp add: snds.simps)
    ultimately show "(case x of (leaf, sub) \<Rightarrow>
       rbind (hash_tree H sub) (\<lambda>(digest, is_empty).
         if is_empty then Inr []
         else rbind (check_name leaf) (\<lambda>name. Inr [(name, MODE_TREE, digest)]))) =
       Inr (if node_items H (snd x) = [] then [] else [(fst x, MODE_TREE, H (node_text H (snd x)))])"
      by (cases x) (simp add: check_name_def name_ok_def)
  qed
  show ?case
    by (simp only: hash_tree.simps b d rbind_simps Let_def node_text_def [of H "DagNode blobs subdirs"]
        node_items_def2) (simp add: length_zero_sort)
qed

text \<open>The items of one name: at most one blob, then at most one tree.\<close>

definition items_at :: "(string \<Rightarrow> string) \<Rightarrow> dag_node \<Rightarrow> string \<Rightarrow> (string \<times> char \<times> string) list" where
  "items_at H n k =
     (case map_of (dn_blobs n) k of None \<Rightarrow> [] | Some b \<Rightarrow> [(k, fst b, H (snd b))]) @
     (case map_of (dn_subdirs n) k of None \<Rightarrow> []
      | Some s \<Rightarrow> if node_items H s = [] then [] else [(k, MODE_TREE, H (node_text H s))])"

lemma filter_keyed:
  assumes "distinct (map fst xs)"
  shows "filter (\<lambda>i. fst i = k) (concat (map (\<lambda>x. if p (snd x) then [(fst x, f (snd x))] else []) xs)) =
    (case map_of xs k of None \<Rightarrow> [] | Some v \<Rightarrow> if p v then [(k, f v)] else [])"
proof -
  have none: "filter (\<lambda>i. fst i = k) (concat (map (\<lambda>x. if p (snd x) then [(fst x, f (snd x))] else []) ys)) = []"
    if "k \<notin> fst ` set ys" for ys
    using that by (induction ys) auto
  show ?thesis using assms by (induction xs) (auto simp: none)
qed

lemma filter_items: "node_ok n \<Longrightarrow> filter (\<lambda>i. fst i = k) (node_items H n) = items_at H n k"
proof (cases n)
  case (DagNode blobs subdirs)
  assume "node_ok n"
  then have d: "distinct (map fst blobs)" "distinct (map fst subdirs)" by (simp_all add: DagNode)
  have "concat (map (\<lambda>x. if True then [(fst x, fst (snd x), H (snd (snd x)))] else []) blobs) =
      map (\<lambda>b. (fst b, fst (snd b), H (snd (snd b)))) blobs"
    by (induction blobs) auto
  then have b: "filter (\<lambda>i. fst i = k) (map (\<lambda>b. (fst b, fst (snd b), H (snd (snd b)))) blobs) =
      (case map_of blobs k of None \<Rightarrow> [] | Some b \<Rightarrow> [(k, fst b, H (snd b))])"
    using filter_keyed [OF d(1), of k "\<lambda>_. True" "\<lambda>b. (fst b, H (snd b))"] by (simp split: option.splits)
  have s: "(\<lambda>d. if node_items H (snd d) = [] then [] else [(fst d, MODE_TREE, H (node_text H (snd d)))]) =
      (\<lambda>d. if node_items H (snd d) \<noteq> [] then [(fst d, MODE_TREE, H (node_text H (snd d)))] else [])"
    by auto
  show ?thesis
    using filter_keyed [OF d(2), of k "\<lambda>s. node_items H s \<noteq> []" "\<lambda>s. (MODE_TREE, H (node_text H s))"]
    by (simp add: DagNode node_items_def2 items_at_def b s split: option.splits)
qed

lemma items_eq_iff:
  "node_ok a \<Longrightarrow> node_ok b \<Longrightarrow>
   sort_key fst (node_items H a) = sort_key fst (node_items H b) \<longleftrightarrow> (\<forall>k. items_at H a k = items_at H b k)"
  by (simp add: sort_key_eq_iff filter_items)

subsection \<open>The encoding is unambiguous\<close>

lemma be32_inj:
  assumes "be32 m = be32 n" "m \<le> NAME_BYTE_CEILING" "n \<le> NAME_BYTE_CEILING"
  shows "m = n"
proof -
  have "m mod 256 = n mod 256" "m div 256 mod 256 = n div 256 mod 256"
    using assms(1) by (simp_all add: be32_def char_of_eq_iff of_char_of take_bit_eq_mod)
  moreover have "m div 256 < 256" "n div 256 < 256"
    using assms(2,3) by (simp_all add: NAME_BYTE_CEILING_def div_less_iff_less_mult)
  ultimately have "m div 256 = n div 256" by simp
  then show ?thesis
    using \<open>m mod 256 = n mod 256\<close> by (metis div_mult_mod_eq)
qed

definition item_ok :: "string \<times> char \<times> string \<Rightarrow> bool" where
  "item_ok i \<longleftrightarrow> name_ok (fst i) \<and> length (snd (snd i)) = 32"

lemma encode_entry_split:
  assumes "encode_entry a @ s = encode_entry b @ t" "item_ok a" "item_ok b"
  shows "a = b \<and> s = t"
proof -
  obtain n m d where a: "a = (n, m, d)" by (cases a) auto
  obtain n' m' d' where b: "b = (n', m', d')" by (cases b) auto
  have e: "be32 (length n) @ (n @ m # d @ s) = be32 (length n') @ (n' @ m' # d' @ t)"
    using assms(1) by (simp add: a b encode_entry_def)
  moreover have "length (be32 k) = 4" for k by (simp add: be32_def)
  ultimately have "be32 (length n) = be32 (length n')" "n @ m # d @ s = n' @ m' # d' @ t"
    using append_eq_append_conv by metis+
  moreover from this(1) have "length n = length n'"
    using assms(2,3) by (intro be32_inj) (auto simp: a b item_ok_def name_ok_def)
  ultimately have "n = n'" "m = m'" "d @ s = d' @ t" by auto
  moreover have "length d = length d'" using assms(2,3) by (simp add: a b item_ok_def)
  ultimately show ?thesis by (simp add: a b)
qed

lemma encode_items_inj:
  "concat (map encode_entry xs) = concat (map encode_entry ys) \<Longrightarrow>
   list_all item_ok xs \<Longrightarrow> list_all item_ok ys \<Longrightarrow> xs = ys"
proof (induction xs arbitrary: ys)
  case Nil
  then show ?case by (cases ys) (auto simp: encode_entry_def be32_def)
next
  case (Cons x xs)
  then obtain y ys' where ys: "ys = y # ys'" by (cases ys) (auto simp: encode_entry_def be32_def)
  with Cons.prems have "x = y \<and> concat (map encode_entry xs) = concat (map encode_entry ys')"
    by (intro encode_entry_split) auto
  then show ?case using Cons ys by auto
qed

lemma node_items_ok:
  assumes "\<forall>x. length (H x) = 32" "node_ok n"
  shows "list_all item_ok (node_items H n)"
proof (cases n)
  case (DagNode blobs subdirs)
  then show ?thesis
    using assms by (auto simp: node_items_def2 list_all_iff item_ok_def)
qed

lemma node_text_inj:
  assumes "node_text H a = node_text H b" "\<forall>x. length (H x) = 32" "node_ok a" "node_ok b"
  shows "items_at H a k = items_at H b k"
proof -
  have "list_all item_ok (sort_key fst (node_items H n))" if "node_ok n" for n
    using node_items_ok [OF assms(2) that] by (simp add: list_all_iff)
  then have "sort_key fst (node_items H a) = sort_key fst (node_items H b)"
    using assms by (intro encode_items_inj) (simp_all add: node_text_def)
  then show ?thesis using items_eq_iff [OF assms(3,4)] by blast
qed

subsection \<open>Equal digests are equal files\<close>

lemma no_items_at: "node_ok n \<Longrightarrow> (\<forall>k. items_at H n k = []) \<longleftrightarrow> node_items H n = []"
proof -
  have "(\<forall>k. filter (\<lambda>i. fst i = k) xs = []) \<longleftrightarrow> xs = []" for xs :: "('a \<times> 'b) list"
    by (cases xs) auto
  then show "node_ok n \<Longrightarrow> (\<forall>k. items_at H n k = []) \<longleftrightarrow> node_items H n = []"
    by (simp flip: filter_items)
qed

lemma no_items_iff:
  "node_ok n \<Longrightarrow> node_items H n = [] \<longleftrightarrow> node_files n = Map.empty"
proof (induction n)
  case (DagNode blobs subdirs)
  have sub: "node_items H (snd d) = [] \<longleftrightarrow> node_files (snd d) = Map.empty" if "d \<in> set subdirs" for d
    using that DagNode.prems by (intro DagNode.IH [OF that]) (auto simp: snds.simps list_all_iff)
  have map_sub: "map_of subdirs k = Some s \<Longrightarrow> node_items H s = [] \<longleftrightarrow> node_files s = Map.empty" for k s
    using sub by (force dest: map_of_SomeD)
  show ?case
  proof
    assume "node_items H (DagNode blobs subdirs) = []"
    then have e: "items_at H (DagNode blobs subdirs) k = []" for k
      using no_items_at [OF DagNode.prems, of H] by simp
    have b: "map_of blobs k = None" for k
      using e [of k] by (auto simp: items_at_def split: option.splits)
    have s: "node_files s = Map.empty" if "map_of subdirs k = Some s" for k s
      using e [of k] that map_sub [OF that] by (auto simp: items_at_def split: option.splits if_splits)
    show "node_files (DagNode blobs subdirs) = Map.empty"
    proof
      fix ps show "node_files (DagNode blobs subdirs) ps = None"
        by (cases "(DagNode blobs subdirs, ps)" rule: node_files.cases) (auto simp: b s split: option.splits)
    qed
  next
    assume f: "node_files (DagNode blobs subdirs) = Map.empty"
    have "map_of blobs k = None" for k using fun_cong [OF f, of "[k]"] by simp
    moreover have "node_files s = Map.empty" if "map_of subdirs k = Some s" for k s
    proof
      fix ps show "node_files s ps = None"
        using fun_cong [OF f, of "k # ps"] that by (cases ps) auto
    qed
    ultimately have "items_at H (DagNode blobs subdirs) k = []" for k
      using map_sub by (auto simp: items_at_def split: option.splits)
    then show "node_items H (DagNode blobs subdirs) = []"
      using no_items_at [OF DagNode.prems, of H] by simp
  qed
qed

text \<open>The files below a name, and how the files of a node are put together from them.\<close>

definition files_at :: "dag_node \<Rightarrow> string \<Rightarrow> string list \<Rightarrow> (char \<times> string) option" where
  "files_at n k = (case map_of (dn_subdirs n) k of None \<Rightarrow> Map.empty | Some s \<Rightarrow> node_files s)"

lemma node_files_eq_iff:
  "node_files a = node_files b \<longleftrightarrow>
     (\<forall>k. map_of (dn_blobs a) k = map_of (dn_blobs b) k \<and> files_at a k = files_at b k)"
proof
  assume e: "node_files a = node_files b"
  have blob: "map_of (dn_blobs n) k = node_files n [k]" for n k by (cases n) simp
  have sub: "files_at n k ps = (if ps = [] then None else node_files n (k # ps))" for n k ps
    by (cases n; cases ps) (auto simp: files_at_def split: option.splits)
  show "\<forall>k. map_of (dn_blobs a) k = map_of (dn_blobs b) k \<and> files_at a k = files_at b k"
    by (auto simp: blob sub e fun_eq_iff)
next
  assume e: "\<forall>k. map_of (dn_blobs a) k = map_of (dn_blobs b) k \<and> files_at a k = files_at b k"
  have at: "node_files n ps = (case ps of [] \<Rightarrow> None | [x] \<Rightarrow> map_of (dn_blobs n) x
      | x # y # r \<Rightarrow> files_at n x (y # r))" for n ps
    by (cases "(n, ps)" rule: node_files.cases) (auto simp: files_at_def split: option.splits)
  show "node_files a = node_files b"
    by (rule ext) (simp add: at e split: list.splits)
qed


lemma items_at_parts:
  "node_ok n \<Longrightarrow>
   filter (\<lambda>i. fst (snd i) \<noteq> MODE_TREE) (items_at H n k) =
     (case map_of (dn_blobs n) k of None \<Rightarrow> [] | Some b \<Rightarrow> [(k, fst b, H (snd b))])"
  "node_ok n \<Longrightarrow>
   filter (\<lambda>i. fst (snd i) = MODE_TREE) (items_at H n k) =
     (case map_of (dn_subdirs n) k of None \<Rightarrow> []
      | Some s \<Rightarrow> if node_items H s = [] then [] else [(k, MODE_TREE, H (node_text H s))])"
proof -
  have "fst b \<noteq> MODE_TREE" if "node_ok n" "map_of (dn_blobs n) k = Some b" for b
    using that by (cases n) (auto dest: map_of_in_list_all)
  then show
    "node_ok n \<Longrightarrow>
     filter (\<lambda>i. fst (snd i) \<noteq> MODE_TREE) (items_at H n k) =
       (case map_of (dn_blobs n) k of None \<Rightarrow> [] | Some b \<Rightarrow> [(k, fst b, H (snd b))])"
    "node_ok n \<Longrightarrow>
     filter (\<lambda>i. fst (snd i) = MODE_TREE) (items_at H n k) =
       (case map_of (dn_subdirs n) k of None \<Rightarrow> []
        | Some s \<Rightarrow> if node_items H s = [] then [] else [(k, MODE_TREE, H (node_text H s))])"
    by (auto simp: items_at_def split: option.splits)
qed

lemma hashed_here: "node_text H n \<in> hashed H n"
  by (cases n) simp

lemma hashed_blob: "map_of (dn_blobs n) k = Some b \<Longrightarrow> snd b \<in> hashed H n"
  by (cases n) (force dest!: map_of_SomeD simp: image_iff)

lemma hashed_sub: "map_of (dn_subdirs n) k = Some s \<Longrightarrow> hashed H s \<subseteq> hashed H n"
  by (cases n) (force dest!: map_of_SomeD)

lemma sub_ok: "node_ok n \<Longrightarrow> map_of (dn_subdirs n) k = Some s \<Longrightarrow> node_ok s"
  by (cases n) (auto dest: map_of_in_list_all)

text \<open>Equal files give equal hashed texts, whatever the hash is.\<close>

lemma files_determine_text:
  "node_files a = node_files b \<Longrightarrow> node_ok a \<Longrightarrow> node_ok b \<Longrightarrow> node_text H a = node_text H b"
proof (induction a arbitrary: b)
  case (DagNode blobs subdirs)
  let ?a = "DagNode blobs subdirs"
  have e: "map_of (dn_blobs ?a) k = map_of (dn_blobs b) k" "files_at ?a k = files_at b k" for k
    using DagNode.prems(1) unfolding node_files_eq_iff by blast+
  have "items_at H ?a k = items_at H b k" for k
  proof -
    have tree: "node_text H s = node_text H t"
      if s: "map_of subdirs k = Some s" and t: "map_of (dn_subdirs b) k = Some t" and st: "node_files s = node_files t" for s t
    proof (rule DagNode.IH [OF map_of_SomeD [OF s] _ st])
      show "s \<in> Basic_BNFs.snds (k, s)" by (simp add: snds.simps)
      show "node_ok s" using sub_ok [OF DagNode.prems(2), of k] s by simp
      show "node_ok t" by (rule sub_ok [OF DagNode.prems(3) t])
    qed
    have none: "node_items H s = [] \<longleftrightarrow> node_files s = Map.empty" if "map_of (dn_subdirs n) k = Some s" "node_ok n" for s n
      by (rule no_items_iff [OF sub_ok [OF that(2,1)]])
    show ?thesis
      using e(1) [of k] e(2) [of k] none [OF _ DagNode.prems(2)] none [OF _ DagNode.prems(3)] tree
      by (auto simp: items_at_def files_at_def split: option.splits)
  qed
  then have "sort_key fst (node_items H ?a) = sort_key fst (node_items H b)"
    using items_eq_iff [OF DagNode.prems(2,3)] by blast
  then show ?case by (simp add: node_text_def)
qed

lemma text_determines_files:
  "node_text H a = node_text H b \<Longrightarrow> node_ok a \<Longrightarrow> node_ok b \<Longrightarrow> \<forall>x. length (H x) = 32 \<Longrightarrow>
   inj_on H (hashed H a \<union> hashed H b) \<Longrightarrow> node_files a = node_files b"
proof (induction a arbitrary: b)
  case (DagNode blobs subdirs)
  let ?a = "DagNode blobs subdirs"
  have items: "items_at H ?a k = items_at H b k" for k
    by (rule node_text_inj [OF DagNode.prems(1,4,2,3)])
  show ?case
    unfolding node_files_eq_iff
  proof (intro allI conjI)
    fix k
    have inj: "x = y" if "H x = H y" "x \<in> hashed H ?a" "y \<in> hashed H b" for x y
      using inj_onD [OF DagNode.prems(5) that(1)] that(2,3) by blast
    have "(case map_of (dn_blobs ?a) k of None \<Rightarrow> [] | Some b \<Rightarrow> [(k, fst b, H (snd b))]) =
        (case map_of (dn_blobs b) k of None \<Rightarrow> [] | Some b \<Rightarrow> [(k, fst b, H (snd b))])"
      by (simp only: items flip: items_at_parts(1) [OF DagNode.prems(2)] items_at_parts(1) [OF DagNode.prems(3)])
    then show "map_of (dn_blobs ?a) k = map_of (dn_blobs b) k"
      using inj hashed_blob [of ?a k] hashed_blob [of b k]
      by (auto split: option.splits simp: prod_eq_iff)
    let ?tree = "\<lambda>n. case map_of (dn_subdirs n) k of None \<Rightarrow> []
      | Some s \<Rightarrow> if node_items H s = [] then [] else [(k, MODE_TREE, H (node_text H s))]"
    have tree: "?tree ?a = ?tree b"
      by (simp only: items flip: items_at_parts(2) [OF DagNode.prems(2)] items_at_parts(2) [OF DagNode.prems(3)])
    have empty: "?tree n = [] \<longleftrightarrow> files_at n k = Map.empty" if "node_ok n" for n
    proof (cases "map_of (dn_subdirs n) k")
      case (Some s)
      then show ?thesis using no_items_iff [OF sub_ok [OF that Some]] by (simp add: files_at_def)
    qed (simp add: files_at_def)
    have one: "\<exists>s. map_of (dn_subdirs n) k = Some s \<and> ?tree n = [(k, MODE_TREE, H (node_text H s))]"
      if "?tree n \<noteq> []" for n
      using that by (auto split: option.splits if_splits)
    have both: "node_files s = node_files t"
      if s: "map_of (dn_subdirs ?a) k = Some s" and t: "map_of (dn_subdirs b) k = Some t"
        and st: "H (node_text H s) = H (node_text H t)" for s t
    proof (rule DagNode.IH)
      show "(k, s) \<in> set subdirs" using s by (simp add: map_of_SomeD)
      show "s \<in> Basic_BNFs.snds (k, s)" by (simp add: snds.simps)
      show "node_ok s" "node_ok t" using sub_ok [OF DagNode.prems(2) s] sub_ok [OF DagNode.prems(3) t] .
      have sub: "hashed H s \<subseteq> hashed H ?a" "hashed H t \<subseteq> hashed H b"
        using hashed_sub [OF s] hashed_sub [OF t] .
      then show "node_text H s = node_text H t" using inj [OF st] hashed_here by blast
      show "inj_on H (hashed H s \<union> hashed H t)"
        by (rule inj_on_subset [OF DagNode.prems(5) Un_mono [OF sub]])
    qed fact
    show "files_at ?a k = files_at b k"
    proof (cases "?tree ?a = []")
      case True
      then show ?thesis
        using empty [OF DagNode.prems(2)] empty [OF DagNode.prems(3)] tree by simp
    next
      case False
      with tree have "?tree b \<noteq> []" by simp
      obtain s where s: "map_of (dn_subdirs ?a) k = Some s" "?tree ?a = [(k, MODE_TREE, H (node_text H s))]"
        using one [OF False] by blast
      obtain t where t: "map_of (dn_subdirs b) k = Some t" "?tree b = [(k, MODE_TREE, H (node_text H t))]"
        using one [OF \<open>?tree b \<noteq> []\<close>] by blast
      have "H (node_text H s) = H (node_text H t)" using tree s(2) t(2) by simp
      from both [OF s(1) t(1) this] show ?thesis
        using s(1) t(1) by (simp add: files_at_def)
    qed
  qed
qed

subsection \<open>From entries to nodes\<close>

definition blob_entry :: "materialized_entry \<Rightarrow> bool" where
  "blob_entry e \<longleftrightarrow> me_mode_byte e \<in> {MODE_REGULAR, MODE_EXECUTABLE, MODE_SYMLINK}"

text \<open>The paths that are too long somewhere.\<close>

definition names_ok :: "materialized_entry \<Rightarrow> bool" where
  "names_ok e \<longleftrightarrow> excluded (me_relpath e) \<or> list_all name_ok (split_on CHR ''/'' (me_relpath e))"

text \<open>The texts that are hashed when the identity of a list of entries is computed.\<close>

definition hashed_texts :: "(string \<Rightarrow> string) \<Rightarrow> materialized_entry list \<Rightarrow> string set" where
  "hashed_texts H entries =
     (case rfold add_entry empty_node entries of Inl e \<Rightarrow> {} | Inr root \<Rightarrow> hashed H root)"

lemma blob_mode: "blob_entry e \<Longrightarrow> me_mode_byte e \<noteq> MODE_TREE"
  by (auto simp: blob_entry_def MODE_REGULAR_def MODE_EXECUTABLE_def MODE_SYMLINK_def MODE_TREE_def)

lemma files_snoc:
  "files (es @ [e]) =
     (if excluded (me_relpath e) then files es else (files es)(me_relpath e \<mapsto> (me_mode_byte e, me_content e)))"
  by (simp add: files_def)

text \<open>The node that the entries build holds exactly their files.\<close>

lemma build_node:
  assumes "list_all blob_entry es" "rfold add_entry empty_node es = Inr n"
  shows "node_ok n \<and> (\<forall>p. node_files n (split_on CHR ''/'' p) = files es p) \<and>
    (\<forall>ps. node_files n ps \<noteq> None \<longrightarrow> ps \<in> range (split_on CHR ''/''))"
  using assms
proof (induction es arbitrary: n rule: rev_induct)
  case Nil
  then show ?case by (auto simp: files_def)
next
  case (snoc e es)
  from snoc.prems obtain m where m: "rfold add_entry empty_node es = Inr m" "add_entry m e = Inr n"
    by (auto simp: rfold_snoc rbind_Inr)
  note IH = snoc.IH [OF _ m(1)]
  show ?case
  proof (cases "excluded (me_relpath e)")
    case True
    with IH m(2) snoc.prems(1) show ?thesis by (simp add: add_entry_def files_snoc)
  next
    case False
    with m(2) have i: "dag_insert m (split_on CHR ''/'' (me_relpath e)) (me_mode_byte e) (me_content e) = Inr n"
      by (simp add: add_entry_def)
    have "node_ok n \<and> node_files n = (node_files m)(split_on CHR ''/'' (me_relpath e) \<mapsto> (me_mode_byte e, me_content e))"
      using IH snoc.prems(1) blob_mode [of e] by (intro insert_ok [OF i]) auto
    with IH snoc.prems(1) False show ?thesis by (auto simp: files_snoc split_on_inj)
  qed
qed

lemma build_node_iff:
  "list_all blob_entry es \<Longrightarrow> (\<exists>n. rfold add_entry empty_node es = Inr n) \<longleftrightarrow> list_all names_ok es"
proof (induction es rule: rev_induct)
  case (snoc e es)
  show ?case
  proof (cases "rfold add_entry empty_node es")
    case (Inl x)
    then show ?thesis using snoc by (auto simp: rfold_snoc)
  next
    case (Inr m)
    have es: "list_all blob_entry es" using snoc.prems by simp
    then have "node_ok m" using build_node [OF es Inr] by blast
    then have "(\<exists>n. add_entry m e = Inr n) \<longleftrightarrow> names_ok e"
      by (simp add: add_entry_def names_ok_def insert_err(1))
    moreover have "list_all names_ok es" using snoc.IH [OF es] Inr by blast
    ultimately show ?thesis using Inr by (simp add: rfold_snoc)
  qed
qed simp

lemma add_entry_err: "add_entry n e = Inl x \<Longrightarrow> x = ''ID-NAME-TOO-LONG''"
  using insert_err(2) [OF split_on_not_Nil] by (auto simp: add_entry_def split: if_splits)

lemma build_err: "rfold add_entry n es = Inl x \<Longrightarrow> x = ''ID-NAME-TOO-LONG''"
proof (induction es arbitrary: n)
  case (Cons e es)
  then show ?case
    using add_entry_err [of n e x] by (cases "add_entry n e") auto
qed simp

lemma compute_total:
  assumes "list_all blob_entry es"
  shows "compute_dag_identity H es =
    (case rfold add_entry empty_node es of
       Inl e \<Rightarrow> Inl e
     | Inr n \<Rightarrow> Inr (''dag-sha256:'' @ hex_lower (H (node_text H n))))"
  using assms build_node hash_tree_total
  by (fastforce simp: compute_dag_identity_def rbind_def split: sum.splits)

lemma nodes_same_files:
  assumes "list_all blob_entry es" "rfold add_entry empty_node es = Inr m"
    and "list_all blob_entry fs" "rfold add_entry empty_node fs = Inr n"
  shows "node_files m = node_files n \<longleftrightarrow> files es = files fs"
proof
  assume "node_files m = node_files n"
  then show "files es = files fs"
    using build_node [OF assms(1,2)] build_node [OF assms(3,4)] by (metis ext)
next
  assume f: "files es = files fs"
  show "node_files m = node_files n"
  proof
    fix ps
    show "node_files m ps = node_files n ps"
    proof (cases "ps \<in> range (split_on CHR ''/'')")
      case True
      then show ?thesis
        using build_node [OF assms(1,2)] build_node [OF assms(3,4)] f by auto
    next
      case False
      then show ?thesis using build_node [OF assms(1,2)] build_node [OF assms(3,4)] by metis
    qed
  qed
qed

subsection \<open>Hexadecimal texts\<close>

lemma byte_hex_digit: "d < 16 \<Longrightarrow> byte (hex_digit d) = (if d < 10 then 48 + d else 87 + d)"
  by (simp add: hex_digit_def)

lemma hex_digit_inj: "d < 16 \<Longrightarrow> e < 16 \<Longrightarrow> hex_digit d = hex_digit e \<longleftrightarrow> d = e"
proof
  assume b: "d < 16" "e < 16" and eq: "hex_digit d = hex_digit e"
  have "byte (hex_digit d) = byte (hex_digit e)" using eq by simp
  then show "d = e" using b by (auto simp: byte_hex_digit split: if_splits)
qed simp

lemma hex_lower_simps [simp]:
  "hex_lower [] = []"
  "hex_lower (b # bs) = hex_digit (byte b div 16) # hex_digit (byte b mod 16) # hex_lower bs"
  by (simp_all add: hex_lower_def)

lemma nibbles: "byte (b :: char) div 16 < 16" "byte (b :: char) mod 16 < 16"
proof -
  have "byte b < 16 * 16" by simp
  then show "byte b div 16 < 16" by (simp only: less_mult_imp_div_less)
qed simp

lemma hex_lower_inj: "hex_lower a = hex_lower b \<longleftrightarrow> a = b"
proof (induction a arbitrary: b)
  case Nil
  then show ?case by (cases b) auto
next
  case (Cons x xs)
  have "byte x div 16 = byte z div 16 \<and> byte x mod 16 = byte z mod 16 \<longleftrightarrow> x = z" for z
    by (metis div_mult_mod_eq of_char_eq_iff)
  then show ?case using Cons nibbles by (cases b) (auto simp: hex_digit_inj)
qed

lemma length_hex_lower [simp]: "length (hex_lower bs) = 2 * length bs"
  by (induction bs) auto

lemma hex_lower_hex: "list_all is_lower_hex (hex_lower bs)"
proof (induction bs)
  case (Cons b bs)
  have "is_lower_hex (hex_digit d)" if "d < 16" for d
    using that by (simp add: is_lower_hex_def is_digit_def byte_hex_digit)
  then show ?case using Cons nibbles [of b] by simp
qed simp


subsection \<open>The files of a tree on disk\<close>

text \<open>What is at a path of a tree: the mode byte and the hashed content.\<close>

fun tree_file :: "fs_node \<Rightarrow> string list \<Rightarrow> (char \<times> string) option" where
  "tree_file (FFile executable content) [] =
     Some (if executable then MODE_EXECUTABLE else MODE_REGULAR, content)"
| "tree_file (FSymlink target) [] = Some (MODE_SYMLINK, target)"
| "tree_file (FDir children) (name # rest) =
     (if name = ''.git'' then None
      else case map_of children name of None \<Rightarrow> None | Some child \<Rightarrow> tree_file child rest)"
| "tree_file _ _ = None"

definition component :: "string \<Rightarrow> bool" where
  "component name \<longleftrightarrow> name \<noteq> [] \<and> CHR ''/'' \<notin> set name"

text \<open>A directory has no two children of one name, and names are single path components.\<close>

fun fs_ok :: "fs_node \<Rightarrow> bool" where
  "fs_ok (FDir children) \<longleftrightarrow>
     distinct (map fst children) \<and> list_all (\<lambda>c. component (fst c)) children \<and>
     list_all (\<lambda>c. fs_ok (snd c)) children"
| "fs_ok _ \<longleftrightarrow> True"

definition below :: "string \<Rightarrow> string list \<Rightarrow> string" where
  "below path ps = join ''/'' ((if path = [] then [] else [path]) @ ps)"

lemma below_Cons: "name \<noteq> [] \<Longrightarrow> below (join_path path name) ps = below path (name # ps)"
proof (cases ps)
  case (Cons q qs)
  then show "name \<noteq> [] \<Longrightarrow> below (join_path path name) ps = below path (name # ps)"
    by (cases "path = []") (simp_all add: below_def join_path_def)
qed (simp add: below_def join_path_def)

lemma tree_file_components:
  "tree_file t ps = Some v \<Longrightarrow> fs_ok t \<Longrightarrow> list_all component ps \<and> ''.git'' \<notin> set ps"
proof (induction t ps rule: tree_file.induct)
  case (3 children name rest)
  then obtain child where c: "map_of children name = Some child" "tree_file child rest = Some v" "name \<noteq> ''.git''"
    by (auto split: if_splits option.splits)
  with "3.prems"(2) have "component name" "fs_ok child" by (auto dest: map_of_in_list_all)
  with "3.IH" [OF c(3,1,2)] c(3) show ?case by auto
qed auto

lemma walk_entries:
  "walk utf8 path t = Inr es \<Longrightarrow> fs_ok t \<Longrightarrow>
   e \<in> set es \<longleftrightarrow> (\<exists>ps. me_relpath e = below path ps \<and>
     tree_file t ps = Some (me_mode_byte e, me_content e))"
proof (induction t arbitrary: path es)
  case (FDir children)
  let ?f = "\<lambda>(name, child).
         if name = ''.git'' then Inr []
         else if \<not> utf8 (join_path path name) then Inl ''ID-NON-UTF8-RELPATH''
         else case child of
           FSymlink target \<Rightarrow>
             if utf8 target
             then Inr [\<lparr>me_relpath = join_path path name, me_mode_byte = MODE_SYMLINK, me_content = target\<rparr>]
             else Inl ''ID-NON-UTF8-SYMLINK-TARGET''
         | FDir _ \<Rightarrow> walk utf8 (join_path path name) child
         | FFile executable content \<Rightarrow>
             Inr [\<lparr>me_relpath = join_path path name,
               me_mode_byte = (if executable then MODE_EXECUTABLE else MODE_REGULAR), me_content = content\<rparr>]
         | FOther \<Rightarrow> Inr []"
  obtain ys where ys: "rmap ?f (sort_key fst children) = Inr ys" "es = concat ys"
    using FDir.prems(1) by (auto simp: rbind_Inr)
  have dist: "distinct (map fst children)" using FDir.prems(2) by simp
  have one: "e \<in> set y \<longleftrightarrow> name \<noteq> ''.git'' \<and> (\<exists>qs. me_relpath e = below path (name # qs) \<and>
      tree_file child qs = Some (me_mode_byte e, me_content e))"
    if c: "(name, child) \<in> set children" and y: "?f (name, child) = Inr y" for name child y
  proof -
    have ok: "name \<noteq> []" "fs_ok child" using FDir.prems(2) c by (auto simp: list_all_iff component_def)
    have at: "below path [name] = join_path path name" by (simp add: below_def join_path_def)
    have eta: "e = \<lparr>me_relpath = p, me_mode_byte = m, me_content = x\<rparr> \<longleftrightarrow>
        me_relpath e = p \<and> me_mode_byte e = m \<and> me_content e = x" for p m x
      by (cases e) auto
    have leaf: "(\<exists>qs. me_relpath e = below path (name # qs) \<and> tree_file child qs = Some v) \<longleftrightarrow>
        me_relpath e = join_path path name \<and> tree_file child [] = Some v"
      if "\<And>q qs. tree_file child (q # qs) = None" for v
      using that at by (metis list.exhaust option.distinct(1))
    show ?thesis
    proof (cases child)
      case (FDir cs)
      have "e \<in> set y \<longleftrightarrow> (\<exists>ps. me_relpath e = below (join_path path name) ps \<and>
          tree_file child ps = Some (me_mode_byte e, me_content e))" if "name \<noteq> ''.git''"
        using y that FDir ok(2) by (intro FDir.IH [OF c]) (auto simp: snds.simps split: if_splits)
      then show ?thesis using y ok(1) by (cases "name = ''.git''") (auto simp: below_Cons)
    qed (use y leaf in \<open>auto simp: eta split: if_splits\<close>)
  qed
  let ?Q = "\<lambda>x. fst x \<noteq> ''.git'' \<and> (\<exists>qs. me_relpath e = below path (fst x # qs) \<and>
      tree_file (snd x) qs = Some (me_mode_byte e, me_content e))"
  have "e \<in> set es \<longleftrightarrow> (\<exists>x \<in> set (sort_key fst children). ?Q x)"
    unfolding ys(2)
  proof (rule rmap_concat_iff [OF ys(1)])
    fix x y assume x: "x \<in> set (sort_key fst children)" "?f x = Inr y"
    have "(fst x, snd x) \<in> set children" using x(1) by simp
    moreover have "?f (fst x, snd x) = Inr y" using x(2) by simp
    ultimately show "e \<in> set y \<longleftrightarrow> ?Q x" by (rule one)
  qed
  also have "\<dots> \<longleftrightarrow> (\<exists>ps. me_relpath e = below path ps \<and>
      tree_file (FDir children) ps = Some (me_mode_byte e, me_content e))" (is "?l \<longleftrightarrow> ?r")
  proof
    assume ?l
    then obtain name child qs where "(name, child) \<in> set children" "name \<noteq> ''.git''"
        "me_relpath e = below path (name # qs)" "tree_file child qs = Some (me_mode_byte e, me_content e)"
      by (simp only: set_sort) force
    then have "tree_file (FDir children) (name # qs) = Some (me_mode_byte e, me_content e)"
      using dist by simp
    with \<open>me_relpath e = _\<close> show ?r by blast
  next
    assume ?r
    then obtain ps where ps: "me_relpath e = below path ps" "tree_file (FDir children) ps = Some (me_mode_byte e, me_content e)" by blast
    then obtain name qs where "ps = name # qs" by (cases ps) auto
    with ps show ?l by (force split: if_splits option.splits dest!: map_of_SomeD)
  qed
  finally show ?case .
qed simp_all


lemma walk_blob_entries: "walk utf8 path t = Inr es \<Longrightarrow> fs_ok t \<Longrightarrow> list_all blob_entry es"
proof -
  assume a: "walk utf8 path t = Inr es" "fs_ok t"
  have "tree_file t ps = Some (m, c) \<Longrightarrow> m \<in> {MODE_REGULAR, MODE_EXECUTABLE, MODE_SYMLINK}" for t ps m c
    by (induction t ps rule: tree_file.induct) (auto split: if_splits option.splits)
  then have "blob_entry e" if "e \<in> set es" for e
    using that unfolding walk_entries [OF a] blob_entry_def by blast
  then show ?thesis by (simp add: list_all_iff)
qed

lemma below_root: "list_all component ps \<Longrightarrow> ps \<noteq> [] \<Longrightarrow> split_on CHR ''/'' (below [] ps) = ps"
  by (simp add: below_def split_on_join list_all_iff component_def)

lemma files_iff:
  assumes "\<And>e. e \<in> set es \<Longrightarrow> \<not> excluded (me_relpath e)"
    and "\<And>e e'. e \<in> set es \<Longrightarrow> e' \<in> set es \<Longrightarrow> me_relpath e = me_relpath e' \<Longrightarrow>
      (me_mode_byte e, me_content e) = (me_mode_byte e', me_content e')"
  shows "files es p = Some v \<longleftrightarrow> (\<exists>e \<in> set es. me_relpath e = p \<and> (me_mode_byte e, me_content e) = v)"
  using assms
proof (induction es rule: rev_induct)
  case Nil
  then show ?case by (simp add: files_def)
next
  case (snoc x es)
  have "files es p = Some v \<longleftrightarrow> (\<exists>e \<in> set es. me_relpath e = p \<and> (me_mode_byte e, me_content e) = v)"
    by (rule snoc.IH; rule snoc.prems) simp_all
  moreover have "\<not> excluded (me_relpath x)" using snoc.prems(1) by simp
  moreover have "(me_mode_byte e, me_content e) = (me_mode_byte x, me_content x)"
    if "e \<in> set es" "me_relpath e = me_relpath x" for e
    using that by (intro snoc.prems(2)) auto
  ultimately show ?case by (auto simp: files_snoc)
qed

text \<open>The walk yields the files of the tree.\<close>

lemma walk_files:
  assumes "walk utf8 [] t = Inr es" "fs_ok t"
  shows "files es p = tree_file t (split_on CHR ''/'' p)"
proof -
  have root: "tree_file t [] = None" using assms(1) by (cases t) auto
  have entry: "list_all component ps \<and> ''.git'' \<notin> set ps \<and> ps \<noteq> []" if "tree_file t ps = Some v" for ps v
    using tree_file_components [OF that assms(2)] that root by auto
  have path: "split_on CHR ''/'' (below [] ps) = ps" if "tree_file t ps = Some v" for ps v
    using entry [OF that] below_root by blast
  have at: "e \<in> set es \<longleftrightarrow> tree_file t (split_on CHR ''/'' (me_relpath e)) = Some (me_mode_byte e, me_content e)" for e
  proof -
    have "me_relpath e = below [] (split_on CHR ''/'' (me_relpath e))" by (simp add: below_def)
    then show ?thesis unfolding walk_entries [OF assms] using path by metis
  qed
  have "files es p = Some v \<longleftrightarrow> (\<exists>e \<in> set es. me_relpath e = p \<and> (me_mode_byte e, me_content e) = v)" for v
  proof (rule files_iff)
    show "\<not> excluded (me_relpath e)" if "e \<in> set es" for e
      using that entry unfolding at excluded_def GIT_COMPONENT_def by blast
    show "(me_mode_byte e, me_content e) = (me_mode_byte e', me_content e')"
      if "e \<in> set es" "e' \<in> set es" "me_relpath e = me_relpath e'" for e e'
      using that unfolding at by auto
  qed
  moreover have "(\<exists>e \<in> set es. me_relpath e = p \<and> (me_mode_byte e, me_content e) = v) \<longleftrightarrow>
      tree_file t (split_on CHR ''/'' p) = Some v" for v
  proof
    assume "tree_file t (split_on CHR ''/'' p) = Some v"
    then have "\<lparr>me_relpath = p, me_mode_byte = fst v, me_content = snd v\<rparr> \<in> set es" by (simp add: at)
    then show "\<exists>e \<in> set es. me_relpath e = p \<and> (me_mode_byte e, me_content e) = v" by force
  qed (auto simp: at)
  ultimately have "files es p = Some v \<longleftrightarrow> tree_file t (split_on CHR ''/'' p) = Some v" for v by simp
  then show ?thesis by (rule option_eqI)
qed

subsection \<open>Properties\<close>

lemma identity_eq_iff:
  assumes "compute_dag_identity H es = Inr s" "compute_dag_identity H fs = Inr t"
    and "list_all blob_entry es" "list_all blob_entry fs"
    and "\<forall>x. length (H x) = 32" "inj_on H (hashed_texts H es \<union> hashed_texts H fs)"
  shows "s = t \<longleftrightarrow> files es = files fs"
proof -
  obtain m where m: "rfold add_entry empty_node es = Inr m" "s = ''dag-sha256:'' @ hex_lower (H (node_text H m))"
    using assms(1) compute_total [OF assms(3), of H] by (auto split: sum.splits)
  obtain n where n: "rfold add_entry empty_node fs = Inr n" "t = ''dag-sha256:'' @ hex_lower (H (node_text H n))"
    using assms(2) compute_total [OF assms(4), of H] by (auto split: sum.splits)
  have inj: "inj_on H (hashed H m \<union> hashed H n)" using assms(6) by (simp add: hashed_texts_def m n)
  have ok: "node_ok m" "node_ok n" using build_node assms(3,4) m(1) n(1) by blast+
  have "s = t \<longleftrightarrow> H (node_text H m) = H (node_text H n)" by (simp add: m n hex_lower_inj)
  also have "\<dots> \<longleftrightarrow> node_text H m = node_text H n"
    using inj_on_eq_iff [OF inj, of "node_text H m" "node_text H n"] hashed_here by blast
  also have "\<dots> \<longleftrightarrow> node_files m = node_files n"
    using text_determines_files [OF _ ok assms(5) inj] files_determine_text [OF _ ok] by blast
  also have "\<dots> \<longleftrightarrow> files es = files fs" by (rule nodes_same_files [OF assms(3) m(1) assms(4) n(1)])
  finally show ?thesis .
qed

text \<open>A hash that separates the short texts of the examples.\<close>

definition pad_hash :: "string \<Rightarrow> string" where
  "pad_hash x = take 32 (x @ replicate 32 (CHR 0x00))"

lemma length_pad_hash: "length (pad_hash x) = 32"
  by (simp add: pad_hash_def)

definition demo_entry :: "char \<Rightarrow> char \<Rightarrow> materialized_entry" where
  "demo_entry m c = \<lparr>me_relpath = ''a'', me_mode_byte = m, me_content = [c]\<rparr>"

definition demo_text :: "char \<Rightarrow> char \<Rightarrow> string" where
  "demo_text m c = be32 1 @ ''a'' @ m # pad_hash [c]"

lemma demo_node: "rfold add_entry empty_node [demo_entry m c] = Inr (DagNode [(''a'', m, [c])] [])"
  by (simp add: demo_entry_def add_entry_def excluded_def GIT_COMPONENT_def empty_node_def check_name_def NAME_BYTE_CEILING_def)

lemma demo_node_text: "node_text pad_hash (DagNode [(''a'', m, [c])] []) = demo_text m c"
  by (simp add: node_text_def node_items_def2 encode_entry_def demo_text_def)

lemma demo_identity:
  "compute_dag_identity pad_hash [demo_entry m c] = Inr (''dag-sha256:'' @ hex_lower (pad_hash (demo_text m c)))"
  unfolding compute_dag_identity_def demo_node
  by (simp add: check_name_def NAME_BYTE_CEILING_def demo_text_def encode_entry_def)

lemma demo_hashed: "hashed_texts pad_hash [demo_entry m c] = {demo_text m c, [c]}"
  unfolding hashed_texts_def demo_node by (auto simp: demo_node_text)

lemma demo_separated:
  assumes "c \<noteq> CHR 0x00" "c' \<noteq> CHR 0x00"
  shows "inj_on pad_hash {demo_text m c, [c], demo_text m' c', [c']}"
proof -
  have be: "be32 (Suc 0) = [CHR 0x00, CHR 0x00, CHR 0x00, char_of (1 :: nat)]" by (simp add: be32_def char_of_def)
  have nth: "pad_hash x ! i = (if i < length x then x ! i else CHR 0x00)" if "i < 32" for x i
    using that by (auto simp: pad_hash_def nth_append)
  have len: "length (demo_text m c) = 38" for m c by (simp add: demo_text_def be32_def length_pad_hash)
  have "pad_hash (demo_text m c) ! 0 = CHR 0x00" "pad_hash (demo_text m c) ! 5 = m" "pad_hash (demo_text m c) ! 6 = c"
      "pad_hash [c] ! 0 = c" for m c
    by (simp_all add: nth len) (simp_all add: demo_text_def be nth)
  then have ne: "pad_hash (demo_text m c) = pad_hash (demo_text m' c') \<Longrightarrow> m = m' \<and> c = c'"
      "pad_hash (demo_text m c) = pad_hash [c'] \<Longrightarrow> c' = CHR 0x00"
      "pad_hash [c] = pad_hash [c'] \<Longrightarrow> c = c'" for m c m' c'
    by metis+
  show ?thesis
    unfolding inj_on_def using assms ne(2) ne(2) [OF sym] by (auto dest: ne(1) ne(3))
qed

text \<open>
  C3. The content identity is exact.  Two materialized sequences have the same identity if and only
  if they say the same of every path outside \<^verbatim>\<open>.git\<close>: the order of the entries, repeated paths that
  are overwritten, and empty directories do not matter, and every byte of content, every mode byte and
  every name does.  The hash has to separate the finitely many texts that are hashed.
\<close>

theorem dag_identity_exact:
  assumes "compute_dag_identity H es = Inr s" "compute_dag_identity H fs = Inr t"
    and "list_all blob_entry es" "list_all blob_entry fs"
    and "\<forall>x. length (H x) = 32" "inj_on H (hashed_texts H es \<union> hashed_texts H fs)"
  shows "s = t \<longleftrightarrow> files es = files fs"
  by (rule identity_eq_iff [OF assms])

theorem dag_identity_exact_witness:
  "compute_dag_identity pad_hash [demo_entry MODE_REGULAR CHR ''x''] \<noteq>
   compute_dag_identity pad_hash [demo_entry MODE_REGULAR CHR ''y'']"
proof -
  have "inj_on pad_hash (hashed_texts pad_hash [demo_entry MODE_REGULAR CHR ''x''] \<union>
      hashed_texts pad_hash [demo_entry MODE_REGULAR CHR ''y''])"
    using demo_separated [of "CHR ''x''" "CHR ''y''" MODE_REGULAR MODE_REGULAR]
    by (simp only: demo_hashed) (simp add: insert_commute)
  moreover have "list_all blob_entry [demo_entry MODE_REGULAR c]" for c by (simp add: blob_entry_def demo_entry_def)
  moreover have "files [demo_entry MODE_REGULAR CHR ''x''] \<noteq> files [demo_entry MODE_REGULAR CHR ''y'']"
    by (auto simp: files_def excluded_def GIT_COMPONENT_def demo_entry_def dest: fun_cong [of _ _ "''a''"])
  ultimately show ?thesis
    using dag_identity_exact [OF demo_identity [of MODE_REGULAR "CHR ''x''"] demo_identity [of MODE_REGULAR "CHR ''y''"]]
      length_pad_hash by (simp add: demo_identity)
qed

text \<open>
  The identity of a sequence that is refused and of one that is accepted.  The only error is the
  name ceiling, raised exactly when a path outside \<^verbatim>\<open>.git\<close> has a component above 4096 bytes; every
  other result is a text that \<^verbatim>\<open>parse_identity\<close> accepts as a \<^verbatim>\<open>dag-sha256\<close> identity.
\<close>

theorem dag_identity_result:
  assumes "list_all blob_entry es" "\<forall>x. length (H x) = 32"
  shows "if list_all names_ok es
    then \<exists>d. compute_dag_identity H es = Inr (''dag-sha256:'' @ d) \<and>
      parse_identity (''dag-sha256:'' @ d) = Inr (''dag-sha256'', d)
    else compute_dag_identity H es = Inl ''ID-NAME-TOO-LONG''"
proof (cases "list_all names_ok es")
  case True
  then obtain n where n: "rfold add_entry empty_node es = Inr n" using build_node_iff [OF assms(1)] by blast
  let ?d = "hex_lower (H (node_text H n))"
  have "split_once CHR '':'' (''dag-sha256'' @ CHR '':'' # ?d) = Some (''dag-sha256'', ?d)"
    by (rule split_once_append) simp
  then have "parse_identity (''dag-sha256:'' @ ?d) = Inr (''dag-sha256'', ?d)"
    using assms(2) hex_lower_hex
    by (simp add: parse_identity_def split_identity_scheme_def SUPPORTED_ALGORITHMS_def)
  then show ?thesis using True n compute_total [OF assms(1), of H] by auto
next
  case False
  then obtain x where "rfold add_entry empty_node es = Inl x"
    using build_node_iff [OF assms(1)] by (cases "rfold add_entry empty_node es") auto
  then show ?thesis using False build_err compute_total [OF assms(1), of H] by auto
qed

theorem dag_identity_result_witness:
  "compute_dag_identity pad_hash
     [\<lparr>me_relpath = replicate 5000 CHR ''a'', me_mode_byte = MODE_REGULAR, me_content = []\<rparr>] =
   Inl ''ID-NAME-TOO-LONG''"
proof -
  define n where "n = replicate 5000 CHR ''a''"
  let ?e = "[\<lparr>me_relpath = n, me_mode_byte = MODE_REGULAR, me_content = []\<rparr>]"
  have n: "length n = 5000" "split_on CHR ''/'' n = [n]"
    by (simp_all add: n_def split_on_no_sep)
  then have "n \<noteq> ''.git''" by auto
  then have "\<not> list_all names_ok ?e"
    by (simp add: names_ok_def excluded_def GIT_COMPONENT_def name_ok_def NAME_BYTE_CEILING_def n)
  then show ?thesis
    using dag_identity_result [of ?e pad_hash] length_pad_hash by (simp add: blob_entry_def n_def)
qed

text \<open>
  C12. The content hash of a tree on disk is exact.  Two trees whose names are path components have the
  same hash if and only if every path outside \<^verbatim>\<open>.git\<close> holds the same thing: the same bytes with the
  same execute bit, the same link target, or no file.
\<close>

theorem content_hash_exact:
  assumes "walk utf8 [] r = Inr es" "compute_content_hash utf8 H r = Inr s"
    and "walk utf8 [] r' = Inr fs" "compute_content_hash utf8 H r' = Inr t"
    and "fs_ok r" "fs_ok r'"
    and "\<forall>x. length (H x) = 32" "inj_on H (hashed_texts H es \<union> hashed_texts H fs)"
  shows "s = t \<longleftrightarrow> tree_file r = tree_file r'"
proof -
  have c: "compute_dag_identity H es = Inr s" "compute_dag_identity H fs = Inr t"
    using assms(1-4) by (simp_all add: compute_content_hash_def)
  have "s = t \<longleftrightarrow> files es = files fs"
    by (rule identity_eq_iff [OF c walk_blob_entries [OF assms(1,5)] walk_blob_entries [OF assms(3,6)] assms(7,8)])
  also have "\<dots> \<longleftrightarrow> tree_file r = tree_file r'"
  proof
    assume f: "files es = files fs"
    have split: "tree_file t ps = tree_file t (split_on CHR ''/'' (below [] ps))"
      if "tree_file t ps \<noteq> None \<or> tree_file t' ps \<noteq> None" "fs_ok t" "fs_ok t'" "tree_file t [] = None" "tree_file t' [] = None"
      for t t' ps
      using that tree_file_components below_root by (metis option.exhaust)
    have root: "tree_file r [] = None" "tree_file r' [] = None"
      using assms(1,3) by (cases r; cases r'; auto)+
    show "tree_file r = tree_file r'"
    proof
      fix ps
      show "tree_file r ps = tree_file r' ps"
        using split [of r ps r'] split [of r' ps r] root assms(5,6)
          walk_files [OF assms(1,5)] walk_files [OF assms(3,6)] f
        by metis
    qed
  next
    assume "tree_file r = tree_file r'"
    then show "files es = files fs"
      using walk_files [OF assms(1,5)] walk_files [OF assms(3,6)] by auto
  qed
  finally show ?thesis .
qed

theorem content_hash_exact_witness:
  "compute_content_hash (\<lambda>_. True) pad_hash (FDir [(''a'', FFile False ''x'')]) \<noteq>
   compute_content_hash (\<lambda>_. True) pad_hash (FDir [(''a'', FFile True ''x'')])"
proof -
  let ?t = "\<lambda>b. FDir [(''a'', FFile b ''x'')]"
  let ?e = "\<lambda>b. [demo_entry (if b then MODE_EXECUTABLE else MODE_REGULAR) CHR ''x'']"
  have w: "walk (\<lambda>_. True) [] (?t b) = Inr (?e b)" for b
    by (simp add: join_path_def demo_entry_def)
  then have h: "compute_content_hash (\<lambda>_. True) pad_hash (?t b) = compute_dag_identity pad_hash (?e b)" for b
    by (simp add: compute_content_hash_def)
  have "inj_on pad_hash (hashed_texts pad_hash (?e False) \<union> hashed_texts pad_hash (?e True))"
    using demo_separated [of "CHR ''x''" "CHR ''x''" MODE_REGULAR MODE_EXECUTABLE]
    by (simp only: demo_hashed if_True if_False) (simp add: insert_commute)
  moreover have "tree_file (?t False) \<noteq> tree_file (?t True)"
    by (auto simp: MODE_REGULAR_def MODE_EXECUTABLE_def dest: fun_cong [of _ _ "[''a'']"])
  moreover have "fs_ok (?t b)" for b by (simp add: component_def)
  ultimately show ?thesis
    using content_hash_exact [OF w [of False] _ w [of True]] length_pad_hash
    by (metis h demo_identity)
qed

end
