(* ===== verification/Graph.thy ===== *)
theory Graph
  imports Types Timestamp
begin

text \<open>
  The data that the resolver hands to the lockfile and reads back, and the dependency edges it starts
  from: the structs of \<^verbatim>\<open>milpa-types/src/lib.rs\<close> from \<^verbatim>\<open>LockAttestation\<close> to \<^verbatim>\<open>EdgeSet\<close>.
\<close>

subsection \<open>Requirements\<close>

record predicate =
  pr_name :: string
  pr_values :: "string list"
  pr_negated :: bool

datatype edge_source = DepDecl | MilpaKdl | NimbleFallback

record named_require =
  nr_name :: string
  nr_constraint_str :: string
  nr_predicates :: "predicate list"
  nr_namespace :: "string option"

record flag_request =
  fr_name :: string
  fr_enabled :: bool

record url_require =
  ur_url :: string
  ur_ref :: string
  ur_predicates :: "predicate list"
  ur_flag_requests :: "flag_request list"
  ur_name :: "string option"

datatype require_entry = Named named_require | Url url_require

record edge_set =
  es_requires :: "require_entry list"
  es_src_dir :: string
  es_source :: edge_source

definition edge_set_from_dep_decl :: "require_entry list \<Rightarrow> string \<Rightarrow> edge_set" where
  "edge_set_from_dep_decl requires src_dir =
     \<lparr>es_requires = requires, es_src_dir = src_dir, es_source = DepDecl\<rparr>"

subsection \<open>Resolved graphs\<close>

datatype provenance_record =
    RGit (rgit_url: string) (rgit_ref: "string option") (rgit_commit: "string option") (rgit_origin: string)
      (rgit_submodules: "(string \<times> string) list")
  | RTarball (rtar_url: string) (rtar_sha256: "string option") (rtar_origin: string)
  | RLocal (rloc_path: string) (rloc_origin: string)
  | RMember (rmem_name: string) (rmem_origin: string)
  | ROci (roci_registry: string) (roci_repository: string) (roci_digest: string) (roci_origin: string)
  | RRoot (rroot_name: string) (rroot_origin: string)

fun record_origin :: "provenance_record \<Rightarrow> string" where
  "record_origin (RGit url ref_spec commit_sha origin submodule_shas) = origin"
| "record_origin (RTarball url sha256 origin) = origin"
| "record_origin (RLocal path origin) = origin"
| "record_origin (RMember name origin) = origin"
| "record_origin (ROci registry repository digest origin) = origin"
| "record_origin (RRoot name origin) = origin"

fun record_kind :: "provenance_record \<Rightarrow> string" where
  "record_kind (RGit url ref_spec commit_sha origin submodule_shas) = ''git''"
| "record_kind (RTarball url sha256 origin) = ''tarball''"
| "record_kind (RLocal path origin) = ''local''"
| "record_kind (RMember name origin) = ''member''"
| "record_kind (ROci registry repository digest origin) = ''oci''"
| "record_kind (RRoot name origin) = ''root''"

record cond_require =
  cr_name :: string
  cr_predicates :: "predicate list"

record resolved_dep =
  rd_name :: string
  rd_namespace :: "string option"
  rd_identity :: string
  rd_version :: version
  rd_src_dir :: string
  rd_requires :: "string list"
  rd_provenances :: "provenance_record list"
  rd_dep_decl :: "string option"
  rd_cond_requires :: "cond_require list"
  rd_aliases :: "string list"
  rd_active_flags :: "string list"
  rd_attestation :: "entry_attestation option"
  rd_declared_version_source :: "string option"
  rd_source_id :: "source_id option"

type_synonym resolved_graph = "resolved_dep list"

subsection \<open>Lockfiles\<close>

record lock_attestation =
  la_kind :: attestation_kind
  la_rekor :: "rekor_ref option"
  la_bundle_pin :: "string option"
  la_namespace :: string

record locked_dep =
  ld_name :: string
  ld_namespace :: "string option"
  ld_identity :: "string option"
  ld_version :: string
  ld_src_dir :: string
  ld_requires :: "string list"
  ld_provenances :: "provenance_record list"
  ld_active_flags :: "string list"
  ld_dep_decl :: "string option"
  ld_cond_requires :: "cond_require list"
  ld_aliases :: "string list"
  ld_attestation :: "lock_attestation option"
  ld_declared_version_source :: "string option"
  ld_source_id :: "source_id option"

definition LOCKFILE_SCHEMA_VERSION :: u32 where "LOCKFILE_SCHEMA_VERSION = 1"

record lockfile =
  lf_version :: u32
  lf_strategy :: string
  lf_exclude_newer :: "timestamp option"
  lf_deps :: "locked_dep list"

definition lockfile_default :: lockfile where
  "lockfile_default =
     \<lparr>lf_version = LOCKFILE_SCHEMA_VERSION, lf_strategy = ''maxver'', lf_exclude_newer = None, lf_deps = []\<rparr>"

end
