(* ===== verification/Json.thy ===== *)
theory Json
  imports Prelude
begin

text \<open>
  The interface of the third-party \<^verbatim>\<open>serde_json\<close> crate, as data: the value that its parser returns, with
  the accessors \<^verbatim>\<open>as_object\<close>, \<^verbatim>\<open>as_array\<close>, \<^verbatim>\<open>as_str\<close>, \<^verbatim>\<open>as_i64\<close> and the two kinds of indexing, which give
  null outside of the value.  The parser is a parameter \<open>json :: string \<Rightarrow> json option\<close>.  Also here: the
  decimal texts of \<^verbatim>\<open>i64\<close>.
\<close>

datatype json =
    JNull | JBool bool | JInt int | JFloat | JString string | JArray "json list"
  | JObject "(string \<times> json) list"

fun as_object :: "json \<Rightarrow> (string \<times> json) list option" where
  "as_object (JObject m) = Some m"
| "as_object _ = None"

fun as_array :: "json \<Rightarrow> json list option" where
  "as_array (JArray xs) = Some xs"
| "as_array _ = None"

fun as_str :: "json \<Rightarrow> string option" where
  "as_str (JString s) = Some s"
| "as_str _ = None"

definition fits_i64 :: "int \<Rightarrow> bool" where
  "fits_i64 i \<longleftrightarrow> - 9223372036854775808 \<le> i \<and> i < 9223372036854775808"

fun as_i64 :: "json \<Rightarrow> int option" where
  "as_i64 (JInt i) = (if fits_i64 i then Some i else None)"
| "as_i64 _ = None"

text \<open>\<open>json_get\<close> is \<^verbatim>\<open>get(key)\<close>, \<open>json_key\<close> and \<open>json_at\<close> are indexing with brackets.\<close>

fun json_get :: "json \<Rightarrow> string \<Rightarrow> json option" where
  "json_get (JObject m) k = map_of m k"
| "json_get _ k = None"

definition json_key :: "json \<Rightarrow> string \<Rightarrow> json" where
  "json_key j k = (case json_get j k of Some v \<Rightarrow> v | None \<Rightarrow> JNull)"

definition json_nth :: "json \<Rightarrow> nat \<Rightarrow> json option" where
  "json_nth j i = (case j of JArray xs \<Rightarrow> if i < length xs then Some (xs ! i) else None | _ \<Rightarrow> None)"

definition json_at :: "json \<Rightarrow> nat \<Rightarrow> json" where
  "json_at j i = (case json_nth j i of Some v \<Rightarrow> v | None \<Rightarrow> JNull)"

text \<open>\<^verbatim>\<open>str::parse::<i64>\<close>: an optional sign, then digits, within the range.\<close>

definition parse_digits :: "string \<Rightarrow> nat option" where
  "parse_digits s = (if s \<noteq> [] \<and> list_all is_digit s then Some (nat_of_dec s) else None)"

definition parse_i64 :: "string \<Rightarrow> int option" where
  "parse_i64 s =
     (let v = (case s of
          [] \<Rightarrow> None
        | c # ds \<Rightarrow>
            if c = CHR ''-'' then map_option (\<lambda>n. - int n) (parse_digits ds)
            else if c = CHR ''+'' then map_option int (parse_digits ds)
            else map_option int (parse_digits s))
      in case v of None \<Rightarrow> None | Some i \<Rightarrow> if fits_i64 i then Some i else None)"

lemma dec_of_nat_digits [simp]: "list_all is_digit (dec_of_nat n)"
  by (auto simp: list_all_iff dec_digits)

lemma parse_digits_dec [simp]: "parse_digits (dec_of_nat n) = Some n"
  by (simp add: parse_digits_def)

lemma parse_i64_dec [simp]: "fits_i64 i \<Longrightarrow> parse_i64 (dec_of_int i) = Some i"
proof (cases "i < 0")
  case False
  obtain c ds where d: "dec_of_nat (nat i) = c # ds" by (cases "dec_of_nat (nat i)") auto
  then have "is_digit c" using dec_of_nat_digits [of "nat i"] by simp
  then have "c \<noteq> CHR ''-''" "c \<noteq> CHR ''+''" by (auto simp: is_digit_def)
  moreover have "parse_digits (c # ds) = Some (nat i)" using parse_digits_dec [of "nat i"] by (simp add: d)
  moreover assume "fits_i64 i"
  ultimately show ?thesis using False by (simp add: dec_of_int_def parse_i64_def d)
qed (simp add: dec_of_int_def parse_i64_def)

end
