(* ===== verification/ArtifactStore.thy ===== *)
theory ArtifactStore
  imports Prelude
begin

text \<open>
  Content-addressed artifacts: \<^verbatim>\<open>read_verified_or_self_heal\<close> of \<^verbatim>\<open>milpa-core/src/atomic_cache.rs\<close>, the
  generic store of \<^verbatim>\<open>dep_decl_store.rs\<close>, and on top of it the stores of dependency declarations
  (\<^verbatim>\<open>dep_decl_store.rs\<close>) and of attestation bundles (\<^verbatim>\<open>entry_bundle_store.rs\<close>).  The disk is a map from
  path texts to contents; \<open>fetch url cap\<close> stands for the bounded HTTP client (its status and body, or
  no answer), \<open>writable\<close> for the atomic write succeeding, and \<open>sha\<close> for the hexadecimal text of
  SHA-256.  The locale \<open>content_store\<close> is what the clients rely on: whatever the cache and the network
  hold, the bytes that come back have the digest that was asked for.
\<close>

type_synonym disk = "string \<Rightarrow> string option"

text \<open>What surrounds a store: reading a local file, the network, and whether the cache can be written.\<close>

record outside =
  read_file :: "string \<Rightarrow> string option"
  fetch :: "string \<Rightarrow> nat \<Rightarrow> (nat \<times> string) option"
  writable :: bool

definition read_verified_or_self_heal ::
  "string \<Rightarrow> (string \<Rightarrow> string + unit) \<Rightarrow> disk \<Rightarrow> string option \<times> disk" where
  "read_verified_or_self_heal path verify d =
     (case d path of
        None \<Rightarrow> (None, d)
      | Some cached \<Rightarrow>
          (case verify cached of
             Inr _ \<Rightarrow> (Some cached, d)
           | Inl _ \<Rightarrow> (None, d(path := None))))"

subsection \<open>The generic store\<close>

record http_store =
  base_url :: string
  cache_dir :: "string option"
  subpath :: string
  extension :: string
  max_bytes :: nat

definition artifact_url :: "http_store \<Rightarrow> string \<Rightarrow> string" where
  "artifact_url st token = base_url st @ subpath st @ ''/'' @ token @ extension st"

definition cache_path :: "http_store \<Rightarrow> string \<Rightarrow> string option" where
  "cache_path st token = map_option (\<lambda>d. d @ ''/'' @ token @ extension st) (cache_dir st)"

definition http_get_bytes :: "outside \<Rightarrow> http_store \<Rightarrow> string \<Rightarrow> string \<Rightarrow> string + string" where
  "http_get_bytes out st failed url =
     (case strip_prefix ''file://'' url of
        Some path \<Rightarrow>
          (case read_file out path of
             None \<Rightarrow> Inl failed
           | Some bytes \<Rightarrow> if max_bytes st < length bytes then Inl failed else Inr bytes)
      | None \<Rightarrow>
          (case fetch out url (max_bytes st) of
             None \<Rightarrow> Inl failed
           | Some (status, body) \<Rightarrow> if 400 \<le> status then Inl failed else Inr body))"

definition artifact_get ::
  "outside \<Rightarrow> http_store \<Rightarrow> string \<Rightarrow> (string \<Rightarrow> string + unit) \<Rightarrow> string \<Rightarrow> disk \<Rightarrow> (string + string) \<times> disk" where
  "artifact_get out st token verify failed d =
     (let (hit, d1) = (case cache_path st token of
            None \<Rightarrow> (None, d)
          | Some p \<Rightarrow> read_verified_or_self_heal p verify d)
      in case hit of
        Some bytes \<Rightarrow> (Inr bytes, d1)
      | None \<Rightarrow>
          (case http_get_bytes out st failed (artifact_url st token) of
             Inl e \<Rightarrow> (Inl e, d1)
           | Inr bytes \<Rightarrow>
               (case verify bytes of
                  Inl e \<Rightarrow> (Inl e, d1)
                | Inr _ \<Rightarrow>
                    (Inr bytes,
                     case cache_path st token of
                       None \<Rightarrow> d1
                     | Some p \<Rightarrow> if writable out then d1(p \<mapsto> bytes) else d1))))"

subsection \<open>Dependency declarations\<close>

definition dep_decl_hash :: "(string \<Rightarrow> string) \<Rightarrow> string \<Rightarrow> string" where
  "dep_decl_hash sha bytes = ''sha256:'' @ sha bytes"

definition verify_dep_decl :: "(string \<Rightarrow> string) \<Rightarrow> string \<Rightarrow> string \<Rightarrow> string + unit" where
  "verify_dep_decl sha expected bytes =
     ensure (dep_decl_hash sha bytes = expected) ''TNG-DEPDECL-HASH-MISMATCH''"

definition hex_of :: "string \<Rightarrow> string" where
  "hex_of h = (case strip_prefix ''sha256:'' h of Some r \<Rightarrow> r | None \<Rightarrow> h)"

definition file_dep_decl_get :: "(string \<Rightarrow> string) \<Rightarrow> string \<Rightarrow> string \<Rightarrow> disk \<Rightarrow> (string + string) \<times> disk" where
  "file_dep_decl_get sha dir h d =
     ((case d (dir @ ''/'' @ hex_of h @ ''.kdl'') of
         None \<Rightarrow> Inl ''TNG-DEPDECL-FETCH-FAILED''
       | Some bytes \<Rightarrow> rbind (verify_dep_decl sha h bytes) (\<lambda>_. Inr bytes)), d)"

definition DEP_DECL_MAX_ARTIFACT_BYTES :: nat where "DEP_DECL_MAX_ARTIFACT_BYTES = 1024 * 1024"

definition http_dep_decl_store :: "string \<Rightarrow> string option \<Rightarrow> http_store" where
  "http_dep_decl_store url dir =
     \<lparr>base_url = url, cache_dir = dir, subpath = ''dep-decl'', extension = ''.kdl'',
      max_bytes = DEP_DECL_MAX_ARTIFACT_BYTES\<rparr>"

definition http_dep_decl_get ::
  "outside \<Rightarrow> (string \<Rightarrow> string) \<Rightarrow> http_store \<Rightarrow> string \<Rightarrow> disk \<Rightarrow> (string + string) \<times> disk" where
  "http_dep_decl_get out sha st h d =
     (if starts_with ''oci://'' (base_url st) then (Inl ''TNG-DEPDECL-FETCH-FAILED'', d)
      else artifact_get out st (hex_of h) (verify_dep_decl sha h) ''TNG-DEPDECL-FETCH-FAILED'' d)"

subsection \<open>Attestation bundles\<close>

definition verify_bundle :: "(string \<Rightarrow> string) \<Rightarrow> string \<Rightarrow> string \<Rightarrow> string + unit" where
  "verify_bundle sha pin bytes = ensure (sha bytes = pin) ''TNG-ENTRY-BUNDLE-PIN-MISMATCH''"

definition file_bundle_get :: "(string \<Rightarrow> string) \<Rightarrow> string \<Rightarrow> string \<Rightarrow> disk \<Rightarrow> (string + string) \<times> disk" where
  "file_bundle_get sha dir pin d =
     ((case d (dir @ ''/'' @ pin @ ''.bundle'') of
         None \<Rightarrow> Inl ''TNG-ENTRY-BUNDLE-MISSING''
       | Some bytes \<Rightarrow> rbind (verify_bundle sha pin bytes) (\<lambda>_. Inr bytes)), d)"

definition ENTRY_BUNDLE_MAX_ARTIFACT_BYTES :: nat where
  "ENTRY_BUNDLE_MAX_ARTIFACT_BYTES = 4 * 1024 * 1024"

definition http_bundle_store :: "string \<Rightarrow> string option \<Rightarrow> http_store" where
  "http_bundle_store url dir =
     \<lparr>base_url = url, cache_dir = dir, subpath = ''attestation'', extension = ''.bundle'',
      max_bytes = ENTRY_BUNDLE_MAX_ARTIFACT_BYTES\<rparr>"

definition http_bundle_get ::
  "outside \<Rightarrow> (string \<Rightarrow> string) \<Rightarrow> http_store \<Rightarrow> string \<Rightarrow> disk \<Rightarrow> (string + string) \<times> disk" where
  "http_bundle_get out sha st pin d = artifact_get out st pin (verify_bundle sha pin) ''TNG-ENTRY-BUNDLE-MISSING'' d"

subsection \<open>The base of an index URL\<close>

definition index_base_url :: "string \<Rightarrow> string" where
  "index_base_url url =
     (let path_part = hd (split_on CHR ''#'' (hd (split_on CHR ''?'' url)));
          slashed = (if last url = CHR ''/'' \<and> url \<noteq> [] then url else url @ ''/'')
      in case rsplit_once CHR ''/'' path_part of
        None \<Rightarrow> slashed
      | Some (before, last_seg) \<Rightarrow>
          let last_seg_lc = ascii_lower last_seg
          in if strip_suffix ''.kdl'' last_seg_lc \<noteq> None \<or> starts_with ''index'' last_seg_lc
             then before @ ''/''
             else slashed)"

datatype bundle_backend = HttpBackend | FileBackend

text \<open>The choice of the bundle store; \<open>is_dir\<close> says whether the configured directory exists.\<close>

definition entry_bundle_store_from_paths ::
  "string option \<Rightarrow> bool \<Rightarrow> string option \<Rightarrow> bool \<Rightarrow> string option \<Rightarrow> (bundle_backend \<times> string \<times> string option) option" where
  "entry_bundle_store_from_paths dir is_dir index_url no_index default_cache =
     (if no_index then None
      else case (dir, is_dir) of
        (Some d, True) \<Rightarrow> Some (FileBackend, d, None)
      | _ \<Rightarrow>
          (case index_url of
             Some url \<Rightarrow> if url \<noteq> [] then Some (HttpBackend, index_base_url url, default_cache) else None
           | None \<Rightarrow> None))"

subsection \<open>What a client relies on\<close>

locale content_store =
  fixes get :: "string \<Rightarrow> disk \<Rightarrow> (string + string) \<times> disk"
    and digest :: "string \<Rightarrow> string"
  assumes get_digest: "get pin d = (Inr bytes, d') \<Longrightarrow> digest bytes = pin"
begin

text \<open>One pin names one content, whatever happened to the caches in between.\<close>

lemma one_content:
  assumes "get pin d = (Inr bytes, d1)" "get pin e = (Inr bytes', e1)" "inj_on digest {bytes, bytes'}"
  shows "bytes = bytes'"
  using assms get_digest by (metis insertCI inj_onD)

end

lemma artifact_get_verified:
  assumes "artifact_get out st token verify failed d = (Inr bytes, d')"
  shows "verify bytes = Inr ()"
  using assms
  by (auto simp: artifact_get_def Let_def read_verified_or_self_heal_def split: option.splits sum.splits prod.splits if_splits)

interpretation dep_decl_file: content_store "file_dep_decl_get sha dir" "dep_decl_hash sha"
  by unfold_locales (auto simp: file_dep_decl_get_def verify_dep_decl_def split: option.splits if_splits)

interpretation dep_decl_http: content_store "http_dep_decl_get out sha st" "dep_decl_hash sha"
  by unfold_locales
    (auto simp: http_dep_decl_get_def verify_dep_decl_def split: if_splits dest!: artifact_get_verified)

interpretation bundle_file: content_store "file_bundle_get sha dir" sha
  by unfold_locales (auto simp: file_bundle_get_def verify_bundle_def split: option.splits if_splits)

interpretation bundle_http: content_store "http_bundle_get out sha st" sha
  by unfold_locales (auto simp: http_bundle_get_def verify_bundle_def dest!: artifact_get_verified)


lemmas store_defs = artifact_get_def read_verified_or_self_heal_def Let_def

subsection \<open>Properties\<close>

text \<open>
  C20. The cache of artifacts verifies, heals and keeps.  What the store returns has passed the
  verification of its pin; a cached file that fails it is the same as no cached file; nothing but the
  file of this artifact changes; and once an artifact was returned and could be written, later requests
  get the same bytes from the disk whatever the network does.
\<close>

theorem artifact_store_heals:
  assumes "artifact_get out st token verify failed d = (Inr bytes, d')"
    and "cache_path st token = Some p" "writable out"
  shows "verify bytes = Inr () \<and>
    (\<forall>cached. d p = Some cached \<and> verify cached \<noteq> Inr () \<longrightarrow>
       artifact_get out st token verify failed (d(p := None)) = (Inr bytes, d')) \<and>
    (\<forall>q. q \<noteq> p \<longrightarrow> d' q = d q) \<and>
    d' p = Some bytes \<and>
    artifact_get out' st token verify failed d' = (Inr bytes, d')"
proof -
  have v: "verify bytes = Inr ()" using assms(1) by (rule artifact_get_verified)
  have here: "d' p = Some bytes" "\<forall>q. q \<noteq> p \<longrightarrow> d' q = d q"
    using assms by (auto simp: store_defs split: option.splits sum.splits prod.splits if_splits)
  moreover have "artifact_get out' st token verify failed d' = (Inr bytes, d')"
    using v here(1) assms(2) by (simp add: store_defs)
  moreover have "artifact_get out st token verify failed (d(p := None)) = (Inr bytes, d')"
    if "d p = Some cached" "verify cached \<noteq> Inr ()" for cached
  proof -
    from that(2) obtain e where "verify cached = Inl e" by (cases "verify cached") auto
    with that(1) assms show ?thesis by (simp add: store_defs)
  qed
  ultimately show ?thesis using v by blast
qed

theorem artifact_store_heals_witness:
  "artifact_get \<lparr>read_file = \<lambda>_. None, fetch = \<lambda>_ _. None, writable = False\<rparr>
     (http_bundle_store ''https://h/'' (Some ''c'')) ''pin'' (verify_bundle (\<lambda>_. ''pin'') ''pin'') ''E''
     [''c/pin.bundle'' \<mapsto> ''body''] = (Inr ''body'', [''c/pin.bundle'' \<mapsto> ''body''])"
proof -
  let ?out = "\<lparr>read_file = \<lambda>_. None, fetch = \<lambda>_ _. Some (200, ''body''), writable = True\<rparr>"
  let ?st = "http_bundle_store ''https://h/'' (Some ''c'')"
  have p: "cache_path ?st ''pin'' = Some ''c/pin.bundle''"
    by (simp add: cache_path_def http_bundle_store_def)
  have "artifact_get ?out ?st ''pin'' (verify_bundle (\<lambda>_. ''pin'') ''pin'') ''E'' Map.empty =
      (Inr ''body'', [''c/pin.bundle'' \<mapsto> ''body''])"
    using p by (simp add: store_defs http_get_bytes_def artifact_url_def http_bundle_store_def verify_bundle_def ensure_def)
  from artifact_store_heals [OF this p] show ?thesis by simp
qed

end
