(* ===== verification/DepDecl.thy ===== *)
theory DepDecl
  imports Graph Kdl
begin

text \<open>
  Dependency declarations, \<^verbatim>\<open>milpa-core/src/dep_decl.rs\<close>: the parser of the artifact that an index
  entry points to.  \<open>utf8\<close> and \<open>kdl\<close> stand for \<^verbatim>\<open>std::str::from_utf8\<close> succeeding and for the parser of
  the kdl crate.
\<close>

definition MAX_DEP_DECL_SCHEMA_VERSION :: int where "MAX_DEP_DECL_SCHEMA_VERSION = 0"

definition str_or_empty :: "string option \<Rightarrow> string" where
  "str_or_empty v = (case v of None \<Rightarrow> [] | Some s \<Rightarrow> s)"

definition parse_require_node :: "kdl_node \<Rightarrow> require_entry option" where
  "parse_require_node node =
     (case pos_args node of
        [] \<Rightarrow> None
      | first # rest \<Rightarrow>
          if ke_ty first = Some ''url''
          then map_option (\<lambda>url. Url \<lparr>ur_url = url, ur_ref = str_or_empty (prop_str node ''ref''),
              ur_predicates = [], ur_flag_requests = [], ur_name = None\<rparr>) (as_string (ke_value first))
          else map_option (\<lambda>name. Named \<lparr>nr_name = name,
              nr_constraint_str = (case rest of [] \<Rightarrow> [] | e # _ \<Rightarrow> str_or_empty (as_string (ke_value e))),
              nr_predicates = [], nr_namespace = None\<rparr>) (as_string (ke_value first)))"

text \<open>One turn of the loop over the children: source directory, requirements, schema version.\<close>

definition dep_decl_child ::
  "string \<times> require_entry list \<times> int \<Rightarrow> kdl_node \<Rightarrow> string \<times> require_entry list \<times> int" where
  "dep_decl_child acc child =
     (case acc of (src_dir, requires, schema_version) \<Rightarrow>
        if kn_name child = ''dep_decl_schema_version''
        then (src_dir, requires,
          case kn_entries child of
            [] \<Rightarrow> schema_version
          | e # _ \<Rightarrow>
              (case ke_value e of
                 KInt n \<Rightarrow> (case try_i64 n of Some i \<Rightarrow> i | None \<Rightarrow> 9223372036854775807)
               | _ \<Rightarrow> 0))
        else if kn_name child = ''src_dir''
        then (case kn_entries child of
            [] \<Rightarrow> src_dir
          | e # _ \<Rightarrow> (case as_string (ke_value e) of Some s \<Rightarrow> s | None \<Rightarrow> src_dir), requires, schema_version)
        else if kn_name child = ''require''
        then (src_dir, (case parse_require_node child of Some r \<Rightarrow> requires @ [r] | None \<Rightarrow> requires), schema_version)
        else acc)"

definition parse_dep_decl_doc :: "kdl_node list \<Rightarrow> string + edge_set \<times> int" where
  "parse_dep_decl_doc doc =
     (case doc of
        [node] \<Rightarrow>
          if kn_name node = ''dep_decl''
          then (case foldl dep_decl_child ([], [], 0) (kn_children node) of
              (src_dir, requires, schema_version) \<Rightarrow> Inr (edge_set_from_dep_decl requires src_dir, schema_version))
          else Inl ''TNG-DEPDECL-PARSE-ERROR''
      | _ \<Rightarrow> Inl ''TNG-DEPDECL-PARSE-ERROR'')"

definition parse_dep_decl ::
  "(string \<Rightarrow> bool) \<Rightarrow> (string \<Rightarrow> kdl_node list option) \<Rightarrow> string \<Rightarrow> string + edge_set \<times> int" where
  "parse_dep_decl utf8 kdl bytes =
     (if \<not> utf8 bytes then Inl ''TNG-DEPDECL-PARSE-ERROR''
      else if KDL_MAX_NESTING_DEPTH < kdl_brace_depth bytes then Inl ''TNG-DEPDECL-PARSE-ERROR''
      else if KDL_MAX_NESTING_DEPTH < kdl_block_comment_depth bytes then Inl ''TNG-DEPDECL-PARSE-ERROR''
      else case kdl bytes of
        None \<Rightarrow> Inl ''TNG-DEPDECL-PARSE-ERROR''
      | Some doc \<Rightarrow> parse_dep_decl_doc doc)"

end
