(* ===== verification/IndexTrust.thy ===== *)
theory IndexTrust
  imports Types Json
begin

text \<open>
  The trust check of a whole index, \<^verbatim>\<open>milpa-core/src/index_trust.rs\<close>: the results of verification, the
  stages of \<^verbatim>\<open>verify_index_bundle\<close> and \<^verbatim>\<open>verify_crypto\<close> in their order, the policy dispatch with its one
  warning per URL, and the claims shown by \<^verbatim>\<open>milpa show\<close>.  The sigstore crate is a record of functions,
  one for each call; \<open>sha\<close> stands for the hexadecimal text of SHA-256.
\<close>

subsection \<open>Results of verification\<close>

datatype verification_result =
    VTrusted | VSigInvalid | VDigestMismatch | VSignerMismatch | VBundleStale | VBundleMissing | VBundleMalformed

fun result_value :: "verification_result \<Rightarrow> string" where
  "result_value VTrusted = ''trusted''"
| "result_value VSigInvalid = ''sig-invalid''"
| "result_value VDigestMismatch = ''digest-mismatch''"
| "result_value VSignerMismatch = ''signer-mismatch''"
| "result_value VBundleStale = ''bundle-stale''"
| "result_value VBundleMissing = ''bundle-missing''"
| "result_value VBundleMalformed = ''bundle-malformed''"

text \<open>\<open>None\<close> is the panic on a trusted result.\<close>

fun result_slug :: "verification_result \<Rightarrow> string option" where
  "result_slug VBundleMissing = Some ''TNG-INDEX-BUNDLE-MISSING''"
| "result_slug VBundleMalformed = Some ''TNG-INDEX-BUNDLE-MALFORMED''"
| "result_slug VSigInvalid = Some ''TNG-INDEX-SIGNATURE-INVALID''"
| "result_slug VDigestMismatch = Some ''TNG-INDEX-DIGEST-MISMATCH''"
| "result_slug VSignerMismatch = Some ''TNG-INDEX-SIGNER-MISMATCH''"
| "result_slug VBundleStale = Some ''TNG-INDEX-BUNDLE-STALE''"
| "result_slug VTrusted = None"

definition result_from_value :: "string \<Rightarrow> verification_result option" where
  "result_from_value s =
     (if s = ''trusted'' then Some VTrusted
      else if s = ''sig-invalid'' then Some VSigInvalid
      else if s = ''digest-mismatch'' then Some VDigestMismatch
      else if s = ''signer-mismatch'' then Some VSignerMismatch
      else if s = ''bundle-stale'' then Some VBundleStale
      else if s = ''bundle-missing'' then Some VBundleMissing
      else if s = ''bundle-malformed'' then Some VBundleMalformed
      else None)"

subsection \<open>The sigstore calls\<close>

datatype adapter_outcome = Included | CryptoInvalid | Malformed

text \<open>
  \<open>sg_verify root digest bundle signer\<close> is the offline \<^verbatim>\<open>verify_digest\<close> with the identity policy of the
  signer: whether it succeeds, and whether the recording policy saw a rejection.
\<close>

record ('b, 'e, 'r, 'k) sigstore =
  sg_bundle :: "string \<Rightarrow> 'b option"
  sg_tlog_entries :: "'b \<Rightarrow> 'e list option"
  sg_dsse_payload :: "'b \<Rightarrow> string option"
  sg_trust_root :: "string \<Rightarrow> 'r option"
  sg_log_id :: "'e \<Rightarrow> string option"
  sg_rekor_key :: "'r \<Rightarrow> string \<Rightarrow> 'k option"
  sg_new_verifier :: "'r \<Rightarrow> bool"
  sg_verify :: "'r \<Rightarrow> string \<Rightarrow> 'b \<Rightarrow> string \<Rightarrow> bool \<times> bool"
  sg_inclusion :: "'e \<Rightarrow> 'k \<Rightarrow> adapter_outcome"

definition extract_dsse_subject_sha256 ::
  "(string \<Rightarrow> json option) \<Rightarrow> ('b, 'e, 'r, 'k) sigstore \<Rightarrow> 'b \<Rightarrow> string option" where
  "extract_dsse_subject_sha256 json sg bundle =
     (case sg_dsse_payload sg bundle of
        None \<Rightarrow> None
      | Some payload \<Rightarrow>
          (case json payload of
             None \<Rightarrow> None
           | Some statement \<Rightarrow>
               (case json_nth (json_key statement ''subject'') 0 of
                  None \<Rightarrow> None
                | Some subject \<Rightarrow>
                    (case json_get subject ''digest'' of
                       None \<Rightarrow> None
                     | Some digest \<Rightarrow>
                         (case json_get digest ''sha256'' of
                            None \<Rightarrow> None
                          | Some h \<Rightarrow> map_option ascii_lower (as_str h))))))"

definition verify_crypto ::
  "(string \<Rightarrow> string) \<Rightarrow> (string \<Rightarrow> json option) \<Rightarrow> ('b, 'e, 'r, 'k) sigstore \<Rightarrow>
   string \<Rightarrow> string \<Rightarrow> string \<Rightarrow> string \<Rightarrow> verification_result" where
  "verify_crypto sha json sg index_bytes bundle_bytes trust_bundle signer =
     (case sg_bundle sg bundle_bytes of
        None \<Rightarrow> VBundleMalformed
      | Some bundle \<Rightarrow>
          (case sg_tlog_entries sg bundle of
             Some [entry] \<Rightarrow>
               (case extract_dsse_subject_sha256 json sg bundle of
                  None \<Rightarrow> VBundleMalformed
                | Some subject \<Rightarrow>
                    if sha index_bytes \<noteq> subject then VDigestMismatch
                    else case sg_trust_root sg trust_bundle of
                      None \<Rightarrow> VSigInvalid
                    | Some root \<Rightarrow>
                        (case sg_log_id sg entry of
                           None \<Rightarrow> VBundleMalformed
                         | Some log_id \<Rightarrow>
                             (case sg_rekor_key sg root log_id of
                                None \<Rightarrow> VSigInvalid
                              | Some key \<Rightarrow>
                                  if \<not> sg_new_verifier sg root then VSigInvalid
                                  else let (ok, rejected) = sg_verify sg root (sha index_bytes) bundle signer
                                  in if \<not> ok then (if rejected then VSignerMismatch else VSigInvalid)
                                  else case sg_inclusion sg entry key of
                                    Included \<Rightarrow> VTrusted
                                  | CryptoInvalid \<Rightarrow> VSigInvalid
                                  | Malformed \<Rightarrow> VBundleMalformed)))
           | _ \<Rightarrow> VBundleMalformed))"

subsection \<open>The bundle of an index\<close>

definition integrated_time_value :: "json \<Rightarrow> json" where
  "integrated_time_value j =
     json_key (json_at (json_key (json_key j ''verificationMaterial'') ''tlogEntries'') 0) ''integratedTime''"

definition u64_of_i64 :: "int \<Rightarrow> nat option" where
  "u64_of_i64 i = (if 0 \<le> i then Some (nat i) else None)"

definition extract_integrated_time :: "json \<Rightarrow> nat option" where
  "extract_integrated_time j =
     (let raw = integrated_time_value j
      in case as_str raw of
        Some s \<Rightarrow> (case parse_i64 s of None \<Rightarrow> None | Some v \<Rightarrow> u64_of_i64 v)
      | None \<Rightarrow> (case as_i64 raw of None \<Rightarrow> None | Some n \<Rightarrow> u64_of_i64 n))"

text \<open>\<open>now\<close> is the clock in seconds; the subtraction saturates at zero, as on \<open>nat\<close>.\<close>

definition verify_index_bundle ::
  "(string \<Rightarrow> string) \<Rightarrow> (string \<Rightarrow> json option) \<Rightarrow> ('b, 'e, 'r, 'k) sigstore \<Rightarrow> nat \<Rightarrow>
   string \<Rightarrow> string \<Rightarrow> string \<Rightarrow> string \<Rightarrow> nat option \<Rightarrow> verification_result" where
  "verify_index_bundle sha json sg now index_bytes bundle_bytes trust_bundle signer max_age =
     (case json bundle_bytes of
        None \<Rightarrow> VBundleMalformed
      | Some bundle_json \<Rightarrow>
          if as_object bundle_json = None then VBundleMalformed
          else case extract_integrated_time bundle_json of
            None \<Rightarrow> VBundleMalformed
          | Some integrated_time \<Rightarrow>
              if (case max_age of None \<Rightarrow> False | Some age \<Rightarrow> age \<le> now - integrated_time)
              then VBundleStale
              else verify_crypto sha json sg index_bytes bundle_bytes trust_bundle signer)"

subsection \<open>The policy dispatch\<close>

text \<open>\<open>warned\<close> is the per-invocation set of URLs that were warned about; the message is printed, its slug is kept.\<close>

definition enforce_index_trust ::
  "verification_result \<Rightarrow> trust_policy \<Rightarrow> string \<Rightarrow> string set \<Rightarrow> string + (string set \<times> string option)" where
  "enforce_index_trust result policy url warned =
     (if policy = Off \<or> result = VTrusted then Inr (warned, None)
      else let slug = the (result_slug result)
      in if policy = Strict then Inl slug
         else if url \<in> warned then Inr (warned, None)
         else Inr (insert url warned, Some slug))"

subsection \<open>The claims that are shown\<close>

record index_bundle_info =
  bi_integrated_time :: int
  bi_rekor_log_index :: string
  bi_subject_sha256 :: "string option"
  bi_signer_san :: "string option"
  bi_oidc_issuer :: "string option"

definition describe_index_bundle :: "(string \<Rightarrow> json option) \<Rightarrow> string \<Rightarrow> index_bundle_info option" where
  "describe_index_bundle json bundle_bytes =
     (case json bundle_bytes of
        None \<Rightarrow> None
      | Some data \<Rightarrow>
          if as_object data = None then None
          else case extract_integrated_time data of
            None \<Rightarrow> None
          | Some t \<Rightarrow>
              if \<not> fits_i64 (int t) then None
              else
                let raw = json_key (json_at (json_key (json_key data ''verificationMaterial'') ''tlogEntries'') 0) ''logIndex'';
                    claims = json_key data ''_milpa_claims''
                in Some \<lparr>bi_integrated_time = int t,
                     bi_rekor_log_index =
                       (case as_str raw of
                          Some s \<Rightarrow> (case parse_i64 s of Some n \<Rightarrow> dec_of_int n | None \<Rightarrow> s)
                        | None \<Rightarrow> (case as_i64 raw of Some n \<Rightarrow> dec_of_int n | None \<Rightarrow> ''(not available)'')),
                     bi_subject_sha256 = as_str (json_key claims ''subject_sha256''),
                     bi_signer_san = as_str (json_key claims ''signer_san''),
                     bi_oidc_issuer = as_str (json_key claims ''oidc_issuer'')\<rparr>)"

text \<open>The freshness line: the age in \<^verbatim>\<open>i64\<close>, against the window cast from \<^verbatim>\<open>u64\<close>.\<close>

definition shown_fresh :: "int \<Rightarrow> int \<Rightarrow> u64 \<Rightarrow> bool" where
  "shown_fresh now integrated_time max_age \<longleftrightarrow> now - integrated_time < sint max_age"

definition available :: "string option \<Rightarrow> string" where
  "available v = (case v of Some s \<Rightarrow> s | None \<Rightarrow> ''(not available)'')"

definition format_index_trust_info ::
  "string \<Rightarrow> string \<Rightarrow> bool \<Rightarrow> bool \<Rightarrow> index_bundle_info option \<Rightarrow> int \<Rightarrow> u64 \<Rightarrow> string" where
  "format_index_trust_info url policy index_cached bundle_cached info now max_age =
     join [CHR 0x0A]
       ([''index-url:      '' @ url,
         ''policy:         '' @ policy,
         ''index-cached:   '' @ (if index_cached then ''yes'' else ''no''),
         ''bundle-cached:  '' @ (if bundle_cached then ''yes'' else ''no'')] @
        (case info of
           None \<Rightarrow> []
         | Some i \<Rightarrow>
             [''signer:         '' @ available (bi_signer_san i),
              ''issuer:         '' @ available (bi_oidc_issuer i),
              ''integrated:     '' @ dec_of_int (bi_integrated_time i),
              ''subject-sha256: '' @ available (bi_subject_sha256 i),
              ''rekor-entry:    '' @ bi_rekor_log_index i,
              ''freshness:      '' @ (if shown_fresh now (bi_integrated_time i) max_age then ''fresh'' else ''stale'')])) @
     [CHR 0x0A]"

subsection \<open>Facts\<close>

lemma sint_of_u64:
  "sint (m :: u64) = (if unat m < 2 ^ 63 then int (unat m) else int (unat m) - 2 ^ 64)"
proof -
  obtain n where n: "unat m = n" "uint m = int n" "n < 2 ^ 64"
  proof (rule that [OF refl uint_nat])
    show "unat m < 2 ^ 64" using unsigned_less [of m] by simp
  qed
  have "sint m = (int n + 2 ^ 63) mod 2 ^ 64 - 2 ^ 63"
    by (simp add: sint_uint n(2) signed_take_bit_eq_take_bit_shift take_bit_eq_mod)
  moreover have "(int n + 2 ^ 63) mod 2 ^ 64 = (if n < 2 ^ 63 then int n + 2 ^ 63 else int n - 2 ^ 63)"
  proof (cases "n < 2 ^ 63")
    case False
    then have "(int n + 2 ^ 63) mod 2 ^ 64 = (int n + 2 ^ 63 - 2 ^ 64) mod 2 ^ 64" by (metis minus_mod_self2)
    also have "\<dots> = int n - 2 ^ 63" using False n(3) by simp
    finally show ?thesis using False by simp
  qed simp
  ultimately show ?thesis by (simp add: n(1))
qed

lemma result_roundtrip: "result_from_value s = Some r \<longleftrightarrow> s = result_value r"
  by (cases r) (auto simp: result_from_value_def)

lemma crypto_trusted:
  assumes "verify_crypto sha json sg ix b tb signer = VTrusted"
  obtains bdl entry root log_id key rejected where
    "sg_bundle sg b = Some bdl" "sg_tlog_entries sg bdl = Some [entry]"
    "extract_dsse_subject_sha256 json sg bdl = Some (sha ix)"
    "sg_trust_root sg tb = Some root" "sg_log_id sg entry = Some log_id"
    "sg_rekor_key sg root log_id = Some key" "sg_new_verifier sg root"
    "sg_verify sg root (sha ix) bdl signer = (True, rejected)" "sg_inclusion sg entry key = Included"
proof -
  show ?thesis
    using assms
    by (simp add: verify_crypto_def Let_def split: option.splits list.splits if_splits prod.splits adapter_outcome.splits)
      (rule that; simp)
qed

lemma crypto_not_stale: "verify_crypto sha json sg ix b tb signer \<noteq> VBundleStale"
  by (simp add: verify_crypto_def Let_def split: option.splits list.splits prod.splits adapter_outcome.splits)


subsection \<open>Properties\<close>

text \<open>
  C13. Admission of an index under the strict policy.  If verification followed by the dispatch lets an
  index through, then the bundle is a JSON object with an integrated time inside the window, it has
  exactly one transparency log entry, its attested subject digest is the digest of the index bytes, the
  entry's log key is in the trust root, the signature verified for the expected signer and the entry is
  included in the log.  Every other result is an error, and the slug tells which.
\<close>

theorem strict_index_admission:
  assumes "enforce_index_trust (verify_index_bundle sha json sg now ix b tb signer (Some max_age)) Strict url warned = r"
  shows "case r of
    Inl slug \<Rightarrow> result_slug (verify_index_bundle sha json sg now ix b tb signer (Some max_age)) = Some slug
  | Inr out \<Rightarrow> out = (warned, None) \<and>
      (\<exists>j t bdl entry root log_id key rejected.
         json b = Some j \<and> as_object j \<noteq> None \<and> extract_integrated_time j = Some t \<and> now - t < max_age \<and>
         sg_bundle sg b = Some bdl \<and> sg_tlog_entries sg bdl = Some [entry] \<and>
         extract_dsse_subject_sha256 json sg bdl = Some (sha ix) \<and>
         sg_trust_root sg tb = Some root \<and> sg_log_id sg entry = Some log_id \<and>
         sg_rekor_key sg root log_id = Some key \<and>
         sg_verify sg root (sha ix) bdl signer = (True, rejected) \<and> sg_inclusion sg entry key = Included)"
proof (cases "verify_index_bundle sha json sg now ix b tb signer (Some max_age) = VTrusted")
  case True
  then obtain j t where j: "json b = Some j" "as_object j \<noteq> None" "extract_integrated_time j = Some t"
      "now - t < max_age" "verify_crypto sha json sg ix b tb signer = VTrusted"
    by (auto simp: verify_index_bundle_def not_le split: option.splits if_splits)
  from j(5) show ?thesis
    by (rule crypto_trusted) (use assms True j(1-4) in \<open>auto simp: enforce_index_trust_def\<close>)
next
  case False
  then show ?thesis
    using assms
    by (cases "verify_index_bundle sha json sg now ix b tb signer (Some max_age)")
      (auto simp: enforce_index_trust_def)
qed

definition no_sigstore :: "(unit, unit, unit, unit) sigstore" where
  "no_sigstore = \<lparr>sg_bundle = (\<lambda>_. None), sg_tlog_entries = (\<lambda>_. None), sg_dsse_payload = (\<lambda>_. None),
     sg_trust_root = (\<lambda>_. None), sg_log_id = (\<lambda>_. None), sg_rekor_key = (\<lambda>_ _. None),
     sg_new_verifier = (\<lambda>_. False), sg_verify = (\<lambda>_ _ _ _. (False, False)), sg_inclusion = (\<lambda>_ _. CryptoInvalid)\<rparr>"

theorem strict_index_admission_witness:
  "case enforce_index_trust (verify_index_bundle (\<lambda>s. s) (\<lambda>_. None) no_sigstore 0 [] [] [] [] (Some 1)) Strict ''u'' {} of
     Inl slug \<Rightarrow> slug = ''TNG-INDEX-BUNDLE-MALFORMED'' | Inr out \<Rightarrow> False"
  using strict_index_admission [OF refl, where json = "\<lambda>_. None" and sha = "\<lambda>s. s" and sg = no_sigstore and now = 0
      and ix = "[]" and b = "[]" and tb = "[]" and signer = "[]" and max_age = 1 and url = "''u''" and warned = "{}"]
  by (simp add: verify_index_bundle_def enforce_index_trust_def)

text \<open>
  The freshness that is shown is the freshness that is enforced, for every window that is positive
  and below \<open>2 ^ 63\<close> seconds.  With the window 0 a bundle dated in the future is shown as fresh and
  refused as stale, and from \<open>2 ^ 63\<close> on the cast to \<^verbatim>\<open>i64\<close> wraps, so a bundle that is accepted is shown
  as stale.
\<close>

theorem shown_freshness:
  "(\<forall>max_age :: u64. 0 < max_age \<and> unat max_age < 2 ^ 63 \<longrightarrow>
      (shown_fresh (int now) (int t) max_age \<longleftrightarrow> now - t < unat max_age)) \<and>
   (\<forall>max_age :: u64. max_age = 0 \<and> now < t \<longrightarrow>
      shown_fresh (int now) (int t) max_age \<and> \<not> now - t < unat max_age) \<and>
   (\<forall>max_age :: u64. 2 ^ 63 \<le> unat max_age \<and> t \<le> now \<and> now < 2 ^ 63 \<longrightarrow>
      \<not> shown_fresh (int now) (int t) max_age \<and> now - t < unat max_age)"
proof -
  have pos: "0 < unat m" if "0 < m" for m :: u64 using that by (simp add: word_less_nat_alt)
  have *: "(0 < m \<and> n < 2 ^ 63 \<longrightarrow> (int now - int t < sint m \<longleftrightarrow> now - t < n)) \<and>
      (m = 0 \<and> now < t \<longrightarrow> int now - int t < sint m \<and> \<not> now - t < n) \<and>
      (2 ^ 63 \<le> n \<and> t \<le> now \<and> now < 2 ^ 63 \<longrightarrow> \<not> int now - int t < sint m \<and> now - t < n)"
    if n: "unat m = n" for m :: u64 and n
  proof -
    have "unat m < 2 ^ 64" using unsigned_less [of m] by simp
    then have "n < 2 ^ 64" by (simp only: n)
    moreover have "sint m = (if n < 2 ^ 63 then int n else int n - 2 ^ 64)" using sint_of_u64 [of m] n by simp
    moreover have "m = 0 \<Longrightarrow> n = 0" using n by simp
    ultimately show ?thesis using pos [of m, unfolded n] by (auto split: if_splits)
  qed
  show ?thesis
    unfolding shown_fresh_def using * [OF refl] by blast
qed

theorem shown_freshness_witness:
  "shown_fresh (int 10) (int 5) 6 \<and> shown_fresh (int 4) (int 5) 0 \<and>
   \<not> shown_fresh (int 10) (int 5) 18446744073709551615"
  using shown_freshness [of 10 5] shown_freshness [of 4 5]
  by (simp add: word_less_nat_alt)

end
