(* ===== verification/Epoch.thy ===== *)
theory Epoch
  imports IndexTrust
begin

text \<open>
  The epoch commitment, \<^verbatim>\<open>milpa-core/src/epoch_commitment.rs\<close>: the canonical encoding of the pre-epoch
  set, the sidecar, the arming phase and its enforcement.  \<open>verifier\<close> stands for the injected
  \<^verbatim>\<open>IndexBundleVerifier\<close> with its trust bundle, \<open>render\<close> for \<^verbatim>\<open>serde_json::to_vec\<close>.
\<close>

subsection \<open>Identities and their canonical order\<close>

definition DOMAIN_PREFIX :: string where "DOMAIN_PREFIX = ''milpa-preepoch-v1:''"
definition FIELD_SEP :: char where "FIELD_SEP = CHR 0x1F"
definition RECORD_SEP :: char where "RECORD_SEP = CHR 0x1E"

record pre_epoch_identity =
  pe_namespace :: string
  pe_name :: string
  pe_version :: string
  pe_content_hash :: string

datatype version_sort_key = Parseable vkey | Unparseable string

instantiation version_sort_key :: linorder
begin

fun less_eq_version_sort_key :: "version_sort_key \<Rightarrow> version_sort_key \<Rightarrow> bool" where
  "less_eq_version_sort_key (Parseable a) (Parseable b) \<longleftrightarrow> a \<le> b"
| "less_eq_version_sort_key (Parseable a) (Unparseable s) \<longleftrightarrow> True"
| "less_eq_version_sort_key (Unparseable s) (Parseable b) \<longleftrightarrow> False"
| "less_eq_version_sort_key (Unparseable s) (Unparseable t) \<longleftrightarrow> s \<le> t"

definition less_version_sort_key :: "version_sort_key \<Rightarrow> version_sort_key \<Rightarrow> bool" where
  "less_version_sort_key x y \<longleftrightarrow> x \<le> y \<and> \<not> y \<le> (x :: version_sort_key)"

instance
proof
  fix x y z :: version_sort_key
  show "(x < y) = (x \<le> y \<and> \<not> y \<le> x)" by (simp add: less_version_sort_key_def)
  show "x \<le> x" by (cases x) auto
  show "x \<le> y \<Longrightarrow> y \<le> z \<Longrightarrow> x \<le> z" by (cases x; cases y; cases z) auto
  show "x \<le> y \<Longrightarrow> y \<le> x \<Longrightarrow> x = y" by (cases x; cases y) auto
  show "x \<le> y \<or> y \<le> x" by (cases x; cases y) auto
qed

end

definition version_sort_key :: "string \<Rightarrow> version_sort_key" where
  "version_sort_key v =
     (case parse_version v of Some x \<Rightarrow> Parseable (precedence_key x) | None \<Rightarrow> Unparseable v)"

definition identity_sort_key :: "pre_epoch_identity \<Rightarrow> string \<times> string \<times> version_sort_key \<times> string \<times> string" where
  "identity_sort_key i =
     (pe_namespace i, pe_name i, version_sort_key (pe_version i), pe_content_hash i, pe_version i)"

definition dedup :: "'a list \<Rightarrow> 'a list" where
  "dedup xs = foldl (\<lambda>acc x. if x \<in> set acc then acc else acc @ [x]) [] xs"

definition sorted_deduped :: "pre_epoch_identity list \<Rightarrow> pre_epoch_identity list" where
  "sorted_deduped ids = sort_key identity_sort_key (dedup ids)"

definition encode_identity :: "pre_epoch_identity \<Rightarrow> string" where
  "encode_identity i = join [FIELD_SEP] [pe_namespace i, pe_name i, pe_version i, pe_content_hash i]"

definition canonical_bytes :: "pre_epoch_identity list \<Rightarrow> string" where
  "canonical_bytes ids = join [RECORD_SEP] (map encode_identity (sorted_deduped ids))"

definition canonical_preimage :: "pre_epoch_identity list \<Rightarrow> string" where
  "canonical_preimage ids = DOMAIN_PREFIX @ canonical_bytes ids"

definition commitment_digest :: "(string \<Rightarrow> string) \<Rightarrow> pre_epoch_identity list \<Rightarrow> string" where
  "commitment_digest sha ids = sha (canonical_preimage ids)"

subsection \<open>The sidecar\<close>

definition json_field :: "json \<Rightarrow> string \<Rightarrow> string option" where
  "json_field j k = (case json_get j k of None \<Rightarrow> None | Some v \<Rightarrow> as_str v)"

text \<open>One turn of the loop over the listed identities.\<close>

definition parse_identity_entry :: "json \<Rightarrow> pre_epoch_identity option" where
  "parse_identity_entry e =
     (case (json_field e ''namespace'', json_field e ''name'', json_field e ''version'', json_field e ''content_hash'') of
        (Some ns, Some n, Some v, Some h) \<Rightarrow>
          Some \<lparr>pe_namespace = ns, pe_name = n, pe_version = v, pe_content_hash = h\<rparr>
      | _ \<Rightarrow> None)"

definition parse_sidecar_payload ::
  "(string \<Rightarrow> json option) \<Rightarrow> (json \<Rightarrow> string) \<Rightarrow> string \<Rightarrow> (pre_epoch_identity list \<times> string) option" where
  "parse_sidecar_payload json render payload =
     (case json payload of
        None \<Rightarrow> None
      | Some obj \<Rightarrow>
          (case json_get obj ''identities'' of
             None \<Rightarrow> None
           | Some raw \<Rightarrow>
               (case as_array raw of
                  None \<Rightarrow> None
                | Some entries \<Rightarrow>
                    (case those (map parse_identity_entry entries) of
                       None \<Rightarrow> None
                     | Some ids \<Rightarrow>
                         (case json_get obj ''bundle'' of
                            None \<Rightarrow> None
                          | Some b \<Rightarrow> if as_object b = None then None else Some (ids, render b))))))"

subsection \<open>The arming phase\<close>

datatype epoch_commitment_status =
    Unarmed
  | Armed (armed_identities: "pre_epoch_identity set") (armed_time: int)
  | ArmingInvalid (invalid_reason: string)

definition is_valid_commitment_pointer :: "string \<Rightarrow> bool" where
  "is_valid_commitment_pointer p \<longleftrightarrow> length p = 64 \<and> list_all is_lower_hex p"

definition evaluate_epoch_commitment ::
  "(string \<Rightarrow> string) \<Rightarrow> (string \<Rightarrow> json option) \<Rightarrow> (json \<Rightarrow> string) \<Rightarrow>
   (string \<Rightarrow> string \<Rightarrow> string \<Rightarrow> verification_result) \<Rightarrow>
   string option \<Rightarrow> string option \<Rightarrow> bool \<Rightarrow> string \<Rightarrow> epoch_commitment_status" where
  "evaluate_epoch_commitment sha json render verifier pointer sidecar fetch_failed signer =
     (case pointer of
        None \<Rightarrow> Unarmed
      | Some p \<Rightarrow>
          if \<not> is_valid_commitment_pointer p then ArmingInvalid ''malformed commitment pointer''
          else if fetch_failed \<or> sidecar = None then ArmingInvalid ''sidecar unfetchable''
          else case parse_sidecar_payload json render (the sidecar) of
            None \<Rightarrow> ArmingInvalid ''sidecar malformed''
          | Some (ids, bundle_bytes) \<Rightarrow>
              if commitment_digest sha ids \<noteq> p then ArmingInvalid ''hash(S) != C''
              else let result = verifier (canonical_preimage ids) bundle_bytes signer
              in if result \<noteq> VTrusted then ArmingInvalid (result_value result)
                 else case describe_index_bundle json bundle_bytes of
                   None \<Rightarrow> ArmingInvalid ''sidecar bundle malformed''
                 | Some info \<Rightarrow> Armed (set ids) (bi_integrated_time info))"

definition enforce_epoch_commitment :: "epoch_commitment_status \<Rightarrow> string + unit" where
  "enforce_epoch_commitment status =
     (case status of ArmingInvalid r \<Rightarrow> Inl ''TNG-INDEX-EPOCH-COMMITMENT-INVALID'' | _ \<Rightarrow> Inr ())"

definition is_armed :: "epoch_commitment_status \<Rightarrow> bool" where
  "is_armed status \<longleftrightarrow> (case status of Armed s t \<Rightarrow> True | _ \<Rightarrow> False)"

definition check_epoch_ratchet_requirement ::
  "epoch_commitment_status \<Rightarrow> trust_policy \<Rightarrow> trust_policy \<Rightarrow> string + unit" where
  "check_epoch_ratchet_requirement status entry_trust index_history =
     (if \<not> is_armed status then Inr ()
      else if entry_trust \<noteq> Strict then Inr ()
      else if index_history = Strict then Inr ()
      else Inl ''TNG-INDEX-EPOCH-RATCHET-REQUIRED'')"

subsection \<open>Facts\<close>

lemma dedup_set [simp]: "set (dedup xs) = set xs" and dedup_distinct [simp]: "distinct (dedup xs)"
proof -
  have "set (foldl (\<lambda>acc x. if x \<in> set acc then acc else acc @ [x]) acc xs) = set acc \<union> set xs \<and>
      (distinct acc \<longrightarrow> distinct (foldl (\<lambda>acc x. if x \<in> set acc then acc else acc @ [x]) acc xs))" for acc
    by (induction xs arbitrary: acc) auto
  from this [of "[]"] show "set (dedup xs) = set xs" "distinct (dedup xs)" by (simp_all add: dedup_def)
qed

lemma identity_sort_key_inj: "inj identity_sort_key"
  by (rule injI) (simp add: identity_sort_key_def)

lemma sorted_deduped_set: "set xs = set ys \<Longrightarrow> sorted_deduped xs = sorted_deduped ys"
  unfolding sorted_deduped_def
  by (intro sort_key_perm)
    (simp_all add: set_eq_iff_mset_eq_distinct [THEN iffD1] distinct_map inj_on_subset [OF identity_sort_key_inj])

lemma set_sorted_deduped [simp]: "set (sorted_deduped ids) = set ids"
  by (simp add: sorted_deduped_def)

text \<open>Texts that the separators cannot be confused with, as every index coordinate is.\<close>

definition sep_free :: "string \<Rightarrow> bool" where
  "sep_free s \<longleftrightarrow> FIELD_SEP \<notin> set s \<and> RECORD_SEP \<notin> set s"

definition identity_sep_free :: "pre_epoch_identity \<Rightarrow> bool" where
  "identity_sep_free i \<longleftrightarrow>
     sep_free (pe_namespace i) \<and> sep_free (pe_name i) \<and> sep_free (pe_version i) \<and> sep_free (pe_content_hash i)"

lemma seps_differ: "FIELD_SEP \<noteq> RECORD_SEP"
  by (simp add: FIELD_SEP_def RECORD_SEP_def)

lemma encode_no_record_sep: "identity_sep_free i \<Longrightarrow> RECORD_SEP \<notin> set (encode_identity i)"
  using set_join [of "[FIELD_SEP]"] seps_differ
  by (auto simp: encode_identity_def identity_sep_free_def sep_free_def)

lemma encode_has_field_sep: "FIELD_SEP \<in> set (encode_identity i)"
  by (simp add: encode_identity_def)

lemma encode_inj:
  assumes "encode_identity i = encode_identity j" "identity_sep_free i" "identity_sep_free j"
  shows "i = j"
proof -
  have "[pe_namespace i, pe_name i, pe_version i, pe_content_hash i] =
      [pe_namespace j, pe_name j, pe_version j, pe_content_hash j]"
    using assms by (intro join_inj_fresh) (auto simp: encode_identity_def identity_sep_free_def sep_free_def)
  then show ?thesis by simp
qed

text \<open>A set with the preimage of a clean set has no clean member that the clean set lacks.\<close>

lemma no_forged_member:
  assumes "canonical_preimage xs = canonical_preimage ys" "\<forall>x \<in> set xs. identity_sep_free x"
    and "y \<in> set ys" "identity_sep_free y"
  shows "y \<in> set xs"
proof -
  have bytes: "canonical_bytes xs = canonical_bytes ys"
    using assms(1) by (simp add: canonical_preimage_def)
  have ne: "sorted_deduped ys \<noteq> []" using assms(3) set_sorted_deduped [of ys] by force
  have "split_on RECORD_SEP (canonical_bytes ys) = concat (map (split_on RECORD_SEP \<circ> encode_identity) (sorted_deduped ys))"
    using ne by (simp add: canonical_bytes_def split_on_join_concat)
  moreover have "encode_identity y \<in> set (split_on RECORD_SEP (encode_identity y))"
    using split_on_no_sep [OF encode_no_record_sep [OF assms(4)]] by simp
  ultimately have piece: "encode_identity y \<in> set (split_on RECORD_SEP (canonical_bytes xs))"
    using assms(3) by (auto simp: bytes)
  have "sorted_deduped xs \<noteq> []"
  proof
    assume "sorted_deduped xs = []"
    with piece have "encode_identity y = []" by (simp add: canonical_bytes_def)
    with encode_has_field_sep [of y] show False by simp
  qed
  then have "split_on RECORD_SEP (canonical_bytes xs) = map encode_identity (sorted_deduped xs)"
    unfolding canonical_bytes_def
    using assms(2) by (intro split_on_join) (auto dest: encode_no_record_sep)
  with piece obtain x where "x \<in> set xs" "encode_identity x = encode_identity y" by auto
  with encode_inj [of x y] assms(2,4) show ?thesis by blast
qed

lemma armed_iff:
  "evaluate_epoch_commitment sha json render verifier pointer sidecar failed signer = Armed s t \<longleftrightarrow>
   (\<exists>p bytes ids bdl info. pointer = Some p \<and> is_valid_commitment_pointer p \<and> \<not> failed \<and> sidecar = Some bytes \<and>
      parse_sidecar_payload json render bytes = Some (ids, bdl) \<and> commitment_digest sha ids = p \<and>
      verifier (canonical_preimage ids) bdl signer = VTrusted \<and>
      describe_index_bundle json bdl = Some info \<and> s = set ids \<and> t = bi_integrated_time info)"
  by (auto simp: evaluate_epoch_commitment_def Let_def split: option.splits if_splits prod.splits)


subsection \<open>Properties\<close>

text \<open>
  The commitment is a function of the set.  The order in which identities are listed and repeated
  listings do not change the canonical encoding, although versions that are equal in precedence differ
  as texts.
\<close>

theorem commitment_of_set:
  assumes "set xs = set ys"
  shows "canonical_preimage xs = canonical_preimage ys \<and> commitment_digest sha xs = commitment_digest sha ys"
  using sorted_deduped_set [OF assms]
  by (simp add: canonical_preimage_def canonical_bytes_def commitment_digest_def)

definition demo_identity :: "string \<Rightarrow> string \<Rightarrow> pre_epoch_identity" where
  "demo_identity v h = \<lparr>pe_namespace = ''ns'', pe_name = ''pkg'', pe_version = v, pe_content_hash = h\<rparr>"

theorem commitment_of_set_witness:
  "commitment_digest rev [demo_identity ''1.0.0'' ''h'', demo_identity ''1.0.0+b'' ''h''] =
   commitment_digest rev [demo_identity ''1.0.0+b'' ''h'', demo_identity ''1.0.0'' ''h'', demo_identity ''1.0.0+b'' ''h'']"
  using commitment_of_set [of "[demo_identity ''1.0.0'' ''h'', demo_identity ''1.0.0+b'' ''h'']"
      "[demo_identity ''1.0.0+b'' ''h'', demo_identity ''1.0.0'' ''h'', demo_identity ''1.0.0+b'' ''h'']" rev]
  by auto

text \<open>
  C10. A forged sidecar cannot grandfather anything.  Let one sidecar arm the set that the registry
  committed to, whose texts are free of the separators, and let another sidecar, from whatever source,
  arm a set under the same pointer.  Unless the two preimages are a collision of the hash, each clean
  identity of the second set is in the first one.
\<close>

theorem epoch_no_forged_member:
  assumes "evaluate_epoch_commitment sha json render verifier (Some p) (Some honest) False signer = Armed S t"
    and "evaluate_epoch_commitment sha json render verifier (Some p) (Some forged) False signer = Armed S' t'"
    and "parse_sidecar_payload json render honest = Some (ids, b)"
    and "parse_sidecar_payload json render forged = Some (ids', b')"
    and "inj_on sha {canonical_preimage ids, canonical_preimage ids'}"
    and "\<forall>x \<in> S. identity_sep_free x" "y \<in> S'" "identity_sep_free y"
  shows "y \<in> S"
proof -
  have S: "S = set ids" "S' = set ids'" "sha (canonical_preimage ids) = sha (canonical_preimage ids')"
    using assms(1-4) unfolding armed_iff by (auto simp: commitment_digest_def)
  then have "canonical_preimage ids = canonical_preimage ids'"
    using assms(5) by (auto dest: inj_onD)
  from no_forged_member [OF this] assms(6-8) show ?thesis by (simp add: S)
qed

definition demo_sidecar :: "json \<Rightarrow> json" where
  "demo_sidecar ids = JObject [(''identities'', ids), (''bundle'', JObject [])]"

definition demo_record :: "string \<Rightarrow> string \<Rightarrow> json" where
  "demo_record v h = JObject [(''namespace'', JString ''ns''), (''name'', JString ''pkg''),
     (''version'', JString v), (''content_hash'', JString h)]"

definition demo_bundle :: json where
  "demo_bundle = JObject [(''verificationMaterial'', JObject [(''tlogEntries'',
     JArray [JObject [(''integratedTime'', JInt 7)]])])]"

definition demo_json :: "json \<Rightarrow> string \<Rightarrow> json option" where
  "demo_json ids bytes = Some (if bytes = ''bundle'' then demo_bundle else demo_sidecar ids)"

lemma demo_arms:
  assumes "those (map parse_identity_entry es) = Some ids" "sha (canonical_preimage ids) = replicate 64 CHR ''a''"
  shows "parse_sidecar_payload (demo_json (JArray es)) (\<lambda>_. ''bundle'') ''s'' = Some (ids, ''bundle'')"
    and "evaluate_epoch_commitment sha (demo_json (JArray es)) (\<lambda>_. ''bundle'') (\<lambda>_ _ _. VTrusted)
      (Some (replicate 64 CHR ''a'')) (Some ''s'') False signer = Armed (set ids) 7"
proof -
  show p: "parse_sidecar_payload (demo_json (JArray es)) (\<lambda>_. ''bundle'') ''s'' = Some (ids, ''bundle'')"
    using assms(1) by (simp add: parse_sidecar_payload_def demo_json_def demo_sidecar_def)
  have t: "describe_index_bundle (demo_json (JArray es)) ''bundle'' \<noteq> None \<and>
      (\<forall>i. describe_index_bundle (demo_json (JArray es)) ''bundle'' = Some i \<longrightarrow> bi_integrated_time i = 7)"
    by (simp add: describe_index_bundle_def demo_json_def demo_bundle_def extract_integrated_time_def
        integrated_time_value_def json_key_def json_at_def json_nth_def fits_i64_def u64_of_i64_def Let_def)
  have "is_valid_commitment_pointer (replicate 64 CHR ''a'')"
    by (simp add: is_valid_commitment_pointer_def list_all_iff is_lower_hex_def)
  then show "evaluate_epoch_commitment sha (demo_json (JArray es)) (\<lambda>_. ''bundle'') (\<lambda>_ _ _. VTrusted)
      (Some (replicate 64 CHR ''a'')) (Some ''s'') False signer = Armed (set ids) 7"
    unfolding armed_iff using p t assms(2) by (auto simp: commitment_digest_def)
qed

lemma demo_entries:
  "those (map parse_identity_entry [demo_record v h]) = Some [demo_identity v h]"
  by (simp add: demo_record_def demo_identity_def parse_identity_entry_def json_field_def)

theorem epoch_no_forged_member_witness:
  "demo_identity ''1.0.0'' ''h'' \<in> {demo_identity ''1.0.0'' ''h''}"
proof -
  let ?a = "replicate 64 CHR ''a''"
  note d = demo_arms [OF demo_entries [of "''1.0.0''" "''h''"], of "\<lambda>_. ?a", OF refl]
  have "\<forall>x \<in> set [demo_identity ''1.0.0'' ''h'']. identity_sep_free x"
    by (simp add: demo_identity_def identity_sep_free_def sep_free_def FIELD_SEP_def RECORD_SEP_def)
  with epoch_no_forged_member [OF d(2) [of "[]"] d(2) [of "[]"] d(1) d(1), of "demo_identity ''1.0.0'' ''h''"]
  show ?thesis by simp
qed

text \<open>
  The commitment does not determine the set.  The identities of a sidecar are not checked for the
  separators, so two sidecars can list different sets with one preimage: the second one below merges the
  two records of the first into one, and both grandfathered identities lose their status while the
  pointer, the digest and the signed bytes are unchanged.
\<close>

theorem epoch_set_ambiguous:
  "\<exists>r1 r2 merged. identity_sep_free r1 \<and> identity_sep_free r2 \<and>
     canonical_preimage [r1, r2] = canonical_preimage [merged] \<and> r1 \<noteq> merged \<and> r2 \<noteq> merged"
proof -
  let ?r1 = "\<lparr>pe_namespace = ''a'', pe_name = ''p'', pe_version = ''1'', pe_content_hash = ''h''\<rparr>"
  let ?r2 = "\<lparr>pe_namespace = ''b'', pe_name = ''p'', pe_version = ''1'', pe_content_hash = ''h''\<rparr>"
  let ?m = "\<lparr>pe_namespace = ''a'', pe_name = ''p'', pe_version = ''1'',
    pe_content_hash = ''h'' @ RECORD_SEP # encode_identity ?r2\<rparr>"
  have "sorted_deduped [?r1, ?r2] = [?r1, ?r2]"
    by (simp add: sorted_deduped_def dedup_def identity_sort_key_def)
  then have "canonical_preimage [?r1, ?r2] = canonical_preimage [?m]"
    by (simp add: canonical_preimage_def canonical_bytes_def sorted_deduped_def dedup_def encode_identity_def)
  moreover have "identity_sep_free ?r1" "identity_sep_free ?r2"
    by (simp_all add: identity_sep_free_def sep_free_def FIELD_SEP_def RECORD_SEP_def)
  moreover have "?r1 \<noteq> ?m" "?r2 \<noteq> ?m" by simp_all
  ultimately show ?thesis by blast
qed

text \<open>
  Arming fails closed.  When the index carries a commitment and the resolve goes on, the sidecar was
  acquired, its set has the committed digest and the composed verifier trusted exactly the preimage of
  this set; and under a strict entry policy the history policy is strict as well.
\<close>

theorem epoch_fail_closed:
  assumes "evaluate_epoch_commitment sha json render verifier (Some p) sidecar failed signer = status"
    and "enforce_epoch_commitment status = Inr ()" "check_epoch_ratchet_requirement status entry_trust history = Inr ()"
  shows "(\<exists>bytes ids bdl. \<not> failed \<and> sidecar = Some bytes \<and> parse_sidecar_payload json render bytes = Some (ids, bdl) \<and>
      commitment_digest sha ids = p \<and> verifier (canonical_preimage ids) bdl signer = VTrusted \<and>
      armed_identities status = set ids) \<and>
    (entry_trust = Strict \<longrightarrow> history = Strict)"
proof -
  obtain S t where st: "status = Armed S t"
    using assms(1,2) by (auto simp: enforce_epoch_commitment_def evaluate_epoch_commitment_def Let_def
        split: epoch_commitment_status.splits option.splits if_splits prod.splits)
  with assms(1) have "evaluate_epoch_commitment sha json render verifier (Some p) sidecar failed signer = Armed S t" by simp
  then show ?thesis
    unfolding armed_iff using assms(3) st
    by (auto simp: check_epoch_ratchet_requirement_def is_armed_def split: if_splits)
qed

theorem epoch_fail_closed_witness:
  "\<exists>ids. commitment_digest (\<lambda>_. replicate 64 CHR ''a'') ids = replicate 64 CHR ''a'' \<and>
     {demo_identity ''1.0.0'' ''h''} = set ids"
proof -
  let ?a = "replicate 64 CHR ''a''"
  let ?st = "Armed (set [demo_identity ''1.0.0'' ''h'']) 7"
  have e: "enforce_epoch_commitment ?st = Inr ()" "check_epoch_ratchet_requirement ?st Strict Strict = Inr ()"
    by (simp_all add: enforce_epoch_commitment_def check_epoch_ratchet_requirement_def)
  show ?thesis
    using epoch_fail_closed [OF demo_arms(2) [OF demo_entries [of "''1.0.0''" "''h''"], of "\<lambda>_. ?a", OF refl] e]
    by auto
qed

end
