(* ===== verification/EntryTrust.thy ===== *)
theory EntryTrust
  imports Epoch DagIdentity ArtifactStore
begin

text \<open>
  The trust gate of a selected entry, \<^verbatim>\<open>milpa-core/src/entry_trust.rs\<close>: the stages of
  \<^verbatim>\<open>evaluate_entry_attestation\<close>, the sigstore verifier of an entry bundle, the policy that the epoch
  leaves in force, and the dispatch with its one warning per coordinate.  The bundle store is a function
  from pins to bytes or an error slug, the verifier a function of the subject, the bytes and the signer.
\<close>

subsection \<open>Results\<close>

datatype entry_result =
    ETrusted | EUnattested | EBundleMissing | EBundleMalformed | EDigestMismatch | ESubjectMismatch
  | ESignatureInvalid | ESignerMismatch

text \<open>\<open>None\<close> is the panic on a trusted result.\<close>

fun entry_slug :: "entry_result \<Rightarrow> string option" where
  "entry_slug EUnattested = Some ''TNG-ENTRY-UNATTESTED''"
| "entry_slug EBundleMissing = Some ''TNG-ENTRY-BUNDLE-MISSING''"
| "entry_slug EBundleMalformed = Some ''TNG-ENTRY-BUNDLE-MALFORMED''"
| "entry_slug EDigestMismatch = Some ''TNG-ENTRY-DIGEST-MISMATCH''"
| "entry_slug ESubjectMismatch = Some ''TNG-ENTRY-SUBJECT-MISMATCH''"
| "entry_slug ESignatureInvalid = Some ''TNG-ENTRY-SIGNATURE-INVALID''"
| "entry_slug ESignerMismatch = Some ''TNG-ENTRY-SIGNER-MISMATCH''"
| "entry_slug ETrusted = None"

datatype verifier_outcome =
    OTrusted | OBundleMalformed | ODigestMismatch | OSubjectMismatch | OSignatureInvalid | OSignerMismatch

definition outcome_from_wire :: "string \<Rightarrow> verifier_outcome option" where
  "outcome_from_wire s =
     (if s = ''trusted'' then Some OTrusted
      else if s = ''bundle-malformed'' then Some OBundleMalformed
      else if s = ''digest-mismatch'' then Some ODigestMismatch
      else if s = ''subject-mismatch'' then Some OSubjectMismatch
      else if s = ''signature-invalid'' then Some OSignatureInvalid
      else if s = ''signer-mismatch'' then Some OSignerMismatch
      else None)"

fun entry_of_outcome :: "verifier_outcome \<Rightarrow> entry_result" where
  "entry_of_outcome OTrusted = ETrusted"
| "entry_of_outcome OBundleMalformed = EBundleMalformed"
| "entry_of_outcome ODigestMismatch = EDigestMismatch"
| "entry_of_outcome OSubjectMismatch = ESubjectMismatch"
| "entry_of_outcome OSignatureInvalid = ESignatureInvalid"
| "entry_of_outcome OSignerMismatch = ESignerMismatch"

subsection \<open>Subjects\<close>

record entry_subject =
  su_name :: string
  su_sha256 :: string

definition coordinate :: "string \<Rightarrow> string \<Rightarrow> string \<Rightarrow> string" where
  "coordinate ns n v = ''pkg:tianguis/'' @ ns @ ''/'' @ n @ ''@'' @ v"

definition build_entry_subject :: "string \<Rightarrow> string \<Rightarrow> string \<Rightarrow> string \<Rightarrow> string + entry_subject" where
  "build_entry_subject ns n v content_hash =
     rbind (split_identity_scheme content_hash) (\<lambda>(_, hex_digest).
     Inr \<lparr>su_name = coordinate ns n v, su_sha256 = hex_digest\<rparr>)"

subsection \<open>Epoch membership and the policy in force\<close>

datatype epoch_membership = PreEpoch | PostEpoch

definition classify_epoch_membership ::
  "epoch_commitment_status \<Rightarrow> pre_epoch_identity \<Rightarrow> epoch_membership option" where
  "classify_epoch_membership status i =
     (case status of
        Armed identities _ \<Rightarrow> Some (if i \<in> identities then PreEpoch else PostEpoch)
      | _ \<Rightarrow> None)"

definition effective_epoch_policy :: "trust_policy \<Rightarrow> epoch_membership option \<Rightarrow> trust_policy" where
  "effective_epoch_policy policy membership =
     (if membership = Some PostEpoch then policy else if policy = Off then Off else Warn)"

subsection \<open>The sigstore verifier of an entry\<close>

text \<open>\<open>b64\<close> decodes standard base64, \<open>hex\<close> hexadecimal; \<open>sg_verify\<close> is here \<^verbatim>\<open>verify_raw_digest\<close>.\<close>

definition sigstore_entry_verify ::
  "(string \<Rightarrow> json option) \<Rightarrow> (string \<Rightarrow> string option) \<Rightarrow> (string \<Rightarrow> string option) \<Rightarrow> ('b, 'e, 'r, 'k) sigstore \<Rightarrow>
   string \<Rightarrow> entry_subject \<Rightarrow> string \<Rightarrow> string \<Rightarrow> verifier_outcome" where
  "sigstore_entry_verify json b64 hex sg trust_bundle subject bundle_bytes signer =
     (case json bundle_bytes of
        None \<Rightarrow> OBundleMalformed
      | Some bundle_json \<Rightarrow>
          if as_object bundle_json = None then OBundleMalformed
          else case as_str (json_key (json_key bundle_json ''dsseEnvelope'') ''payload'') of
            None \<Rightarrow> OBundleMalformed
          | Some payload_b64 \<Rightarrow>
          (case b64 payload_b64 of
            None \<Rightarrow> OBundleMalformed
          | Some payload_bytes \<Rightarrow>
          (case json payload_bytes of
            None \<Rightarrow> OBundleMalformed
          | Some payload_json \<Rightarrow>
          (case as_array (json_key payload_json ''subject'') of
            None \<Rightarrow> ODigestMismatch
          | Some [] \<Rightarrow> ODigestMismatch
          | Some (first # _) \<Rightarrow>
          (case as_str (json_key (json_key first ''digest'') ''sha256'') of
            None \<Rightarrow> ODigestMismatch
          | Some claimed_sha256 \<Rightarrow>
          if claimed_sha256 \<noteq> su_sha256 subject then ODigestMismatch
          else case as_str (json_key first ''name'') of
            None \<Rightarrow> OSubjectMismatch
          | Some claimed_name \<Rightarrow>
          if claimed_name \<noteq> su_name subject then OSubjectMismatch
          else case sg_bundle sg bundle_bytes of
            None \<Rightarrow> OBundleMalformed
          | Some bundle \<Rightarrow>
          (case sg_tlog_entries sg bundle of
            Some [entry] \<Rightarrow>
          (case sg_trust_root sg trust_bundle of
            None \<Rightarrow> OSignatureInvalid
          | Some root \<Rightarrow>
          (case sg_log_id sg entry of
            None \<Rightarrow> OBundleMalformed
          | Some log_id \<Rightarrow>
          (case sg_rekor_key sg root log_id of
            None \<Rightarrow> OSignatureInvalid
          | Some key \<Rightarrow>
          if \<not> sg_new_verifier sg root then OSignatureInvalid
          else case hex (su_sha256 subject) of
            None \<Rightarrow> ODigestMismatch
          | Some digest_bytes \<Rightarrow>
          (let (ok, rejected) = sg_verify sg root digest_bytes bundle signer
           in if \<not> ok then (if rejected then OSignerMismatch else OSignatureInvalid)
              else case sg_inclusion sg entry key of
                Included \<Rightarrow> OTrusted
              | CryptoInvalid \<Rightarrow> OSignatureInvalid
              | Malformed \<Rightarrow> OBundleMalformed))))
          | _ \<Rightarrow> OBundleMalformed))))))"

subsection \<open>The gate\<close>

record gate_outcome =
  go_result :: entry_result
  go_membership :: "epoch_membership option"
  go_cause :: "string option"

type_synonym bundle_get = "string \<Rightarrow> string + string"
type_synonym entry_verifier = "entry_subject \<Rightarrow> string \<Rightarrow> string \<Rightarrow> verifier_outcome"

definition expected_signer :: "attestation_kind \<Rightarrow> string \<Rightarrow> string" where
  "expected_signer kind vendor = (case kind of AuthorSigned signer \<Rightarrow> signer | MilpaVendored \<Rightarrow> vendor)"

definition evaluate_entry_attestation ::
  "entry_attestation option \<Rightarrow> pre_epoch_identity \<Rightarrow> entry_verifier \<Rightarrow> bundle_get option \<Rightarrow> string \<Rightarrow>
   epoch_commitment_status \<Rightarrow> string + gate_outcome" where
  "evaluate_entry_attestation attestation i verifier store vendor status =
     (let membership = classify_epoch_membership status i;
          missing = (\<lambda>cause. \<lparr>go_result = EBundleMissing, go_membership = membership, go_cause = Some cause\<rparr>)
      in case attestation of
        None \<Rightarrow> Inr \<lparr>go_result = EUnattested, go_membership = membership, go_cause = None\<rparr>
      | Some att \<Rightarrow>
      (case att_bundle_pin att of
        None \<Rightarrow> Inr (missing ''no-pin'')
      | Some pin \<Rightarrow>
      (case store of
        None \<Rightarrow> Inr (missing ''unfetchable'')
      | Some get \<Rightarrow>
      (case get pin of
        Inl e \<Rightarrow> if e = ''TNG-ENTRY-BUNDLE-PIN-MISMATCH'' then Inl e else Inr (missing ''unfetchable'')
      | Inr bundle_bytes \<Rightarrow>
          rbind (build_entry_subject (pe_namespace i) (pe_name i) (pe_version i) (pe_content_hash i)) (\<lambda>subject.
          Inr \<lparr>go_result = entry_of_outcome (verifier subject bundle_bytes (expected_signer (att_kind att) vendor)),
            go_membership = membership, go_cause = None\<rparr>)))))"

subsection \<open>The policy dispatch\<close>

text \<open>\<open>warned\<close> is the per-invocation set of coordinates, the second component the slug of a printed warning.\<close>

type_synonym coord = "string \<times> string \<times> string"

definition enforce_entry_trust ::
  "gate_outcome \<Rightarrow> trust_policy \<Rightarrow> coord \<Rightarrow> bool \<Rightarrow> coord set \<Rightarrow> string + (coord set \<times> string option)" where
  "enforce_entry_trust outcome policy key break_glass warned =
     (if policy = Off \<or> go_result outcome = ETrusted then Inr (warned, None)
      else let effective = effective_epoch_policy policy (go_membership outcome)
      in if effective = Off \<or> go_result outcome = ETrusted then Inr (warned, None)
      else let slug = the (entry_slug (go_result outcome))
      in if break_glass \<and> effective = Strict \<and> go_result outcome = EBundleMissing \<and>
            go_cause outcome = Some ''unfetchable''
         then Inr (warned, None)
         else if effective = Strict then Inl slug
         else if key \<in> warned then Inr (warned, None)
         else Inr (insert key warned, Some slug))"

text \<open>
  The notice about a registry without a commitment, with its once-per-invocation flag; the second
  component says whether it is printed.
\<close>

definition maybe_emit_no_epoch_armed_notice :: "trust_policy \<Rightarrow> epoch_commitment_status \<Rightarrow> bool \<Rightarrow> bool \<times> bool" where
  "maybe_emit_no_epoch_armed_notice policy status shown =
     (if policy \<noteq> Strict \<or> status \<noteq> Unarmed then (shown, False)
      else if shown then (shown, False) else (True, True))"

text \<open>
  The observability output.  The slice of the first twelve bytes panics, here \<open>None\<close>, when it would cut a
  character in two.
\<close>

definition is_char_boundary :: "string \<Rightarrow> nat \<Rightarrow> bool" where
  "is_char_boundary s i \<longleftrightarrow> i = 0 \<or> i = length s \<or> (i < length s \<and> \<not> (128 \<le> byte (s ! i) \<and> byte (s ! i) < 192))"

definition format_entry_trust_info :: "string \<Rightarrow> string \<Rightarrow> string option \<Rightarrow> string option" where
  "format_entry_trust_info policy url pointer =
     (let head = [''entry-trust:    '' @ policy, ''index-url:      '' @ url]
      in case pointer of
        None \<Rightarrow>
          Some (join [CHR 0x0A] (head @
            [''epoch-commit:   not armed (no attestation-epoch-commitment field on the cached index)'']) @ [CHR 0x0A])
      | Some p \<Rightarrow>
          let n = min (length p) 12
          in if is_char_boundary p n
             then Some (join [CHR 0x0A] (head @
               [''epoch-commit:   claimed ('' @ take n p @ ''...), cached claim only, not verified by show'']) @ [CHR 0x0A])
             else None)"

subsection \<open>Facts\<close>

lemma evaluate_trusted:
  assumes "evaluate_entry_attestation attestation i verifier store vendor status = Inr outcome"
    and "go_result outcome = ETrusted"
  obtains att pin get bytes subject where "attestation = Some att" "att_bundle_pin att = Some pin"
    "store = Some get" "get pin = Inr bytes"
    "build_entry_subject (pe_namespace i) (pe_name i) (pe_version i) (pe_content_hash i) = Inr subject"
    "verifier subject bytes (expected_signer (att_kind att) vendor) = OTrusted"
proof -
  have o: "entry_of_outcome v = ETrusted \<longleftrightarrow> v = OTrusted" for v by (cases v) auto
  show ?thesis
    using assms
    by (auto simp: evaluate_entry_attestation_def Let_def rbind_Inr o split: option.splits sum.splits if_splits
        intro: that)
qed

lemma evaluate_membership:
  "evaluate_entry_attestation attestation i verifier store vendor status = Inr outcome \<Longrightarrow>
   go_membership outcome = classify_epoch_membership status i"
  by (auto simp: evaluate_entry_attestation_def Let_def rbind_Inr split: option.splits sum.splits if_splits)

lemma subject_parts:
  "build_entry_subject ns n v h = Inr su \<Longrightarrow>
   su_name su = coordinate ns n v \<and> (\<exists>alg. h = alg @ CHR '':'' # su_sha256 su)"
  by (auto simp: build_entry_subject_def split_identity_scheme_def rbind_Inr split_once_Some split: option.splits)


lemma sigstore_trusted:
  assumes "sigstore_entry_verify json b64 hex sg tb subject bytes signer = OTrusted"
  obtains bj payload64 payload pj first rest bdl entry root log_id key raw rejected where
    "json bytes = Some bj" "as_str (json_key (json_key bj ''dsseEnvelope'') ''payload'') = Some payload64"
    "b64 payload64 = Some payload" "json payload = Some pj" "as_array (json_key pj ''subject'') = Some (first # rest)"
    "as_str (json_key (json_key first ''digest'') ''sha256'') = Some (su_sha256 subject)"
    "as_str (json_key first ''name'') = Some (su_name subject)"
    "sg_bundle sg bytes = Some bdl" "sg_tlog_entries sg bdl = Some [entry]" "sg_trust_root sg tb = Some root"
    "sg_log_id sg entry = Some log_id" "sg_rekor_key sg root log_id = Some key"
    "hex (su_sha256 subject) = Some raw" "sg_verify sg root raw bdl signer = (True, rejected)"
    "sg_inclusion sg entry key = Included"
proof -
  show ?thesis
    using assms
    by (simp add: sigstore_entry_verify_def Let_def split: option.splits list.splits if_splits prod.splits adapter_outcome.splits)
      (rule that; simp)
qed

subsection \<open>Properties\<close>


definition demo_entry_json :: "string \<Rightarrow> json option" where
  "demo_entry_json bytes = Some (
     if bytes = ''bundle'' then JObject [(''dsseEnvelope'', JObject [(''payload'', JString ''p64'')])]
     else JObject [(''subject'', JArray [JObject [(''name'', JString ''pkg:tianguis/ns/pkg@1''),
       (''digest'', JObject [(''sha256'', JString ''aa'')])]])])"

definition demo_sigstore :: "(unit, unit, unit, unit) sigstore" where
  "demo_sigstore = \<lparr>sg_bundle = \<lambda>_. Some (), sg_tlog_entries = \<lambda>_. Some [()], sg_dsse_payload = \<lambda>_. None,
     sg_trust_root = \<lambda>_. Some (), sg_log_id = \<lambda>_. Some [], sg_rekor_key = \<lambda>_ _. Some (), sg_new_verifier = \<lambda>_. True,
     sg_verify = \<lambda>_ _ _ _. (True, False), sg_inclusion = \<lambda>_ _. Included\<rparr>"


text \<open>
  The complete dispatch of the entry gate.  It refuses an entry exactly when the policy is strict,
  the entry is outside of an armed commitment, the result is not trusted and the break-glass exception
  does not apply, which covers only a bundle that could not be fetched; the slug is the one of the
  result.  Otherwise it prints a warning at most once per coordinate, and none for a trusted result or
  under the policy \<^verbatim>\<open>off\<close>.
\<close>

theorem entry_dispatch:
  "(enforce_entry_trust outcome policy key break_glass warned = Inl slug \<longleftrightarrow>
      policy = Strict \<and> go_membership outcome = Some PostEpoch \<and> entry_slug (go_result outcome) = Some slug \<and>
      \<not> (break_glass \<and> go_result outcome = EBundleMissing \<and> go_cause outcome = Some ''unfetchable'')) \<and>
   (\<forall>warned' printed. enforce_entry_trust outcome policy key break_glass warned = Inr (warned', printed) \<longrightarrow>
      warned \<subseteq> warned' \<and> (printed \<noteq> None \<longleftrightarrow> key \<notin> warned \<and> key \<in> warned') \<and>
      (policy = Off \<or> go_result outcome = ETrusted \<longrightarrow> printed = None))"
proof -
  have e: "entry_slug r = None \<longleftrightarrow> r = ETrusted" for r by (cases r) auto
  show ?thesis
    using e [of "go_result outcome"]
    by (cases policy; cases "go_membership outcome = Some PostEpoch")
      (auto simp: enforce_entry_trust_def effective_epoch_policy_def Let_def)
qed

theorem entry_dispatch_witness:
  "enforce_entry_trust \<lparr>go_result = EUnattested, go_membership = Some PostEpoch, go_cause = None\<rparr> Strict (''n'', ''p'', ''1'') True {} =
   Inl ''TNG-ENTRY-UNATTESTED''"
  using entry_dispatch [of "\<lparr>go_result = EUnattested, go_membership = Some PostEpoch, go_cause = None\<rparr>" Strict "(''n'', ''p'', ''1'')" True "{}"
      "''TNG-ENTRY-UNATTESTED''"] by simp

text \<open>
  A bundle with other bytes than the pinned ones aborts the resolve under every policy: the gate
  returns the error itself, before any policy is consulted, whatever the verifier, the commitment and the
  signer are.
\<close>

theorem tampered_bundle_aborts:
  assumes "d (dir @ ''/'' @ pin @ ''.bundle'') = Some bytes" "sha bytes \<noteq> pin" "att_bundle_pin att = Some pin"
  shows "evaluate_entry_attestation (Some att) i verifier (Some (\<lambda>p. fst (file_bundle_get sha dir p d))) vendor status =
    Inl ''TNG-ENTRY-BUNDLE-PIN-MISMATCH''"
  using assms
  by (simp add: evaluate_entry_attestation_def file_bundle_get_def verify_bundle_def Let_def)

theorem tampered_bundle_aborts_witness:
  "evaluate_entry_attestation (Some \<lparr>att_kind = MilpaVendored, att_rekor = None, att_bundle_pin = Some ''pin''\<rparr>) 
     \<lparr>pe_namespace = ''ns'', pe_name = ''pkg'', pe_version = ''1'', pe_content_hash = ''dag-sha256:aa''\<rparr>
     (\<lambda>_ _ _. OTrusted) (Some (\<lambda>p. fst (file_bundle_get (\<lambda>b. b) ''d'' p [''d/pin.bundle'' \<mapsto> ''evil'']))) ''vendor'' Unarmed =
   Inl ''TNG-ENTRY-BUNDLE-PIN-MISMATCH''"
  using tampered_bundle_aborts [of "[''d/pin.bundle'' \<mapsto> ''evil'']" "''d''" "''pin''" "''evil''" "\<lambda>b. b"
      "\<lparr>att_kind = MilpaVendored, att_rekor = None, att_bundle_pin = Some ''pin''\<rparr>"
      "\<lparr>pe_namespace = ''ns'', pe_name = ''pkg'', pe_version = ''1'', pe_content_hash = ''dag-sha256:aa''\<rparr>" "\<lambda>_ _ _. OTrusted" "''vendor''" Unarmed]
  by simp

text \<open>
  The observability command can be crashed by the index.  The pointer it prints is the cached text,
  checked only for control characters; when a character of two bytes covers the bytes 11 and 12 the
  slice of the first twelve bytes panics.
\<close>

theorem show_entry_trust_panics:
  "\<exists>pointer. list_all (\<lambda>c. 32 \<le> byte c \<and> byte c \<noteq> 127) pointer \<and>
     format_entry_trust_info policy url (Some pointer) = None"
proof -
  let ?p = "''aaaaaaaaaaa'' @ [CHR 0xC3, CHR 0xA9]"
  have "format_entry_trust_info policy url (Some ?p) = None"
    by (simp add: format_entry_trust_info_def is_char_boundary_def Let_def numeral_eq_Suc)
  moreover have "list_all (\<lambda>c. 32 \<le> byte c \<and> byte c \<noteq> 127) ?p" by simp
  ultimately show ?thesis by blast
qed

end
