(* ===== verification/ImportSlot.thy ===== *)
theory ImportSlot
  imports Graph OrdMap DagIdentity
begin

text \<open>
  Import slots: the directory floor \<^verbatim>\<open>check_directory_slot_collisions\<close> of \<^verbatim>\<open>milpa-core/src/lockfile.rs\<close>
  and the symbol check of \<^verbatim>\<open>milpa-core/src/import_slot.rs\<close>.  A symbol provider is a function from the
  source and the tree of a dependency to its slots; \<open>store\<close> gives the path of an identity in the
  content-addressed store.  Errors are the slug; the texts that name the two dependencies are not modelled.
\<close>

subsection \<open>Groups in a map\<close>

text \<open>\<^verbatim>\<open>entry(key).or_default().push(x)\<close> over a list of keyed items.\<close>

definition push_group :: "'k::linorder \<times> 'v \<Rightarrow> ('k \<times> 'v list) list \<Rightarrow> ('k \<times> 'v list) list" where
  "push_group kv m = bt_insert (fst kv) (bt_get_or [] m (fst kv) @ [snd kv]) m"

definition group_by :: "('k::linorder \<times> 'v) list \<Rightarrow> ('k \<times> 'v list) list" where
  "group_by kvs = fold push_group kvs []"

subsection \<open>The directory floor\<close>

definition dir_slot :: "resolved_dep \<Rightarrow> string" where
  "dir_slot d = dep_dir_name (rd_name d) (rd_namespace d)"

definition slot_group_ok :: "resolved_dep list \<Rightarrow> bool" where
  "slot_group_ok ds \<longleftrightarrow>
     length ds < 2 \<or>
     (rd_identity (hd ds) \<noteq> [] \<and> list_all (\<lambda>d. rd_identity d = rd_identity (hd ds)) ds)"

definition check_directory_slot_collisions :: "resolved_graph \<Rightarrow> string + unit" where
  "check_directory_slot_collisions deps =
     rfold (\<lambda>_ g. ensure (slot_group_ok (snd g)) ''RES-IMPORT-COLLISION'') ()
       (group_by (map (\<lambda>d. (dir_slot d, d)) deps))"

subsection \<open>Symbol providers\<close>

datatype fidelity = ManifestDeclared | TreeScanned

record import_slot =
  is_module :: string
  is_fidelity :: fidelity

text \<open>The slots of a dependency in the order of the \<^verbatim>\<open>BTreeSet\<close>.\<close>

type_synonym symbol_provider = "source_id option \<Rightarrow> string \<Rightarrow> import_slot list"

text \<open>
  The declared provider: \<open>provides\<close> is what the manifest at the path declares, \<open>None\<close> when there is no
  readable manifest.
\<close>

definition manifest_declared :: "(string \<Rightarrow> string list option) \<Rightarrow> symbol_provider" where
  "manifest_declared provides sid path =
     (case provides path of
        None \<Rightarrow> []
      | Some ms \<Rightarrow> map (\<lambda>m. \<lparr>is_module = m, is_fidelity = ManifestDeclared\<rparr>) (sort (remdups ms)))"

text \<open>The scanning provider: the stems of the regular files \<^verbatim>\<open>*.nim\<close> below a directory.\<close>

definition nim_stem :: "string \<Rightarrow> string option" where
  "nim_stem name =
     (case rsplit_once CHR ''.'' name of
        Some (stem, ext) \<Rightarrow> if ext = ''nim'' \<and> stem \<noteq> [] then Some stem else None
      | None \<Rightarrow> None)"

fun collect_nim_stems :: "fs_node \<Rightarrow> string list" where
  "collect_nim_stems (FDir children) =
     concat (map (\<lambda>c. case snd c of
         FDir _ \<Rightarrow> collect_nim_stems (snd c)
       | FFile _ _ \<Rightarrow> (case nim_stem (fst c) of Some s \<Rightarrow> [s] | None \<Rightarrow> [])
       | _ \<Rightarrow> []) children)"
| "collect_nim_stems _ = []"

definition fetched_tree :: "(string \<Rightarrow> fs_node option) \<Rightarrow> symbol_provider" where
  "fetched_tree tree_at sid path =
     (case tree_at path of
        None \<Rightarrow> []
      | Some t \<Rightarrow> map (\<lambda>m. \<lparr>is_module = m, is_fidelity = TreeScanned\<rparr>) (sort (remdups (collect_nim_stems t))))"

definition composed :: "symbol_provider \<Rightarrow> symbol_provider \<Rightarrow> symbol_provider" where
  "composed declared scanned sid path =
     (let declared_slots = declared sid path in if declared_slots \<noteq> [] then declared_slots else scanned sid path)"

subsection \<open>The symbol check\<close>

definition materialized_path_for :: "resolved_dep \<Rightarrow> (string \<Rightarrow> string option) option \<Rightarrow> string" where
  "materialized_path_for d store =
     (let placeholder = ''<unmaterialized:'' @ rd_name d @ ''>''
      in if rd_identity d = [] then placeholder
         else case store of
           None \<Rightarrow> placeholder
         | Some path_for \<Rightarrow> (case path_for (rd_identity d) of Some p \<Rightarrow> p | None \<Rightarrow> placeholder))"

definition is_exempt_pair :: "resolved_dep \<Rightarrow> resolved_dep \<Rightarrow> bool" where
  "is_exempt_pair a b \<longleftrightarrow>
     (case (rd_namespace a, rd_namespace b) of (Some x, Some y) \<Rightarrow> x \<noteq> y | _ \<Rightarrow> False) \<or>
     rd_name b \<in> set (rd_requires a) \<or> rd_name a \<in> set (rd_requires b)"

definition pair_ok :: "resolved_dep \<Rightarrow> resolved_dep \<Rightarrow> bool" where
  "pair_ok a b \<longleftrightarrow> (rd_identity a \<noteq> [] \<and> rd_identity a = rd_identity b) \<or> is_exempt_pair a b"

text \<open>The two nested loops over the indices of a group.\<close>

fun pairs_ok :: "resolved_dep list \<Rightarrow> bool" where
  "pairs_ok [] \<longleftrightarrow> True"
| "pairs_ok (a # rest) \<longleftrightarrow> list_all (pair_ok a) rest \<and> pairs_ok rest"

definition module_groups ::
  "symbol_provider \<Rightarrow> (string \<Rightarrow> string option) option \<Rightarrow> resolved_graph \<Rightarrow> (string \<times> resolved_dep list) list" where
  "module_groups provider store deps =
     group_by (concat (map (\<lambda>d. map (\<lambda>s. (is_module s, d))
       (provider (rd_source_id d) (materialized_path_for d store))) deps))"

definition check_import_slot_collisions ::
  "symbol_provider \<Rightarrow> (string \<Rightarrow> string option) option \<Rightarrow> resolved_graph \<Rightarrow> string + unit" where
  "check_import_slot_collisions provider store deps =
     rbind (check_directory_slot_collisions deps) (\<lambda>_.
     rfold (\<lambda>_ g. ensure (length (snd g) < 2 \<or> pairs_ok (snd g)) ''RES-IMPORT-COLLISION'') ()
       (module_groups provider store deps))"

subsection \<open>Facts\<close>

lemma group_by_get: "bt_get_or [] (group_by kvs) k = map snd (filter (\<lambda>kv. fst kv = k) kvs)"
proof -
  have "bt_get_or [] (fold push_group kvs m) k = bt_get_or [] m k @ map snd (filter (\<lambda>kv. fst kv = k) kvs)" for m
    by (induction kvs arbitrary: m) (auto simp: push_group_def bt_get_or_def)
  then show ?thesis by (simp add: group_by_def bt_get_or_def)
qed

lemma group_by_ok: "bt_ok (group_by kvs)"
proof -
  have "bt_ok m \<Longrightarrow> bt_ok (fold push_group kvs m)" for m
    by (induction kvs arbitrary: m) (auto simp: push_group_def)
  then show ?thesis by (simp add: group_by_def)
qed

text \<open>A check of every group of the map is a check of every key.\<close>

lemma group_by_all:
  assumes "P []"
  shows "list_all (\<lambda>g. P (snd g)) (group_by kvs) \<longleftrightarrow> (\<forall>k. P (map snd (filter (\<lambda>kv. fst kv = k) kvs)))"
proof -
  have "(\<forall>g \<in> set (group_by kvs). P (snd g)) \<longleftrightarrow> (\<forall>k. P (bt_get_or [] (group_by kvs) k))"
  proof
    assume a: "\<forall>g \<in> set (group_by kvs). P (snd g)"
    show "\<forall>k. P (bt_get_or [] (group_by kvs) k)"
    proof
      fix k show "P (bt_get_or [] (group_by kvs) k)"
        using a assms bt_get_in [of "group_by kvs" k]
        by (cases "bt_get (group_by kvs) k") (auto simp: bt_get_or_def)
    qed
  next
    assume a: "\<forall>k. P (bt_get_or [] (group_by kvs) k)"
    show "\<forall>g \<in> set (group_by kvs). P (snd g)"
    proof
      fix g assume "g \<in> set (group_by kvs)"
      then have "bt_get (group_by kvs) (fst g) = Some (snd g)"
        using bt_get_iff [OF group_by_ok, of kvs "fst g" "snd g"] by simp
      with a show "P (snd g)" by (metis bt_get_or_def option.simps(5))
    qed
  qed
  then show ?thesis by (simp add: list_all_iff group_by_get)
qed

lemma rfold_ensure: "rfold (\<lambda>_ g. ensure (P g) e) () gs = Inr u \<longleftrightarrow> list_all P gs"
  by (induction gs) auto

lemma pairs_ok_sorted: "pairs_ok ds = sorted_wrt pair_ok ds"
  by (induction ds) (auto simp: list_all_iff)

definition same_known :: "resolved_dep \<Rightarrow> resolved_dep \<Rightarrow> bool" where
  "same_known a b \<longleftrightarrow> rd_identity a \<noteq> [] \<and> rd_identity a = rd_identity b"

lemma slot_group_sorted: "slot_group_ok ds = sorted_wrt same_known ds"
proof (cases ds)
  case (Cons a rest)
  show ?thesis
  proof (cases rest)
    case (Cons b more)
    have "sorted_wrt same_known rest" if "\<forall>d \<in> set rest. same_known a d"
      using that by (induction rest) (simp, simp add: same_known_def, metis)
    then have "sorted_wrt same_known ds \<longleftrightarrow> (\<forall>d \<in> set rest. same_known a d)"
      using \<open>ds = a # rest\<close> by auto
    moreover have "slot_group_ok ds \<longleftrightarrow> (\<forall>d \<in> set rest. same_known a d)"
      by (auto simp: \<open>ds = a # rest\<close> Cons slot_group_ok_def list_all_iff same_known_def)
    ultimately show ?thesis by simp
  qed (simp add: \<open>ds = a # rest\<close> slot_group_ok_def)
qed (simp add: slot_group_ok_def)

lemma sorted_wrt_groups:
  "(\<forall>k. sorted_wrt R (map snd (filter (\<lambda>kv. fst kv = k) kvs))) \<longleftrightarrow>
   sorted_wrt (\<lambda>x y. fst x = fst y \<longrightarrow> R (snd x) (snd y)) kvs"
proof (induction kvs)
  case (Cons kv kvs)
  have "(\<forall>k. sorted_wrt R (map snd (filter (\<lambda>x. fst x = k) (kv # kvs)))) \<longleftrightarrow>
      (\<forall>x \<in> set kvs. fst x = fst kv \<longrightarrow> R (snd kv) (snd x)) \<and>
      (\<forall>k. sorted_wrt R (map snd (filter (\<lambda>x. fst x = k) kvs)))" (is "?l \<longleftrightarrow> ?r")
  proof
    assume l: ?l
    have "sorted_wrt R (map snd (filter (\<lambda>x. fst x = k) kvs))" for k
      using l [rule_format, of k] by (cases "fst kv = k") auto
    moreover have "\<forall>x \<in> set kvs. fst x = fst kv \<longrightarrow> R (snd kv) (snd x)"
      using l [rule_format, of "fst kv"] by auto
    ultimately show ?r by blast
  qed auto
  then show ?case using Cons by (auto simp: eq_commute)
qed simp

lemma directory_check_iff:
  "check_directory_slot_collisions deps = Inr u \<longleftrightarrow>
   (\<forall>j < length deps. \<forall>i < j. dir_slot (deps ! i) = dir_slot (deps ! j) \<longrightarrow> same_known (deps ! i) (deps ! j))"
proof -
  have "check_directory_slot_collisions deps = Inr u \<longleftrightarrow>
      list_all (\<lambda>g. slot_group_ok (snd g)) (group_by (map (\<lambda>d. (dir_slot d, d)) deps))"
    by (simp only: check_directory_slot_collisions_def rfold_ensure old.unit.exhaust)
  also have "\<dots> \<longleftrightarrow> sorted_wrt (\<lambda>x y. fst x = fst y \<longrightarrow> same_known (snd x) (snd y)) (map (\<lambda>d. (dir_slot d, d)) deps)"
    by (subst group_by_all) (simp_all add: slot_group_sorted sorted_wrt_groups)
  also have "\<dots> \<longleftrightarrow> sorted_wrt (\<lambda>x y. dir_slot x = dir_slot y \<longrightarrow> same_known x y) deps"
    by (simp add: sorted_wrt_map)
  finally show ?thesis by (auto simp: sorted_wrt_iff_nth_less)
qed

text \<open>The port: what every provider promises.\<close>

locale symbol_port =
  fixes provider :: symbol_provider
  assumes modules_distinct: "distinct (map is_module (provider sid path))"
begin

lemma module_check_iff:
  "list_all (\<lambda>g. length (snd g) < 2 \<or> pairs_ok (snd g)) (module_groups provider store deps) \<longleftrightarrow>
   (\<forall>j < length deps. \<forall>i < j. \<forall>m.
      m \<in> is_module ` set (provider (rd_source_id (deps ! i)) (materialized_path_for (deps ! i) store)) \<and>
      m \<in> is_module ` set (provider (rd_source_id (deps ! j)) (materialized_path_for (deps ! j) store)) \<longrightarrow>
      pair_ok (deps ! i) (deps ! j))"
proof -
  let ?mods = "\<lambda>d. map is_module (provider (rd_source_id d) (materialized_path_for d store))"
  let ?kvs = "concat (map (\<lambda>d. map (\<lambda>s. (is_module s, d)) (provider (rd_source_id d) (materialized_path_for d store))) deps)"
  have short: "length ds < 2 \<or> pairs_ok ds \<longleftrightarrow> pairs_ok ds" for ds
    by (cases ds; cases "tl ds") auto
  have "list_all (\<lambda>g. length (snd g) < 2 \<or> pairs_ok (snd g)) (module_groups provider store deps) \<longleftrightarrow>
      sorted_wrt (\<lambda>x y. fst x = fst y \<longrightarrow> pair_ok (snd x) (snd y)) ?kvs"
    unfolding module_groups_def short
    by (subst group_by_all) (simp_all add: pairs_ok_sorted sorted_wrt_groups)
  also have "\<dots> \<longleftrightarrow> sorted_wrt (\<lambda>x y. \<forall>m. m \<in> set (?mods x) \<and> m \<in> set (?mods y) \<longrightarrow> pair_ok x y) deps"
  proof (induction deps)
    case (Cons d deps)
    have "sorted_wrt (\<lambda>x y. fst x = fst y \<longrightarrow> pair_ok (snd x) (snd y)) (map (\<lambda>s. (is_module s, d)) ss)"
      if "distinct (map is_module ss)" for ss
      using that by (induction ss) auto
    note here = this [OF modules_distinct]
    show ?case
      by (simp add: sorted_wrt_append here Cons image_iff) blast
  qed simp
  finally show ?thesis by (simp add: sorted_wrt_iff_nth_less) blast
qed

lemma import_check_iff:
  "check_import_slot_collisions provider store deps = Inr () \<longleftrightarrow>
   check_directory_slot_collisions deps = Inr () \<and>
   (\<forall>j < length deps. \<forall>i < j. \<forall>m.
      m \<in> is_module ` set (provider (rd_source_id (deps ! i)) (materialized_path_for (deps ! i) store)) \<and>
      m \<in> is_module ` set (provider (rd_source_id (deps ! j)) (materialized_path_for (deps ! j) store)) \<longrightarrow>
      pair_ok (deps ! i) (deps ! j))"
  by (simp add: check_import_slot_collisions_def rbind_Inr rfold_ensure module_check_iff)

end

lemma distinct_modules:
  "distinct (map is_module (map (\<lambda>m. \<lparr>is_module = m, is_fidelity = f\<rparr>) (sort (remdups ms))))"
  by (simp add: comp_def)

interpretation declared: symbol_port "manifest_declared provides"
  using distinct_modules by unfold_locales (auto simp: manifest_declared_def split: option.split)

interpretation scanned: symbol_port "fetched_tree tree_at"
  using distinct_modules by unfold_locales (auto simp: fetched_tree_def split: option.split)

interpretation default_provider: symbol_port "composed (manifest_declared provides) (fetched_tree tree_at)"
  using declared.modules_distinct scanned.modules_distinct by unfold_locales (simp add: composed_def Let_def)

subsection \<open>Properties\<close>

text \<open>
  The directory floor.  A graph passes it exactly when no two of its dependencies that project to
  one directory of \<^verbatim>\<open>_deps\<close> differ in content or have an unknown content, so laying the tree out never
  replaces one content by another.
\<close>

theorem directory_floor:
  "check_directory_slot_collisions deps = Inr () \<longleftrightarrow>
   (\<forall>j < length deps. \<forall>i < j.
      dep_dir_name (rd_name (deps ! i)) (rd_namespace (deps ! i)) =
      dep_dir_name (rd_name (deps ! j)) (rd_namespace (deps ! j)) \<longrightarrow>
      rd_identity (deps ! i) = rd_identity (deps ! j) \<and> rd_identity (deps ! i) \<noteq> [])"
  by (auto simp: directory_check_iff dir_slot_def same_known_def)

definition demo_dep :: "string \<Rightarrow> string option \<Rightarrow> string \<Rightarrow> string list \<Rightarrow> resolved_dep" where
  "demo_dep n ns ident reqs =
     \<lparr>rd_name = n, rd_namespace = ns, rd_identity = ident, rd_version = release 1 0 0, rd_src_dir = [],
      rd_requires = reqs, rd_provenances = [], rd_dep_decl = None, rd_cond_requires = [], rd_aliases = [],
      rd_active_flags = [], rd_attestation = None, rd_declared_version_source = None, rd_source_id = None\<rparr>"

theorem directory_floor_witness:
  "check_directory_slot_collisions [demo_dep ''a'' None ''x'' [], demo_dep ''a'' (Some ''ns'') ''y'' []] = Inr () \<and>
   check_directory_slot_collisions [demo_dep ''a'' None ''x'' [], demo_dep ''a'' None ''y'' []] \<noteq> Inr ()"
  by (simp add: directory_floor All_less_Suc numeral_2_eq_2 demo_dep_def dep_dir_name_def)

text \<open>
  The import check with the composed provider.  A graph passes exactly when it passes the directory
  floor and every two dependencies that provide one module have one known content or are exempt.
\<close>

theorem import_slots:
  "check_import_slot_collisions (composed (manifest_declared provides) (fetched_tree tree_at)) store deps = Inr () \<longleftrightarrow>
   check_directory_slot_collisions deps = Inr () \<and>
   (\<forall>j < length deps. \<forall>i < j. \<forall>m.
      m \<in> is_module ` set (composed (manifest_declared provides) (fetched_tree tree_at)
        (rd_source_id (deps ! i)) (materialized_path_for (deps ! i) store)) \<and>
      m \<in> is_module ` set (composed (manifest_declared provides) (fetched_tree tree_at)
        (rd_source_id (deps ! j)) (materialized_path_for (deps ! j) store)) \<longrightarrow>
      (rd_identity (deps ! i) \<noteq> [] \<and> rd_identity (deps ! i) = rd_identity (deps ! j)) \<or>
      is_exempt_pair (deps ! i) (deps ! j))"
  using default_provider.import_check_iff by (simp add: pair_ok_def)

theorem import_slots_witness:
  "check_import_slot_collisions (composed (manifest_declared (\<lambda>_. Some [''m''])) (fetched_tree (\<lambda>_. None))) None
     [demo_dep ''a'' None ''x'' [''b''], demo_dep ''b'' None ''y'' []] = Inr ()"
  by (simp add: import_slots directory_floor All_less_Suc numeral_2_eq_2 demo_dep_def dep_dir_name_def is_exempt_pair_def)

text \<open>
  The exemption for a direct edge misses qualified edges.  A resolved dependency lists its edges as
  solver variables, and the exemption looks for the bare name: a package that requires \<^verbatim>\<open>acme::b\<close> directly
  collides with it, and is exempt with an unrelated package that has the bare name of one of its edges.
\<close>

theorem direct_edge_not_exempt:
  "solver_var \<lparr>dk_name = ''b'', dk_namespace = Some ''acme''\<rparr> = ''acme::b'' \<and>
   \<not> is_exempt_pair (demo_dep ''a'' None ''x'' [''acme::b'']) (demo_dep ''b'' (Some ''acme'') ''y'' []) \<and>
   is_exempt_pair (demo_dep ''a'' None ''x'' [''b'']) (demo_dep ''b'' (Some ''other'') ''y'' [])"
  by (simp add: solver_var_def is_exempt_pair_def demo_dep_def)

end
