(* ===== verification/LockEmit.thy ===== *)
theory LockEmit
  imports Graph Kdl Iso8601
begin

text \<open>
  The canonical text of \<^verbatim>\<open>milpa.lock\<close>: \<^verbatim>\<open>format_lockfile\<close> of \<^verbatim>\<open>milpa-core/src/lockfile.rs\<close> with
  its helpers, line by line as the code pushes them.  The second half describes the same text as the
  KDL document it denotes: \<open>lockfile_nodes\<close> and a printer of nodes, with the lemma that the two agree.
\<close>

subsection \<open>String literals\<close>

definition hex_chars :: string where "hex_chars = ''0123456789abcdef''"

text \<open>\<open>{:x}\<close> of a number below 32.\<close>

definition hex_small :: "nat \<Rightarrow> string" where
  "hex_small n = (if n < 16 then [hex_chars ! n] else [hex_chars ! (n div 16), hex_chars ! (n mod 16)])"

definition kdl_escape :: "char \<Rightarrow> string" where
  "kdl_escape c =
     (if c = CHR 0x22 then [CHR 0x5C, CHR 0x22]
      else if c = CHR 0x5C then [CHR 0x5C, CHR 0x5C]
      else if byte c < 32 then [CHR 0x5C] @ ''u{'' @ hex_small (byte c) @ ''}''
      else [c])"

definition kdl_str :: "string \<Rightarrow> string" where
  "kdl_str s = CHR 0x22 # concat (map kdl_escape s) @ [CHR 0x22]"

definition join_kdl :: "string list \<Rightarrow> string" where
  "join_kdl vs = join '' '' (map kdl_str vs)"

subsection \<open>Sort keys\<close>

definition opt_kdl :: "string option \<Rightarrow> string" where
  "opt_kdl v = (case v of None \<Rightarrow> [] | Some s \<Rightarrow> kdl_str s)"

fun provenance_names :: "provenance_record \<Rightarrow> nat \<times> string \<times> string" where
  "provenance_names (RGit url ref_spec c origin subs) = (0, kdl_str url, opt_kdl ref_spec)"
| "provenance_names (RTarball url h origin) = (1, kdl_str url, [])"
| "provenance_names (ROci reg repo digest origin) = (2, kdl_str (reg @ ''/'' @ repo), kdl_str digest)"
| "provenance_names (RLocal path origin) = (3, kdl_str path, [])"
| "provenance_names (RMember name origin) = (4, kdl_str name, [])"
| "provenance_names (RRoot name origin) = (5, kdl_str name, [])"

definition provenance_sort_key :: "provenance_record \<Rightarrow> nat \<times> nat \<times> string \<times> string" where
  "provenance_sort_key p =
     (if record_origin p = ''declared'' then 0 else if record_origin p = ''observed'' then 1 else 99,
      provenance_names p)"

text \<open>
  A predicate with another number of values than one is a panic.  The text here is empty in that case and
  \<open>format_lockfile\<close> below returns \<open>None\<close>: the emission of a block calls it on every predicate.
\<close>

definition format_predicate_prop :: "predicate \<Rightarrow> string" where
  "format_predicate_prop p =
     (case pr_values p of
        [v] \<Rightarrow> pr_name p @ ''='' @ (if pr_negated p then ''(not)'' else []) @ kdl_str v
      | _ \<Rightarrow> [])"

definition predicate_single :: "predicate \<Rightarrow> bool" where
  "predicate_single p \<longleftrightarrow> length (pr_values p) = 1"

definition cond_require_sort_key :: "cond_require \<Rightarrow> string \<times> string" where
  "cond_require_sort_key cr = (cr_name cr, join '','' (map format_predicate_prop (cr_predicates cr)))"

subsection \<open>Blocks\<close>

definition opt_line :: "string \<Rightarrow> string option \<Rightarrow> string list" where
  "opt_line key v = (case v of None \<Rightarrow> [] | Some s \<Rightarrow> [key @ kdl_str s])"

fun format_source_fields :: "source_id \<Rightarrow> string list" where
  "format_source_fields (Fetchable (Git url git_ref subpath)) =
     [''kind '' @ kdl_str ''git'', ''url (url)'' @ kdl_str url] @ opt_line ''ref '' git_ref @ opt_line ''subpath '' subpath"
| "format_source_fields (Fetchable (Oci registry repository digest subpath)) =
     [''kind '' @ kdl_str ''oci'', ''registry '' @ kdl_str registry, ''repository '' @ kdl_str repository] @
     opt_line ''digest '' digest @ opt_line ''subpath '' subpath"
| "format_source_fields (Fetchable (Tarball url subpath)) =
     [''kind '' @ kdl_str ''tarball'', ''url (url)'' @ kdl_str url] @ opt_line ''subpath '' subpath"
| "format_source_fields (Fetchable (Local path)) = [''kind '' @ kdl_str ''local'', ''path '' @ kdl_str path]"
| "format_source_fields (Fetchable (Registry registry ns name)) =
     [''kind '' @ kdl_str ''registry'', ''registry '' @ kdl_str registry] @ opt_line ''namespace '' ns @
     [''name '' @ kdl_str name]"
| "format_source_fields (Member member_name) = [''kind '' @ kdl_str ''member'', ''name '' @ kdl_str member_name]"

fun format_provenance_fields :: "provenance_record \<Rightarrow> string list" where
  "format_provenance_fields (RGit url ref_spec commit_sha origin submodule_shas) =
     [''origin '' @ kdl_str origin, ''kind '' @ kdl_str ''git'', ''url '' @ kdl_str url] @
     opt_line ''ref '' ref_spec @ opt_line ''commit_sha '' commit_sha @
     map (\<lambda>(path, sha). ''submodule '' @ kdl_str path @ '' sha='' @ kdl_str sha) submodule_shas"
| "format_provenance_fields (RTarball url sha256 origin) =
     [''origin '' @ kdl_str origin, ''kind '' @ kdl_str ''tarball'', ''url '' @ kdl_str url] @ opt_line ''sha256 '' sha256"
| "format_provenance_fields (RLocal path origin) =
     [''origin '' @ kdl_str origin, ''kind '' @ kdl_str ''local'', ''path '' @ kdl_str path]"
| "format_provenance_fields (RMember name origin) =
     [''origin '' @ kdl_str origin, ''kind '' @ kdl_str ''member'', ''name '' @ kdl_str name]"
| "format_provenance_fields (ROci registry repository digest origin) =
     [''origin '' @ kdl_str origin, ''kind '' @ kdl_str ''oci'', ''registry '' @ kdl_str registry,
      ''repository '' @ kdl_str repository, ''digest '' @ kdl_str digest]"
| "format_provenance_fields (RRoot name origin) =
     [''origin '' @ kdl_str origin, ''kind '' @ kdl_str ''root'', ''name '' @ kdl_str name]"

definition format_lock_attestation :: "lock_attestation \<Rightarrow> string list" where
  "format_lock_attestation att =
     [''    attestation {''] @
     (case la_kind att of
        AuthorSigned signer \<Rightarrow>
          [''        kind '' @ kdl_str ''author-signed'', ''        signer '' @ kdl_str signer]
      | MilpaVendored \<Rightarrow> [''        kind '' @ kdl_str ''milpa-vendored'']) @
     (case la_rekor att of
        None \<Rightarrow> []
      | Some r \<Rightarrow>
          [''        rekor {'',
           ''            uuid '' @ kdl_str (rekor_uuid r),
           ''            log_index '' @ kdl_str (rekor_log_index r),
           ''            integrated_time '' @ kdl_str (rekor_integrated_time r),
           ''        }'']) @
     opt_line ''        bundle sha256='' (la_bundle_pin att) @
     [''        namespace '' @ kdl_str (la_namespace att), ''    }'']"

definition format_cond_require :: "cond_require \<Rightarrow> string list" where
  "format_cond_require cr =
     (case cr_predicates cr of
        [p] \<Rightarrow> [''    cond-require '' @ kdl_str (cr_name cr) @ '' '' @ format_predicate_prop p]
      | ps \<Rightarrow> [''    cond-require '' @ kdl_str (cr_name cr) @ '' {''] @
           map (\<lambda>p. ''        when '' @ format_predicate_prop p) ps @ [''    }''])"

subsection \<open>The file\<close>

definition HEADER :: string where "HEADER = ''// generated by milpa; reproducible build snapshot''"

definition inner :: "string \<Rightarrow> string" where "inner f = ''        '' @ f"

definition dep_lines :: "locked_dep \<Rightarrow> string list" where
  "dep_lines d =
     [''dep '' @ kdl_str (ld_name d) @ '' {''] @
     opt_line ''    namespace '' (ld_namespace d) @
     (case ld_source_id d of
        None \<Rightarrow> []
      | Some sid \<Rightarrow> [''    source {''] @ map inner (format_source_fields sid) @ [''    }'']) @
     opt_line ''    identity '' (ld_identity d) @
     [''    version '' @ kdl_str (ld_version d)] @
     opt_line ''    declared_version_source '' (ld_declared_version_source d) @
     [''    src_dir '' @ kdl_str (ld_src_dir d)] @
     [if ld_requires d = [] then ''    requires'' else ''    requires '' @ join_kdl (ld_requires d)] @
     concat (map format_cond_require (sort_key cond_require_sort_key (ld_cond_requires d))) @
     (if ld_aliases d = [] then [] else [''    aliases '' @ join_kdl (sort (ld_aliases d))]) @
     (if ld_active_flags d = [] then [] else [''    active_flags '' @ join_kdl (ld_active_flags d)]) @
     (case ld_attestation d of None \<Rightarrow> [] | Some att \<Rightarrow> format_lock_attestation att) @
     opt_line ''    dep_decl '' (ld_dep_decl d) @
     concat (map (\<lambda>p. [''    provenance {''] @ map inner (format_provenance_fields p) @ [''    }''])
       (sort_key provenance_sort_key (ld_provenances d))) @
     [''}'', []]"

definition lockfile_text :: "lockfile \<Rightarrow> string" where
  "lockfile_text lf =
     join [CHR 0x0A]
       ([HEADER, ''version '' @ dec_of_word (lf_version lf), ''strategy '' @ kdl_str (lf_strategy lf)] @
        (case lf_exclude_newer lf of
           None \<Rightarrow> [] | Some ts \<Rightarrow> [''exclude_newer '' @ kdl_str (format_iso8601_timestamp ts)]) @
        [[]] @ concat (map dep_lines (lf_deps lf)))"

definition predicates_single :: "locked_dep \<Rightarrow> bool" where
  "predicates_single d \<longleftrightarrow> list_all (\<lambda>cr. list_all predicate_single (cr_predicates cr)) (ld_cond_requires d)"

definition format_lockfile :: "lockfile \<Rightarrow> string option" where
  "format_lockfile lf = (if list_all predicates_single (lf_deps lf) then Some (lockfile_text lf) else None)"

subsection \<open>The document the text denotes\<close>

definition str_arg :: "string \<Rightarrow> kdl_entry" where
  "str_arg s = \<lparr>ke_name = None, ke_ty = None, ke_value = KString s\<rparr>"

definition url_arg :: "string \<Rightarrow> kdl_entry" where
  "url_arg s = \<lparr>ke_name = None, ke_ty = Some ''url'', ke_value = KString s\<rparr>"

definition str_prop :: "string \<Rightarrow> string \<Rightarrow> kdl_entry" where
  "str_prop k s = \<lparr>ke_name = Some k, ke_ty = None, ke_value = KString s\<rparr>"

definition predicate_prop :: "predicate \<Rightarrow> kdl_entry" where
  "predicate_prop p =
     \<lparr>ke_name = Some (pr_name p), ke_ty = (if pr_negated p then Some ''not'' else None),
      ke_value = KString (hd (pr_values p))\<rparr>"

definition strs_node :: "string \<Rightarrow> string list \<Rightarrow> kdl_node" where
  "strs_node nm vs = KNode nm (map str_arg vs) []"

abbreviation str_node :: "string \<Rightarrow> string \<Rightarrow> kdl_node" where
  "str_node nm s \<equiv> strs_node nm [s]"

definition opt_node :: "string \<Rightarrow> string option \<Rightarrow> kdl_node list" where
  "opt_node nm v = (case v of None \<Rightarrow> [] | Some s \<Rightarrow> [str_node nm s])"

fun source_nodes :: "source_id \<Rightarrow> kdl_node list" where
  "source_nodes (Fetchable (Git url git_ref subpath)) =
     [str_node ''kind'' ''git'', KNode ''url'' [url_arg url] []] @ opt_node ''ref'' git_ref @ opt_node ''subpath'' subpath"
| "source_nodes (Fetchable (Oci registry repository digest subpath)) =
     [str_node ''kind'' ''oci'', str_node ''registry'' registry, str_node ''repository'' repository] @
     opt_node ''digest'' digest @ opt_node ''subpath'' subpath"
| "source_nodes (Fetchable (Tarball url subpath)) =
     [str_node ''kind'' ''tarball'', KNode ''url'' [url_arg url] []] @ opt_node ''subpath'' subpath"
| "source_nodes (Fetchable (Local path)) = [str_node ''kind'' ''local'', str_node ''path'' path]"
| "source_nodes (Fetchable (Registry registry ns name)) =
     [str_node ''kind'' ''registry'', str_node ''registry'' registry] @ opt_node ''namespace'' ns @ [str_node ''name'' name]"
| "source_nodes (Member member_name) = [str_node ''kind'' ''member'', str_node ''name'' member_name]"

fun provenance_nodes :: "provenance_record \<Rightarrow> kdl_node list" where
  "provenance_nodes (RGit url ref_spec commit_sha origin submodule_shas) =
     [str_node ''origin'' origin, str_node ''kind'' ''git'', str_node ''url'' url] @
     opt_node ''ref'' ref_spec @ opt_node ''commit_sha'' commit_sha @
     map (\<lambda>(path, sha). KNode ''submodule'' [str_arg path, str_prop ''sha'' sha] []) submodule_shas"
| "provenance_nodes (RTarball url sha256 origin) =
     [str_node ''origin'' origin, str_node ''kind'' ''tarball'', str_node ''url'' url] @ opt_node ''sha256'' sha256"
| "provenance_nodes (RLocal path origin) =
     [str_node ''origin'' origin, str_node ''kind'' ''local'', str_node ''path'' path]"
| "provenance_nodes (RMember name origin) =
     [str_node ''origin'' origin, str_node ''kind'' ''member'', str_node ''name'' name]"
| "provenance_nodes (ROci registry repository digest origin) =
     [str_node ''origin'' origin, str_node ''kind'' ''oci'', str_node ''registry'' registry,
      str_node ''repository'' repository, str_node ''digest'' digest]"
| "provenance_nodes (RRoot name origin) =
     [str_node ''origin'' origin, str_node ''kind'' ''root'', str_node ''name'' name]"

definition attestation_node :: "lock_attestation \<Rightarrow> kdl_node" where
  "attestation_node att = KNode ''attestation'' []
     ((case la_kind att of
         AuthorSigned signer \<Rightarrow> [str_node ''kind'' ''author-signed'', str_node ''signer'' signer]
       | MilpaVendored \<Rightarrow> [str_node ''kind'' ''milpa-vendored'']) @
      (case la_rekor att of
         None \<Rightarrow> []
       | Some r \<Rightarrow> [KNode ''rekor'' [] [str_node ''uuid'' (rekor_uuid r), str_node ''log_index'' (rekor_log_index r),
           str_node ''integrated_time'' (rekor_integrated_time r)]]) @
      (case la_bundle_pin att of None \<Rightarrow> [] | Some pin \<Rightarrow> [KNode ''bundle'' [str_prop ''sha256'' pin] []]) @
      [str_node ''namespace'' (la_namespace att)])"

definition cond_node :: "cond_require \<Rightarrow> kdl_node" where
  "cond_node cr =
     (case cr_predicates cr of
        [p] \<Rightarrow> KNode ''cond-require'' [str_arg (cr_name cr), predicate_prop p] []
      | ps \<Rightarrow> KNode ''cond-require'' [str_arg (cr_name cr)] (map (\<lambda>p. KNode ''when'' [predicate_prop p] []) ps))"

definition dep_children :: "locked_dep \<Rightarrow> kdl_node list" where
  "dep_children d =
     opt_node ''namespace'' (ld_namespace d) @
     (case ld_source_id d of None \<Rightarrow> [] | Some sid \<Rightarrow> [KNode ''source'' [] (source_nodes sid)]) @
     opt_node ''identity'' (ld_identity d) @ [str_node ''version'' (ld_version d)] @
     opt_node ''declared_version_source'' (ld_declared_version_source d) @
     [str_node ''src_dir'' (ld_src_dir d), strs_node ''requires'' (ld_requires d)] @
     map cond_node (sort_key cond_require_sort_key (ld_cond_requires d)) @
     (if ld_aliases d = [] then [] else [strs_node ''aliases'' (sort (ld_aliases d))]) @
     (if ld_active_flags d = [] then [] else [strs_node ''active_flags'' (ld_active_flags d)]) @
     (case ld_attestation d of None \<Rightarrow> [] | Some att \<Rightarrow> [attestation_node att]) @
     opt_node ''dep_decl'' (ld_dep_decl d) @
     map (\<lambda>p. KNode ''provenance'' [] (provenance_nodes p)) (sort_key provenance_sort_key (ld_provenances d))"

definition dep_node :: "locked_dep \<Rightarrow> kdl_node" where
  "dep_node d = KNode ''dep'' [str_arg (ld_name d)] (dep_children d)"

definition head_nodes :: "lockfile \<Rightarrow> kdl_node list" where
  "head_nodes lf =
     [KNode ''version'' [\<lparr>ke_name = None, ke_ty = None, ke_value = KInt (uint (lf_version lf))\<rparr>] [],
      str_node ''strategy'' (lf_strategy lf)] @
     (case lf_exclude_newer lf of
        None \<Rightarrow> [] | Some ts \<Rightarrow> [str_node ''exclude_newer'' (format_iso8601_timestamp ts)])"

definition lockfile_nodes :: "lockfile \<Rightarrow> kdl_node list" where
  "lockfile_nodes lf = head_nodes lf @ map dep_node (lf_deps lf)"

subsection \<open>Printing nodes\<close>

fun value_text :: "kdl_value \<Rightarrow> string" where
  "value_text (KString s) = kdl_str s"
| "value_text (KInt i) = dec_of_int i"
| "value_text (KBool b) = (if b then ''#true'' else ''#false'')"
| "value_text KOther = ''#null''"

definition entry_text :: "kdl_entry \<Rightarrow> string" where
  "entry_text e = (case ke_name e of None \<Rightarrow> [] | Some k \<Rightarrow> k @ ''='') @
     (case ke_ty e of None \<Rightarrow> [] | Some t \<Rightarrow> ''('' @ t @ '')'') @ value_text (ke_value e)"

definition indent :: "nat \<Rightarrow> string" where "indent k = replicate k CHR '' ''"

definition node_head :: "kdl_node \<Rightarrow> string" where
  "node_head n = kn_name n @ concat (map (\<lambda>e. '' '' @ entry_text e) (kn_entries n))"

fun node_lines :: "nat \<Rightarrow> kdl_node \<Rightarrow> string list" where
  "node_lines k (KNode nm es cs) =
     (if cs = [] then [indent k @ node_head (KNode nm es [])]
      else [indent k @ node_head (KNode nm es []) @ '' {''] @ concat (map (node_lines (k + 4)) cs) @ [indent k @ ''}''])"

text \<open>A comment line, the head nodes, and each block followed by an empty line.\<close>

definition print_document :: "string \<Rightarrow> kdl_node list \<Rightarrow> kdl_node list \<Rightarrow> string" where
  "print_document header hs bs =
     join [CHR 0x0A] ([header] @ concat (map (node_lines 0) hs) @ [[]] @
       concat (map (\<lambda>n. node_lines 0 n @ [[]]) bs))"

lemma concat_spaced: "concat (map (\<lambda>e. CHR '' '' # f e) vs) = (if vs = [] then [] else CHR '' '' # join '' '' (map f vs))"
  by (induction vs rule: induct_list012) auto

lemma entry_texts [simp]:
  "entry_text (str_arg s) = kdl_str s" "entry_text (url_arg s) = ''(url)'' @ kdl_str s"
  "entry_text (str_prop k s) = k @ ''='' @ kdl_str s"
  by (simp_all add: entry_text_def str_arg_def url_arg_def str_prop_def)

lemma entry_predicate: "predicate_single p \<Longrightarrow> entry_text (predicate_prop p) = format_predicate_prop p"
  by (auto simp: entry_text_def predicate_prop_def format_predicate_prop_def predicate_single_def
      split: list.splits)

lemma node_lines_strs:
  "node_lines k (strs_node nm vs) = [indent k @ nm @ (if vs = [] then [] else '' '' @ join_kdl vs)]"
  by (simp add: strs_node_def node_head_def concat_spaced join_kdl_def comp_def)

lemma node_lines_str [simp]: "node_lines k (str_node nm s) = [indent k @ nm @ '' '' @ kdl_str s]"
  by (simp add: node_lines_strs join_kdl_def)

lemma node_lines_opt:
  "concat (map (node_lines k) (opt_node nm v)) = opt_line (indent k @ nm @ '' '') v"
  by (simp add: opt_node_def opt_line_def split: option.splits)

lemma indent_lines: "map (\<lambda>f. indent k @ f) (opt_line nm v) = opt_line (indent k @ nm) v"
  by (simp add: opt_line_def split: option.splits)

lemma inner_eq: "inner = (\<lambda>f. indent 8 @ f)"
  by (simp add: fun_eq_iff inner_def indent_def numeral_eq_Suc)

lemma indents: "indent 0 = []" "indent 4 = ''    ''" "indent 8 = ''        ''" "indent 12 = ''            ''"
  by (simp_all add: indent_def numeral_eq_Suc)

lemma source_lines:
  "concat (map (node_lines k) (source_nodes sid)) = map (\<lambda>f. indent k @ f) (format_source_fields sid)"
  by (cases sid rule: source_nodes.cases)
    (simp_all add: node_lines_opt indent_lines node_head_def)

lemma provenance_lines:
  "concat (map (node_lines k) (provenance_nodes p)) = map (\<lambda>f. indent k @ f) (format_provenance_fields p)"
proof (cases p)
  case (RGit url r c origin subs)
  have "concat (map (node_lines k \<circ> (\<lambda>(path, sha). KNode ''submodule'' [str_arg path, str_prop ''sha'' sha] [])) subs) =
      map (\<lambda>f. indent k @ f) (map (\<lambda>(path, sha). ''submodule '' @ kdl_str path @ '' sha='' @ kdl_str sha) subs)"
    by (induction subs) (auto simp: node_head_def)
  with RGit show ?thesis by (simp add: node_lines_opt indent_lines)
qed (simp_all add: node_lines_opt indent_lines)

lemma attestation_lines: "node_lines 4 (attestation_node att) = format_lock_attestation att"
  by (cases att)
    (auto simp: attestation_node_def format_lock_attestation_def node_head_def indents opt_line_def
      split: attestation_kind.splits option.splits)

lemma cond_lines:
  assumes "cr_predicates cr \<noteq> []" "\<forall>p \<in> set (cr_predicates cr). predicate_single p"
  shows "node_lines 4 (cond_node cr) = format_cond_require cr"
proof -
  have ws: "concat (map (node_lines 8 \<circ> (\<lambda>p. KNode ''when'' [predicate_prop p] [])) ps) =
      map (\<lambda>p. ''        when '' @ format_predicate_prop p) ps" if "\<forall>p \<in> set ps. predicate_single p" for ps
    using that by (induction ps) (auto simp: node_head_def entry_predicate indents)
  obtain p ps where ps: "cr_predicates cr = p # ps" using assms(1) by (cases "cr_predicates cr") auto
  show ?thesis
  proof (cases ps)
    case Nil
    with ps assms(2) show ?thesis
      by (simp add: cond_node_def format_cond_require_def node_head_def entry_predicate indents)
  next
    case (Cons q qs)
    with ps assms ws [of "p # q # qs"] show ?thesis
      by (simp add: cond_node_def format_cond_require_def node_head_def indents)
  qed
qed

definition conds_nonempty :: "locked_dep \<Rightarrow> bool" where
  "conds_nonempty d \<longleftrightarrow> list_all (\<lambda>cr. cr_predicates cr \<noteq> []) (ld_cond_requires d)"

lemma concat_conds:
  assumes "\<forall>cr \<in> set crs. cr_predicates cr \<noteq> [] \<and> (\<forall>p \<in> set (cr_predicates cr). predicate_single p)"
  shows "concat (map (node_lines 4) (map cond_node crs)) = concat (map format_cond_require crs)"
  using assms by (induction crs) (auto simp: cond_lines)

lemma concat_provenances:
  "concat (map (node_lines 4) (map (\<lambda>p. KNode ''provenance'' [] (provenance_nodes p)) ps)) =
   concat (map (\<lambda>p. [''    provenance {''] @ map inner (format_provenance_fields p) @ [''    }'']) ps)"
proof (induction ps)
  case (Cons p ps)
  have "provenance_nodes p \<noteq> []" by (cases p) simp_all
  with Cons provenance_lines [of 8 p] show ?case by (simp add: node_head_def indents(2) flip: inner_eq)
qed simp

lemma source_block_lines:
  "concat (map (node_lines 4) (case sid of None \<Rightarrow> [] | Some s \<Rightarrow> [KNode ''source'' [] (source_nodes s)])) =
   (case sid of None \<Rightarrow> []
    | Some s \<Rightarrow> [''    source {''] @ map inner (format_source_fields s) @ [''    }''])"
proof (cases sid)
  case (Some s)
  have "source_nodes s \<noteq> []" by (cases s rule: source_nodes.cases) simp_all
  with Some source_lines [of 8 s] show ?thesis by (simp add: node_head_def indents(2) flip: inner_eq)
qed simp

lemma optional_block_lines:
  "concat (map (node_lines 4) (case v of None \<Rightarrow> [] | Some att \<Rightarrow> [attestation_node att])) =
   (case v of None \<Rightarrow> [] | Some att \<Rightarrow> format_lock_attestation att)"
  "concat (map (node_lines 4) (if vs = [] then [] else [strs_node nm (sort vs)])) =
   (if vs = [] then [] else [''    '' @ nm @ '' '' @ join_kdl (sort vs)])"
  "concat (map (node_lines 4) (if vs = [] then [] else [strs_node nm vs])) =
   (if vs = [] then [] else [''    '' @ nm @ '' '' @ join_kdl vs])"
  "concat (map (node_lines 4) [strs_node nm vs]) =
   [if vs = [] then ''    '' @ nm else ''    '' @ nm @ '' '' @ join_kdl vs]"
  "concat (map (node_lines 4) [str_node nm s]) = [''    '' @ nm @ '' '' @ kdl_str s]"
  "concat (map (node_lines 4) (opt_node nm w)) = opt_line (''    '' @ nm @ '' '') w"
  by (auto simp: attestation_lines node_lines_strs length_zero_sort join_kdl_def node_lines_opt indents split: option.splits)

lemma dep_lines_nodes:
  assumes "predicates_single d" "conds_nonempty d"
  shows "node_lines 0 (dep_node d) @ [[]] = dep_lines d"
proof -
  have cs: "concat (map (node_lines 4) (map cond_node (sort_key cond_require_sort_key (ld_cond_requires d)))) =
      concat (map format_cond_require (sort_key cond_require_sort_key (ld_cond_requires d)))"
    by (rule concat_conds) (use assms in \<open>auto simp: predicates_single_def conds_nonempty_def list_all_iff\<close>)
  have "node_lines 0 (dep_node d) = [''dep '' @ kdl_str (ld_name d) @ '' {''] @
      concat (map (node_lines 4) (dep_children d)) @ [''}'']"
    by (simp add: dep_node_def node_head_def indents) (simp add: dep_children_def)
  also have "concat (map (node_lines 4) (dep_children d)) @ [''}''] @ [[]] = tl (dep_lines d)"
    unfolding dep_children_def map_append concat_append cs concat_provenances source_block_lines optional_block_lines
    by (simp add: dep_lines_def node_lines_strs indents join_kdl_def)
  ultimately show ?thesis by (simp add: dep_lines_def)
qed

lemma lockfile_text_document:
  assumes "\<forall>d \<in> set (lf_deps lf). predicates_single d \<and> conds_nonempty d"
  shows "lockfile_text lf = print_document HEADER (head_nodes lf) (map dep_node (lf_deps lf))"
proof -
  have "concat (map (\<lambda>n. node_lines 0 n @ [[]]) (map dep_node ds)) = concat (map dep_lines ds)"
    if "set ds \<subseteq> set (lf_deps lf)" for ds
    using that assms by (induction ds) (auto simp: dep_lines_nodes simp del: node_lines.simps)
  then show ?thesis
    by (simp add: lockfile_text_def print_document_def head_nodes_def node_head_def entry_text_def
        dec_of_word_def dec_of_int_def indents split: option.splits)
qed

end
