(* ===== verification/LockParse.thy ===== *)
theory LockParse
  imports LockEmit DagIdentity SourceId IndexParse Solver
begin

text \<open>
  Reading \<^verbatim>\<open>milpa.lock\<close>: \<^verbatim>\<open>parse_lockfile\<close> of \<^verbatim>\<open>milpa-core/src/lockfile.rs\<close> and every block parser
  below it, over the nodes the kdl crate returns.  \<open>lower\<close> is Unicode lowercasing, \<open>kdl\<close> the crate's
  parser.  A block is read by a fold over its children with an accumulator, as in the code; the
  diagnostics of collapsed attestation blocks are not modelled.  The main result: what \<open>format_lockfile\<close>
  writes is read back.
\<close>

subsection \<open>Fields\<close>

definition scalar_str :: "kdl_node \<Rightarrow> string + string" where
  "scalar_str node =
     (case pos_args node of
        [e] \<Rightarrow> (case as_string (ke_value e) of Some s \<Rightarrow> Inr s | None \<Rightarrow> Inl ''LOCK-DEP-FIELD-ARITY'')
      | _ \<Rightarrow> Inl ''LOCK-DEP-FIELD-ARITY'')"

definition string_args :: "kdl_node \<Rightarrow> string list" where
  "string_args node = List.map_filter (\<lambda>e. as_string (ke_value e)) (pos_args node)"

definition dep_name :: "kdl_node \<Rightarrow> string + string" where
  "dep_name node =
     (case pos_args node of
        [e] \<Rightarrow>
          (case as_string (ke_value e) of
             None \<Rightarrow> Inl ''LOCK-DEP-NAME-ARITY''
           | Some name \<Rightarrow> if valid_flag_name name then Inr name else Inl ''LOCK-DEP-NAME-INVALID'')
      | _ \<Rightarrow> Inl ''LOCK-DEP-NAME-ARITY'')"

definition scalar_timestamp :: "kdl_node \<Rightarrow> string + timestamp" where
  "scalar_timestamp node =
     (case pos_args node of
        [e] \<Rightarrow>
          (case as_string (ke_value e) of
             None \<Rightarrow> Inl ''LOCK-FIELD-TYPE''
           | Some raw \<Rightarrow>
               (case parse_iso8601_timestamp raw of Some t \<Rightarrow> Inr t | None \<Rightarrow> Inl ''LOCK-FIELD-TYPE''))
      | _ \<Rightarrow> Inl ''LOCK-FIELD-ARITY'')"

definition scalar_u32 :: "kdl_node \<Rightarrow> string + u32" where
  "scalar_u32 node =
     (case pos_args node of
        [e] \<Rightarrow>
          (case ke_value e of
             KInt i \<Rightarrow> if 0 \<le> i \<and> i < 2 ^ 32 then Inr (word_of_int i) else Inl ''LOCK-FIELD-TYPE''
           | _ \<Rightarrow> Inl ''LOCK-FIELD-TYPE'')
      | _ \<Rightarrow> Inl ''LOCK-FIELD-ARITY'')"

text \<open>The last value recorded under a key.\<close>

definition last_field :: "(string \<times> string) list \<Rightarrow> string \<Rightarrow> string option" where
  "last_field fvs key = map_of (rev fvs) key"

definition required :: "string \<Rightarrow> (string \<times> string) list \<Rightarrow> string \<Rightarrow> string + string" where
  "required code fvs key = (case last_field fvs key of Some v \<Rightarrow> Inr v | None \<Rightarrow> Inl code)"

subsection \<open>Source blocks\<close>

definition source_field :: "kdl_node \<Rightarrow> string + string \<times> string" where
  "source_field child =
     (case pos_args child of
        [e] \<Rightarrow>
          (case as_string (ke_value e) of
             Some s \<Rightarrow> Inr (kn_name child, s)
           | None \<Rightarrow> Inl ''LOCK-SRC-FIELD-ARITY'')
      | _ \<Rightarrow> Inl ''LOCK-SRC-FIELD-ARITY'')"

definition raw_source :: "(string \<times> string) list \<Rightarrow> string \<Rightarrow> string + source_id" where
  "raw_source fvs kind =
     (let req = required ''LOCK-SRC-FIELD-MISSING'' fvs in
      if kind = ''git''
      then rbind (req ''url'') (\<lambda>url. Inr (Fetchable (Git url (last_field fvs ''ref'') (last_field fvs ''subpath''))))
      else if kind = ''oci''
      then rbind (req ''registry'') (\<lambda>registry. rbind (req ''repository'') (\<lambda>repository.
             Inr (Fetchable (Oci registry repository (last_field fvs ''digest'') (last_field fvs ''subpath'')))))
      else if kind = ''tarball''
      then rbind (req ''url'') (\<lambda>url. Inr (Fetchable (Tarball url (last_field fvs ''subpath''))))
      else if kind = ''local'' then rbind (req ''path'') (\<lambda>path. Inr (Fetchable (Local path)))
      else if kind = ''registry''
      then rbind (req ''registry'') (\<lambda>registry. rbind (req ''name'') (\<lambda>name.
             Inr (Fetchable (Registry registry (last_field fvs ''namespace'') name))))
      else if kind = ''member'' then rbind (req ''name'') (\<lambda>name. Inr (Member name))
      else Inl ''LOCK-SRC-KIND-UNKNOWN'')"

definition parse_source_block :: "(string \<Rightarrow> string) \<Rightarrow> kdl_node \<Rightarrow> string + source_id" where
  "parse_source_block lower node =
     rbind (rmap source_field (kn_children node)) (\<lambda>fvs.
       case last_field fvs ''kind'' of
         None \<Rightarrow> Inl ''LOCK-SRC-KIND-MISSING''
       | Some kind \<Rightarrow> rbind (raw_source fvs kind) (normalize_source lower))"

subsection \<open>Attestation blocks\<close>

definition parse_lock_rekor_block :: "kdl_node \<Rightarrow> rekor_ref" where
  "parse_lock_rekor_block node =
     (let scalar = \<lambda>nm. or_empty (child_arg_str node nm)
      in \<lparr>rekor_uuid = scalar ''uuid'', rekor_log_index = scalar ''log_index'',
          rekor_integrated_time = scalar ''integrated_time''\<rparr>)"

record attestation_acc =
  aa_kind :: "string option"
  aa_signer :: "string option"
  aa_rekor :: "rekor_ref option"
  aa_bundle :: "string option"
  aa_namespace :: string

definition attestation_child :: "attestation_acc \<Rightarrow> kdl_node \<Rightarrow> attestation_acc" where
  "attestation_child a child =
     (if kn_name child = ''kind'' then a\<lparr>aa_kind := first_arg_str child\<rparr>
      else if kn_name child = ''signer'' then a\<lparr>aa_signer := first_arg_str child\<rparr>
      else if kn_name child = ''rekor'' then a\<lparr>aa_rekor := Some (parse_lock_rekor_block child)\<rparr>
      else if kn_name child = ''bundle'' then a\<lparr>aa_bundle := prop_str child ''sha256''\<rparr>
      else if kn_name child = ''namespace'' then a\<lparr>aa_namespace := or_empty (first_arg_str child)\<rparr>
      else a)"

definition parse_lock_attestation :: "kdl_node \<Rightarrow> lock_attestation option" where
  "parse_lock_attestation node =
     (let a = foldl attestation_child
            \<lparr>aa_kind = None, aa_signer = None, aa_rekor = None, aa_bundle = None, aa_namespace = []\<rparr> (kn_children node);
          att = \<lambda>kind. \<lparr>la_kind = kind, la_rekor = aa_rekor a, la_bundle_pin = aa_bundle a, la_namespace = aa_namespace a\<rparr>
      in if aa_kind a = Some ''author-signed''
         then (case aa_signer a of
                 Some s \<Rightarrow> if s \<noteq> [] then Some (att (AuthorSigned s)) else None
               | None \<Rightarrow> None)
         else if aa_kind a = Some ''milpa-vendored'' then Some (att MilpaVendored)
         else None)"

subsection \<open>Conditional requirements\<close>

definition KNOWN_PREDICATE_NAMES :: "string list" where
  "KNOWN_PREDICATE_NAMES = [''platform'', ''arch'', ''nim'', ''milpa'', ''flag'']"

definition is_known_predicate :: "string \<Rightarrow> bool" where
  "is_known_predicate n \<longleftrightarrow> n \<in> set KNOWN_PREDICATE_NAMES"

definition entry_predicates :: "kdl_node \<Rightarrow> predicate list" where
  "entry_predicates node =
     List.map_filter (\<lambda>e.
       case ke_name e of
         None \<Rightarrow> None
       | Some key \<Rightarrow>
           if \<not> is_known_predicate key then None
           else map_option (\<lambda>v. \<lparr>pr_name = key, pr_values = [v], pr_negated = (ke_ty e = Some ''not'')\<rparr>)
             (as_string (ke_value e)))
       (kn_entries node)"

definition parse_cond_require :: "kdl_node \<Rightarrow> cond_require option" where
  "parse_cond_require node =
     (case first_arg_str node of
        None \<Rightarrow> None
      | Some name \<Rightarrow>
          let predicates =
            (if kn_children node \<noteq> []
             then concat (map entry_predicates (filter (\<lambda>c. kn_name c = ''when'') (kn_children node)))
             else entry_predicates node)
          in if predicates = [] then None else Some \<lparr>cr_name = name, cr_predicates = predicates\<rparr>)"

subsection \<open>Provenance blocks\<close>

text \<open>One turn of the loop: a scalar field, or a submodule.\<close>

definition provenance_field ::
  "(string \<times> string) list \<times> (string \<times> string) list \<Rightarrow> kdl_node \<Rightarrow>
   string + (string \<times> string) list \<times> (string \<times> string) list" where
  "provenance_field acc child =
     (case acc of (fvs, subs) \<Rightarrow>
        if kn_name child = ''submodule''
        then (case pos_args child of
            [e] \<Rightarrow>
              (case as_string (ke_value e) of
                 None \<Rightarrow> Inl ''LOCK-SUBMODULE-FIELD-INVALID''
               | Some path \<Rightarrow>
                   (case prop_str child ''sha'' of
                      None \<Rightarrow> Inl ''LOCK-SUBMODULE-FIELD-INVALID''
                    | Some sha \<Rightarrow> Inr (fvs, subs @ [(path, sha)])))
          | _ \<Rightarrow> Inl ''LOCK-SUBMODULE-FIELD-INVALID'')
        else (case pos_args child of
            [e] \<Rightarrow>
              (case as_string (ke_value e) of
                 Some s \<Rightarrow> Inr (fvs @ [(kn_name child, s)], subs)
               | None \<Rightarrow> Inr (fvs, subs))
          | _ \<Rightarrow> Inl ''LOCK-PROV-FIELD-ARITY''))"

definition provenance_of_fields ::
  "(string \<times> string) list \<Rightarrow> (string \<times> string) list \<Rightarrow> string \<Rightarrow> string \<Rightarrow> string + provenance_record" where
  "provenance_of_fields fvs subs kind origin =
     (let req = required ''LOCK-PROV-FIELD-MISSING'' fvs in
      if kind = ''git''
      then rbind (req ''url'') (\<lambda>url. Inr (RGit url (last_field fvs ''ref'') (last_field fvs ''commit_sha'') origin subs))
      else if kind = ''tarball'' then rbind (req ''url'') (\<lambda>url. Inr (RTarball url (last_field fvs ''sha256'') origin))
      else if kind = ''local'' then rbind (req ''path'') (\<lambda>path. Inr (RLocal path origin))
      else if kind = ''member'' then rbind (req ''name'') (\<lambda>name. Inr (RMember name origin))
      else if kind = ''oci''
      then rbind (req ''registry'') (\<lambda>registry. rbind (req ''repository'') (\<lambda>repository.
             rbind (req ''digest'') (\<lambda>digest. Inr (ROci registry repository digest origin))))
      else if kind = ''root'' then rbind (req ''name'') (\<lambda>name. Inr (RRoot name origin))
      else Inl ''LOCK-PROV-KIND-UNKNOWN'')"

definition parse_provenance :: "kdl_node \<Rightarrow> string + provenance_record" where
  "parse_provenance node =
     rbind (rfold provenance_field ([], []) (kn_children node)) (\<lambda>(fvs, subs).
       case last_field fvs ''kind'' of
         None \<Rightarrow> Inl ''LOCK-PROV-KIND-MISSING''
       | Some kind \<Rightarrow>
           rbind (required ''LOCK-PROV-FIELD-MISSING'' fvs ''origin'') (\<lambda>origin.
             provenance_of_fields fvs (sort_key fst subs) kind origin))"

subsection \<open>Dependencies\<close>

definition locked_dep_init :: "string \<Rightarrow> locked_dep" where
  "locked_dep_init name =
     \<lparr>ld_name = name, ld_namespace = None, ld_identity = None, ld_version = ''0.0.0'', ld_src_dir = [],
      ld_requires = [], ld_provenances = [], ld_active_flags = [], ld_dep_decl = None, ld_cond_requires = [],
      ld_aliases = [], ld_attestation = None, ld_declared_version_source = None, ld_source_id = None\<rparr>"

text \<open>One turn of the loop over the children of a \<^verbatim>\<open>dep\<close> block.\<close>

definition dep_child :: "(string \<Rightarrow> string) \<Rightarrow> locked_dep \<Rightarrow> kdl_node \<Rightarrow> string + locked_dep" where
  "dep_child lower d child =
     (let nm = kn_name child in
      if nm = ''namespace''
      then (case first_arg_str child of
              None \<Rightarrow> Inr d
            | Some ns \<Rightarrow>
                if ns = [] then Inr d
                else if \<not> valid_flag_name ns then Inl ''LOCK-DEP-NAME-INVALID''
                else Inr (d\<lparr>ld_namespace := Some ns\<rparr>))
      else if nm = ''identity''
      then rbind (scalar_str child) (\<lambda>v.
             case parse_identity v of
               Inl e \<Rightarrow> Inl ''LOCK-DEP-IDENTITY-INVALID''
             | Inr x \<Rightarrow> Inr (d\<lparr>ld_identity := Some v\<rparr>))
      else if nm = ''version'' then rbind (scalar_str child) (\<lambda>v. Inr (d\<lparr>ld_version := v\<rparr>))
      else if nm = ''declared_version_source''
      then Inr (d\<lparr>ld_declared_version_source :=
                map_option version_source_as_str (Option.bind (first_arg_str child) version_source_parse)\<rparr>)
      else if nm = ''src_dir''
      then rbind (scalar_str child) (\<lambda>v.
             if v \<noteq> [] \<and> contains_unsafe_char v then Inl ''LOCK-SRC-DIR-UNSAFE'' else Inr (d\<lparr>ld_src_dir := v\<rparr>))
      else if nm = ''requires'' then Inr (d\<lparr>ld_requires := string_args child\<rparr>)
      else if nm = ''aliases''
      then (if list_all valid_flag_name (string_args child)
            then Inr (d\<lparr>ld_aliases := sort (string_args child)\<rparr>) else Inl ''LOCK-DEP-NAME-INVALID'')
      else if nm = ''active_flags'' then Inr (d\<lparr>ld_active_flags := string_args child\<rparr>)
      else if nm = ''dep_decl'' then Inr (d\<lparr>ld_dep_decl := first_arg_str child\<rparr>)
      else if nm = ''cond-require''
      then (case parse_cond_require child of
              None \<Rightarrow> Inr d | Some cr \<Rightarrow> Inr (d\<lparr>ld_cond_requires := ld_cond_requires d @ [cr]\<rparr>))
      else if nm = ''source''
      then rbind (parse_source_block lower child) (\<lambda>sid. Inr (d\<lparr>ld_source_id := Some sid\<rparr>))
      else if nm = ''provenance''
      then rbind (parse_provenance child) (\<lambda>p. Inr (d\<lparr>ld_provenances := ld_provenances d @ [p]\<rparr>))
      else if nm = ''attestation'' then Inr (d\<lparr>ld_attestation := parse_lock_attestation child\<rparr>)
      else Inr d)"

definition parse_dep :: "(string \<Rightarrow> string) \<Rightarrow> kdl_node \<Rightarrow> string + locked_dep" where
  "parse_dep lower node =
     rbind (dep_name node) (\<lambda>name. rfold (dep_child lower) (locked_dep_init name) (kn_children node))"

subsection \<open>The file\<close>

record lock_acc =
  lk_version :: "u32 option"
  lk_strategy :: "string option"
  lk_exclude_newer :: "timestamp option"
  lk_deps :: "locked_dep list"

definition lock_node :: "(string \<Rightarrow> string) \<Rightarrow> lock_acc \<Rightarrow> kdl_node \<Rightarrow> string + lock_acc" where
  "lock_node lower a node =
     (let nm = kn_name node in
      if nm = ''version'' then rbind (scalar_u32 node) (\<lambda>v. Inr (a\<lparr>lk_version := Some v\<rparr>))
      else if nm = ''strategy''
      then Inr (case pos_args node of
                  [e] \<Rightarrow> (case as_string (ke_value e) of Some s \<Rightarrow> a\<lparr>lk_strategy := Some s\<rparr> | None \<Rightarrow> a)
                | _ \<Rightarrow> a)
      else if nm = ''exclude_newer'' then rbind (scalar_timestamp node) (\<lambda>t. Inr (a\<lparr>lk_exclude_newer := Some t\<rparr>))
      else if nm = ''dep'' then rbind (parse_dep lower node) (\<lambda>d. Inr (a\<lparr>lk_deps := lk_deps a @ [d]\<rparr>))
      else Inr a)"

definition lock_of_nodes :: "(string \<Rightarrow> string) \<Rightarrow> kdl_node list \<Rightarrow> string + lockfile" where
  "lock_of_nodes lower doc =
     rbind (rfold (lock_node lower)
              \<lparr>lk_version = None, lk_strategy = None, lk_exclude_newer = None, lk_deps = []\<rparr> doc) (\<lambda>a.
       case lk_version a of
         None \<Rightarrow> Inl ''LOCK-VERSION-MISSING''
       | Some v \<Rightarrow>
           if v \<noteq> LOCKFILE_SCHEMA_VERSION then Inl ''LOCK-VERSION-UNSUPPORTED''
           else case lk_strategy a of
             None \<Rightarrow> Inl ''LOCK-STRATEGY-MISSING''
           | Some st \<Rightarrow> Inr \<lparr>lf_version = v, lf_strategy = st, lf_exclude_newer = lk_exclude_newer a, lf_deps = lk_deps a\<rparr>)"

definition parse_lockfile ::
  "(string \<Rightarrow> string) \<Rightarrow> (string \<Rightarrow> kdl_node list option) \<Rightarrow> string \<Rightarrow> string + lockfile" where
  "parse_lockfile lower kdl text =
     (if KDL_MAX_NESTING_DEPTH < kdl_brace_depth text then Inl ''LOCK-KDL-SYNTAX''
      else if KDL_MAX_NESTING_DEPTH < kdl_block_comment_depth text then Inl ''LOCK-KDL-SYNTAX''
      else case kdl text of
        None \<Rightarrow> Inl ''LOCK-KDL-SYNTAX''
      | Some doc \<Rightarrow> lock_of_nodes lower doc)"

subsection \<open>Reading back what is written\<close>

lemma node_sel [simp]: "kn_name (strs_node nm vs) = nm" "kn_children (strs_node nm vs) = []"
  by (simp_all add: strs_node_def)

lemma pos_args_map [simp]: "filter (\<lambda>e. ke_name e = None) (map str_arg vs) = map str_arg vs"
  by (induction vs) (auto simp: str_arg_def)

lemma arg_sel [simp]:
  "ke_name (str_arg s) = None" "ke_value (str_arg s) = KString s" "ke_name (url_arg s) = None"
  "ke_value (url_arg s) = KString s" "ke_name (str_prop k s) = Some k" "ke_value (str_prop k s) = KString s"
  "ke_name (predicate_prop p) = Some (pr_name p)"
  by (simp_all add: str_arg_def url_arg_def str_prop_def predicate_prop_def)

lemma read_strs [simp]:
  "scalar_str (str_node nm s) = Inr s" "first_arg_str (str_node nm s) = Some s" "source_field (str_node nm s) = Inr (nm, s)"
  "source_field (KNode nm [url_arg s] []) = Inr (nm, s)" "pos_args (str_node nm s) = [str_arg s]"
  by (simp_all add: scalar_str_def first_arg_str_def first_arg_def source_field_def pos_args_def strs_node_def)

lemma read_string_args [simp]: "string_args (strs_node nm vs) = vs"
  by (induction vs) (simp_all add: string_args_def pos_args_def strs_node_def map_filter_simps)

definition opt_field :: "string \<Rightarrow> string option \<Rightarrow> (string \<times> string) list" where
  "opt_field nm v = (case v of None \<Rightarrow> [] | Some s \<Rightarrow> [(nm, s)])"

lemma read_opt [simp]: "rmap source_field (opt_node nm v) = Inr (opt_field nm v)"
  by (simp add: opt_node_def opt_field_def split: option.splits)

text \<open>The fields a source block records, and the source they denote.\<close>

fun source_fields :: "source_id \<Rightarrow> (string \<times> string) list" where
  "source_fields (Fetchable (Git url r sp)) = [(''kind'', ''git''), (''url'', url)] @ opt_field ''ref'' r @ opt_field ''subpath'' sp"
| "source_fields (Fetchable (Oci reg repo d sp)) =
     [(''kind'', ''oci''), (''registry'', reg), (''repository'', repo)] @ opt_field ''digest'' d @ opt_field ''subpath'' sp"
| "source_fields (Fetchable (Tarball url sp)) = [(''kind'', ''tarball''), (''url'', url)] @ opt_field ''subpath'' sp"
| "source_fields (Fetchable (Local path)) = [(''kind'', ''local''), (''path'', path)]"
| "source_fields (Fetchable (Registry reg ns n)) =
     [(''kind'', ''registry''), (''registry'', reg)] @ opt_field ''namespace'' ns @ [(''name'', n)]"
| "source_fields (Member n) = [(''kind'', ''member''), (''name'', n)]"

lemma source_nodes_fields: "rmap source_field (source_nodes sid) = Inr (source_fields sid)"
  by (cases sid rule: source_nodes.cases) (simp_all add: rmap_append)

lemma source_fields_read:
  "\<exists>k. last_field (source_fields sid) ''kind'' = Some k \<and> raw_source (source_fields sid) k = Inr sid"
proof (cases sid rule: source_nodes.cases)
  case (1 url r sp)
  then show ?thesis by (cases r; cases sp; simp add: opt_field_def last_field_def required_def raw_source_def)
next
  case (2 reg repo d sp)
  then show ?thesis by (cases d; cases sp; simp add: opt_field_def last_field_def required_def raw_source_def)
next
  case (3 url sp)
  then show ?thesis by (cases sp; simp add: opt_field_def last_field_def required_def raw_source_def)
next
  case (4 path)
  then show ?thesis by (simp add: last_field_def required_def raw_source_def)
next
  case (5 reg ns n)
  then show ?thesis by (cases ns; simp add: opt_field_def last_field_def required_def raw_source_def)
next
  case (6 n)
  then show ?thesis by (simp add: last_field_def required_def raw_source_def)
qed

lemma read_source: "parse_source_block lower (KNode ''source'' [] (source_nodes sid)) = normalize_source lower sid"
  using source_fields_read [of sid]
  by (auto simp: parse_source_block_def source_nodes_fields simp del: source_fields.simps source_nodes.simps normalize_source.simps
      split: option.splits)

lemma read_field:
  "nm \<noteq> ''submodule'' \<Longrightarrow> provenance_field (fs, subs) (str_node nm s) = Inr (fs @ [(nm, s)], subs)"
  "nm \<noteq> ''submodule'' \<Longrightarrow> rfold provenance_field (fs, subs) (opt_node nm v) =
     Inr (fs @ (case v of None \<Rightarrow> [] | Some s \<Rightarrow> [(nm, s)]), subs)"
  by (simp_all add: provenance_field_def opt_node_def split: option.splits)

lemma read_submodules:
  "rfold provenance_field (fs, subs) (map (\<lambda>(path, sha). KNode ''submodule'' [str_arg path, str_prop ''sha'' sha] []) xs) =
   Inr (fs, subs @ xs)"
  by (induction xs arbitrary: subs) (auto simp: provenance_field_def pos_args_def prop_str_def)

definition submodules_sorted :: "provenance_record \<Rightarrow> bool" where
  "submodules_sorted p = (case p of RGit url r c origin subs \<Rightarrow> sorted (map fst subs) | _ \<Rightarrow> True)"

lemma read_provenance:
  assumes "submodules_sorted p"
  shows "parse_provenance (KNode ''provenance'' [] (provenance_nodes p)) = Inr p"
  using assms
  by (cases p)
    (simp_all add: parse_provenance_def rfold_append read_field read_submodules last_field_def required_def
      provenance_of_fields_def Let_def submodules_sorted_def sort_key_id_if_sorted split: option.splits)

definition lock_attestation_ok :: "lock_attestation \<Rightarrow> bool" where
  "lock_attestation_ok att \<longleftrightarrow> la_kind att \<noteq> AuthorSigned []"

lemma read_rekor:
  "parse_lock_rekor_block (KNode ''rekor'' [] [str_node ''uuid'' (rekor_uuid r), str_node ''log_index'' (rekor_log_index r),
     str_node ''integrated_time'' (rekor_integrated_time r)]) = r"
  by (simp add: parse_lock_rekor_block_def child_arg_str_def child_arg_def find_node_def or_empty_def first_arg_def
      strs_node_def)

lemma read_attestation: "lock_attestation_ok att \<Longrightarrow> parse_lock_attestation (attestation_node att) = Some att"
  by (cases att)
    (auto simp: lock_attestation_ok_def attestation_node_def parse_lock_attestation_def attestation_child_def read_rekor
      prop_str_def or_empty_def Let_def split: attestation_kind.splits option.splits)

definition predicate_ok :: "predicate \<Rightarrow> bool" where
  "predicate_ok p \<longleftrightarrow> predicate_single p \<and> is_known_predicate (pr_name p)"

definition cond_ok :: "cond_require \<Rightarrow> bool" where
  "cond_ok cr \<longleftrightarrow> cr_predicates cr \<noteq> [] \<and> list_all predicate_ok (cr_predicates cr)"

lemma read_predicate:
  "predicate_ok p \<Longrightarrow> entry_predicates (KNode nm [predicate_prop p] cs) = [p]"
  "predicate_ok p \<Longrightarrow> entry_predicates (KNode nm [str_arg n, predicate_prop p] cs) = [p]"
  by (cases p; auto simp: entry_predicates_def predicate_ok_def predicate_single_def predicate_prop_def map_filter_simps
      length_Suc_conv str_arg_def)+

lemma read_cond:
  assumes "cond_ok cr"
  shows "parse_cond_require (cond_node cr) = Some cr"
proof -
  have ws: "concat (map entry_predicates (filter (\<lambda>c. kn_name c = ''when'') (map (\<lambda>p. KNode ''when'' [predicate_prop p] []) ps))) = ps"
    if "list_all predicate_ok ps" for ps
    using that by (induction ps) (auto simp: read_predicate)
  obtain p ps where ps: "cr_predicates cr = p # ps" using assms by (cases "cr_predicates cr") (auto simp: cond_ok_def)
  show ?thesis
  proof (cases ps)
    case Nil
    with ps assms show ?thesis
      by (cases cr) (simp add: cond_ok_def cond_node_def parse_cond_require_def first_arg_str_def first_arg_def read_predicate)
  next
    case (Cons q qs)
    with ps assms ws [of "p # q # qs"] show ?thesis
      by (cases cr) (simp add: cond_ok_def cond_node_def parse_cond_require_def first_arg_str_def first_arg_def)
  qed
qed

subsection \<open>Whole files\<close>

definition opt_all :: "('a \<Rightarrow> bool) \<Rightarrow> 'a option \<Rightarrow> bool" where
  "opt_all P v = (case v of None \<Rightarrow> True | Some x \<Rightarrow> P x)"

lemma opt_all_simps [simp]: "opt_all P None" "opt_all P (Some x) = P x"
  by (simp_all add: opt_all_def)

definition version_label :: "string \<Rightarrow> bool" where
  "version_label s \<longleftrightarrow> map_option version_source_as_str (version_source_parse s) = Some s"

text \<open>The dependencies the resolver emits: every text is one that the reader accepts.\<close>

definition wf_locked :: "(string \<Rightarrow> string) \<Rightarrow> locked_dep \<Rightarrow> bool" where
  "wf_locked lower d \<longleftrightarrow>
     valid_flag_name (ld_name d) \<and> opt_all valid_flag_name (ld_namespace d) \<and>
     opt_all (\<lambda>v. \<not> isl (parse_identity v)) (ld_identity d) \<and> opt_all version_label (ld_declared_version_source d) \<and>
     \<not> contains_unsafe_char (ld_src_dir d) \<and> list_all valid_flag_name (ld_aliases d) \<and>
     list_all cond_ok (ld_cond_requires d) \<and> opt_all (\<lambda>sid. normalize_source lower sid = Inr sid) (ld_source_id d) \<and>
     opt_all lock_attestation_ok (ld_attestation d) \<and> list_all submodules_sorted (ld_provenances d)"

definition canon_dep :: "locked_dep \<Rightarrow> locked_dep" where
  "canon_dep d = d\<lparr>ld_cond_requires := sort_key cond_require_sort_key (ld_cond_requires d),
     ld_aliases := sort (ld_aliases d), ld_provenances := sort_key provenance_sort_key (ld_provenances d)\<rparr>"

definition canon_lockfile :: "lockfile \<Rightarrow> lockfile" where
  "canon_lockfile lf = lf\<lparr>lf_deps := map canon_dep (lf_deps lf)\<rparr>"

definition wf_lockfile :: "(string \<Rightarrow> string) \<Rightarrow> lockfile \<Rightarrow> bool" where
  "wf_lockfile lower lf \<longleftrightarrow>
     lf_version lf = LOCKFILE_SCHEMA_VERSION \<and>
     opt_all (\<lambda>t. parse_iso8601_timestamp (format_iso8601_timestamp t) = Some t) (lf_exclude_newer lf) \<and>
     list_all (wf_locked lower) (lf_deps lf)"

lemma valid_flag_nonempty: "valid_flag_name s \<Longrightarrow> s \<noteq> []"
  by (auto simp: valid_flag_name_def)

lemma read_opt_child:
  assumes "\<And>s. v = Some s \<Longrightarrow> dep_child lower d (str_node nm s) = Inr (upd d)" "v = None \<Longrightarrow> upd d = d"
  shows "rfold (dep_child lower) d (opt_node nm v) = Inr (upd d)"
  using assms by (simp add: opt_node_def split: option.splits)

lemma fold_conds:
  "list_all cond_ok crs \<Longrightarrow>
   rfold (dep_child lower) d (map cond_node crs) = Inr (d\<lparr>ld_cond_requires := ld_cond_requires d @ crs\<rparr>)"
proof (induction crs arbitrary: d)
  case (Cons cr crs)
  have "kn_name (cond_node cr) = ''cond-require''" by (simp add: cond_node_def split: list.splits)
  with Cons show ?case by (simp add: dep_child_def read_cond)
qed simp

lemma fold_provenances:
  "list_all submodules_sorted ps \<Longrightarrow>
   rfold (dep_child lower) d (map (\<lambda>p. KNode ''provenance'' [] (provenance_nodes p)) ps) =
   Inr (d\<lparr>ld_provenances := ld_provenances d @ ps\<rparr>)"
  by (induction ps arbitrary: d) (simp_all add: dep_child_def read_provenance)

lemma list_all_sort_key [simp]: "list_all P (sort_key k xs) = list_all P xs"
  by (simp add: list_all_iff)

lemma dep_child_strs:
  "dep_child lower d (strs_node ''requires'' vs) = Inr (d\<lparr>ld_requires := vs\<rparr>)"
  "dep_child lower d (strs_node ''active_flags'' vs) = Inr (d\<lparr>ld_active_flags := vs\<rparr>)"
  "list_all valid_flag_name vs \<Longrightarrow> dep_child lower d (strs_node ''aliases'' vs) = Inr (d\<lparr>ld_aliases := sort vs\<rparr>)"
  "dep_child lower d (str_node ''version'' v) = Inr (d\<lparr>ld_version := v\<rparr>)"
  "\<not> contains_unsafe_char v \<Longrightarrow> dep_child lower d (str_node ''src_dir'' v) = Inr (d\<lparr>ld_src_dir := v\<rparr>)"
  "lock_attestation_ok att \<Longrightarrow> dep_child lower d (attestation_node att) = Inr (d\<lparr>ld_attestation := Some att\<rparr>)"
  "normalize_source lower sid = Inr sid \<Longrightarrow>
     dep_child lower d (KNode ''source'' [] (source_nodes sid)) = Inr (d\<lparr>ld_source_id := Some sid\<rparr>)"
  using read_attestation
  by (simp_all add: dep_child_def read_source del: normalize_source.simps) (simp_all add: attestation_node_def)

lemma read_dep:
  assumes "wf_locked lower d"
  shows "parse_dep lower (dep_node d) = Inr (canon_dep d)"
proof -
  note wf = assms [unfolded wf_locked_def]
  let ?F = "rfold (dep_child lower)"
  have "dep_name (dep_node d) = Inr (ld_name d)"
    using wf by (simp add: dep_name_def dep_node_def pos_args_def)
  moreover have ns: "?F x (opt_node ''namespace'' (ld_namespace d)) = Inr (x\<lparr>ld_namespace := ld_namespace d\<rparr>)"
    if "ld_namespace x = None" for x
    by (rule read_opt_child)
      (use wf that in \<open>auto simp: dep_child_def opt_all_def valid_flag_nonempty\<close>)
  moreover have idn: "?F x (opt_node ''identity'' (ld_identity d)) = Inr (x\<lparr>ld_identity := ld_identity d\<rparr>)"
    if "ld_identity x = None" for x
    by (rule read_opt_child)
      (use wf that in \<open>auto simp: dep_child_def opt_all_def split: sum.splits\<close>)
  moreover have dv: "?F x (opt_node ''declared_version_source'' (ld_declared_version_source d)) =
      Inr (x\<lparr>ld_declared_version_source := ld_declared_version_source d\<rparr>)"
    if "ld_declared_version_source x = None" for x
    by (rule read_opt_child)
      (use wf that in \<open>auto simp: dep_child_def opt_all_def version_label_def\<close>)
  moreover have dd: "?F x (opt_node ''dep_decl'' (ld_dep_decl d)) = Inr (x\<lparr>ld_dep_decl := ld_dep_decl d\<rparr>)"
    if "ld_dep_decl x = None" for x
    by (rule read_opt_child) (use that in \<open>auto simp: dep_child_def\<close>)
  moreover have src: "?F x (case ld_source_id d of None \<Rightarrow> [] | Some sid \<Rightarrow> [KNode ''source'' [] (source_nodes sid)]) =
      Inr (x\<lparr>ld_source_id := ld_source_id d\<rparr>)" if "ld_source_id x = None" for x
    using wf that by (cases "ld_source_id d") (simp_all add: opt_all_def dep_child_strs del: normalize_source.simps)
  moreover have att: "?F x (case ld_attestation d of None \<Rightarrow> [] | Some a \<Rightarrow> [attestation_node a]) =
      Inr (x\<lparr>ld_attestation := ld_attestation d\<rparr>)" if "ld_attestation x = None" for x
    using wf that by (cases "ld_attestation d") (simp_all add: opt_all_def dep_child_strs)
  moreover have al: "?F x (if ld_aliases d = [] then [] else [strs_node ''aliases'' (sort (ld_aliases d))]) =
      Inr (x\<lparr>ld_aliases := sort (ld_aliases d)\<rparr>)" if "ld_aliases x = []" for x
    using wf that by (simp add: dep_child_strs sort_key_id_if_sorted)
  moreover have af: "?F x (if ld_active_flags d = [] then [] else [strs_node ''active_flags'' (ld_active_flags d)]) =
      Inr (x\<lparr>ld_active_flags := ld_active_flags d\<rparr>)" if "ld_active_flags x = []" for x
    using that by (simp add: dep_child_strs)
  ultimately show ?thesis
    using wf
    by (simp add: parse_dep_def dep_node_def dep_children_def rfold_append dep_child_strs fold_conds fold_provenances
        locked_dep_init_def canon_dep_def)
qed

lemma fold_deps:
  "list_all (wf_locked lower) ds \<Longrightarrow>
   rfold (lock_node lower) a (map dep_node ds) = Inr (a\<lparr>lk_deps := lk_deps a @ map canon_dep ds\<rparr>)"
proof (induction ds arbitrary: a)
  case (Cons d ds)
  have "kn_name (dep_node d) = ''dep''" by (simp add: dep_node_def)
  with Cons show ?case by (simp add: lock_node_def read_dep)
qed simp

lemma read_lockfile:
  assumes "wf_lockfile lower lf"
  shows "lock_of_nodes lower (lockfile_nodes lf) = Inr (canon_lockfile lf)"
proof -
  note wf = assms [unfolded wf_lockfile_def]
  have v: "scalar_u32 (KNode ''version'' [\<lparr>ke_name = None, ke_ty = None, ke_value = KInt (uint w)\<rparr>] []) = Inr w" for w
    using unsigned_less [of w, where ?'a = int] by (simp add: scalar_u32_def pos_args_def)
  have h: "rfold (lock_node lower) a (head_nodes lf) =
      Inr (a\<lparr>lk_version := Some (lf_version lf), lk_strategy := Some (lf_strategy lf), lk_exclude_newer := lf_exclude_newer lf\<rparr>)"
    if "lk_exclude_newer a = None" for a
    using wf that
    by (cases "lf_exclude_newer lf") (simp_all add: head_nodes_def lock_node_def v opt_all_def scalar_timestamp_def)
  show ?thesis
    using wf by (simp add: lock_of_nodes_def lockfile_nodes_def rfold_append h fold_deps canon_lockfile_def)
qed

lemma wf_printable:
  assumes "wf_locked lower d"
  shows "predicates_single d" "conds_nonempty d"
  using assms by (auto simp: wf_locked_def predicates_single_def conds_nonempty_def cond_ok_def predicate_ok_def list_all_iff)

lemma sort_key_twice [simp]: "sort_key f (sort_key f xs) = sort_key f xs"
  by (simp add: sort_key_id_if_sorted)

lemma canon_text: "dep_lines (canon_dep d) = dep_lines d"
  by (simp add: dep_lines_def canon_dep_def length_zero_sort)

subsection \<open>The trust boundary\<close>

definition locked_safe :: "(string \<Rightarrow> string) \<Rightarrow> locked_dep \<Rightarrow> bool" where
  "locked_safe lower d \<longleftrightarrow>
     valid_flag_name (ld_name d) \<and> opt_all valid_flag_name (ld_namespace d) \<and>
     opt_all (\<lambda>v. \<not> isl (parse_identity v)) (ld_identity d) \<and> opt_all version_label (ld_declared_version_source d) \<and>
     \<not> contains_unsafe_char (ld_src_dir d) \<and> list_all valid_flag_name (ld_aliases d) \<and> sorted (ld_aliases d) \<and>
     list_all cond_ok (ld_cond_requires d) \<and> opt_all (\<lambda>sid. \<exists>raw. normalize_source lower raw = Inr sid) (ld_source_id d) \<and>
     opt_all lock_attestation_ok (ld_attestation d) \<and> list_all submodules_sorted (ld_provenances d)"

lemma parsed_attestation: "opt_all lock_attestation_ok (parse_lock_attestation node)"
  by (auto simp: opt_all_def parse_lock_attestation_def Let_def lock_attestation_ok_def split: option.splits if_splits)

lemma entry_predicates_ok: "list_all predicate_ok (entry_predicates node)"
  by (auto simp: list_all_iff entry_predicates_def List.map_filter_def predicate_ok_def predicate_single_def
      split: option.splits if_splits)

lemma parsed_cond: "parse_cond_require node = Some cr \<Longrightarrow> cond_ok cr"
  using entry_predicates_ok
  by (auto simp: parse_cond_require_def cond_ok_def Let_def list_all_iff split: option.splits if_splits)

lemma fields_sorted: "provenance_of_fields fvs (sort_key fst subs) kind origin = Inr p \<Longrightarrow> submodules_sorted p"
  by (auto simp: provenance_of_fields_def Let_def rbind_Inr submodules_sorted_def split: if_splits)

lemma parsed_provenance: "parse_provenance node = Inr p \<Longrightarrow> submodules_sorted p"
  by (auto simp: parse_provenance_def rbind_Inr fields_sorted split: option.splits)

lemma parsed_source: "parse_source_block lower node = Inr sid \<Longrightarrow> \<exists>raw. normalize_source lower raw = Inr sid"
  by (auto simp: parse_source_block_def rbind_Inr simp del: normalize_source.simps split: option.splits)

lemma parsed_label: "opt_all version_label (map_option version_source_as_str v)"
proof (cases v)
  case (Some x)
  then show ?thesis by (cases x) (simp_all add: opt_all_def version_label_def version_source_parse_def)
qed (simp add: opt_all_def)

lemma dep_child_safe:
  assumes safe: "locked_safe lower d" and step: "dep_child lower d child = Inr d'"
  shows "locked_safe lower d'"
proof -
  consider "kn_name child = ''namespace''"
    | "kn_name child = ''identity''"
    | "kn_name child = ''version''"
    | "kn_name child = ''declared_version_source''"
    | "kn_name child = ''src_dir''"
    | "kn_name child = ''requires''"
    | "kn_name child = ''aliases''"
    | "kn_name child = ''active_flags''"
    | "kn_name child = ''dep_decl''"
    | "kn_name child = ''cond-require''"
    | "kn_name child = ''source''"
    | "kn_name child = ''provenance''"
    | "kn_name child = ''attestation''"
    | "kn_name child \<noteq> ''namespace'' \<and> kn_name child \<noteq> ''identity'' \<and> kn_name child \<noteq> ''version'' \<and> kn_name child \<noteq> ''declared_version_source'' \<and> kn_name child \<noteq> ''src_dir'' \<and> kn_name child \<noteq> ''requires'' \<and> kn_name child \<noteq> ''aliases'' \<and> kn_name child \<noteq> ''active_flags'' \<and> kn_name child \<noteq> ''dep_decl'' \<and> kn_name child \<noteq> ''cond-require'' \<and> kn_name child \<noteq> ''source'' \<and> kn_name child \<noteq> ''provenance'' \<and> kn_name child \<noteq> ''attestation''"
    by blast
  then show ?thesis
  proof cases
    case 1
    with safe step show ?thesis
      by (auto simp: dep_child_def locked_safe_def split: option.splits if_splits)
  next
    case 2
    with step obtain v where v: "(case parse_identity v of Inl e \<Rightarrow> Inl ''LOCK-DEP-IDENTITY-INVALID''
        | Inr x \<Rightarrow> Inr (d\<lparr>ld_identity := Some v\<rparr>)) = Inr d'"
      by (auto simp: dep_child_def rbind_Inr)
    with safe show ?thesis by (cases "parse_identity v") (auto simp: locked_safe_def)
  next
    case 3
    with safe step show ?thesis
      by (auto simp: dep_child_def locked_safe_def rbind_Inr)
  next
    case 4
    with safe step show ?thesis
      using parsed_label by (auto simp: dep_child_def locked_safe_def)
  next
    case 5
    with safe step show ?thesis
      by (auto simp: dep_child_def locked_safe_def rbind_Inr split: if_splits)
  next
    case 6
    with safe step show ?thesis
      by (auto simp: dep_child_def locked_safe_def)
  next
    case 7
    with safe step show ?thesis
      by (auto simp: dep_child_def locked_safe_def list_all_iff split: if_splits)
  next
    case 8
    with safe step show ?thesis
      by (auto simp: dep_child_def locked_safe_def)
  next
    case 9
    with safe step show ?thesis
      by (auto simp: dep_child_def locked_safe_def)
  next
    case 10
    with safe step show ?thesis
      using parsed_cond [of child] by (auto simp: dep_child_def locked_safe_def split: option.splits)
  next
    case 11
    with safe step show ?thesis
      using parsed_source [of lower child]
      by (auto simp: dep_child_def locked_safe_def rbind_Inr simp del: normalize_source.simps)
  next
    case 12
    with safe step show ?thesis
      using parsed_provenance [of child] by (auto simp: dep_child_def locked_safe_def rbind_Inr)
  next
    case 13
    with safe step show ?thesis
      using parsed_attestation [of child] by (auto simp: dep_child_def locked_safe_def)
  next
    case 14
    with safe step show ?thesis by (simp add: dep_child_def)
  qed
qed

lemma parse_dep_safe:
  assumes "parse_dep lower node = Inr d"
  shows "locked_safe lower d"
proof -
  obtain name where n: "dep_name node = Inr name" "rfold (dep_child lower) (locked_dep_init name) (kn_children node) = Inr d"
    using assms by (auto simp: parse_dep_def rbind_Inr)
  from n(1) have "valid_flag_name name"
    by (auto simp: dep_name_def split: list.splits option.splits if_splits)
  then have "locked_safe lower (locked_dep_init name)"
    by (simp add: locked_safe_def locked_dep_init_def opt_all_def)
  with n(2) show ?thesis by (rule rfold_invariant) (rule dep_child_safe)
qed

lemma parsed_deps:
  assumes "lock_of_nodes lower doc = Inr lf"
  shows "lf_version lf = LOCKFILE_SCHEMA_VERSION \<and> list_all (locked_safe lower) (lf_deps lf)"
proof -
  let ?init = "\<lparr>lk_version = None, lk_strategy = None, lk_exclude_newer = None, lk_deps = []\<rparr>"
  obtain a where a: "rfold (lock_node lower) ?init doc = Inr a"
    and r: "(case lk_version a of
         None \<Rightarrow> Inl ''LOCK-VERSION-MISSING''
       | Some v \<Rightarrow>
           if v \<noteq> LOCKFILE_SCHEMA_VERSION then Inl ''LOCK-VERSION-UNSUPPORTED''
           else case lk_strategy a of
             None \<Rightarrow> Inl ''LOCK-STRATEGY-MISSING''
           | Some st \<Rightarrow> Inr \<lparr>lf_version = v, lf_strategy = st, lf_exclude_newer = lk_exclude_newer a, lf_deps = lk_deps a\<rparr>) = Inr lf"
    using assms unfolding lock_of_nodes_def rbind_Inr by blast
  have "lf_version lf = LOCKFILE_SCHEMA_VERSION \<and> lf_deps lf = lk_deps a"
    using r by (cases "lk_version a"; cases "lk_strategy a") (auto split: if_splits)
  moreover
  from a have "list_all (locked_safe lower) (lk_deps a)"
    by (rule rfold_invariant)
      (auto simp: lock_node_def Let_def rbind_Inr parse_dep_safe split: if_splits list.splits option.splits)
  ultimately show ?thesis by simp
qed

lemma written_and_read:
  assumes "wf_lockfile lower lf"
    and "kdl_brace_depth (lockfile_text lf) \<le> KDL_MAX_NESTING_DEPTH"
    and "kdl_block_comment_depth (lockfile_text lf) \<le> KDL_MAX_NESTING_DEPTH"
    and "kdl (print_document HEADER (head_nodes lf) (map dep_node (lf_deps lf))) = Some (lockfile_nodes lf)"
  shows "\<exists>text. format_lockfile lf = Some text \<and> parse_lockfile lower kdl text = Inr (canon_lockfile lf) \<and>
    format_lockfile (canon_lockfile lf) = Some text"
proof -
  have p: "predicates_single d \<and> conds_nonempty d" if "d \<in> set (lf_deps lf)" for d
    using that wf_printable assms(1) by (auto simp: wf_lockfile_def list_all_iff)
  then have "format_lockfile lf = Some (lockfile_text lf)"
    by (auto simp: format_lockfile_def list_all_iff)
  moreover have "parse_lockfile lower kdl (lockfile_text lf) = Inr (canon_lockfile lf)"
    using assms(2-4) read_lockfile [OF assms(1)] lockfile_text_document [of lf] p
    by (simp add: parse_lockfile_def not_less)
  moreover have "predicates_single (canon_dep d) = predicates_single d" for d
    by (simp add: predicates_single_def canon_dep_def)
  then have "format_lockfile (canon_lockfile lf) = format_lockfile lf"
    by (simp add: format_lockfile_def canon_lockfile_def lockfile_text_def canon_text comp_def list_all_iff)
  ultimately show ?thesis by simp
qed

subsection \<open>Properties\<close>

text \<open>
  C17. The lockfile round trip.  A lockfile whose texts are of the kinds the reader accepts is written
  without a panic; its text, read back by a parser that maps the printed document to its nodes, gives the
  same lockfile up to the order of conditional requirements, aliases and provenance records, which the
  writer sorts; and writing that result again gives the same bytes.
\<close>

theorem lockfile_roundtrip:
  assumes "wf_lockfile lower lf"
    and "kdl_brace_depth (lockfile_text lf) \<le> KDL_MAX_NESTING_DEPTH"
    and "kdl_block_comment_depth (lockfile_text lf) \<le> KDL_MAX_NESTING_DEPTH"
    and "kdl (print_document HEADER (head_nodes lf) (map dep_node (lf_deps lf))) = Some (lockfile_nodes lf)"
  shows "\<exists>text. format_lockfile lf = Some text \<and> parse_lockfile lower kdl text = Inr (canon_lockfile lf) \<and>
    format_lockfile (canon_lockfile lf) = Some text"
  by (rule written_and_read) (rule assms)+

definition demo_locked :: "provenance_record list \<Rightarrow> source_id option \<Rightarrow> lockfile" where
  "demo_locked ps sid =
     \<lparr>lf_version = LOCKFILE_SCHEMA_VERSION, lf_strategy = ''maxver'', lf_exclude_newer = None,
      lf_deps = [(locked_dep_init ''a'')\<lparr>ld_provenances := ps, ld_source_id := sid, ld_requires := [''b''],
        ld_cond_requires := [\<lparr>cr_name = ''b'', cr_predicates = [\<lparr>pr_name = ''platform'', pr_values = [''linux''], pr_negated = True\<rparr>]\<rparr>]\<rparr>]\<rparr>"

lemma demo_wf:
  "list_all submodules_sorted ps \<Longrightarrow> opt_all (\<lambda>s. normalize_source lower s = Inr s) sid \<Longrightarrow> wf_lockfile lower (demo_locked ps sid)"
  by (simp add: demo_locked_def wf_lockfile_def wf_locked_def locked_dep_init_def valid_flag_name_def is_alnum_def is_alpha_def
      cond_ok_def predicate_ok_def predicate_single_def is_known_predicate_def KNOWN_PREDICATE_NAMES_def)

lemmas text_eval = demo_locked_def lockfile_text_def dep_lines_def opt_line_def locked_dep_init_def HEADER_def
  dec_of_word_def kdl_str_def kdl_escape_def join_kdl_def inner_def format_cond_require_def
  format_predicate_prop_def LOCKFILE_SCHEMA_VERSION_def kdl_brace_depth_def kdl_block_comment_depth_def
  KDL_MAX_NESTING_DEPTH_def

theorem lockfile_roundtrip_witness:
  "\<exists>text. format_lockfile (demo_locked [RLocal ''p'' ''observed'', RLocal ''p'' ''declared''] None) = Some text \<and>
     parse_lockfile ascii_lower (\<lambda>_. Some (lockfile_nodes (demo_locked [RLocal ''p'' ''observed'', RLocal ''p'' ''declared''] None))) text =
       Inr (canon_lockfile (demo_locked [RLocal ''p'' ''observed'', RLocal ''p'' ''declared''] None)) \<and>
     format_lockfile (canon_lockfile (demo_locked [RLocal ''p'' ''observed'', RLocal ''p'' ''declared''] None)) = Some text"
proof (rule lockfile_roundtrip)
  let ?ps = "[RLocal ''p'' ''observed'', RLocal ''p'' ''declared'']"
  show "wf_lockfile ascii_lower (demo_locked ?ps None)" by (simp add: demo_wf submodules_sorted_def)
  show "kdl_brace_depth (lockfile_text (demo_locked ?ps None)) \<le> KDL_MAX_NESTING_DEPTH"
    "kdl_block_comment_depth (lockfile_text (demo_locked ?ps None)) \<le> KDL_MAX_NESTING_DEPTH"
    by (simp_all add: text_eval provenance_sort_key_def dec_of_nat.simps digit_char_def)
qed simp

text \<open>
  C19. What an accepted lockfile is, whatever text it came from.  Its schema version is the one this
  program writes; every name, namespace and alias is a plain identifier, so no directory entry can leave
  the dependency directory; source directories carry no control character or line separator; identities
  parse; predicates are known and have one value; sources went through the validation boundary; and
  attestations of authors name a signer.  Writing it again cannot panic.
\<close>

theorem lockfile_trust_boundary:
  assumes "parse_lockfile lower kdl text = Inr lf"
  shows "lf_version lf = LOCKFILE_SCHEMA_VERSION \<and> list_all (locked_safe lower) (lf_deps lf) \<and>
    (\<exists>text'. format_lockfile lf = Some text')"
proof -
  obtain doc where "lock_of_nodes lower doc = Inr lf"
    using assms by (auto simp: parse_lockfile_def split: if_splits option.splits)
  from parsed_deps [OF this] show ?thesis
    by (auto simp: format_lockfile_def list_all_iff locked_safe_def predicates_single_def cond_ok_def predicate_ok_def)
qed

theorem lockfile_trust_boundary_witness:
  "locked_safe ascii_lower (locked_dep_init ''a'')"
proof -
  let ?doc = "[KNode ''version'' [\<lparr>ke_name = None, ke_ty = None, ke_value = KInt 1\<rparr>] [], str_node ''strategy'' ''maxver'',
    KNode ''dep'' [str_arg ''a''] []]"
  let ?lf = "\<lparr>lf_version = 1, lf_strategy = ''maxver'', lf_exclude_newer = None, lf_deps = [locked_dep_init ''a'']\<rparr>"
  have "parse_lockfile ascii_lower (\<lambda>_. Some ?doc) [] = Inr ?lf"
    by (simp add: parse_lockfile_def text_eval lock_of_nodes_def lock_node_def scalar_u32_def pos_args_def parse_dep_def
        strs_node_def dep_name_def valid_flag_name_def is_alnum_def is_alpha_def)
  from lockfile_trust_boundary [OF this] show ?thesis by simp
qed

text \<open>
  The writer can produce a file that the reader refuses.  Braces in a text are not escaped, and the
  reader counts the braces of the raw bytes before it parses: a well-formed lockfile with a local path of
  33 opening braces is written without an error and is then rejected, whatever the KDL parser says.
\<close>

theorem written_lockfile_refused:
  "wf_lockfile ascii_lower (demo_locked [RLocal (replicate 33 CHR ''{'') ''observed''] None) \<and>
   (\<exists>text. format_lockfile (demo_locked [RLocal (replicate 33 CHR ''{'') ''observed''] None) = Some text \<and>
      (\<forall>kdl. parse_lockfile ascii_lower kdl text = Inl ''LOCK-KDL-SYNTAX''))"
proof -
  have braces: "replicate 33 CHR ''{'' = ''{{{{{{{{{{{{{{{{{{{{{{{{{{{{{{{{{''" by (simp add: numeral_eq_Suc)
  have "predicates_single (hd (lf_deps (demo_locked ps None)))" for ps
    by (simp add: demo_locked_def predicates_single_def predicate_single_def)
  then have "format_lockfile (demo_locked ps None) = Some (lockfile_text (demo_locked ps None))" for ps
    by (simp add: format_lockfile_def demo_locked_def)
  moreover have "KDL_MAX_NESTING_DEPTH < kdl_brace_depth (lockfile_text (demo_locked [RLocal (replicate 33 CHR ''{'') ''observed''] None))"
    by (simp add: text_eval braces dec_of_nat.simps digit_char_def)
  ultimately show ?thesis by (simp add: demo_wf submodules_sorted_def parse_lockfile_def)
qed

text \<open>
  A source block is normalised again when it is read, and normalisation is not idempotent.  The url
  \<^verbatim>\<open>https://h/r.git.git\<close> is stored as \<^verbatim>\<open>https://h/r.git\<close>, written so, and read back as
  \<^verbatim>\<open>https://h/r\<close>: a freshly locked dependency and its reading have different sources.
\<close>

theorem source_block_drifts:
  "\<exists>sid sid'. normalize_source ascii_lower (Fetchable (Git ''https://h/r.git.git'' None None)) = Inr sid \<and>
     parse_source_block ascii_lower (KNode ''source'' [] (source_nodes sid)) = Inr sid' \<and> sid' \<noteq> sid"
proof -
  have n: "normalize_git_url ascii_lower ''https://h/r.git.git'' = ''https://h/r.git''"
    "normalize_git_url ascii_lower ''https://h/r.git'' = ''https://h/r''"
    by code_simp+
  show ?thesis
    by (simp add: n read_source validate_no_unsafe_char_def validate_no_delim_collision_def opt_ok_def Let_def contains_str_def)
qed

end
