(* ===== verification/LockGraph.thy ===== *)
theory LockGraph
  imports LockParse ImportSlot
begin

text \<open>
  From a resolved graph to a lockfile and back: \<^verbatim>\<open>from_graph\<close>, \<^verbatim>\<open>verify_against_graph\<close>,
  \<^verbatim>\<open>check_locked_drift\<close>, \<^verbatim>\<open>verify_lockfile_against_deps\<close> and their helpers of
  \<^verbatim>\<open>milpa-core/src/lockfile.rs\<close>.  Messages are structured values; the file system under the dependency
  directory is the record \<open>deps_view\<close> of what the code asks of it.
\<close>

subsection \<open>From the graph\<close>

definition req_name_to_lockfile :: "string \<Rightarrow> string" where
  "req_name_to_lockfile s = (case split_once_str ''::'' s of Some (ns, name) \<Rightarrow> ns @ ''/'' @ name | None \<Rightarrow> s)"

definition opt :: "string \<Rightarrow> string option" where
  "opt s = (if s = [] then None else Some s)"

definition registry_namespace :: "source_id option \<Rightarrow> string" where
  "registry_namespace sid =
     (case sid of Some (Fetchable (Registry r ns n)) \<Rightarrow> or_empty ns | _ \<Rightarrow> [])"

definition locked_from_resolved :: "resolved_dep \<Rightarrow> locked_dep" where
  "locked_from_resolved d =
     \<lparr>ld_name = rd_name d, ld_namespace = rd_namespace d, ld_identity = opt (rd_identity d),
      ld_version = format_version (rd_version d), ld_src_dir = rd_src_dir d,
      ld_requires = sort (map req_name_to_lockfile (rd_requires d)), ld_provenances = rd_provenances d,
      ld_active_flags = rd_active_flags d, ld_dep_decl = rd_dep_decl d,
      ld_cond_requires = sort_key cond_require_sort_key (rd_cond_requires d), ld_aliases = rd_aliases d,
      ld_attestation = map_option (\<lambda>a. \<lparr>la_kind = att_kind a, la_rekor = att_rekor a, la_bundle_pin = att_bundle_pin a,
        la_namespace = registry_namespace (rd_source_id d)\<rparr>) (rd_attestation d),
      ld_declared_version_source = rd_declared_version_source d, ld_source_id = rd_source_id d\<rparr>"

text \<open>
  Sorting two or more conditional requirements computes every key, so a predicate without exactly one value
  panics there (\<open>None\<close>).
\<close>

definition sort_keys_defined :: "resolved_dep \<Rightarrow> bool" where
  "sort_keys_defined d \<longleftrightarrow>
     length (rd_cond_requires d) < 2 \<or>
     list_all (\<lambda>cr. list_all predicate_single (cr_predicates cr)) (rd_cond_requires d)"

definition from_graph :: "resolved_graph \<Rightarrow> string \<Rightarrow> timestamp option \<Rightarrow> lockfile option" where
  "from_graph graph strategy exclude_newer =
     (if list_all sort_keys_defined graph
      then Some \<lparr>lf_version = LOCKFILE_SCHEMA_VERSION, lf_strategy = strategy, lf_exclude_newer = exclude_newer,
        lf_deps = sort_key (\<lambda>d. (or_empty (ld_namespace d), ld_name d)) (map locked_from_resolved graph)\<rparr>
      else None)"

subsection \<open>Origins and collapse notes\<close>

definition format_dep_origin :: "string \<Rightarrow> provenance_record list \<Rightarrow> string" where
  "format_dep_origin name provenances =
     (case (case List.find (\<lambda>p. record_origin p = ''observed'') provenances of
              Some p \<Rightarrow> Some p | None \<Rightarrow> (case provenances of [] \<Rightarrow> None | p # ps \<Rightarrow> Some p)) of
        None \<Rightarrow> name
      | Some (RGit url r c org subs) \<Rightarrow> ''git+'' @ url
      | Some (RTarball url h org) \<Rightarrow> ''tar+'' @ url
      | Some (ROci reg repo dg org) \<Rightarrow> ''oci+'' @ reg @ ''/'' @ repo
      | Some (RLocal path org) \<Rightarrow> ''file+'' @ path
      | Some (RMember n org) \<Rightarrow> ''member+'' @ n
      | Some (RRoot n org) \<Rightarrow> ''root+'' @ n)"

text \<open>Over the name, aliases and provenance records of each dependency.\<close>

definition collapse_note :: "string \<Rightarrow> string \<Rightarrow> string \<Rightarrow> string" where
  "collapse_note name orig al = [CHR 0x27] @ al @ [CHR 0x27] @ '' and '' @ [CHR 0x27] @ name @ [CHR 0x27] @
     '' both name '' @ orig @ ''; used '' @ [CHR 0x27] @ name @ [CHR 0x27]"

definition collapse_notes :: "(string \<times> string list \<times> provenance_record list) list \<Rightarrow> string list" where
  "collapse_notes deps =
     concat (map (\<lambda>(name, aliases, provs).
         if aliases = [] then [] else map (collapse_note name (format_dep_origin name provs)) (sort aliases))
       (sort_key fst deps))"

subsection \<open>Against a graph\<close>

definition locked_slot :: "locked_dep \<Rightarrow> string" where
  "locked_slot d = dep_dir_name (ld_name d) (ld_namespace d)"

text \<open>Collecting pairs into a \<^verbatim>\<open>BTreeMap\<close>: the last pair of a key stays.\<close>

definition by_slot :: "('a \<Rightarrow> string) \<Rightarrow> 'a list \<Rightarrow> (string \<times> 'a) list" where
  "by_slot slot ds = bt.ins_all (map (\<lambda>d. (slot d, d)) ds) []"

datatype graph_divergence =
    Unexpected string
  | Absent string
  | IdentityChanged string
  | ProvenanceChanged string
  | BoundChanged

definition slot_divergences :: "lockfile \<Rightarrow> resolved_graph \<Rightarrow> graph_divergence list" where
  "slot_divergences lf graph =
     (let locked = by_slot locked_slot (lf_deps lf); resolved = by_slot dir_slot graph
      in map Unexpected (filter (\<lambda>k. bt_get locked k = None) (bt_keys resolved)) @
         map Absent (filter (\<lambda>k. bt_get resolved k = None) (bt_keys locked)))"

definition pair_divergences ::
  "(string \<Rightarrow> locked_dep \<Rightarrow> resolved_dep \<Rightarrow> graph_divergence list) \<Rightarrow> lockfile \<Rightarrow> resolved_graph \<Rightarrow> graph_divergence list" where
  "pair_divergences compare lf graph =
     (let locked = by_slot locked_slot (lf_deps lf)
      in concat (map (\<lambda>(k, r). case bt_get locked k of None \<Rightarrow> [] | Some l \<Rightarrow> compare k l r) (by_slot dir_slot graph)))"

definition verify_divergences :: "lockfile \<Rightarrow> resolved_graph \<Rightarrow> graph_divergence list" where
  "verify_divergences lf graph =
     slot_divergences lf graph @
     pair_divergences (\<lambda>k l r. if ld_identity l \<noteq> Some (rd_identity r) then [IdentityChanged k] else []) lf graph"

definition verify_against_graph :: "lockfile \<Rightarrow> resolved_graph \<Rightarrow> string + unit" where
  "verify_against_graph lf graph = ensure (verify_divergences lf graph = []) ''LOCK-GRAPH-MISMATCH''"

definition drift_divergences :: "lockfile \<Rightarrow> resolved_graph \<Rightarrow> timestamp option \<Rightarrow> graph_divergence list" where
  "drift_divergences prior graph exclude_newer =
     slot_divergences prior graph @
     pair_divergences (\<lambda>k l r.
       if ld_identity l \<noteq> Some (rd_identity r) then [IdentityChanged k]
       else if sort_key provenance_sort_key (ld_provenances l) \<noteq> sort_key provenance_sort_key (rd_provenances r)
       then [ProvenanceChanged k] else []) prior graph @
     (if lf_exclude_newer prior \<noteq> exclude_newer then [BoundChanged] else [])"

definition check_locked_drift :: "lockfile option \<Rightarrow> resolved_graph \<Rightarrow> timestamp option \<Rightarrow> string + unit" where
  "check_locked_drift prior graph exclude_newer =
     (case prior of
        None \<Rightarrow> Inl ''RES-LOCKED-DRIFT''
      | Some lf \<Rightarrow> ensure (drift_divergences lf graph exclude_newer = []) ''RES-LOCKED-DRIFT'')"

subsection \<open>Against the dependency directory\<close>

text \<open>
  The questions asked of the file system, by entry name under the directory: whether an entry is there and
  is a symbolic link, whether it exists with links followed, its content hash, its canonical path; the
  listing of the directory (name and whether it is a directory), and of a namespace directory.
\<close>

record deps_view =
  dv_lstat :: "string \<Rightarrow> bool option"
  dv_exists :: "string \<Rightarrow> bool"
  dv_hash :: "string \<Rightarrow> string + string"
  dv_real :: "string \<Rightarrow> string option"
  dv_list :: "(string \<times> bool) list option"
  dv_sublist :: "string \<Rightarrow> string list option"

datatype disk_divergence =
    Missing string
  | Dangling string
  | NotSymlink string
  | IdentityMismatch string string
  | StoreIoError string
  | CannotHash string string
  | AliasMissing string string
  | AliasElsewhere string string
  | Extra string

definition file_name :: "string \<Rightarrow> string" where
  "file_name path = last (split_on CHR ''/'' path)"

definition classify_dep_path :: "deps_view \<Rightarrow> string \<Rightarrow> disk_divergence option" where
  "classify_dep_path v entry =
     (case dv_lstat v entry of
        None \<Rightarrow> Some (Missing (file_name entry))
      | Some is_link \<Rightarrow> if is_link \<and> \<not> dv_exists v entry then Some (Dangling (file_name entry)) else None)"

definition is_local_record :: "provenance_record \<Rightarrow> bool" where
  "is_local_record p \<longleftrightarrow> (case p of RLocal path org \<Rightarrow> True | _ \<Rightarrow> False)"

definition is_local_dep :: "locked_dep \<Rightarrow> bool" where
  "is_local_dep d \<longleftrightarrow> list_ex is_local_record (ld_provenances d)"

definition verify_local_dep_liveness :: "deps_view \<Rightarrow> string \<Rightarrow> string \<Rightarrow> disk_divergence option" where
  "verify_local_dep_liveness v name entry =
     (let is_link = (dv_lstat v entry = Some True); ex = dv_exists v entry
      in if is_link \<and> \<not> ex then Some (Dangling name)
         else if \<not> is_link \<and> \<not> ex then Some (Missing name)
         else if \<not> is_link \<and> ex then Some (NotSymlink name)
         else None)"

definition alias_divergence :: "deps_view \<Rightarrow> string \<Rightarrow> string option \<Rightarrow> string \<Rightarrow> disk_divergence list" where
  "alias_divergence v name canonical_real al =
     (if dv_lstat v al = None \<or> (dv_lstat v al = Some True \<and> \<not> dv_exists v al) then [AliasMissing al name]
      else if canonical_real = None \<or> dv_real v al = None \<or> dv_real v al \<noteq> canonical_real then [AliasElsewhere al name]
      else [])"

definition dep_divergences :: "deps_view \<Rightarrow> locked_dep \<Rightarrow> disk_divergence list" where
  "dep_divergences v d =
     (let entry = locked_slot d
      in if is_local_dep d
         then (case verify_local_dep_liveness v (ld_name d) entry of Some x \<Rightarrow> [x] | None \<Rightarrow> [])
         else case classify_dep_path v entry of
           Some x \<Rightarrow> [x]
         | None \<Rightarrow>
             (let (real, found) =
                (case dv_hash v entry of
                   Inr actual \<Rightarrow> (dv_real v entry,
                     if ld_identity d \<noteq> Some actual then [IdentityMismatch (ld_name d) actual] else [])
                 | Inl code \<Rightarrow>
                     if code = ''MILPA-INTERNAL-IO'' then (None, [StoreIoError (ld_name d)])
                     else (dv_real v entry, [CannotHash (ld_name d) code]))
              in found @ concat (map (alias_divergence v (ld_name d) real) (sort (ld_aliases d)))))"

definition expected_names :: "lockfile \<Rightarrow> string set" where
  "expected_names lf = (\<Union>d \<in> set (lf_deps lf). insert (locked_slot d) (set (ld_aliases d)))"

definition extra_entry :: "deps_view \<Rightarrow> lockfile \<Rightarrow> string \<times> bool \<Rightarrow> string list" where
  "extra_entry v lf e =
     (case e of (name, is_dir) \<Rightarrow>
        if starts_with ''.'' name then []
        else if starts_with ''@'' name \<and> is_dir
        then (case dv_sublist v name of
                None \<Rightarrow> []
              | Some children \<Rightarrow>
                  filter (\<lambda>c. c \<notin> expected_names lf) (map (\<lambda>c. name @ ''/'' @ c) children))
        else if name \<notin> expected_names lf then [name] else [])"

definition extra_divergences :: "deps_view \<Rightarrow> lockfile \<Rightarrow> disk_divergence list" where
  "extra_divergences v lf =
     (case dv_list v of
        None \<Rightarrow> []
      | Some entries \<Rightarrow> map Extra (sort (concat (map (extra_entry v lf) entries))))"

definition verify_lockfile_against_deps :: "lockfile \<Rightarrow> deps_view \<Rightarrow> disk_divergence list" where
  "verify_lockfile_against_deps lf v = concat (map (dep_divergences v) (lf_deps lf)) @ extra_divergences v lf"

subsection \<open>Dropping one pin\<close>

definition declared_git :: "provenance_record \<Rightarrow> bool" where
  "declared_git p \<longleftrightarrow> (case p of RGit u r c org subs \<Rightarrow> org = ''declared'' | _ \<Rightarrow> False)"

text \<open>\<open>None\<close> is the panic of the caller that names no dependency of the file.\<close>

definition strip_dep_pin :: "lockfile \<Rightarrow> string \<Rightarrow> lockfile option" where
  "strip_dep_pin lf name =
     (case List.find (\<lambda>d. ld_name d = name) (lf_deps lf) of
        None \<Rightarrow> None
      | Some d \<Rightarrow>
          Some (lf\<lparr>lf_deps := filter (\<lambda>d. ld_name d \<noteq> name) (lf_deps lf) @
            [d\<lparr>ld_identity := None, ld_provenances := filter declared_git (ld_provenances d)\<rparr>]\<rparr>))"

text \<open>The upgrade verbs of the command line: one pin per name, looked up by name or alias; no name drops all pins.\<close>

definition canonical_name_for :: "string \<Rightarrow> lockfile \<Rightarrow> string" where
  "canonical_name_for name lf =
     (case List.find (\<lambda>d. ld_name d = name \<or> name \<in> set (ld_aliases d)) (lf_deps lf) of
        Some d \<Rightarrow> ld_name d | None \<Rightarrow> name)"

fun strip_pins :: "string list \<Rightarrow> lockfile \<Rightarrow> (string + lockfile) option" where
  "strip_pins [] lf = Some (Inr lf)"
| "strip_pins (name # names) lf =
     (let canonical = canonical_name_for name lf
      in if \<not> list_ex (\<lambda>d. ld_name d = canonical) (lf_deps lf) then Some (Inl ''LOCK-DEP-NOT-FOUND'')
         else case strip_dep_pin lf canonical of None \<Rightarrow> None | Some lf' \<Rightarrow> strip_pins names lf')"

definition strip_pins_for_upgrade :: "lockfile option \<Rightarrow> string list \<Rightarrow> (string + lockfile option) option" where
  "strip_pins_for_upgrade prior names =
     (if names = [] then Some (Inr None)
      else case prior of
        None \<Rightarrow> Some (Inl ''LOCK-FILE-NOT-FOUND'')
      | Some lf \<Rightarrow> map_option (map_sum (\<lambda>e. e) Some) (strip_pins names lf))"

subsection \<open>Facts\<close>

lemma strip_pins_returns: "strip_pins names lf \<noteq> None"
proof (induction names arbitrary: lf)
  case (Cons name names)
  have "strip_dep_pin lf n \<noteq> None" if "list_ex (\<lambda>d. ld_name d = n) (lf_deps lf)" for n
    using that by (auto simp: strip_dep_pin_def list_ex_iff find_None_iff split: option.splits)
  then show ?case
    using Cons by (cases "strip_dep_pin lf (canonical_name_for name lf)") (fastforce simp: Let_def)+
qed simp


definition slot_map :: "('a \<Rightarrow> string) \<Rightarrow> 'a list \<Rightarrow> string \<Rightarrow> 'a option" where
  "slot_map slot ds = map_of (rev (map (\<lambda>d. (slot d, d)) ds))"

lemma by_slot_ok [simp]: "bt_ok (by_slot slot ds)"
  by (simp add: by_slot_def bt.inv_ins_all)

lemma by_slot_get [simp]: "bt_get (by_slot slot ds) k = slot_map slot ds k"
  by (simp add: by_slot_def bt.get_ins_all slot_map_def split: option.splits)

lemma by_slot_mem: "(k, d) \<in> set (by_slot slot ds) \<longleftrightarrow> slot_map slot ds k = Some d"
  by (simp flip: bt_get_iff)

lemma by_slot_keys: "k \<in> set (bt_keys (by_slot slot ds)) \<longleftrightarrow> slot_map slot ds k \<noteq> None"
  using bt_get_None [of "by_slot slot ds" k] by (auto simp: bt_keys_def)

lemma slot_divergences_Nil:
  "slot_divergences lf g = [] \<longleftrightarrow>
   (\<forall>k. slot_map locked_slot (lf_deps lf) k = None \<longleftrightarrow> slot_map dir_slot g k = None)"
  by (simp add: slot_divergences_def Let_def filter_empty_conv Ball_def by_slot_keys del: not_None_eq) metis

lemma pair_divergences_Nil:
  "pair_divergences cmp lf g = [] \<longleftrightarrow>
   (\<forall>k l r. slot_map locked_slot (lf_deps lf) k = Some l \<longrightarrow> slot_map dir_slot g k = Some r \<longrightarrow> cmp k l r = [])"
proof -
  have "pair_divergences cmp lf g = [] \<longleftrightarrow>
      (\<forall>x \<in> set (by_slot dir_slot g). \<forall>l. slot_map locked_slot (lf_deps lf) (fst x) = Some l \<longrightarrow> cmp (fst x) l (snd x) = [])"
    by (auto simp: pair_divergences_def Let_def case_prod_beta split: option.splits)
  also have "\<dots> \<longleftrightarrow> (\<forall>k r. slot_map dir_slot g k = Some r \<longrightarrow>
      (\<forall>l. slot_map locked_slot (lf_deps lf) k = Some l \<longrightarrow> cmp k l r = []))"
    by (simp add: Ball_def split_paired_All by_slot_mem)
  finally show ?thesis by auto
qed

lemma divergences_rel:
  assumes "\<And>k l r. cmp k l r = [] \<longleftrightarrow> P l r"
  shows "slot_divergences lf g = [] \<and> pair_divergences cmp lf g = [] \<longleftrightarrow>
    (\<forall>k. rel_option P (slot_map locked_slot (lf_deps lf) k) (slot_map dir_slot g k))"
proof -
  have "rel_option P x y \<longleftrightarrow> (x = None \<longleftrightarrow> y = None) \<and> (\<forall>l r. x = Some l \<longrightarrow> y = Some r \<longrightarrow> P l r)" for x y
    by (cases x; cases y) auto
  then show ?thesis unfolding slot_divergences_Nil pair_divergences_Nil assms by metis
qed

lemma slot_map_perm:
  assumes "distinct (map slot ds)" "mset ds = mset ds'"
  shows "slot_map slot ds = slot_map slot ds'"
proof
  fix k
  have "by_slot slot ds = by_slot slot ds'"
    unfolding by_slot_def by (rule bt.ins_all_perm) (use assms in \<open>simp_all add: comp_def mset_map\<close>)
  then show "slot_map slot ds k = slot_map slot ds' k" by (metis by_slot_get)
qed

lemma slot_map_Cons:
  "slot_map slot (d # ds) k = (case slot_map slot ds k of Some x \<Rightarrow> Some x | None \<Rightarrow> if slot d = k then Some d else None)"
  by (simp add: slot_map_def map_add_def split: option.split)

lemma slot_map_map:
  assumes "\<And>d. slot' (f d) = slot d"
  shows "slot_map slot' (map f ds) k = map_option f (slot_map slot ds k)"
proof (induction ds)
  case (Cons d ds)
  then show ?case by (simp add: slot_map_Cons assms split: option.split)
qed (simp add: slot_map_def)

lemma slot_map_distinct: "distinct (map slot ds) \<Longrightarrow> slot_map slot ds k = Some d \<longleftrightarrow> d \<in> set ds \<and> slot d = k"
  by (auto simp: slot_map_def map_of_eq_Some_iff distinct_map rev_map [symmetric] comp_def)

text \<open>The lock and the dependency directory, declaratively.\<close>

definition same_records :: "provenance_record list \<Rightarrow> provenance_record list \<Rightarrow> bool" where
  "same_records ps qs \<longleftrightarrow> (\<forall>key. filter (\<lambda>p. provenance_sort_key p = key) ps = filter (\<lambda>p. provenance_sort_key p = key) qs)"

lemma same_records_sort: "same_records ps qs \<longleftrightarrow> sort_key provenance_sort_key ps = sort_key provenance_sort_key qs"
  by (simp add: same_records_def sort_key_eq_iff)

definition entry_live :: "deps_view \<Rightarrow> string \<Rightarrow> bool" where
  "entry_live v e \<longleftrightarrow> dv_lstat v e = Some False \<or> dv_lstat v e = Some True \<and> dv_exists v e"

definition dep_verified :: "deps_view \<Rightarrow> locked_dep \<Rightarrow> bool" where
  "dep_verified v d \<longleftrightarrow>
     (if is_local_dep d then dv_lstat v (locked_slot d) = Some True \<and> dv_exists v (locked_slot d)
      else entry_live v (locked_slot d) \<and>
        (\<exists>h. dv_hash v (locked_slot d) = Inr h \<and> ld_identity d = Some h) \<and>
        (\<forall>a \<in> set (ld_aliases d). entry_live v a \<and> dv_real v a \<noteq> None \<and> dv_real v a = dv_real v (locked_slot d)))"

definition entry_expected :: "deps_view \<Rightarrow> lockfile \<Rightarrow> string \<times> bool \<Rightarrow> bool" where
  "entry_expected v lf e \<longleftrightarrow>
     (case e of (name, is_dir) \<Rightarrow>
        starts_with ''.'' name \<or>
        (if starts_with ''@'' name \<and> is_dir
         then \<forall>cs. dv_sublist v name = Some cs \<longrightarrow> (\<forall>c \<in> set cs. name @ ''/'' @ c \<in> expected_names lf)
         else name \<in> expected_names lf))"

definition only_expected :: "deps_view \<Rightarrow> lockfile \<Rightarrow> bool" where
  "only_expected v lf \<longleftrightarrow> (\<forall>entries. dv_list v = Some entries \<longrightarrow> list_all (entry_expected v lf) entries)"

lemma alias_divergence_Nil:
  "alias_divergence v n real a = [] \<longleftrightarrow> entry_live v a \<and> dv_real v a \<noteq> None \<and> dv_real v a = real"
  by (cases "dv_lstat v a") (auto simp: alias_divergence_def entry_live_def)

lemma classify_None: "classify_dep_path v e = None \<longleftrightarrow> entry_live v e"
  by (auto simp: classify_dep_path_def entry_live_def split: option.splits)

lemma liveness_None: "verify_local_dep_liveness v n e = None \<longleftrightarrow> dv_lstat v e = Some True \<and> dv_exists v e"
  by (auto simp: verify_local_dep_liveness_def Let_def)

lemma dep_divergences_Nil: "dep_divergences v d = [] \<longleftrightarrow> dep_verified v d"
proof (cases "is_local_dep d")
  case True
  then show ?thesis
    using liveness_None [of v "ld_name d" "locked_slot d"]
    by (cases "verify_local_dep_liveness v (ld_name d) (locked_slot d)")
      (auto simp: dep_divergences_def dep_verified_def Let_def)
next
  case False
  show ?thesis
  proof (cases "classify_dep_path v (locked_slot d)")
    case None
    with False classify_None [of v "locked_slot d"] show ?thesis
      by (cases "dv_hash v (locked_slot d)")
        (auto simp: dep_divergences_def dep_verified_def Let_def alias_divergence_Nil)
  next
    case (Some x)
    with False classify_None [of v "locked_slot d"] show ?thesis
      by (simp add: dep_divergences_def dep_verified_def Let_def)
  qed
qed

lemma extra_entry_Nil: "extra_entry v lf e = [] \<longleftrightarrow> entry_expected v lf e"
  by (cases e) (auto simp: extra_entry_def entry_expected_def filter_empty_conv split: option.splits)

lemma extra_divergences_Nil: "extra_divergences v lf = [] \<longleftrightarrow> only_expected v lf"
  by (auto simp: extra_divergences_def only_expected_def length_zero_sort extra_entry_Nil list_all_iff split: option.splits)

lemma drift_free_iff:
  "check_locked_drift (Some lf) g t = Inr () \<longleftrightarrow> lf_exclude_newer lf = t \<and>
     (\<forall>k. rel_option (\<lambda>l r. ld_identity l = Some (rd_identity r) \<and> same_records (ld_provenances l) (rd_provenances r))
       (slot_map locked_slot (lf_deps lf) k) (slot_map dir_slot g k))"
proof -
  let ?c = "\<lambda>k l r. if ld_identity l \<noteq> Some (rd_identity r) then [IdentityChanged k]
    else if sort_key provenance_sort_key (ld_provenances l) \<noteq> sort_key provenance_sort_key (rd_provenances r)
    then [ProvenanceChanged k] else []"
  have "slot_divergences lf g = [] \<and> pair_divergences ?c lf g = [] \<longleftrightarrow>
      (\<forall>k. rel_option (\<lambda>l r. ld_identity l = Some (rd_identity r) \<and> same_records (ld_provenances l) (rd_provenances r))
       (slot_map locked_slot (lf_deps lf) k) (slot_map dir_slot g k))"
    by (rule divergences_rel) (simp add: sort_key_eq_iff same_records_def)
  then show ?thesis by (auto simp: check_locked_drift_def drift_divergences_def)
qed

lemma verify_iff:
  "verify_against_graph lf g = Inr () \<longleftrightarrow>
     (\<forall>k. rel_option (\<lambda>l r. ld_identity l = Some (rd_identity r)) (slot_map locked_slot (lf_deps lf) k) (slot_map dir_slot g k))"
proof -
  have "slot_divergences lf g = [] \<and>
      pair_divergences (\<lambda>k l r. if ld_identity l \<noteq> Some (rd_identity r) then [IdentityChanged k] else []) lf g = [] \<longleftrightarrow>
      (\<forall>k. rel_option (\<lambda>l r. ld_identity l = Some (rd_identity r)) (slot_map locked_slot (lf_deps lf) k) (slot_map dir_slot g k))"
    by (rule divergences_rel) simp
  then show ?thesis by (simp add: verify_against_graph_def verify_divergences_def)
qed

lemma slot_sel [simp]:
  "locked_slot (locked_from_resolved d) = dir_slot d" "locked_slot (canon_dep l) = locked_slot l"
  by (simp_all add: locked_slot_def locked_from_resolved_def dir_slot_def canon_dep_def)

lemma rel_map_self: "rel_option P (map_option f x) x \<longleftrightarrow> (\<forall>d. x = Some d \<longrightarrow> P (f d) d)"
  by (cases x) auto

lemma from_graph_slots:
  assumes "distinct (map dir_slot g)" "from_graph g s t = Some lf"
  shows "slot_map locked_slot (lf_deps lf) k = map_option locked_from_resolved (slot_map dir_slot g k)"
proof -
  have "slot_map locked_slot (lf_deps lf) = slot_map locked_slot (map locked_from_resolved g)"
    by (rule slot_map_perm [symmetric])
      (use assms in \<open>auto simp: from_graph_def comp_def split: if_splits\<close>)
  then show ?thesis by (simp add: slot_map_map)
qed

subsection \<open>Properties\<close>

text \<open>
  The checks of a lockfile against a graph, as relations between the two slot maps (the last dependency
  of a directory slot counts).  \<^verbatim>\<open>verify\<close> accepts exactly when the same slots are present and every
  identity is the recorded one.  \<^verbatim>\<open>--locked\<close> accepts exactly when in addition the provenance records agree,
  as sequences per sort key, and the time bound is the recorded one; versions, requirements and sources
  play no part.  Without a lockfile it refuses.
\<close>

theorem lock_checks:
  "(verify_against_graph lf g = Inr () \<longleftrightarrow>
     (\<forall>k. rel_option (\<lambda>l r. ld_identity l = Some (rd_identity r))
       (slot_map locked_slot (lf_deps lf) k) (slot_map dir_slot g k))) \<and>
   (check_locked_drift (Some lf) g t = Inr () \<longleftrightarrow> lf_exclude_newer lf = t \<and>
     (\<forall>k. rel_option (\<lambda>l r. ld_identity l = Some (rd_identity r) \<and> same_records (ld_provenances l) (rd_provenances r))
       (slot_map locked_slot (lf_deps lf) k) (slot_map dir_slot g k))) \<and>
   check_locked_drift None g t = Inl ''RES-LOCKED-DRIFT''"
  by (simp add: verify_iff drift_free_iff) (simp add: check_locked_drift_def)

text \<open>
  C18. A committed lock reproduces.  Let a graph with one dependency per directory slot be locked, written,
  and read back.  Then \<^verbatim>\<open>--locked\<close> with the same graph and time bound accepts the file exactly when every
  dependency of the graph has a content identity.  A project that depends on itself is resolved with an
  empty identity for that dependency, which is written as absent: such a project never passes.
\<close>

theorem locked_reproduces:
  assumes "distinct (map dir_slot g)" "from_graph g s t = Some lf" "wf_lockfile lower lf"
    and "kdl_brace_depth (lockfile_text lf) \<le> KDL_MAX_NESTING_DEPTH"
    and "kdl_block_comment_depth (lockfile_text lf) \<le> KDL_MAX_NESTING_DEPTH"
    and "kdl (print_document HEADER (head_nodes lf) (map dep_node (lf_deps lf))) = Some (lockfile_nodes lf)"
  shows "\<exists>text prior. format_lockfile lf = Some text \<and> parse_lockfile lower kdl text = Inr prior \<and>
    (check_locked_drift (Some prior) g t = Inr () \<longleftrightarrow> list_all (\<lambda>d. rd_identity d \<noteq> []) g)"
proof -
  obtain w where w: "format_lockfile lf = Some w" "parse_lockfile lower kdl w = Inr (canon_lockfile lf)"
    using written_and_read [of lower lf kdl] assms(3-6) by blast
  have m: "slot_map locked_slot (lf_deps (canon_lockfile lf)) k =
      map_option (canon_dep \<circ> locked_from_resolved) (slot_map dir_slot g k)" for k
    using from_graph_slots [OF assms(1,2), of k]
    by (simp add: canon_lockfile_def slot_map_map option.map_comp)
  have t: "lf_exclude_newer (canon_lockfile lf) = t"
    using assms(2) by (auto simp: from_graph_def canon_lockfile_def split: if_splits)
  have r: "ld_identity (canon_dep (locked_from_resolved d)) = Some (rd_identity d) \<and>
      same_records (ld_provenances (canon_dep (locked_from_resolved d))) (rd_provenances d) \<longleftrightarrow> rd_identity d \<noteq> []" for d
    by (simp add: canon_dep_def locked_from_resolved_def opt_def same_records_sort)
  have "check_locked_drift (Some (canon_lockfile lf)) g t = Inr () \<longleftrightarrow>
      (\<forall>k d. slot_map dir_slot g k = Some d \<longrightarrow> rd_identity d \<noteq> [])"
    unfolding drift_free_iff m t by (auto simp: rel_map_self r)
  also have "\<dots> \<longleftrightarrow> list_all (\<lambda>d. rd_identity d \<noteq> []) g"
    by (auto simp: slot_map_distinct [OF assms(1)] list_all_iff)
  finally show ?thesis using w by blast
qed

text \<open>
  \<^verbatim>\<open>milpa verify\<close> reports nothing exactly when the dependency directory is what the lockfile says:
  every local dependency is a live symbolic link, every other dependency is present and hashes to its
  identity with every alias resolving to the same place, and no visible entry is unexpected.
\<close>

theorem deps_directory_verified:
  "verify_lockfile_against_deps lf v = [] \<longleftrightarrow> list_all (dep_verified v) (lf_deps lf) \<and> only_expected v lf"
  by (auto simp: verify_lockfile_against_deps_def dep_divergences_Nil extra_divergences_Nil list_all_iff)

definition demo_resolved :: "string \<Rightarrow> resolved_dep" where
  "demo_resolved ident =
     \<lparr>rd_name = ''a'', rd_namespace = None, rd_identity = ident, rd_version = release 1 0 0, rd_src_dir = [],
      rd_requires = [], rd_provenances = [RLocal ''p'' ''observed''], rd_dep_decl = None, rd_cond_requires = [],
      rd_aliases = [], rd_active_flags = [], rd_attestation = None, rd_declared_version_source = None,
      rd_source_id = None\<rparr>"

definition demo_lock :: "string \<Rightarrow> lockfile" where
  "demo_lock ident = \<lparr>lf_version = 1, lf_strategy = ''maxver'', lf_exclude_newer = None,
     lf_deps = [locked_from_resolved (demo_resolved ident)]\<rparr>"

theorem locked_reproduces_witness:
  "\<exists>w prior. format_lockfile (demo_lock []) = Some w \<and>
     parse_lockfile ascii_lower (\<lambda>_. Some (lockfile_nodes (demo_lock []))) w = Inr prior \<and>
     check_locked_drift (Some prior) [demo_resolved []] None \<noteq> Inr ()"
proof -
  have fg: "from_graph [demo_resolved []] ''maxver'' None = Some (demo_lock [])"
    by (simp add: from_graph_def demo_lock_def sort_keys_defined_def demo_resolved_def LOCKFILE_SCHEMA_VERSION_def)
  have wf: "wf_lockfile ascii_lower (demo_lock [])"
    by (simp add: demo_lock_def wf_lockfile_def wf_locked_def locked_from_resolved_def demo_resolved_def opt_def
        valid_flag_name_def is_alnum_def is_alpha_def submodules_sorted_def LOCKFILE_SCHEMA_VERSION_def)
  have d: "kdl_brace_depth (lockfile_text (demo_lock [])) \<le> KDL_MAX_NESTING_DEPTH"
    "kdl_block_comment_depth (lockfile_text (demo_lock [])) \<le> KDL_MAX_NESTING_DEPTH"
    by (simp_all add: demo_lock_def locked_from_resolved_def demo_resolved_def opt_def text_eval provenance_sort_key_def
        format_version_def release_def dec_of_nat.simps digit_char_def)
  show ?thesis
    using locked_reproduces [OF _ fg wf d, of "\<lambda>_. Some (lockfile_nodes (demo_lock []))"] by (auto simp: demo_resolved_def)
qed

text \<open>
  Upgrading one dependency can lose another.  The pin is looked up and removed by bare name, while a
  lockfile may hold two packages of one name from different namespaces: after dropping the pin of
  \<^verbatim>\<open>bar\<close> from a well-formed lockfile with two slots, only one of them is left, and the pin of the other
  is gone.
\<close>

theorem strip_pin_loses_namespaced:
  "\<exists>lf lf'. wf_lockfile ascii_lower lf \<and> distinct (map locked_slot (lf_deps lf)) \<and> length (lf_deps lf) = 2 \<and>
     strip_dep_pin lf ''bar'' = Some lf' \<and> length (lf_deps lf') = 1"
proof -
  let ?d = "\<lambda>ns. (locked_dep_init ''bar'')\<lparr>ld_namespace := Some ns\<rparr>"
  let ?lf = "\<lparr>lf_version = LOCKFILE_SCHEMA_VERSION, lf_strategy = ''maxver'', lf_exclude_newer = None,
    lf_deps = [?d ''n'', ?d ''m'']\<rparr>"
  have "wf_lockfile ascii_lower ?lf"
    by (simp add: wf_lockfile_def wf_locked_def locked_dep_init_def valid_flag_name_def is_alnum_def is_alpha_def)
  moreover have "distinct (map locked_slot (lf_deps ?lf))"
    by (simp add: locked_slot_def dep_dir_name_def)
  moreover obtain lf' where "strip_dep_pin ?lf ''bar'' = Some lf' \<and> length (lf_deps lf') = 1"
    by (simp add: strip_dep_pin_def locked_dep_init_def)
  moreover have "length (lf_deps ?lf) = 2" by simp
  ultimately show ?thesis by blast
qed

end
