(* ===== verification/ManifestTypes.thy ===== *)
theory ManifestTypes
  imports Binding Solver Iso8601 Kdl Graph Constraint
begin

text \<open>
  The data of a \<^verbatim>\<open>milpa.kdl\<close> manifest (\<^verbatim>\<open>milpa-manifest/src/lib.rs\<close>): the five dependency forms,
  override targets, flag declarations, the package manifest and the workspace root, with the
  projection to the fields that the binding resolver reads, and the closure of a set of active flags
  under the \<^verbatim>\<open>enables\<close> edges of one package, as the worklist loop of the code.  The names of the code's
  enum variants carry a \<open>D\<close> (dependency) or \<open>T\<close> (override target) here.
\<close>

subsection \<open>Dependencies\<close>

record url_dep =
  ud_name :: string
  ud_git :: string
  ud_git_ref :: string
  ud_mirrors :: "string list"
  ud_predicates :: "predicate list"
  ud_flag_requests :: "flag_request list"
  ud_optional :: bool
  ud_version :: "version option"
  ud_subpath :: "string option"

record named_dep =
  nd_name :: string
  nd_constraint :: "string option"
  nd_parsed_constraint :: "version_set option"
  nd_flag_requests :: "flag_request list"
  nd_optional :: bool
  nd_predicates :: "predicate list"
  nd_namespace :: "string option"

text \<open>Equality of named dependencies is on three fields only.\<close>

definition named_dep_eq :: "named_dep \<Rightarrow> named_dep \<Rightarrow> bool" where
  "named_dep_eq a b \<longleftrightarrow>
     nd_name a = nd_name b \<and> nd_constraint a = nd_constraint b \<and> nd_namespace a = nd_namespace b"

record local_dep =
  lcd_name :: string
  lcd_path :: string
  lcd_predicates :: "predicate list"
  lcd_version :: "version option"

record tarball_dep =
  td_name :: string
  td_url :: string
  td_sha256 :: "string option"
  td_strip_components :: u32
  td_predicates :: "predicate list"
  td_version :: "version option"
  td_subpath :: "string option"

record member_dep =
  md_name :: string
  md_predicates :: "predicate list"

datatype mdep =
    DUrl url_dep
  | DNamed named_dep
  | DLocal local_dep
  | DTarball tarball_dep
  | DMember member_dep

fun dep_nm :: "mdep \<Rightarrow> string" where
  "dep_nm (DUrl d) = ud_name d"
| "dep_nm (DNamed d) = nd_name d"
| "dep_nm (DLocal d) = lcd_name d"
| "dep_nm (DTarball d) = td_name d"
| "dep_nm (DMember d) = md_name d"

fun dep_predicates :: "mdep \<Rightarrow> predicate list" where
  "dep_predicates (DUrl d) = ud_predicates d"
| "dep_predicates (DNamed d) = nd_predicates d"
| "dep_predicates (DLocal d) = lcd_predicates d"
| "dep_predicates (DTarball d) = td_predicates d"
| "dep_predicates (DMember d) = md_predicates d"

fun dep_optional :: "mdep \<Rightarrow> bool" where
  "dep_optional (DUrl d) = ud_optional d"
| "dep_optional (DNamed d) = nd_optional d"
| "dep_optional _ = False"

text \<open>What the binding resolver reads of a dependency.\<close>

fun decl_of :: "mdep \<Rightarrow> dep_decl" where
  "decl_of (DUrl d) = UrlDep (ud_name d) (ud_git d) (ud_git_ref d) (ud_subpath d)"
| "decl_of (DNamed d) = NamedDep (nd_name d) (nd_namespace d)"
| "decl_of (DLocal d) = LocalDep (lcd_name d) (lcd_path d)"
| "decl_of (DTarball d) = TarballDep (td_name d) (td_url d) (td_subpath d)"
| "decl_of (DMember d) = MemberDep (md_name d)"

lemma dep_decl_name_decl_of [simp]: "dep_decl_name (decl_of d) = dep_nm d"
  by (cases d) auto

text \<open>
  The key under which a second declaration is a duplicate: the solver variable of a named
  dependency, the bare name of the others.
\<close>

fun dep_unique_key :: "mdep \<Rightarrow> string" where
  "dep_unique_key (DNamed d) = solver_var \<lparr>dk_name = nd_name d, dk_namespace = nd_namespace d\<rparr>"
| "dep_unique_key d = dep_nm d"

subsection \<open>Overrides\<close>

datatype override_form =
    TGit string string "string option"
  | TLocal string
  | TMember string
  | TOci string string string "string option"
  | TTarball string "string option" u32 "string option"
  | TRegistry string "string option"

record override =
  ovr_name :: string
  ovr_target :: override_form
  ovr_version :: "version option"

fun target_of :: "override_form \<Rightarrow> override_target" where
  "target_of (TGit u r s) = OGit u r s"
| "target_of (TLocal p) = OLocal p"
| "target_of (TMember m) = OMember m"
| "target_of (TOci a b d s) = OOci a b d s"
| "target_of (TTarball u h n s) = OTarball u s"
| "target_of (TRegistry n ns) = ORegistry n ns"

definition rule_of :: "override \<Rightarrow> override_rule" where
  "rule_of ov = \<lparr>ov_name = ovr_name ov, ov_target = target_of (ovr_target ov)\<rparr>"

subsection \<open>Flags\<close>

record cross_pkg_enable =
  cpe_dep :: string
  cpe_flag_requests :: "flag_request list"

record flag_decl =
  fd_name :: string
  fd_default :: bool
  fd_description :: string
  fd_defines :: "string list"
  fd_enables_same_pkg :: "string list"
  fd_enables_cross_pkg :: "cross_pkg_enable list"
  fd_conflicts :: "string list"

subsection \<open>Documents\<close>

record resolution =
  rs_strategy :: "strategy option"
  rs_exclude_newer :: "timestamp option"

record manifest =
  m_name :: "string option"
  m_kind :: string
  m_src_dir :: string
  m_deps :: "mdep list"
  m_dev_deps :: "mdep list"
  m_overrides :: "override list"
  m_flags :: "flag_decl list"
  m_self_mirrors :: "string list"
  m_cas_dir :: string
  m_spec_version :: int
  m_spec_version_explicit :: bool
  m_version :: "version option"
  m_attestation_policy :: trust_policy
  m_index_trust_policy :: trust_policy
  m_index_trust_signer :: "string option"
  m_index_trust_bundle :: "string option"
  m_index_trust_policy_explicit :: bool
  m_entry_trust_policy :: trust_policy
  m_entry_trust_policy_explicit :: bool
  m_index_history_policy :: trust_policy
  m_index_history_policy_explicit :: bool
  m_optional_auto_flags :: "string set"
  m_resolution :: "resolution option"
  m_provides :: "string list"

record workspace =
  w_members :: "string list"
  w_overrides :: "override list"
  w_flags :: "flag_decl list"
  w_name :: "string option"
  w_index_trust_policy :: trust_policy
  w_index_trust_signer :: "string option"
  w_index_trust_bundle :: "string option"
  w_index_trust_policy_explicit :: bool
  w_entry_trust_policy :: trust_policy
  w_entry_trust_policy_explicit :: bool
  w_index_history_policy :: trust_policy
  w_index_history_policy_explicit :: bool
  w_resolution :: "resolution option"

definition workspace_default :: workspace where
  "workspace_default =
     \<lparr>w_members = [], w_overrides = [], w_flags = [], w_name = None,
      w_index_trust_policy = Strict, w_index_trust_signer = None, w_index_trust_bundle = None,
      w_index_trust_policy_explicit = False, w_entry_trust_policy = Strict,
      w_entry_trust_policy_explicit = False, w_index_history_policy = Warn,
      w_index_history_policy_explicit = False, w_resolution = None\<rparr>"

datatype manifest_doc = Package manifest | Workspace workspace

record profile =
  pf_platform :: "string option"
  pf_arch :: "string option"
  pf_nim_version :: "version option"
  pf_milpa_version :: "version option"
  pf_flags :: "string list"

subsection \<open>The closure of active flags\<close>

text \<open>
  The lookup table is collected from the declarations in order, so the last declaration of a name
  wins.  The worklist is popped from its end; the order in which a hash set hands out its seed is
  arbitrary, so the loop takes the initial worklist as an argument.
\<close>

definition enables_by_name :: "flag_decl list \<Rightarrow> string \<rightharpoonup> string list" where
  "enables_by_name flags = map_of (rev (map (\<lambda>fd. (fd_name fd, fd_enables_same_pkg fd)) flags))"

definition push_target ::
  "(string \<rightharpoonup> string list) \<Rightarrow> string set \<times> string list \<Rightarrow> string \<Rightarrow> string set \<times> string list" where
  "push_target tbl st target =
     (if target \<notin> fst st \<and> target \<in> dom tbl
      then (insert target (fst st), snd st @ [target]) else st)"

lemma push_target_measure:
  "finite (dom tbl) \<Longrightarrow>
   card (dom tbl - fst (push_target tbl st t)) + length (snd (push_target tbl st t)) =
   card (dom tbl - fst st) + length (snd st)"
proof (cases "t \<notin> fst st \<and> t \<in> dom tbl")
  case True
  assume fin: "finite (dom tbl)"
  have "dom tbl - insert t (fst st) = (dom tbl - fst st) - {t}" by auto
  moreover have "t \<in> dom tbl - fst st" using True by auto
  ultimately have "Suc (card (dom tbl - insert t (fst st))) = card (dom tbl - fst st)"
    using fin by (metis card_Suc_Diff1 finite_Diff)
  with True show ?thesis by (simp add: push_target_def)
qed (auto simp: push_target_def)

lemma push_targets_measure:
  "finite (dom tbl) \<Longrightarrow>
   card (dom tbl - fst (foldl (push_target tbl) st ts)) + length (snd (foldl (push_target tbl) st ts)) =
   card (dom tbl - fst st) + length (snd st)"
  by (induction ts arbitrary: st) (simp_all add: push_target_measure)

lemma enables_dom: "dom (enables_by_name flags) = fd_name ` set flags"
  by (simp add: enables_by_name_def dom_map_of_conv_image_fst image_image)

lemma enables_finite: "finite (dom (enables_by_name flags))"
  by (simp add: enables_dom)

lemma closure_step:
  assumes "wl \<noteq> []"
  shows "(case foldl (push_target (enables_by_name flags)) (active, butlast wl) ts of
      (a', wl') \<Rightarrow> card (dom (enables_by_name flags) - a') + length wl') <
    card (dom (enables_by_name flags) - active) + length wl"
  using assms push_targets_measure [OF enables_finite, of flags "(active, butlast wl)" ts]
  by (cases wl rule: rev_cases) (auto simp: case_prod_beta)

function closure_loop :: "flag_decl list \<Rightarrow> string set \<Rightarrow> string list \<Rightarrow> string set" where
  "closure_loop flags active worklist =
     (if worklist = [] then active
      else
        let flag_name = last worklist;
            rest = butlast worklist;
            tbl = enables_by_name flags
        in case tbl flag_name of
             None \<Rightarrow> closure_loop flags active rest
           | Some targets \<Rightarrow>
               (case foldl (push_target tbl) (active, rest) targets of
                  (active', worklist') \<Rightarrow> closure_loop flags active' worklist'))"
  by auto

text \<open>
  The loop ends whatever the declarations are, cycles included: each round takes one name off the
  worklist, and a name is put on it only when it becomes active.
\<close>

termination
  by (relation "measure (\<lambda>(flags, active, wl). card (dom (enables_by_name flags) - active) + length wl)")
    (auto intro: closure_step)

declare closure_loop.simps [simp del]

definition flag_enables_closure :: "flag_decl list \<Rightarrow> string list \<Rightarrow> string set" where
  "flag_enables_closure flags seed = closure_loop flags (set seed) seed"

subsection \<open>Facts on the closure\<close>

text \<open>The edges the loop follows: from a declared flag to a declared flag it enables.\<close>

definition enables_rel :: "flag_decl list \<Rightarrow> (string \<times> string) set" where
  "enables_rel flags =
     {(a, b). \<exists>ts. enables_by_name flags a = Some ts \<and> b \<in> set ts \<and> b \<in> fd_name ` set flags}"

lemma push_targets_fst:
  "fst (foldl (push_target tbl) st ts) = fst st \<union> (set ts \<inter> dom tbl)"
  by (induction ts arbitrary: st) (auto simp: push_target_def)

lemma push_targets_keep:
  "set (snd st) \<subseteq> set (snd (foldl (push_target tbl) st ts))"
proof (induction ts arbitrary: st)
  case (Cons t ts)
  have "set (snd st) \<subseteq> set (snd (push_target tbl st t))" by (auto simp: push_target_def)
  with Cons [of "push_target tbl st t"] show ?case by auto
qed simp

lemma push_target_snd:
  "set (snd (push_target tbl st t)) \<union> fst st = set (snd st) \<union> fst (push_target tbl st t)"
  by (auto simp: push_target_def)

lemma push_targets_snd:
  "set (snd (foldl (push_target tbl) st ts)) \<union> fst st = set (snd st) \<union> fst (foldl (push_target tbl) st ts)"
proof (induction ts arbitrary: st)
  case (Cons t ts)
  have "fst (push_target tbl st t) \<subseteq> fst (foldl (push_target tbl) (push_target tbl st t) ts)"
    "fst st \<subseteq> fst (push_target tbl st t)"
    using push_targets_fst [of tbl "push_target tbl st t" ts] by (auto simp: push_target_def)
  moreover have "set (snd (foldl (push_target tbl) (push_target tbl st t) ts)) \<union> fst (push_target tbl st t) =
      set (snd (push_target tbl st t)) \<union> fst (foldl (push_target tbl) (push_target tbl st t) ts)"
    by (rule Cons)
  moreover note push_target_snd [of tbl st t] push_targets_keep [of "push_target tbl st t" tbl ts]
  ultimately show ?case unfolding foldl_Cons by blast
qed simp

text \<open>
  The loop invariant: a name that is active and no longer waiting has all its targets active.
\<close>

definition closure_inv :: "flag_decl list \<Rightarrow> string set \<Rightarrow> string set \<Rightarrow> string set \<Rightarrow> bool" where
  "closure_inv flags S active wl \<longleftrightarrow>
     S \<subseteq> active \<and> wl \<subseteq> active \<and> active \<subseteq> (enables_rel flags)\<^sup>* `` S \<and>
     enables_rel flags `` (active - wl) \<subseteq> active"

lemma closure_inv_step:
  assumes "closure_inv flags S active (insert f R)" "enables_by_name flags f = Some ts"
    "foldl (push_target (enables_by_name flags)) (active, rest) ts = (a', w')" "R = set rest"
  shows "closure_inv flags S a' (set w')"
proof -
  have a': "a' = active \<union> {b \<in> set ts. b \<in> fd_name ` set flags}"
    using push_targets_fst [of "enables_by_name flags" "(active, rest)" ts] assms(3)
    by (auto simp: enables_dom)
  have w': "set w' \<union> active = R \<union> a'" "R \<subseteq> set w'"
    using push_targets_snd [of "enables_by_name flags" "(active, rest)" ts]
      push_targets_keep [of "(active, rest)" "enables_by_name flags" ts] assms(3,4) by auto
  have edge: "(f, b) \<in> enables_rel flags \<longleftrightarrow> b \<in> set ts \<and> b \<in> fd_name ` set flags" for b
    using assms(2) by (simp add: enables_rel_def)
  have inv: "S \<subseteq> active" "f \<in> active" "R \<subseteq> active" "active \<subseteq> (enables_rel flags)\<^sup>* `` S"
    "enables_rel flags `` (active - insert f R) \<subseteq> active"
    using assms(1) by (simp_all add: closure_inv_def)
  have "a' \<subseteq> (enables_rel flags)\<^sup>* `` S"
  proof
    fix b assume "b \<in> a'"
    then consider "b \<in> active" | "(f, b) \<in> enables_rel flags" using a' edge by auto
    then show "b \<in> (enables_rel flags)\<^sup>* `` S"
    proof cases
      case 2
      obtain s where "s \<in> S" "(s, f) \<in> (enables_rel flags)\<^sup>*" using inv by auto
      with 2 show ?thesis by (meson ImageI rtrancl_into_rtrancl)
    qed (use inv in auto)
  qed
  moreover have "enables_rel flags `` (a' - set w') \<subseteq> a'"
  proof
    fix b assume "b \<in> enables_rel flags `` (a' - set w')"
    then obtain c where c: "c \<in> a'" "c \<notin> set w'" "(c, b) \<in> enables_rel flags" by auto
    then have "c \<in> active" "c \<notin> R" using w' by auto
    show "b \<in> a'"
    proof (cases "c = f")
      case False
      with \<open>c \<in> active\<close> \<open>c \<notin> R\<close> c inv have "b \<in> active" by auto
      with a' show ?thesis by simp
    qed (use c edge a' in auto)
  qed
  moreover have "S \<subseteq> a'" "set w' \<subseteq> a'" using inv a' w' by auto
  ultimately show ?thesis unfolding closure_inv_def by blast
qed

lemma closure_loop_exact:
  "closure_inv flags S active (set wl) \<Longrightarrow> closure_loop flags active wl = (enables_rel flags)\<^sup>* `` S"
proof (induction flags active wl rule: closure_loop.induct)
  case (1 flags active wl)
  show ?case
  proof (cases wl rule: rev_cases)
    case Nil
    with 1(3) have inv: "S \<subseteq> active" "active \<subseteq> (enables_rel flags)\<^sup>* `` S"
        "enables_rel flags `` active \<subseteq> active"
      by (auto simp: closure_inv_def)
    then have "(enables_rel flags)\<^sup>* `` S \<subseteq> active"
      by (metis Image_closed_trancl Image_mono order_refl)
    with Nil inv show ?thesis by (auto simp: closure_loop.simps)
  next
    case (snoc rest f)
    then have ne: "wl \<noteq> []" by simp
    show ?thesis
    proof (cases "enables_by_name flags f")
      case None
      have "closure_inv flags S active (set rest)"
      proof -
        have "(f, b) \<notin> enables_rel flags" for b using None by (simp add: enables_rel_def)
        then have "enables_rel flags `` (active - set rest) \<subseteq> enables_rel flags `` (active - set wl)"
          using snoc by auto
        moreover have "set wl = insert f (set rest)" using snoc by simp
        ultimately show ?thesis using 1(3) unfolding closure_inv_def by blast
      qed
      with 1(1) [OF ne refl refl refl] None snoc show ?thesis
        by (subst closure_loop.simps) simp
    next
      case (Some ts)
      obtain a' w' where st: "foldl (push_target (enables_by_name flags)) (active, rest) ts = (a', w')"
        by fastforce
      have "closure_inv flags S a' (set w')"
        by (rule closure_inv_step [OF _ Some st refl]) (use 1(3) snoc in auto)
      with 1(2) [OF ne refl refl refl, of ts a' w'] Some snoc st show ?thesis
        by (subst closure_loop.simps) simp
    qed
  qed
qed

lemma closure_reachable: "flag_enables_closure flags seed = (enables_rel flags)\<^sup>* `` set seed"
  unfolding flag_enables_closure_def by (rule closure_loop_exact) (auto simp: closure_inv_def)

lemma enables_by_name_distinct:
  "distinct (map fd_name flags) \<Longrightarrow>
   enables_by_name flags a = Some ts \<longleftrightarrow> (\<exists>fd \<in> set flags. fd_name fd = a \<and> fd_enables_same_pkg fd = ts)"
  unfolding enables_by_name_def by (subst map_of_eq_Some_iff) (auto simp: comp_def simp flip: rev_map)

lemma enables_rel_perm:
  assumes "distinct (map fd_name flags)" "distinct (map fd_name flags')" "set flags = set flags'"
  shows "enables_rel flags = enables_rel flags'"
  unfolding enables_rel_def enables_by_name_distinct [OF assms(1)] enables_by_name_distinct [OF assms(2)]
  using assms(3) by simp

text \<open>
  C24. The closure of active flags returns for every table, cyclic ones included, and is the set of
  names reachable from the seed along the \<open>enables\<close> edges between declared flags.  So it contains
  the seed, it is idempotent and monotone, it does not depend on the order of the seed, and for
  tables with one declaration per name it does not depend on the order of the declarations.
\<close>

theorem enables_closure:
  "flag_enables_closure flags seed = (enables_rel flags)\<^sup>* `` set seed \<and>
   set seed \<subseteq> flag_enables_closure flags seed \<and>
   (set again = flag_enables_closure flags seed \<longrightarrow>
     flag_enables_closure flags again = flag_enables_closure flags seed) \<and>
   (set seed \<subseteq> set seed' \<longrightarrow> flag_enables_closure flags seed \<subseteq> flag_enables_closure flags seed') \<and>
   (distinct (map fd_name flags) \<and> distinct (map fd_name flags') \<and> set flags = set flags' \<longrightarrow>
     flag_enables_closure flags' seed = flag_enables_closure flags seed)"
proof (intro conjI impI)
  assume "set again = flag_enables_closure flags seed"
  then show "flag_enables_closure flags again = flag_enables_closure flags seed"
    by (simp add: closure_reachable flip: relcomp_Image)
next
  assume "distinct (map fd_name flags) \<and> distinct (map fd_name flags') \<and> set flags = set flags'"
  then show "flag_enables_closure flags' seed = flag_enables_closure flags seed"
    using enables_rel_perm [of flags flags'] by (simp add: closure_reachable)
qed (auto simp: closure_reachable)

definition ring :: "flag_decl list" where
  "ring = map (\<lambda>(a, b). \<lparr>fd_name = a, fd_default = False, fd_description = [], fd_defines = [],
     fd_enables_same_pkg = b, fd_enables_cross_pkg = [], fd_conflicts = []\<rparr>)
     [(''a'', [''b'']), (''b'', [''c'']), (''c'', [''a'', ''gone''])]"

theorem enables_closure_witness:
  "flag_enables_closure (rev ring) [''b''] = {''a'', ''b'', ''c''}"
proof -
  have "flag_enables_closure ring [''b''] = {''a'', ''b'', ''c''}"
    by (simp add: flag_enables_closure_def closure_loop.simps ring_def enables_by_name_def
        push_target_def insert_commute)
  moreover have "distinct (map fd_name ring)" by (simp add: ring_def)
  ultimately show ?thesis
    using enables_closure [of ring "[''b'']" "[]" "[]" "rev ring"] by (simp flip: rev_map)
qed

end
