(* ===== verification/ManifestParse.thy ===== *)
theory ManifestParse
  imports ManifestTypes
begin

text \<open>
  The manifest grammar of \<^verbatim>\<open>milpa-manifest/src/lib.rs\<close>, over the nodes that the \<^verbatim>\<open>kdl\<close> crate returns:
  the accessors of the file, the shared validators, dependency nodes with their predicates and
  \<^verbatim>\<open>when\<close> blocks, flag declarations and override rules.  Every check stands where the code has it,
  so the first error of a node is the one the code returns; an error is its catalog slug.
\<close>

subsection \<open>Accessors\<close>

text \<open>
  Properties with the last entry of a key only, in source order; a lookup takes the last entry.
\<close>

fun last_wins :: "(string \<times> kdl_entry) list \<Rightarrow> (string \<times> kdl_entry) list" where
  "last_wins [] = []"
| "last_wins ((k, e) # r) = (if k \<in> fst ` set r then last_wins r else (k, e) # last_wins r)"

definition props :: "kdl_node \<Rightarrow> (string \<times> kdl_entry) list" where
  "props node =
     last_wins (concat (map (\<lambda>e. case ke_name e of None \<Rightarrow> [] | Some n \<Rightarrow> [(n, e)]) (kn_entries node)))"

definition prop_names :: "kdl_node \<Rightarrow> string list" where
  "prop_names node = map fst (props node)"

definition node_prop :: "kdl_node \<Rightarrow> string \<Rightarrow> kdl_entry option" where
  "node_prop node key = map_option snd (List.find (\<lambda>(k, e). k = key) (rev (props node)))"

definition has_prop :: "kdl_node \<Rightarrow> string \<Rightarrow> bool" where
  "has_prop node key \<longleftrightarrow> node_prop node key \<noteq> None"

text \<open>The value of a node with exactly one positional argument, when it is a string.\<close>

definition one_string_arg :: "kdl_node \<Rightarrow> string option" where
  "one_string_arg node =
     (let a = pos_args node in
      if length a \<noteq> 1 then None else as_string (ke_value (hd a)))"

definition require_one_string :: "string \<Rightarrow> kdl_node \<Rightarrow> string + string" where
  "require_one_string slug node =
     (case one_string_arg node of None \<Rightarrow> Inl slug | Some s \<Rightarrow> Inr s)"

definition PREDICATE_PROPS :: "string list" where
  "PREDICATE_PROPS = [''platform'', ''arch'', ''nim'', ''milpa'', ''flag'']"

definition URL_DEP_PROPS :: "string list" where
  "URL_DEP_PROPS =
     [''git'', ''ref'', ''platform'', ''arch'', ''nim'', ''milpa'', ''flag'', ''optional'', ''version'', ''subpath'']"

definition FLAG_DECL_PROPS :: "string list" where
  "FLAG_DECL_PROPS = [''default'', ''description'']"

definition VALID_KINDS :: "string list" where
  "VALID_KINDS = [''library'', ''application'']"

definition VALID_GIT_SCHEMES :: "string list" where
  "VALID_GIT_SCHEMES = [''https'', ''http'', ''ssh'', ''git'']"

definition MANIFEST_SPEC_VERSION :: int where
  "MANIFEST_SPEC_VERSION = 1"

subsection \<open>Shared validators\<close>

definition url_arg :: "kdl_entry \<Rightarrow> string + string" where
  "url_arg entry =
     (case as_string (ke_value entry) of
        Some s \<Rightarrow> if ke_ty entry = Some ''url'' then Inr s else Inl ''MAN-URL-ARG-TYPE''
      | None \<Rightarrow> Inl ''MAN-URL-ARG-TYPE'')"

definition validate_git_url :: "string \<Rightarrow> string + unit" where
  "validate_git_url url =
     (case split_once_str ''://'' url of
        None \<Rightarrow> Inl ''MAN-GIT-URL-NO-SCHEME''
      | Some (s, r) \<Rightarrow>
          if s \<in> set VALID_GIT_SCHEMES then Inr () else Inl ''MAN-GIT-URL-BAD-SCHEME'')"

definition parse_dep_version_prop :: "kdl_node \<Rightarrow> string + version option" where
  "parse_dep_version_prop node =
     (case node_prop node ''version'' of
        None \<Rightarrow> Inr None
      | Some entry \<Rightarrow>
          (case as_string (ke_value entry) of
             None \<Rightarrow> Inl ''MAN-DEP-VERSION-INVALID''
           | Some raw \<Rightarrow>
               (case parse_version raw of
                  Some v \<Rightarrow> Inr (Some v)
                | None \<Rightarrow> Inl ''MAN-DEP-VERSION-INVALID'')))"

definition parse_subpath_prop_coded :: "kdl_node \<Rightarrow> string \<Rightarrow> string + string option" where
  "parse_subpath_prop_coded node bad_type_code =
     (case node_prop node ''subpath'' of
        None \<Rightarrow> Inr None
      | Some e \<Rightarrow>
          (case as_string (ke_value e) of Some s \<Rightarrow> Inr (Some s) | None \<Rightarrow> Inl bad_type_code))"

definition parse_subpath_prop :: "kdl_node \<Rightarrow> string + string option" where
  "parse_subpath_prop node = parse_subpath_prop_coded node ''MAN-DEP-UNKNOWN-PROPS''"

text \<open>A boolean property with default false, and the hash and strip count of a tarball.\<close>

definition bool_prop :: "kdl_node \<Rightarrow> string \<Rightarrow> string \<Rightarrow> string + bool" where
  "bool_prop node key slug =
     (case node_prop node key of
        None \<Rightarrow> Inr False
      | Some e \<Rightarrow> (case ke_value e of KBool b \<Rightarrow> Inr b | _ \<Rightarrow> Inl slug))"

definition sha256_prop :: "kdl_node \<Rightarrow> string + string option" where
  "sha256_prop node =
     (case node_prop node ''sha256'' of
        None \<Rightarrow> Inr None
      | Some e \<Rightarrow>
          (case as_string (ke_value e) of
             Some s \<Rightarrow> Inr (Some s) | None \<Rightarrow> Inl ''MAN-DEP-TARBALL-SHA''))"

definition strip_components_prop :: "kdl_node \<Rightarrow> string + u32" where
  "strip_components_prop node =
     (case node_prop node ''strip_components'' of
        None \<Rightarrow> Inr 0
      | Some e \<Rightarrow>
          (case ke_value e of
             KInt i \<Rightarrow>
               if 0 \<le> i then (if i < 2 ^ 32 then Inr (word_of_int i) else Inl ''MAN-DEP-TARBALL-STRIP'')
               else Inl ''MAN-DEP-TARBALL-STRIP''
           | _ \<Rightarrow> Inl ''MAN-DEP-TARBALL-STRIP''))"

subsection \<open>Predicates and flag requests\<close>

text \<open>The negation an annotation stands for.\<close>

definition annotation_negated :: "kdl_entry \<Rightarrow> string + bool" where
  "annotation_negated entry =
     (case ke_ty entry of
        None \<Rightarrow> Inr False
      | Some t \<Rightarrow>
          if t = ''not'' then Inr True else Inl ''MAN-PREDICATE-UNSUPPORTED-ANNOTATION'')"

definition predicate_from_entry :: "string \<Rightarrow> kdl_entry \<Rightarrow> string + predicate" where
  "predicate_from_entry key entry =
     (case as_string (ke_value entry) of
        None \<Rightarrow> Inl ''MAN-PREDICATE-VALUE-TYPE''
      | Some v \<Rightarrow>
          rbind (annotation_negated entry) (\<lambda>negated.
          Inr \<lparr>pr_name = key, pr_values = [v], pr_negated = negated\<rparr>))"

definition parse_predicates_from_props :: "kdl_node \<Rightarrow> string + predicate list" where
  "parse_predicates_from_props node =
     rmap (\<lambda>(key, entry).
       if key \<notin> set PREDICATE_PROPS then Inl ''MAN-PREDICATE-UNKNOWN''
       else predicate_from_entry key entry) (props node)"

definition parse_predicates_subset :: "kdl_node \<Rightarrow> string + predicate list" where
  "parse_predicates_subset node =
     rmap (\<lambda>(key, entry). predicate_from_entry key entry)
       (filter (\<lambda>(key, entry). key \<in> set PREDICATE_PROPS) (props node))"

definition predicate_child_arg :: "kdl_entry \<Rightarrow> string + string \<times> bool" where
  "predicate_child_arg entry =
     (case as_string (ke_value entry) of
        None \<Rightarrow> Inl ''MAN-PREDICATE-CHILD-ARG-TYPE''
      | Some v \<Rightarrow> rbind (annotation_negated entry) (\<lambda>neg. Inr (v, neg)))"

definition parse_predicate_child_node :: "kdl_node \<Rightarrow> string + predicate" where
  "parse_predicate_child_node child =
     (let key = kn_name child; a = pos_args child in
      if key \<notin> set PREDICATE_PROPS then Inl ''MAN-PREDICATE-UNKNOWN''
      else if a = [] then Inl ''MAN-PREDICATE-CHILD-NO-ARGS''
      else rbind (rmap predicate_child_arg a) (\<lambda>vs.
        if list_ex (\<lambda>(v, n). n \<noteq> snd (hd vs)) vs then Inl ''MAN-PREDICATE-MIXED-NEGATION''
        else Inr \<lparr>pr_name = key, pr_values = map fst vs, pr_negated = snd (hd vs)\<rparr>))"

definition merge_predicates :: "predicate list \<Rightarrow> predicate list \<Rightarrow> string + predicate list" where
  "merge_predicates inline child =
     (if pr_name ` set inline \<inter> pr_name ` set child \<noteq> {} then Inl ''MAN-PREDICATE-FORM-CONFLICT''
      else Inr (inline @ child))"

definition parse_flag_request :: "kdl_node \<Rightarrow> string + flag_request" where
  "parse_flag_request node =
     (let a = pos_args node in
      case (case a of [] \<Rightarrow> None | e # r \<Rightarrow> as_string (ke_value e)) of
        None \<Rightarrow> Inl ''MAN-DEP-FLAG-NAME-MISSING''
      | Some nm \<Rightarrow>
          if length a > 2 then Inl ''MAN-DEP-FLAG-TOO-MANY-ARGS''
          else if length a = 2 then
            (case ke_value (a ! 1) of
               KBool b \<Rightarrow> Inr \<lparr>fr_name = nm, fr_enabled = b\<rparr>
             | _ \<Rightarrow> Inl ''MAN-DEP-FLAG-BOOL'')
          else Inr \<lparr>fr_name = nm, fr_enabled = True\<rparr>)"

subsection \<open>Dependency forms\<close>

type_synonym dep_children = "string list \<times> predicate list \<times> flag_request list"

definition url_dep_child :: "dep_children \<Rightarrow> kdl_node \<Rightarrow> string + dep_children" where
  "url_dep_child acc child =
     (case acc of (mirrors, preds, reqs) \<Rightarrow>
      if kn_name child = ''mirror'' then
        (let a = pos_args child in
         if length a \<noteq> 1 then Inl ''MAN-DEP-MIRROR-ARITY''
         else rbind (url_arg (hd a)) (\<lambda>u. Inr (mirrors @ [u], preds, reqs)))
      else if kn_name child = ''flag'' then
        rbind (parse_flag_request child) (\<lambda>r. Inr (mirrors, preds, reqs @ [r]))
      else if kn_name child \<in> set PREDICATE_PROPS then
        rbind (parse_predicate_child_node child) (\<lambda>p. Inr (mirrors, preds @ [p], reqs))
      else Inl ''MAN-DEP-UNKNOWN-CHILD'')"

definition parse_url_dep_children :: "kdl_node \<Rightarrow> string + dep_children" where
  "parse_url_dep_children node = rfold url_dep_child ([], [], []) (kn_children node)"

definition parse_url_dep_inner :: "kdl_node \<Rightarrow> string \<Rightarrow> string + url_dep" where
  "parse_url_dep_inner node dep_name =
     (if list_ex (\<lambda>p. p \<notin> set URL_DEP_PROPS) (prop_names node) then Inl ''MAN-DEP-UNKNOWN-PROPS''
      else case node_prop node ''ref'' of
        None \<Rightarrow> Inl ''MAN-DEP-REF-MISSING''
      | Some ref_entry \<Rightarrow>
          rbind (url_arg (the (node_prop node ''git''))) (\<lambda>git.
          rbind (validate_git_url git) (\<lambda>_.
          case as_string (ke_value ref_entry) of
            None \<Rightarrow> Inl ''MAN-DEP-REF-MISSING''
          | Some git_ref \<Rightarrow>
              rbind (parse_url_dep_children node) (\<lambda>(mirrors, child_preds, flag_requests).
              rbind (parse_predicates_subset node) (\<lambda>inline_preds.
              rbind (merge_predicates inline_preds child_preds) (\<lambda>predicates.
              rbind (bool_prop node ''optional'' ''MAN-DEP-UNKNOWN-PROPS'') (\<lambda>optional.
              rbind (parse_dep_version_prop node) (\<lambda>version.
              rbind (parse_subpath_prop node) (\<lambda>subpath.
              Inr \<lparr>ud_name = dep_name, ud_git = git, ud_git_ref = git_ref, ud_mirrors = mirrors,
                   ud_predicates = predicates, ud_flag_requests = flag_requests,
                   ud_optional = optional, ud_version = version, ud_subpath = subpath\<rparr>)))))))))"

text \<open>
  The callers look at the properties first, so the property of the form is present here.
\<close>

definition parse_local_dep_inner :: "kdl_node \<Rightarrow> string \<Rightarrow> string + local_dep" where
  "parse_local_dep_inner node dep_name =
     (if list_ex (\<lambda>p. p \<noteq> ''local'' \<and> p \<noteq> ''version'') (prop_names node) then Inl ''MAN-DEP-UNKNOWN-PROPS''
      else rbind (parse_dep_version_prop node) (\<lambda>version.
        case as_string (ke_value (the (node_prop node ''local''))) of
          None \<Rightarrow> Inl ''MAN-DEP-LOCAL-PATH''
        | Some p \<Rightarrow>
            if p = [] then Inl ''MAN-DEP-LOCAL-PATH''
            else Inr \<lparr>lcd_name = dep_name, lcd_path = p, lcd_predicates = [], lcd_version = version\<rparr>))"

definition parse_tarball_dep_inner :: "kdl_node \<Rightarrow> string \<Rightarrow> string + tarball_dep" where
  "parse_tarball_dep_inner node dep_name =
     (if list_ex (\<lambda>p. p \<notin> {''tarball'', ''sha256'', ''strip_components'', ''version'', ''subpath''})
           (prop_names node) then Inl ''MAN-DEP-UNKNOWN-PROPS''
      else rbind (url_arg (the (node_prop node ''tarball''))) (\<lambda>url.
        if url = [] then Inl ''MAN-DEP-TARBALL-URL''
        else
          rbind (sha256_prop node) (\<lambda>sha256.
          rbind (strip_components_prop node) (\<lambda>strip.
          rbind (parse_dep_version_prop node) (\<lambda>version.
          rbind (parse_subpath_prop node) (\<lambda>subpath.
          Inr \<lparr>td_name = dep_name, td_url = url, td_sha256 = sha256, td_strip_components = strip,
               td_predicates = [], td_version = version, td_subpath = subpath\<rparr>))))))"

definition parse_member_dep :: "kdl_node \<Rightarrow> string + member_dep" where
  "parse_member_dep node =
     (if props node \<noteq> [] then Inl ''MAN-DEP-MEMBER-PROPS''
      else rbind (require_one_string ''MAN-DEP-MEMBER-ARITY'' node) (\<lambda>nm.
        if \<not> valid_flag_name nm then Inl ''MAN-DEP-NAME-INVALID''
        else Inr \<lparr>md_name = nm, md_predicates = []\<rparr>))"

definition named_dep_namespace :: "kdl_node \<Rightarrow> string option \<Rightarrow> string + string option" where
  "named_dep_namespace node slash_namespace =
     rbind (case node_prop node ''namespace'' of
         None \<Rightarrow> Inr None
       | Some e \<Rightarrow>
           (case as_string (ke_value e) of
              Some ns \<Rightarrow>
                if ns \<noteq> [] then (if valid_flag_name ns then Inr (Some ns) else Inl ''MAN-DEP-NAME-INVALID'')
                else Inl ''MAN-DEP-NAMED-PROPS''
            | None \<Rightarrow> Inl ''MAN-DEP-NAMED-PROPS'')) (\<lambda>attr_namespace.
       case (attr_namespace, slash_namespace) of
         (Some a, Some s) \<Rightarrow> if a \<noteq> s then Inl ''MAN-DEP-NAME-INVALID'' else Inr (Some a)
       | (Some a, None) \<Rightarrow> Inr (Some a)
       | (None, s) \<Rightarrow> Inr s)"

definition named_dep_constraint :: "kdl_node \<Rightarrow> string + string option \<times> version_set option" where
  "named_dep_constraint node =
     (case pos_args node of
        [] \<Rightarrow> Inr (None, None)
      | [e] \<Rightarrow>
          (case as_string (ke_value e) of
             None \<Rightarrow> Inl ''MAN-DEP-NAMED-CONSTRAINT''
           | Some raw \<Rightarrow>
               (case from_constraint (Some raw) of
                  Inl err \<Rightarrow> Inl ''MAN-DEP-NAMED-CONSTRAINT''
                | Inr vs \<Rightarrow> Inr (Some raw, Some vs)))
      | _ \<Rightarrow> Inl ''MAN-DEP-NAMED-ARITY'')"

definition parse_named_dep_with_name :: "kdl_node \<Rightarrow> string \<Rightarrow> string option \<Rightarrow> string + named_dep" where
  "parse_named_dep_with_name node dep_name slash_namespace =
     rbind (named_dep_namespace node slash_namespace) (\<lambda>namespace.
     if list_ex (\<lambda>p. p \<noteq> ''optional'' \<and> p \<noteq> ''namespace'') (prop_names node) then Inl ''MAN-DEP-NAMED-PROPS''
     else
       rbind (bool_prop node ''optional'' ''MAN-DEP-NAMED-PROPS'') (\<lambda>optional.
       rbind (named_dep_constraint node) (\<lambda>(constraint, parsed).
       rbind (rmap (\<lambda>child. if kn_name child = ''flag'' then parse_flag_request child
                else Inl ''MAN-DEP-UNKNOWN-CHILD'') (kn_children node)) (\<lambda>flag_requests.
       Inr \<lparr>nd_name = dep_name, nd_constraint = constraint, nd_parsed_constraint = parsed,
            nd_flag_requests = flag_requests, nd_optional = optional, nd_predicates = [],
            nd_namespace = namespace\<rparr>))))"

text \<open>The slash shorthand: \<^verbatim>\<open>ns/name\<close>, one slash, both parts valid names.\<close>

definition split_dep_name :: "string \<Rightarrow> string + string \<times> string option" where
  "split_dep_name raw =
     (if CHR ''/'' \<in> set raw then
        (case split_on CHR ''/'' raw of
           [ns, nm] \<Rightarrow>
             if ns = [] \<or> nm = [] then Inl ''MAN-DEP-NAME-INVALID''
             else if \<not> valid_flag_name ns then Inl ''MAN-DEP-NAME-INVALID''
             else if \<not> valid_flag_name nm then Inl ''MAN-DEP-NAME-INVALID''
             else Inr (nm, Some ns)
         | _ \<Rightarrow> Inl ''MAN-DEP-NAME-INVALID'')
      else if \<not> valid_flag_name raw then Inl ''MAN-DEP-NAME-INVALID''
      else Inr (raw, None))"

definition parse_dep :: "kdl_node \<Rightarrow> string + mdep" where
  "parse_dep node =
     (if kn_name node = ''member'' then rbind (parse_member_dep node) (\<lambda>d. Inr (DMember d))
      else
        rbind (split_dep_name (kn_name node)) (\<lambda>(dep_name, slash_namespace).
        if ''git'' \<in> set (prop_names node) then
          rbind (parse_url_dep_inner node dep_name) (\<lambda>d. Inr (DUrl d))
        else if ''local'' \<in> set (prop_names node) then
          rbind (parse_local_dep_inner node dep_name) (\<lambda>d. Inr (DLocal d))
        else if ''tarball'' \<in> set (prop_names node) then
          rbind (parse_tarball_dep_inner node dep_name) (\<lambda>d. Inr (DTarball d))
        else rbind (parse_named_dep_with_name node dep_name slash_namespace) (\<lambda>d. Inr (DNamed d))))"

text \<open>The predicates of the enclosing blocks come first.  A member never gets here with any.\<close>

fun inherit_predicates :: "predicate list \<Rightarrow> mdep \<Rightarrow> mdep" where
  "inherit_predicates ps (DUrl d) = DUrl (d\<lparr>ud_predicates := ps @ ud_predicates d\<rparr>)"
| "inherit_predicates ps (DNamed d) = DNamed (d\<lparr>nd_predicates := ps @ nd_predicates d\<rparr>)"
| "inherit_predicates ps (DLocal d) = DLocal (d\<lparr>lcd_predicates := ps @ lcd_predicates d\<rparr>)"
| "inherit_predicates ps (DTarball d) = DTarball (d\<lparr>td_predicates := ps @ td_predicates d\<rparr>)"
| "inherit_predicates ps (DMember d) = DMember d"

fun expand_dep_child :: "predicate list \<Rightarrow> kdl_node \<Rightarrow> string + mdep list" where
  "expand_dep_child inherited (KNode nm es cs) =
     (if nm = ''when'' then
        rbind (parse_predicates_from_props (KNode nm es cs)) (\<lambda>block_preds.
        rbind (rmap (expand_dep_child (inherited @ block_preds)) cs) (\<lambda>dss.
        Inr (concat dss)))
      else if inherited \<noteq> [] \<and> nm = ''member'' then Inl ''MAN-MEMBER-WHEN-GATED''
      else
        rbind (parse_dep (KNode nm es cs)) (\<lambda>d.
        Inr [if inherited \<noteq> [] then inherit_predicates inherited d else d]))"

end
