(* ===== verification/ManifestDoc.thy ===== *)
theory ManifestDoc
  imports ManifestParse
begin

text \<open>
  Whole documents of the manifest grammar (\<^verbatim>\<open>milpa-manifest/src/lib.rs\<close>): flag declarations,
  override rules, the top-level nodes of a package manifest and of a workspace root, the rewriting of
  optional dependencies into flags, the checks after it, and the entry points.  The main theorem
  states what every accepted manifest satisfies: what later stages may rely on.
\<close>

subsection \<open>Flag declarations\<close>

definition string_arg :: "string \<Rightarrow> kdl_entry \<Rightarrow> string + string" where
  "string_arg slug entry =
     (case as_string (ke_value entry) of None \<Rightarrow> Inl slug | Some s \<Rightarrow> Inr s)"

definition define_arg :: "kdl_entry \<Rightarrow> string + string" where
  "define_arg entry =
     rbind (string_arg ''MAN-FLAG-DEFINES-ARG-TYPE'' entry) (\<lambda>s.
     if contains_unsafe_char s then Inl ''MAN-FLAG-DEFINES-UNSAFE'' else Inr s)"

definition parse_cross_pkg_enable :: "kdl_node \<Rightarrow> string + cross_pkg_enable" where
  "parse_cross_pkg_enable dep_node =
     rbind (rmap (\<lambda>c. if kn_name c \<noteq> ''flag'' then Inl ''MAN-FLAG-UNKNOWN-CHILD'' else parse_flag_request c)
              (kn_children dep_node)) (\<lambda>reqs.
     Inr \<lparr>cpe_dep = kn_name dep_node, cpe_flag_requests = reqs\<rparr>)"

definition flag_child :: "flag_decl \<Rightarrow> kdl_node \<Rightarrow> string + flag_decl" where
  "flag_child fd child =
     (if kn_name child = ''defines'' then
        rbind (rmap define_arg (pos_args child)) (\<lambda>ds.
        Inr (fd\<lparr>fd_defines := fd_defines fd @ ds\<rparr>))
      else if kn_name child = ''enables'' then
        rbind (rmap (string_arg ''MAN-FLAG-UNKNOWN-CHILD'') (pos_args child)) (\<lambda>es.
        rbind (rmap parse_cross_pkg_enable (kn_children child)) (\<lambda>xs.
        Inr (fd\<lparr>fd_enables_same_pkg := fd_enables_same_pkg fd @ es,
                fd_enables_cross_pkg := fd_enables_cross_pkg fd @ xs\<rparr>)))
      else if kn_name child = ''conflicts'' then
        rbind (rmap (string_arg ''MAN-FLAG-UNKNOWN-CHILD'') (pos_args child)) (\<lambda>cs.
        Inr (fd\<lparr>fd_conflicts := fd_conflicts fd @ cs\<rparr>))
      else Inl ''MAN-FLAG-UNKNOWN-CHILD'')"

definition flag_description :: "kdl_node \<Rightarrow> string + string" where
  "flag_description node =
     (case node_prop node ''description'' of
        None \<Rightarrow> Inr []
      | Some e \<Rightarrow> string_arg ''MAN-FLAG-DESCRIPTION-TYPE'' e)"

definition parse_flag_decl :: "kdl_node \<Rightarrow> string + flag_decl" where
  "parse_flag_decl node =
     (if \<not> valid_flag_name (kn_name node) then Inl ''MAN-FLAG-NAME-INVALID''
      else if pos_args node \<noteq> [] then Inl ''MAN-FLAG-POS-ARGS''
      else if list_ex (\<lambda>p. p \<notin> set FLAG_DECL_PROPS) (prop_names node) then Inl ''MAN-FLAG-UNKNOWN-PROPS''
      else
        rbind (bool_prop node ''default'' ''MAN-FLAG-DEFAULT-TYPE'') (\<lambda>dflt.
        rbind (flag_description node) (\<lambda>desc.
        rfold flag_child
          \<lparr>fd_name = kn_name node, fd_default = dflt, fd_description = desc, fd_defines = [],
           fd_enables_same_pkg = [], fd_enables_cross_pkg = [], fd_conflicts = []\<rparr>
          (kn_children node))))"

subsection \<open>Override rules\<close>

definition OVERRIDE_KNOWN_PROPS :: "string list" where
  "OVERRIDE_KNOWN_PROPS =
     [''git'', ''ref'', ''local'', ''version'', ''subpath'', ''oci'', ''digest'', ''tarball'', ''sha256'',
      ''strip_components'', ''named'', ''namespace'']"

definition split_oci_coordinate :: "string \<Rightarrow> string + string \<times> string" where
  "split_oci_coordinate token =
     (case split_once CHR ''/'' token of
        Some (a, b) \<Rightarrow>
          if a \<noteq> [] \<and> b \<noteq> [] then Inr (a, b) else Inl ''MAN-OVERRIDE-OCI-MALFORMED''
      | None \<Rightarrow> Inl ''MAN-OVERRIDE-OCI-MALFORMED'')"

text \<open>A property that must be a non-empty string.\<close>

definition nonempty_prop :: "kdl_node \<Rightarrow> string \<Rightarrow> string \<Rightarrow> string + string" where
  "nonempty_prop node key slug =
     (case Option.bind (node_prop node key) (\<lambda>e. as_string (ke_value e)) of
        Some s \<Rightarrow> if s = [] then Inl slug else Inr s
      | None \<Rightarrow> Inl slug)"

definition override_git :: "kdl_node \<Rightarrow> string option \<Rightarrow> string + override_form" where
  "override_git node subpath =
     (case node_prop node ''ref'' of
        None \<Rightarrow> Inl ''MAN-OVERRIDE-REF-MISSING''
      | Some ref_entry \<Rightarrow>
          rbind (url_arg (the (node_prop node ''git''))) (\<lambda>url.
          rbind (validate_git_url url) (\<lambda>_.
          rbind (string_arg ''MAN-OVERRIDE-REF-MISSING'' ref_entry) (\<lambda>git_ref.
          Inr (TGit url git_ref subpath)))))"

definition override_oci :: "kdl_node \<Rightarrow> string option \<Rightarrow> string + override_form" where
  "override_oci node subpath =
     rbind (nonempty_prop node ''oci'' ''MAN-OVERRIDE-OCI-MALFORMED'') (\<lambda>coord.
     rbind (split_oci_coordinate coord) (\<lambda>(registry, repository).
     rbind (nonempty_prop node ''digest'' ''MAN-OVERRIDE-DIGEST-MISSING'') (\<lambda>digest.
     Inr (TOci registry repository digest subpath))))"

definition override_tarball :: "kdl_node \<Rightarrow> string option \<Rightarrow> string + override_form" where
  "override_tarball node subpath =
     rbind (url_arg (the (node_prop node ''tarball''))) (\<lambda>url.
     if url = [] then Inl ''MAN-DEP-TARBALL-URL''
     else
       rbind (sha256_prop node) (\<lambda>sha256.
       rbind (strip_components_prop node) (\<lambda>strip.
       Inr (TTarball url sha256 strip subpath))))"

definition override_named :: "kdl_node \<Rightarrow> string + override_form" where
  "override_named node =
     rbind (nonempty_prop node ''named'' ''MAN-OVERRIDE-NAMED-MISSING'') (\<lambda>nm.
     Inr (TRegistry nm (Option.bind (node_prop node ''namespace'') (\<lambda>e. as_string (ke_value e)))))"

definition member_children :: "kdl_node \<Rightarrow> kdl_node list" where
  "member_children node = filter (\<lambda>c. kn_name c = ''member'') (kn_children node)"

definition override_target_count :: "kdl_node \<Rightarrow> nat" where
  "override_target_count node =
     length (filter id
       [has_prop node ''git'', has_prop node ''local'', member_children node \<noteq> [], has_prop node ''oci'',
        has_prop node ''tarball'', has_prop node ''named''])"

definition override_form_of :: "kdl_node \<Rightarrow> string option \<Rightarrow> string + override_form" where
  "override_form_of node subpath =
     (if has_prop node ''git'' then override_git node subpath
      else if has_prop node ''local'' then
        rbind (nonempty_prop node ''local'' ''MAN-DEP-LOCAL-PATH'') (\<lambda>p. Inr (TLocal p))
      else if has_prop node ''oci'' then override_oci node subpath
      else if has_prop node ''tarball'' then override_tarball node subpath
      else if has_prop node ''named'' then override_named node
      else rbind (require_one_string ''MAN-DEP-MEMBER-ARITY'' (hd (member_children node)))
             (\<lambda>m. Inr (TMember m)))"

definition parse_override :: "kdl_node \<Rightarrow> string + override" where
  "parse_override node =
     (if kn_name node \<noteq> ''pkg'' then Inl ''MAN-OVERRIDE-KIND''
      else
        rbind (require_one_string ''MAN-OVERRIDE-ARITY'' node) (\<lambda>nm.
        if list_ex (\<lambda>p. p \<notin> set OVERRIDE_KNOWN_PROPS) (prop_names node)
        then Inl ''MAN-OVERRIDE-UNKNOWN-PROPS''
        else if override_target_count node \<noteq> 1 then Inl ''MAN-OVERRIDE-TARGET-AMBIGUOUS''
        else
          rbind (parse_subpath_prop_coded node ''MAN-OVERRIDE-UNKNOWN-PROPS'') (\<lambda>subpath.
          if subpath \<noteq> None \<and>
             \<not> (has_prop node ''git'' \<or> has_prop node ''oci'' \<or> has_prop node ''tarball'')
          then Inl ''MAN-OVERRIDE-UNKNOWN-PROPS''
          else
            rbind (override_form_of node subpath) (\<lambda>form.
            Inr \<lparr>ovr_name = nm, ovr_target = form, ovr_version = None\<rparr>))))"

definition finish_override_version :: "kdl_node \<Rightarrow> override \<Rightarrow> string + override" where
  "finish_override_version node ov =
     rbind (parse_dep_version_prop node) (\<lambda>v. Inr (ov\<lparr>ovr_version := v\<rparr>))"

text \<open>
  One entry of an \<^verbatim>\<open>overrides\<close> block.  The names seen so far are those of the collected rules.
\<close>

definition add_override :: "override list \<Rightarrow> kdl_node \<Rightarrow> string + override list" where
  "add_override ovs child =
     rbind (parse_override child) (\<lambda>ov.
     if ovr_name ov \<in> ovr_name ` set ovs then Inl ''MAN-OVERRIDE-DUPLICATE''
     else rbind (finish_override_version child ov) (\<lambda>ov'. Inr (ovs @ [ov'])))"

subsection \<open>Scalar nodes\<close>

definition parse_policy_node :: "kdl_node \<Rightarrow> string + trust_policy" where
  "parse_policy_node node =
     rbind (require_one_string ''MAN-UNKNOWN-TOP-LEVEL'' node) (\<lambda>s.
     case parse_trust_policy s of None \<Rightarrow> Inl ''MAN-UNKNOWN-TOP-LEVEL'' | Some p \<Rightarrow> Inr p)"

definition parse_index_trust_node :: "kdl_node \<Rightarrow> string + trust_policy" where
  "parse_index_trust_node node = parse_policy_node node"

definition parse_entry_trust_node :: "kdl_node \<Rightarrow> string + trust_policy" where
  "parse_entry_trust_node node = parse_policy_node node"

definition parse_index_history_node :: "kdl_node \<Rightarrow> string + trust_policy" where
  "parse_index_history_node node = parse_policy_node node"

definition parse_index_trust_signer_node :: "kdl_node \<Rightarrow> string + string" where
  "parse_index_trust_signer_node node = require_one_string ''MAN-UNKNOWN-TOP-LEVEL'' node"

definition parse_index_trust_bundle_node :: "kdl_node \<Rightarrow> string + string" where
  "parse_index_trust_bundle_node node = require_one_string ''MAN-UNKNOWN-TOP-LEVEL'' node"

definition parse_cas :: "kdl_node \<Rightarrow> string + string" where
  "parse_cas node =
     (case find_node (kn_children node) ''dir'' of
        None \<Rightarrow> Inl ''MAN-CAS-DIR-MISSING''
      | Some d \<Rightarrow> require_one_string ''MAN-CAS-DIR-TYPE'' d)"

definition parse_kind :: "kdl_node \<Rightarrow> string + string" where
  "parse_kind node =
     (let a = pos_args node in
      if length a \<noteq> 1 then Inl ''MAN-KIND-ARITY''
      else case as_string (ke_value (hd a)) of
        Some v \<Rightarrow> if v \<in> set VALID_KINDS then Inr v else Inl ''MAN-KIND-INVALID''
      | None \<Rightarrow> Inl ''MAN-KIND-INVALID'')"

definition check_spec_version :: "kdl_node \<Rightarrow> string + int" where
  "check_spec_version node =
     (let a = pos_args node in
      if length a \<noteq> 1 then Inl ''MAN-SPEC-VERSION-TYPE''
      else case ke_value (hd a) of
        KInt raw \<Rightarrow>
          (case try_i64 raw of
             None \<Rightarrow> Inl ''MAN-SPEC-VERSION-TYPE''
           | Some epoch \<Rightarrow>
               if epoch < 1 then Inl ''MAN-SPEC-VERSION-TYPE''
               else if epoch > MANIFEST_SPEC_VERSION then Inl ''MAN-SPEC-VERSION-UNSUPPORTED''
               else Inr epoch)
      | _ \<Rightarrow> Inl ''MAN-SPEC-VERSION-TYPE'')"

definition check_package_version :: "kdl_node \<Rightarrow> string + version" where
  "check_package_version node =
     rbind (require_one_string ''MAN-PACKAGE-VERSION-INVALID'' node) (\<lambda>raw.
     case parse_version raw of None \<Rightarrow> Inl ''MAN-PACKAGE-VERSION-INVALID'' | Some v \<Rightarrow> Inr v)"

definition check_resolution_strategy :: "kdl_node \<Rightarrow> string + strategy" where
  "check_resolution_strategy node =
     rbind (require_one_string ''MAN-RESOLUTION-STRATEGY-INVALID'' node) (\<lambda>raw.
     case strategy_parse raw of None \<Rightarrow> Inl ''MAN-RESOLUTION-STRATEGY-INVALID'' | Some s \<Rightarrow> Inr s)"

definition check_resolution_exclude_newer :: "kdl_node \<Rightarrow> string + timestamp" where
  "check_resolution_exclude_newer node =
     rbind (require_one_string ''MAN-RESOLUTION-EXCLUDE-NEWER-INVALID'' node) (\<lambda>raw.
     case parse_iso8601_timestamp raw of
       None \<Rightarrow> Inl ''MAN-RESOLUTION-EXCLUDE-NEWER-INVALID'' | Some t \<Rightarrow> Inr t)"

definition RESOLUTION_KNOWN_CHILDREN :: "string list" where
  "RESOLUTION_KNOWN_CHILDREN = [''strategy'', ''exclude-newer'']"

definition resolution_child ::
  "string set \<times> resolution \<Rightarrow> kdl_node \<Rightarrow> string + string set \<times> resolution" where
  "resolution_child st child =
     (case st of (seen, r) \<Rightarrow>
      let nm = kn_name child in
      if nm \<notin> set RESOLUTION_KNOWN_CHILDREN \<or> nm \<in> seen then Inl ''MAN-RESOLUTION-BLOCK-INVALID''
      else if nm = ''strategy'' then
        rbind (check_resolution_strategy child) (\<lambda>s. Inr (insert nm seen, r\<lparr>rs_strategy := Some s\<rparr>))
      else
        rbind (check_resolution_exclude_newer child) (\<lambda>t.
        Inr (insert nm seen, r\<lparr>rs_exclude_newer := Some t\<rparr>)))"

definition check_resolution_block :: "kdl_node \<Rightarrow> string + resolution" where
  "check_resolution_block node =
     rbind (rfold resolution_child ({}, \<lparr>rs_strategy = None, rs_exclude_newer = None\<rparr>) (kn_children node))
       (\<lambda>st. Inr (snd st))"

subsection \<open>The workspace root\<close>

definition add_member :: "string list \<Rightarrow> kdl_node \<Rightarrow> string + string list" where
  "add_member members child =
     (if kn_name child \<noteq> ''member'' then Inl ''MAN-WORKSPACE-UNKNOWN-NODE''
      else
        rbind (require_one_string ''MAN-WORKSPACE-MEMBER-ARITY'' child) (\<lambda>path.
        if path \<in> set members then Inl ''MAN-WORKSPACE-MEMBER-DUPLICATE''
        else Inr (members @ [path])))"

definition workspace_node :: "workspace \<Rightarrow> kdl_node \<Rightarrow> string + workspace" where
  "workspace_node w node =
     (let nm = kn_name node in
      if nm = ''spec-version'' then rbind (check_spec_version node) (\<lambda>_. Inr w)
      else if nm = ''deps'' \<or> nm = ''kind'' then Inl ''MAN-WORKSPACE-HAS-DEPS-OR-KIND''
      else if nm = ''index-trust'' then
        rbind (parse_index_trust_node node) (\<lambda>p.
        Inr (w\<lparr>w_index_trust_policy := p, w_index_trust_policy_explicit := True\<rparr>))
      else if nm = ''index-trust-signer'' then
        rbind (parse_index_trust_signer_node node) (\<lambda>s. Inr (w\<lparr>w_index_trust_signer := Some s\<rparr>))
      else if nm = ''index-trust-bundle'' then
        rbind (parse_index_trust_bundle_node node) (\<lambda>s. Inr (w\<lparr>w_index_trust_bundle := Some s\<rparr>))
      else if nm = ''entry-trust'' then
        rbind (parse_entry_trust_node node) (\<lambda>p.
        Inr (w\<lparr>w_entry_trust_policy := p, w_entry_trust_policy_explicit := True\<rparr>))
      else if nm = ''index-history'' then
        rbind (parse_index_history_node node) (\<lambda>p.
        Inr (w\<lparr>w_index_history_policy := p, w_index_history_policy_explicit := True\<rparr>))
      else if nm = ''resolution'' then
        rbind (check_resolution_block node) (\<lambda>r. Inr (w\<lparr>w_resolution := Some r\<rparr>))
      else if nm = ''workspace'' then
        rbind (rfold add_member (w_members w) (kn_children node)) (\<lambda>ms. Inr (w\<lparr>w_members := ms\<rparr>))
      else if nm = ''overrides'' then
        rbind (rfold add_override (w_overrides w) (kn_children node)) (\<lambda>os. Inr (w\<lparr>w_overrides := os\<rparr>))
      else if nm = ''flags'' then
        rbind (rmap parse_flag_decl (kn_children node)) (\<lambda>fs. Inr (w\<lparr>w_flags := w_flags w @ fs\<rparr>))
      else if nm = ''name'' then
        (case pos_args node of
           [] \<Rightarrow> Inr w
         | e # _ \<Rightarrow>
             (case as_string (ke_value e) of None \<Rightarrow> Inr w | Some s \<Rightarrow> Inr (w\<lparr>w_name := Some s\<rparr>)))
      else Inl ''MAN-WORKSPACE-UNKNOWN-TOP-LEVEL'')"

definition parse_workspace_doc :: "kdl_node list \<Rightarrow> string + workspace" where
  "parse_workspace_doc doc = rfold workspace_node workspace_default doc"

subsection \<open>The package manifest\<close>

definition manifest_init :: manifest where
  "manifest_init =
     \<lparr>m_name = None, m_kind = ''library'', m_src_dir = [], m_deps = [], m_dev_deps = [],
      m_overrides = [], m_flags = [], m_self_mirrors = [], m_cas_dir = [], m_spec_version = 1,
      m_spec_version_explicit = False, m_version = None, m_attestation_policy = Warn,
      m_index_trust_policy = Strict, m_index_trust_signer = None, m_index_trust_bundle = None,
      m_index_trust_policy_explicit = False, m_entry_trust_policy = Strict,
      m_entry_trust_policy_explicit = False, m_index_history_policy = Warn,
      m_index_history_policy_explicit = False, m_optional_auto_flags = {}, m_resolution = None,
      m_provides = []\<rparr>"

text \<open>The keys seen so far are those of the collected dependencies.\<close>

definition add_dep :: "mdep list \<Rightarrow> mdep \<Rightarrow> string + mdep list" where
  "add_dep ds d =
     (if dep_unique_key d \<in> dep_unique_key ` set ds then Inl ''MAN-DEP-DUPLICATE'' else Inr (ds @ [d]))"

definition add_dep_child :: "mdep list \<Rightarrow> kdl_node \<Rightarrow> string + mdep list" where
  "add_dep_child ds child = rbind (expand_dep_child [] child) (rfold add_dep ds)"

definition add_flag :: "flag_decl list \<Rightarrow> kdl_node \<Rightarrow> string + flag_decl list" where
  "add_flag fds child =
     rbind (parse_flag_decl child) (\<lambda>fd.
     if fd_name fd \<in> fd_name ` set fds then Inl ''MAN-FLAG-DUPLICATE'' else Inr (fds @ [fd]))"

definition mirror_child :: "kdl_node \<Rightarrow> string + string" where
  "mirror_child child =
     (if kn_name child \<noteq> ''mirror'' then Inl ''MAN-MIRRORS-UNKNOWN-CHILD''
      else if length (pos_args child) \<noteq> 1 then Inl ''MAN-MIRRORS-ARITY''
      else url_arg (hd (pos_args child)))"

definition provides_child :: "kdl_node \<Rightarrow> string + string" where
  "provides_child child =
     (if kn_name child \<noteq> ''module'' then Inl ''MAN-PROVIDES-UNKNOWN-NODE''
      else require_one_string ''MAN-PROVIDES-MODULE-ARITY'' child)"

definition manifest_node :: "manifest \<Rightarrow> kdl_node \<Rightarrow> string + manifest" where
  "manifest_node m node =
     (let nm = kn_name node in
      if nm = ''spec-version'' then
        rbind (check_spec_version node) (\<lambda>v.
        Inr (m\<lparr>m_spec_version := v, m_spec_version_explicit := True\<rparr>))
      else if nm = ''version'' then
        rbind (check_package_version node) (\<lambda>v. Inr (m\<lparr>m_version := Some v\<rparr>))
      else if nm = ''name'' then
        (if m_name m \<noteq> None then Inl ''MAN-NAME-DUPLICATE''
         else rbind (require_one_string ''MAN-NAME-TYPE'' node) (\<lambda>s. Inr (m\<lparr>m_name := Some s\<rparr>)))
      else if nm = ''src_dir'' then
        rbind (require_one_string ''MAN-SRC-DIR-TYPE'' node) (\<lambda>v.
        if contains_unsafe_char v then Inl ''MAN-SRC-DIR-UNSAFE'' else Inr (m\<lparr>m_src_dir := v\<rparr>))
      else if nm = ''cas'' then rbind (parse_cas node) (\<lambda>d. Inr (m\<lparr>m_cas_dir := d\<rparr>))
      else if nm = ''kind'' then rbind (parse_kind node) (\<lambda>k. Inr (m\<lparr>m_kind := k\<rparr>))
      else if nm = ''deps'' then
        rbind (rfold add_dep_child (m_deps m) (kn_children node)) (\<lambda>ds. Inr (m\<lparr>m_deps := ds\<rparr>))
      else if nm = ''dev-deps'' then
        rbind (rfold add_dep_child (m_dev_deps m) (kn_children node)) (\<lambda>ds. Inr (m\<lparr>m_dev_deps := ds\<rparr>))
      else if nm = ''overrides'' then
        rbind (rfold add_override (m_overrides m) (kn_children node)) (\<lambda>os. Inr (m\<lparr>m_overrides := os\<rparr>))
      else if nm = ''flags'' then
        rbind (rfold add_flag (m_flags m) (kn_children node)) (\<lambda>fs. Inr (m\<lparr>m_flags := fs\<rparr>))
      else if nm = ''mirrors'' then
        rbind (rmap mirror_child (kn_children node)) (\<lambda>us.
        Inr (m\<lparr>m_self_mirrors := m_self_mirrors m @ us\<rparr>))
      else if nm = ''provides'' then
        rbind (rmap provides_child (kn_children node)) (\<lambda>ps. Inr (m\<lparr>m_provides := m_provides m @ ps\<rparr>))
      else if nm = ''attestation-policy'' then
        rbind (parse_policy_node node) (\<lambda>p. Inr (m\<lparr>m_attestation_policy := p\<rparr>))
      else if nm = ''index-trust'' then
        rbind (parse_index_trust_node node) (\<lambda>p.
        Inr (m\<lparr>m_index_trust_policy := p, m_index_trust_policy_explicit := True\<rparr>))
      else if nm = ''index-trust-signer'' then
        rbind (parse_index_trust_signer_node node) (\<lambda>s. Inr (m\<lparr>m_index_trust_signer := Some s\<rparr>))
      else if nm = ''index-trust-bundle'' then
        rbind (parse_index_trust_bundle_node node) (\<lambda>s. Inr (m\<lparr>m_index_trust_bundle := Some s\<rparr>))
      else if nm = ''entry-trust'' then
        rbind (parse_entry_trust_node node) (\<lambda>p.
        Inr (m\<lparr>m_entry_trust_policy := p, m_entry_trust_policy_explicit := True\<rparr>))
      else if nm = ''index-history'' then
        rbind (parse_index_history_node node) (\<lambda>p.
        Inr (m\<lparr>m_index_history_policy := p, m_index_history_policy_explicit := True\<rparr>))
      else if nm = ''resolution'' then
        rbind (check_resolution_block node) (\<lambda>r. Inr (m\<lparr>m_resolution := Some r\<rparr>))
      else if nm = ''workspace'' then Inl ''MAN-WORKSPACE-IN-PACKAGE''
      else Inl ''MAN-UNKNOWN-TOP-LEVEL'')"

text \<open>
  Optional dependencies become flags: a flag named like the dependency, off by default, and a
  gate predicate on the dependency.  \<open>declared\<close> are the flags the manifest declares itself.
\<close>

definition auto_flag :: "string \<Rightarrow> flag_decl" where
  "auto_flag n =
     \<lparr>fd_name = n, fd_default = False, fd_description = [], fd_defines = [], fd_enables_same_pkg = [],
      fd_enables_cross_pkg = [], fd_conflicts = []\<rparr>"

definition gate_pred :: "string \<Rightarrow> predicate" where
  "gate_pred n = \<lparr>pr_name = ''flag'', pr_values = [n], pr_negated = False\<rparr>"

fun add_gate :: "mdep \<Rightarrow> mdep" where
  "add_gate (DUrl u) =
     DUrl (if gate_pred (ud_name u) \<in> set (ud_predicates u) then u
           else u\<lparr>ud_predicates := ud_predicates u @ [gate_pred (ud_name u)]\<rparr>)"
| "add_gate (DNamed n) =
     DNamed (if gate_pred (nd_name n) \<in> set (nd_predicates n) then n
             else n\<lparr>nd_predicates := nd_predicates n @ [gate_pred (nd_name n)]\<rparr>)"
| "add_gate d = d"

type_synonym desugar_state = "mdep list \<times> flag_decl list \<times> string set"

definition desugar_dep :: "string set \<Rightarrow> desugar_state \<Rightarrow> mdep \<Rightarrow> string + desugar_state" where
  "desugar_dep declared st d =
     (case st of (out, flags, injected) \<Rightarrow>
      if \<not> dep_optional d then Inr (out @ [d], flags, injected)
      else if dep_nm d \<in> declared \<or> dep_nm d \<in> injected then Inl ''MAN-DEP-OPTIONAL-FLAG-CLASH''
      else Inr (out @ [add_gate d], flags @ [auto_flag (dep_nm d)], insert (dep_nm d) injected))"

definition desugar_optional_deps ::
  "mdep list \<Rightarrow> mdep list \<Rightarrow> flag_decl list \<Rightarrow> string set \<Rightarrow>
   string + mdep list \<times> mdep list \<times> flag_decl list \<times> string set" where
  "desugar_optional_deps deps dev_deps flags declared =
     (if list_ex (\<lambda>d. \<not> dep_optional d \<and> dep_nm d \<in> declared) (deps @ dev_deps)
      then Inl ''MAN-DEP-OPTIONAL-FLAG-CLASH''
      else
        rbind (rfold (desugar_dep declared) ([], flags, {}) deps) (\<lambda>(deps', flags', injected').
        rbind (rfold (desugar_dep declared) ([], flags', injected') dev_deps)
          (\<lambda>(dev_deps', flags'', injected''). Inr (deps', dev_deps', flags'', injected''))))"

text \<open>The checks after the rewriting, each the first offender in source order.\<close>

definition undeclared_reference :: "string set \<Rightarrow> mdep \<Rightarrow> bool" where
  "undeclared_reference declared d \<longleftrightarrow>
     list_ex (\<lambda>p. pr_name p = ''flag'' \<and> list_ex (\<lambda>v. v \<notin> declared) (pr_values p)) (dep_predicates d)"

definition conflict_check :: "string set \<Rightarrow> string \<times> string \<Rightarrow> string + unit" where
  "conflict_check declared fc =
     (if snd fc = fst fc then Inl ''MAN-FLAG-CONFLICTS-SELF''
      else if snd fc \<notin> declared then Inl ''MAN-FLAG-CONFLICTS-UNDECLARED''
      else Inr ())"

definition finish_manifest :: "manifest \<Rightarrow> string + manifest" where
  "finish_manifest m =
     (if m_name m = None then Inl ''MAN-NAME-MISSING''
      else
        rbind (desugar_optional_deps (m_deps m) (m_dev_deps m) (m_flags m) (fd_name ` set (m_flags m)))
          (\<lambda>(deps, dev_deps, flags, auto).
          let declared = fd_name ` set flags in
          if list_ex (undeclared_reference declared) (deps @ dev_deps)
          then Inl ''MAN-FLAG-UNDECLARED-REFERENCE''
          else if list_ex (\<lambda>fd. list_ex (\<lambda>e. e \<notin> declared) (fd_enables_same_pkg fd)) flags
          then Inl ''MAN-FLAG-ENABLES-UNDECLARED''
          else
            rbind (rmap (conflict_check declared)
                (concat (map (\<lambda>fd. map (\<lambda>c. (fd_name fd, c)) (fd_conflicts fd)) flags))) (\<lambda>_.
            Inr (m\<lparr>m_deps := deps, m_dev_deps := dev_deps, m_flags := flags,
                   m_optional_auto_flags := auto\<rparr>))))"

definition parse_manifest_doc :: "kdl_node list \<Rightarrow> string + manifest" where
  "parse_manifest_doc doc = rbind (rfold manifest_node manifest_init doc) finish_manifest"

subsection \<open>Entry points\<close>

definition parse_kdl :: "(string \<Rightarrow> kdl_node list option) \<Rightarrow> string \<Rightarrow> string + kdl_node list" where
  "parse_kdl kdl txt =
     (if kdl_brace_depth txt > KDL_MAX_NESTING_DEPTH then Inl ''MAN-KDL-SYNTAX''
      else if kdl_block_comment_depth txt > KDL_MAX_NESTING_DEPTH then Inl ''MAN-KDL-SYNTAX''
      else case kdl txt of None \<Rightarrow> Inl ''MAN-KDL-SYNTAX'' | Some doc \<Rightarrow> Inr doc)"

definition parse_manifest :: "(string \<Rightarrow> kdl_node list option) \<Rightarrow> string \<Rightarrow> string + manifest" where
  "parse_manifest kdl txt = rbind (parse_kdl kdl txt) parse_manifest_doc"

definition parse_workspace :: "(string \<Rightarrow> kdl_node list option) \<Rightarrow> string \<Rightarrow> string + workspace" where
  "parse_workspace kdl txt = rbind (parse_kdl kdl txt) parse_workspace_doc"

definition parse_document :: "(string \<Rightarrow> kdl_node list option) \<Rightarrow> string \<Rightarrow> string + manifest_doc" where
  "parse_document kdl txt =
     rbind (parse_kdl kdl txt) (\<lambda>doc.
     if list_ex (\<lambda>n. kn_name n = ''workspace'') doc
     then rbind (parse_workspace_doc doc) (\<lambda>w. Inr (Workspace w))
     else rbind (parse_manifest_doc doc) (\<lambda>m. Inr (Package m)))"

subsection \<open>What an accepted manifest satisfies\<close>

text \<open>The parsed constraint of a named dependency is what its text parses to.\<close>

definition constraint_parsed :: "string option \<Rightarrow> version_set option \<Rightarrow> bool" where
  "constraint_parsed c p \<longleftrightarrow>
     (case c of None \<Rightarrow> p = None | Some raw \<Rightarrow> \<exists>vs. from_constraint (Some raw) = Inr vs \<and> p = Some vs)"

fun dep_ok :: "mdep \<Rightarrow> bool" where
  "dep_ok (DUrl u) \<longleftrightarrow> valid_flag_name (ud_name u) \<and> validate_git_url (ud_git u) = Inr ()"
| "dep_ok (DNamed n) \<longleftrightarrow>
     valid_flag_name (nd_name n) \<and> (\<forall>ns. nd_namespace n = Some ns \<longrightarrow> valid_flag_name ns) \<and>
     constraint_parsed (nd_constraint n) (nd_parsed_constraint n)"
| "dep_ok (DLocal l) \<longleftrightarrow> valid_flag_name (lcd_name l) \<and> lcd_path l \<noteq> []"
| "dep_ok (DTarball t) \<longleftrightarrow> valid_flag_name (td_name t) \<and> td_url t \<noteq> []"
| "dep_ok (DMember m) \<longleftrightarrow> valid_flag_name (md_name m) \<and> md_predicates m = []"

fun form_ok :: "override_form \<Rightarrow> bool" where
  "form_ok (TGit u r s) \<longleftrightarrow> validate_git_url u = Inr ()"
| "form_ok (TLocal p) \<longleftrightarrow> p \<noteq> []"
| "form_ok (TMember m) \<longleftrightarrow> True"
| "form_ok (TOci a b d s) \<longleftrightarrow> a \<noteq> [] \<and> CHR ''/'' \<notin> set a \<and> b \<noteq> [] \<and> d \<noteq> []"
| "form_ok (TTarball u h n s) \<longleftrightarrow> u \<noteq> []"
| "form_ok (TRegistry n ns) \<longleftrightarrow> n \<noteq> []"

definition flag_ok :: "flag_decl \<Rightarrow> bool" where
  "flag_ok fd \<longleftrightarrow> valid_flag_name (fd_name fd) \<and> list_all (\<lambda>d. \<not> contains_unsafe_char d) (fd_defines fd)"

definition dep_list_ok :: "mdep list \<Rightarrow> bool" where
  "dep_list_ok ds \<longleftrightarrow> distinct (map dep_unique_key ds) \<and> list_all dep_ok ds"

definition override_list_ok :: "override list \<Rightarrow> bool" where
  "override_list_ok os \<longleftrightarrow> distinct (map ovr_name os) \<and> list_all (\<lambda>ov. form_ok (ovr_target ov)) os"

definition flag_list_ok :: "flag_decl list \<Rightarrow> bool" where
  "flag_list_ok fds \<longleftrightarrow> distinct (map fd_name fds) \<and> list_all flag_ok fds"

text \<open>Every mention of a flag refers to a declared one, and no flag conflicts with itself.\<close>

definition flag_refs_ok :: "manifest \<Rightarrow> bool" where
  "flag_refs_ok m \<longleftrightarrow>
     (let declared = fd_name ` set (m_flags m) in
      (\<forall>d \<in> set (m_deps m @ m_dev_deps m). \<forall>p \<in> set (dep_predicates d).
         pr_name p = ''flag'' \<longrightarrow> set (pr_values p) \<subseteq> declared) \<and>
      (\<forall>fd \<in> set (m_flags m). set (fd_enables_same_pkg fd) \<subseteq> declared \<and>
         set (fd_conflicts fd) \<subseteq> declared - {fd_name fd}))"

text \<open>An optional dependency is off unless its own flag, off by default, is on.\<close>

definition optional_ok :: "manifest \<Rightarrow> bool" where
  "optional_ok m \<longleftrightarrow>
     m_optional_auto_flags m = dep_nm ` {d \<in> set (m_deps m @ m_dev_deps m). dep_optional d} \<and>
     (\<forall>d \<in> set (m_deps m @ m_dev_deps m).
        (if dep_optional d
         then gate_pred (dep_nm d) \<in> set (dep_predicates d) \<and> auto_flag (dep_nm d) \<in> set (m_flags m)
         else dep_nm d \<notin> fd_name ` set (m_flags m) - m_optional_auto_flags m))"

definition manifest_ok :: "manifest \<Rightarrow> bool" where
  "manifest_ok m \<longleftrightarrow>
     m_name m \<noteq> None \<and> m_kind m \<in> set VALID_KINDS \<and> \<not> contains_unsafe_char (m_src_dir m) \<and>
     1 \<le> m_spec_version m \<and> m_spec_version m \<le> MANIFEST_SPEC_VERSION \<and>
     dep_list_ok (m_deps m) \<and> dep_list_ok (m_dev_deps m) \<and> override_list_ok (m_overrides m) \<and>
     flag_list_ok (m_flags m) \<and> flag_refs_ok m \<and> optional_ok m"

subsection \<open>Proof of the invariant\<close>

lemma split_dep_name_ok: "split_dep_name raw = Inr (n, ns) \<Longrightarrow>
    valid_flag_name n \<and> (\<forall>s. ns = Some s \<longrightarrow> valid_flag_name s)"
  by (auto simp: split_dep_name_def split: if_splits list.splits)

lemma named_dep_namespace_ok:
  "named_dep_namespace node sl = Inr ns \<Longrightarrow> \<forall>s. sl = Some s \<longrightarrow> valid_flag_name s \<Longrightarrow>
   ns = Some s \<Longrightarrow> valid_flag_name s"
  by (auto simp: named_dep_namespace_def rbind_Inr split: option.splits if_splits)

lemma named_dep_constraint_ok:
  "named_dep_constraint node = Inr (c, p) \<Longrightarrow>
   constraint_parsed c p"
  by (auto simp: named_dep_constraint_def constraint_parsed_def split: list.splits option.splits sum.splits)

lemma parse_url_dep_ok:
  "parse_url_dep_inner node n = Inr d \<Longrightarrow> ud_name d = n \<and> validate_git_url (ud_git d) = Inr ()"
  by (auto simp: parse_url_dep_inner_def rbind_Inr split: if_splits option.splits)

lemma parse_named_dep_ok:
  assumes "parse_named_dep_with_name node n sl = Inr d" "valid_flag_name n"
    "\<forall>s. sl = Some s \<longrightarrow> valid_flag_name s"
  shows "dep_ok (DNamed d)"
proof -
  from assms(1) obtain ns opt c p fr where
    ns: "named_dep_namespace node sl = Inr ns" and cp: "named_dep_constraint node = Inr (c, p)" and
    d: "d = \<lparr>nd_name = n, nd_constraint = c, nd_parsed_constraint = p, nd_flag_requests = fr,
      nd_optional = opt, nd_predicates = [], nd_namespace = ns\<rparr>"
    by (auto simp: parse_named_dep_with_name_def rbind_Inr split: if_splits)
  show ?thesis
    using named_dep_constraint_ok [OF cp] named_dep_namespace_ok [OF ns assms(3)] assms(2)
    by (simp add: d)
qed

lemma parse_local_dep_ok:
  assumes "parse_local_dep_inner node n = Inr d"
  shows "lcd_name d = n \<and> lcd_path d \<noteq> []"
  using assms unfolding parse_local_dep_inner_def
  by (cases "as_string (ke_value (the (node_prop node ''local'')))") (auto simp: rbind_Inr split: if_splits)

lemma parse_tarball_dep_ok: "parse_tarball_dep_inner node n = Inr d \<Longrightarrow> td_name d = n \<and> td_url d \<noteq> []"
  by (auto simp: parse_tarball_dep_inner_def rbind_Inr split: if_splits option.splits)

lemma parse_member_dep_ok: "parse_member_dep node = Inr d \<Longrightarrow> dep_ok (DMember d)"
  by (auto simp: parse_member_dep_def rbind_Inr split: if_splits)

lemma parse_dep_ok:
  assumes "parse_dep node = Inr d"
  shows "dep_ok d"
proof (cases "kn_name node = ''member''")
  case True
  with assms show ?thesis by (auto simp: parse_dep_def rbind_Inr intro: parse_member_dep_ok)
next
  case False
  with assms obtain n sl where n: "split_dep_name (kn_name node) = Inr (n, sl)" and
    d: "(\<exists>u. parse_url_dep_inner node n = Inr u \<and> d = DUrl u) \<or>
        (\<exists>l. parse_local_dep_inner node n = Inr l \<and> d = DLocal l) \<or>
        (\<exists>t. parse_tarball_dep_inner node n = Inr t \<and> d = DTarball t) \<or>
        (\<exists>m. parse_named_dep_with_name node n sl = Inr m \<and> d = DNamed m)"
    by (auto simp: parse_dep_def rbind_Inr split: if_splits)
  note name = split_dep_name_ok [OF n]
  from d show ?thesis
  proof (elim disjE exE conjE)
    fix m assume "parse_named_dep_with_name node n sl = Inr m" "d = DNamed m"
    with name show ?thesis using parse_named_dep_ok by blast
  qed (use name parse_url_dep_ok parse_local_dep_ok parse_tarball_dep_ok in force)+
qed

lemma inherit_keeps [simp]:
  "dep_ok (inherit_predicates ps d) \<longleftrightarrow> dep_ok d"
  "dep_nm (inherit_predicates ps d) = dep_nm d"
  "dep_unique_key (inherit_predicates ps d) = dep_unique_key d"
  by (cases d, simp_all)+

lemma expand_dep_child_ok: "expand_dep_child inh node = Inr ds \<Longrightarrow> d \<in> set ds \<Longrightarrow> dep_ok d"
proof (induction inh node arbitrary: ds rule: expand_dep_child.induct)
  case (1 inh nm es cs)
  show ?case
  proof (cases "nm = ''when''")
    case True
    with 1(2) obtain ps dss where "rmap (expand_dep_child (inh @ ps)) cs = Inr dss" "ds = concat dss"
      "parse_predicates_from_props (KNode nm es cs) = Inr ps"
      by (auto simp: rbind_Inr)
    with 1(3) obtain c y where "c \<in> set cs" "expand_dep_child (inh @ ps) c = Inr y" "d \<in> set y"
      using rmap_concat_set [of "expand_dep_child (inh @ ps)" cs dss d] by blast
    with 1(1) True show ?thesis by blast
  next
    case False
    with 1(2,3) show ?thesis by (auto simp: rbind_Inr dest!: parse_dep_ok split: if_splits)
  qed
qed

lemma add_deps_ok:
  "rfold add_dep ds es = Inr ds' \<Longrightarrow> dep_list_ok ds \<Longrightarrow> list_all dep_ok es \<Longrightarrow> dep_list_ok ds'"
  by (induction es arbitrary: ds) (auto simp: add_dep_def dep_list_ok_def rbind_Inr split: if_splits)

lemma add_dep_children_ok:
  assumes "rfold add_dep_child ds cs = Inr ds'" "dep_list_ok ds"
  shows "dep_list_ok ds'"
  by (rule rfold_invariant [where P = dep_list_ok, OF assms])
    (auto simp: add_dep_child_def rbind_Inr list_all_iff intro: expand_dep_child_ok elim!: add_deps_ok)

lemma parse_flag_decl_ok: "parse_flag_decl node = Inr fd \<Longrightarrow> flag_ok fd"
proof -
  assume "parse_flag_decl node = Inr fd"
  then obtain dflt desc where
    fold: "rfold flag_child \<lparr>fd_name = kn_name node, fd_default = dflt, fd_description = desc, fd_defines = [],
           fd_enables_same_pkg = [], fd_enables_cross_pkg = [], fd_conflicts = []\<rparr> (kn_children node) = Inr fd"
    and nm: "valid_flag_name (kn_name node)"
    by (auto simp: parse_flag_decl_def rbind_Inr split: if_splits)
  show ?thesis
  proof (rule rfold_invariant [OF fold], goal_cases)
    case (2 s c s')
    have "list_all (\<lambda>d. \<not> contains_unsafe_char d) ds" if "rmap define_arg as = Inr ds" for as ds
      using that by (induction as arbitrary: ds)
        (auto simp: define_arg_def string_arg_def rbind_Inr split: if_splits option.splits)
    with 2 show ?case by (auto simp: flag_child_def flag_ok_def rbind_Inr split: if_splits)
  qed (simp add: flag_ok_def nm)
qed

lemma add_flags_ok:
  assumes "rfold add_flag fs cs = Inr fs'" "flag_list_ok fs"
  shows "flag_list_ok fs'"
  by (rule rfold_invariant [where P = flag_list_ok, OF assms])
    (auto simp: add_flag_def flag_list_ok_def rbind_Inr split: if_splits intro: parse_flag_decl_ok)

lemma override_form_ok: "override_form_of node sp = Inr f \<Longrightarrow> form_ok f"
  by (auto simp: override_form_of_def override_git_def override_oci_def override_tarball_def
      override_named_def nonempty_prop_def split_oci_coordinate_def split_once_Some rbind_Inr
      split: if_splits option.splits)

lemma add_overrides_ok:
  assumes "rfold add_override os cs = Inr os'" "override_list_ok os"
  shows "override_list_ok os'"
  by (rule rfold_invariant [where P = override_list_ok, OF assms])
    (auto simp: add_override_def override_list_ok_def parse_override_def finish_override_version_def
      rbind_Inr split: if_splits intro: override_form_ok)

text \<open>The document before the rewriting of optional dependencies.\<close>

definition raw_ok :: "manifest \<Rightarrow> bool" where
  "raw_ok m \<longleftrightarrow>
     m_kind m \<in> set VALID_KINDS \<and> \<not> contains_unsafe_char (m_src_dir m) \<and>
     1 \<le> m_spec_version m \<and> m_spec_version m \<le> MANIFEST_SPEC_VERSION \<and>
     dep_list_ok (m_deps m) \<and> dep_list_ok (m_dev_deps m) \<and> override_list_ok (m_overrides m) \<and>
     flag_list_ok (m_flags m)"

lemma spec_version_ok: "check_spec_version node = Inr v \<Longrightarrow> 1 \<le> v \<and> v \<le> MANIFEST_SPEC_VERSION"
  by (auto simp: check_spec_version_def Let_def split: if_splits kdl_value.splits option.splits)

lemma parse_kind_ok: "parse_kind node = Inr k \<Longrightarrow> k \<in> set VALID_KINDS"
  by (auto simp: parse_kind_def Let_def split: if_splits option.splits)

text \<open>A result of a conditional is the result of one of its branches.\<close>

lemma if_branch: "(if b then x else y) = Inr r \<Longrightarrow> (x = Inr r \<Longrightarrow> P) \<Longrightarrow> (y = Inr r \<Longrightarrow> P) \<Longrightarrow> P"
  by (simp split: if_splits)

lemma manifest_node_ok:
  assumes "manifest_node m node = Inr m'" "raw_ok m"
  shows "raw_ok m'"
  using assms(1) unfolding manifest_node_def Let_def
  by (elim if_branch)
    (use assms(2) in \<open>auto simp: raw_ok_def rbind_Inr split: if_splits
      dest: spec_version_ok parse_kind_ok add_dep_children_ok add_overrides_ok add_flags_ok\<close>)

lemma manifest_init_ok: "raw_ok manifest_init"
  by (simp add: raw_ok_def manifest_init_def VALID_KINDS_def MANIFEST_SPEC_VERSION_def dep_list_ok_def
      override_list_ok_def flag_list_ok_def)

lemma raw_document_ok: "rfold manifest_node manifest_init doc = Inr m \<Longrightarrow> raw_ok m"
  by (erule rfold_invariant [where P = raw_ok]) (auto intro: manifest_init_ok manifest_node_ok)

text \<open>What the rewriting of optional dependencies returns.\<close>

definition gated :: "mdep \<Rightarrow> mdep" where
  "gated d = (if dep_optional d then add_gate d else d)"

definition optional_names :: "mdep list \<Rightarrow> string list" where
  "optional_names ds = map dep_nm (filter dep_optional ds)"

lemma gated_keeps [simp]:
  "dep_nm (gated d) = dep_nm d" "dep_unique_key (gated d) = dep_unique_key d"
  "dep_optional (gated d) = dep_optional d" "dep_ok (gated d) = dep_ok d"
  by (cases d; simp add: gated_def)+

lemma gated_pred: "dep_optional d \<Longrightarrow> gate_pred (dep_nm d) \<in> set (dep_predicates (gated d))"
  by (cases d) (auto simp: gated_def)

lemma optional_names_append [simp]: "optional_names (ds @ es) = optional_names ds @ optional_names es"
  by (simp add: optional_names_def)

lemma desugar_fold:
  "rfold (desugar_dep declared) (out, flags, ij) ds = Inr (out', flags', ij') \<Longrightarrow>
   out' = out @ map gated ds \<and> flags' = flags @ map auto_flag (optional_names ds) \<and>
   ij' = ij \<union> set (optional_names ds) \<and> distinct (optional_names ds) \<and>
   set (optional_names ds) \<inter> (declared \<union> ij) = {}"
proof (induction ds arbitrary: out flags ij)
  case (Cons d ds)
  show ?case
  proof (cases "dep_optional d")
    case True
    with Cons.prems have "dep_nm d \<notin> declared \<union> ij"
      "rfold (desugar_dep declared) (out @ [add_gate d], flags @ [auto_flag (dep_nm d)], insert (dep_nm d) ij) ds =
       Inr (out', flags', ij')"
      by (auto simp: desugar_dep_def [of declared "(out, flags, ij)" d] split: if_splits)
    with Cons.IH [OF this(2)] True show ?thesis by (auto simp: gated_def optional_names_def)
  next
    case False
    with Cons.prems have "rfold (desugar_dep declared) (out @ [d], flags, ij) ds = Inr (out', flags', ij')"
      by (simp add: desugar_dep_def [of declared "(out, flags, ij)" d])
    from Cons.IH [OF this] False show ?thesis by (simp add: gated_def optional_names_def)
  qed
qed (simp add: optional_names_def)

lemma desugar_result:
  assumes "desugar_optional_deps deps dev flags declared = Inr (deps', dev', flags', auto)"
  defines "names \<equiv> optional_names (deps @ dev)"
  shows "deps' = map gated deps" "dev' = map gated dev" "flags' = flags @ map auto_flag names"
    "auto = set names" "distinct names" "set names \<inter> declared = {}"
    "d \<in> set (deps @ dev) \<Longrightarrow> \<not> dep_optional d \<Longrightarrow> dep_nm d \<notin> declared"
proof -
  obtain f i where 1: "rfold (desugar_dep declared) ([], flags, {}) deps = Inr (deps', f, i)"
    and 2: "rfold (desugar_dep declared) ([], f, i) dev = Inr (dev', flags', auto)"
    and no: "\<not> list_ex (\<lambda>d. \<not> dep_optional d \<and> dep_nm d \<in> declared) (deps @ dev)"
    using assms(1) by (auto simp: desugar_optional_deps_def rbind_Inr split: if_splits)
  note r = desugar_fold [OF 1] desugar_fold [OF 2]
  show "deps' = map gated deps" "dev' = map gated dev" "flags' = flags @ map auto_flag names"
    "auto = set names" "distinct names" "set names \<inter> declared = {}"
    using r by (auto simp: names_def)
  show "d \<in> set (deps @ dev) \<Longrightarrow> \<not> dep_optional d \<Longrightarrow> dep_nm d \<notin> declared"
    using no by (auto simp: list_ex_iff)
qed

lemma gated_list_ok [simp]: "dep_list_ok (map gated ds) = dep_list_ok ds"
  by (simp add: dep_list_ok_def comp_def list_all_iff)

lemma auto_flags_ok:
  assumes "flag_list_ok fs" "distinct ns" "set ns \<inter> fd_name ` set fs = {}" "list_all valid_flag_name ns"
  shows "flag_list_ok (fs @ map auto_flag ns)"
  using assms by (auto simp: flag_list_ok_def comp_def auto_flag_def flag_ok_def list_all_iff)

lemma dep_ok_name: "dep_ok d \<Longrightarrow> valid_flag_name (dep_nm d)"
  by (cases d) auto

lemma finish_manifest_ok:
  assumes "finish_manifest m = Inr m'" "raw_ok m"
  shows "manifest_ok m'"
proof -
  obtain deps dev flags auto where
    ds: "desugar_optional_deps (m_deps m) (m_dev_deps m) (m_flags m) (fd_name ` set (m_flags m)) =
      Inr (deps, dev, flags, auto)" and
    refs: "\<not> list_ex (undeclared_reference (fd_name ` set flags)) (deps @ dev)" and
    en: "\<not> list_ex (\<lambda>fd. list_ex (\<lambda>e. e \<notin> fd_name ` set flags) (fd_enables_same_pkg fd)) flags" and
    cf: "\<exists>us. rmap (conflict_check (fd_name ` set flags))
           (concat (map (\<lambda>fd. map (\<lambda>c. (fd_name fd, c)) (fd_conflicts fd)) flags)) = Inr us" and
    m': "m' = m\<lparr>m_deps := deps, m_dev_deps := dev, m_flags := flags, m_optional_auto_flags := auto\<rparr>" and
    nm: "m_name m \<noteq> None"
    using assms(1) by (auto simp: finish_manifest_def rbind_Inr Let_def split: if_splits)
  note r = desugar_result [OF ds]
  let ?names = "optional_names (m_deps m @ m_dev_deps m)"
  have valid: "list_all valid_flag_name ?names"
    using assms(2) dep_ok_name by (auto simp: raw_ok_def dep_list_ok_def optional_names_def list_all_iff)
  have fl: "flag_list_ok flags"
    unfolding r(3) by (rule auto_flags_ok [OF _ r(5,6) valid]) (use assms(2) in \<open>simp add: raw_ok_def\<close>)
  have "flag_refs_ok m'"
  proof -
    have "set (fd_conflicts fd) \<subseteq> fd_name ` set flags - {fd_name fd}" if "fd \<in> set flags" for fd
    proof
      fix c assume "c \<in> set (fd_conflicts fd)"
      with that cf have "\<exists>u. conflict_check (fd_name ` set flags) (fd_name fd, c) = Inr u"
        by (elim exE) (rule rmap_defined, assumption, auto)
      then show "c \<in> fd_name ` set flags - {fd_name fd}" by (auto simp: conflict_check_def split: if_splits)
    qed
    with refs en show ?thesis
      by (auto simp: flag_refs_ok_def Let_def m' list_ex_iff undeclared_reference_def)
  qed
  moreover have "optional_ok m'"
  proof -
    have "dep_nm d \<notin> fd_name ` set flags - auto" if "d \<in> set (deps @ dev)" "\<not> dep_optional d" for d
    proof -
      from that r(1,2) obtain d0 where "d0 \<in> set (m_deps m @ m_dev_deps m)" "d = gated d0" by auto
      with that r(7) [of d0] have "dep_nm d \<notin> fd_name ` set (m_flags m)" by simp
      then show ?thesis unfolding r(3,4) by (auto simp: auto_flag_def)
    qed
    moreover have "auto = dep_nm ` {d \<in> set (deps @ dev). dep_optional d}"
    proof -
      have "{d \<in> set (deps @ dev). dep_optional d} =
          gated ` {d \<in> set (m_deps m @ m_dev_deps m). dep_optional d}"
        unfolding r(1,2) by auto
      then show ?thesis unfolding r(4) by (simp add: optional_names_def image_image) blast
    qed
    moreover have "gate_pred (dep_nm d) \<in> set (dep_predicates d) \<and> auto_flag (dep_nm d) \<in> set flags"
      if "d \<in> set (deps @ dev)" "dep_optional d" for d
      using that gated_pred unfolding r(1,2,3) by (auto simp: optional_names_def)
    ultimately show ?thesis unfolding optional_ok_def m' by simp
  qed
  ultimately show ?thesis
    using assms(2) nm fl unfolding manifest_ok_def raw_ok_def m' r(1,2) by simp
qed

lemma parse_manifest_doc_ok: "parse_manifest_doc doc = Inr m \<Longrightarrow> manifest_ok m"
  using raw_document_ok finish_manifest_ok by (auto simp: parse_manifest_doc_def rbind_Inr)

subsection \<open>Properties\<close>

text \<open>
  C16. The trust boundary of the manifest: whatever the KDL parser returns, a manifest that is
  accepted has a name; every dependency name, namespace, member name and flag name is plain (so
  none of them can inject a line into a generated file); git URLs have a known scheme; no two
  dependencies of a block share a solver variable, no two overrides a name and no two flags a
  name; a version constraint is stored together with its parse; every mention of a flag refers to
  a declared flag and no flag conflicts with itself; and each optional dependency is gated by a
  flag of its name that exists and is off by default, while a mandatory one never shares its name
  with a declared flag.
\<close>

theorem manifest_trust_boundary:
  assumes "parse_manifest kdl txt = Inr m \<or> parse_document kdl txt = Inr (Package m)"
  shows "manifest_ok m"
  using assms parse_manifest_doc_ok
  by (auto simp: parse_manifest_def parse_document_def rbind_Inr split: if_splits)

definition sample_doc :: "kdl_node list" where
  "sample_doc =
     [KNode ''name'' [\<lparr>ke_name = None, ke_ty = None, ke_value = KString ''app''\<rparr>] [],
      KNode ''flags'' [] [KNode ''tls'' [\<lparr>ke_name = Some ''default'', ke_ty = None, ke_value = KBool True\<rparr>]
        [KNode ''enables'' [\<lparr>ke_name = None, ke_ty = None, ke_value = KString ''ssl''\<rparr>] []]],
      KNode ''deps'' []
        [KNode ''acme/ssl'' [\<lparr>ke_name = Some ''optional'', ke_ty = None, ke_value = KBool True\<rparr>] [],
         KNode ''when'' [\<lparr>ke_name = Some ''flag'', ke_ty = Some ''not'', ke_value = KString ''tls''\<rparr>]
           [KNode ''lib'' [\<lparr>ke_name = Some ''local'', ke_ty = None, ke_value = KString ''../lib''\<rparr>] []]]]"

definition sample_kdl :: "string \<Rightarrow> kdl_node list option" where
  "sample_kdl t = (if t = ''sample'' then Some sample_doc else None)"

lemma sample_parsed:
  "case parse_manifest sample_kdl ''sample'' of
     Inl e \<Rightarrow> False
   | Inr m \<Rightarrow> map dep_nm (m_deps m) = [''ssl'', ''lib''] \<and>
       map dep_predicates (m_deps m) =
         [[gate_pred ''ssl''], [\<lparr>pr_name = ''flag'', pr_values = [''tls''], pr_negated = True\<rparr>]] \<and>
       map fd_name (m_flags m) = [''tls'', ''ssl'']"
  by code_simp

theorem manifest_trust_boundary_witness:
  "case parse_manifest sample_kdl ''sample'' of Inl e \<Rightarrow> False | Inr m \<Rightarrow> manifest_ok m"
  using manifest_trust_boundary [of sample_kdl "''sample''"] sample_parsed
  by (auto split: sum.splits)

text \<open>What the workspace root guarantees; its flags need not be distinct.\<close>

definition workspace_ok :: "workspace \<Rightarrow> bool" where
  "workspace_ok w \<longleftrightarrow>
     distinct (w_members w) \<and> override_list_ok (w_overrides w) \<and> list_all flag_ok (w_flags w)"

lemma add_members_ok: "rfold add_member ms cs = Inr ms' \<Longrightarrow> distinct ms \<Longrightarrow> distinct ms'"
  by (erule rfold_invariant [where P = distinct]) (auto simp: add_member_def rbind_Inr split: if_splits)

lemma flag_decls_ok: "rmap parse_flag_decl cs = Inr fds \<Longrightarrow> list_all flag_ok fds"
  by (induction cs arbitrary: fds) (auto simp: rbind_Inr parse_flag_decl_ok)

lemma workspace_default_ok: "workspace_ok workspace_default"
  by (simp add: workspace_ok_def workspace_default_def override_list_ok_def)

lemma workspace_node_ok:
  assumes "workspace_node w node = Inr w'" "workspace_ok w"
  shows "workspace_ok w'"
  using assms(1) unfolding workspace_node_def Let_def
  by (elim if_branch)
    (use assms(2) in \<open>auto simp: workspace_ok_def rbind_Inr split: list.splits option.splits
      dest: add_members_ok add_overrides_ok flag_decls_ok\<close>)

text \<open>
  The trust boundary of the workspace root: an accepted root lists each member path once,
  has one override per name, each with a well-formed target, and flags with plain names and safe
  defines.  A document is read as a workspace exactly when it has a top-level \<^verbatim>\<open>workspace\<close> node.
\<close>

theorem workspace_trust_boundary:
  "(parse_document kdl txt = Inr (Workspace w) \<or> parse_workspace kdl txt = Inr w \<longrightarrow> workspace_ok w) \<and>
   (parse_document kdl txt = Inr doc \<longrightarrow>
     ((\<exists>w. doc = Workspace w) \<longleftrightarrow> (\<exists>ns. kdl txt = Some ns \<and> (\<exists>n \<in> set ns. kn_name n = ''workspace''))))"
proof -
  have "workspace_ok w" if "parse_workspace_doc ns = Inr w" for ns
    using that unfolding parse_workspace_doc_def
    by (rule rfold_invariant [where P = workspace_ok])
      (auto intro: workspace_node_ok simp: workspace_default_ok)
  then show ?thesis
    by (auto simp: parse_document_def parse_workspace_def parse_kdl_def rbind_Inr list_ex_iff
        split: if_splits option.splits)
qed

theorem workspace_trust_boundary_witness:
  "case parse_document (\<lambda>t. Some [KNode ''workspace'' [] []]) ''w'' of
     Inr (Workspace w) \<Rightarrow> workspace_ok w | _ \<Rightarrow> False"
proof -
  have "parse_document (\<lambda>t. Some [KNode ''workspace'' [] []]) ''w'' = Inr (Workspace workspace_default)"
    by code_simp
  with workspace_trust_boundary [of "\<lambda>t. Some [KNode ''workspace'' [] []]" "''w''" workspace_default
      "Workspace workspace_default"]
  show ?thesis by simp
qed

end
