(* ===== verification/Flags.thy ===== *)
theory Flags
  imports ManifestDoc OrdMap
begin

text \<open>
  Feature flags and conditional dependencies (\<^verbatim>\<open>milpa-core/src/resolver.rs\<close>, with the flag gate of
  \<^verbatim>\<open>edge_sources.rs\<close>): the seed of active flags that the command line selects, the activation map of a
  fetched package with its sources, the conflict check, the profile and flag gates that filter a
  manifest before it is resolved, and the check of a lockfile against the current selection.
  Also the strength order of the trust policies.  Sets of names that the code iterates in an
  unspecified order are lists here.
\<close>

subsection \<open>Activation\<close>

datatype activation_source = FromDefault | EdgeRequest | EnablesRule | Cli

type_synonym active_map = "(string \<times> activation_source set) list"

definition add_source :: "string \<Rightarrow> activation_source \<Rightarrow> active_map \<Rightarrow> active_map" where
  "add_source n src m = bt_insert n (insert src (bt_get_or {} m n)) m"

text \<open>The table of declarations: the last declaration of a name wins.\<close>

definition flag_by_name :: "flag_decl list \<Rightarrow> string \<rightharpoonup> flag_decl" where
  "flag_by_name flags = map_of (rev (map (\<lambda>fd. (fd_name fd, fd)) flags))"

definition default_sources :: "flag_decl list \<Rightarrow> active_map" where
  "default_sources flags =
     foldl (\<lambda>m fd. if fd_default fd then add_source (fd_name fd) FromDefault m else m) [] flags"

definition request_sources :: "flag_decl list \<Rightarrow> flag_request list \<Rightarrow> active_map \<Rightarrow> active_map" where
  "request_sources flags requested m =
     foldl (\<lambda>m fr. if fr_enabled fr \<and> flag_by_name flags (fr_name fr) \<noteq> None
                   then add_source (fr_name fr) EdgeRequest m else m) m requested"

text \<open>One round over the names that are active when it begins; the boolean is \<^verbatim>\<open>added\<close>.\<close>

definition add_enabled :: "active_map \<times> bool \<Rightarrow> string \<Rightarrow> active_map \<times> bool" where
  "add_enabled st e =
     (if bt_get (fst st) e = None then (add_source e EnablesRule (fst st), True) else st)"

definition enabled_names :: "flag_decl list \<Rightarrow> string \<Rightarrow> string list" where
  "enabled_names flags n =
     (case flag_by_name flags n of None \<Rightarrow> [] | Some fd \<Rightarrow> fd_enables_same_pkg fd)"

definition enables_round :: "flag_decl list \<Rightarrow> active_map \<Rightarrow> active_map \<times> bool" where
  "enables_round flags m =
     foldl add_enabled (m, False) (concat (map (enabled_names flags) (bt_keys m)))"

lemma add_enabled_get:
  "bt_get (fst (foldl add_enabled st es)) k =
     (case bt_get (fst st) k of Some s \<Rightarrow> Some s
      | None \<Rightarrow> if k \<in> set es then Some {EnablesRule} else None)"
  by (induction es arbitrary: st)
    (auto simp: add_enabled_def add_source_def bt_get_or_def split: option.splits)

lemma add_enabled_added:
  "snd (foldl add_enabled st es) \<longleftrightarrow> snd st \<or> (\<exists>e \<in> set es. bt_get (fst st) e = None)"
  by (induction es arbitrary: st)
    (auto simp: add_enabled_def add_source_def bt_get_or_def split: if_splits)

lemma enables_round_get:
  "bt_get (fst (enables_round flags m)) k =
     (case bt_get m k of Some s \<Rightarrow> Some s
      | None \<Rightarrow> if \<exists>n \<in> set (bt_keys m). k \<in> set (enabled_names flags n)
                then Some {EnablesRule} else None)"
  by (auto simp: enables_round_def add_enabled_get split: option.splits)

lemma enables_round_added:
  "snd (enables_round flags m) \<longleftrightarrow>
     (\<exists>n \<in> set (bt_keys m). \<exists>k \<in> set (enabled_names flags n). bt_get m k = None)"
  by (auto simp: enables_round_def add_enabled_added)

definition all_enabled :: "flag_decl list \<Rightarrow> string set" where
  "all_enabled flags = (\<Union>fd \<in> set flags. set (fd_enables_same_pkg fd))"

lemma flag_by_name_in: "flag_by_name flags n = Some fd \<Longrightarrow> fd \<in> set flags \<and> fd_name fd = n"
  by (auto simp: flag_by_name_def dest: map_of_SomeD)

lemma enabled_names_all: "set (enabled_names flags n) \<subseteq> all_enabled flags"
  by (cases "flag_by_name flags n") (auto simp: enabled_names_def all_enabled_def dest: flag_by_name_in)

lemma bt_keys_get: "k \<in> set (bt_keys m) \<longleftrightarrow> bt_get m k \<noteq> None"
  by (auto simp: bt_keys_def bt_get_None)

text \<open>
  Each round that adds a name takes it from the finite set of names some flag enables.
\<close>

function enables_fixpoint :: "flag_decl list \<Rightarrow> active_map \<Rightarrow> active_map" where
  "enables_fixpoint flags m =
     (if snd (enables_round flags m) then enables_fixpoint flags (fst (enables_round flags m))
      else fst (enables_round flags m))"
  by auto

termination
proof (relation "measure (\<lambda>(flags, m). card (all_enabled flags - set (bt_keys m)))", simp, goal_cases)
  case (1 flags m)
  let ?m' = "fst (enables_round flags m)"
  from 1 obtain n k where n: "n \<in> set (bt_keys m)" "k \<in> set (enabled_names flags n)" "bt_get m k = None"
    by (auto simp: enables_round_added)
  then have "k \<in> all_enabled flags - set (bt_keys m)" "k \<in> set (bt_keys ?m')"
    using enabled_names_all by (auto simp: bt_keys_get enables_round_get)
  moreover have "set (bt_keys m) \<subseteq> set (bt_keys ?m')"
    by (auto simp: bt_keys_get enables_round_get)
  ultimately have "all_enabled flags - set (bt_keys ?m') \<subset> all_enabled flags - set (bt_keys m)" by blast
  then show ?case by (auto simp: all_enabled_def intro: psubset_card_mono)
qed

declare enables_fixpoint.simps [simp del]

definition compute_dep_active_flags :: "flag_decl list \<Rightarrow> flag_request list \<Rightarrow> active_map" where
  "compute_dep_active_flags flags requested =
     enables_fixpoint flags (request_sources flags requested (default_sources flags))"

subsection \<open>Conflicts\<close>

record flag_conflict =
  fc_dep :: string
  fc_flag_a :: string
  fc_flag_b :: string
  fc_sources_a :: "string list"
  fc_sources_b :: "string list"

text \<open>The sources in the order of the enumeration.\<close>

definition serialize_sources :: "activation_source set \<Rightarrow> string list" where
  "serialize_sources s =
     map snd (filter (\<lambda>(x, n). x \<in> s)
       [(FromDefault, ''default''), (EdgeRequest, ''edge_request''), (EnablesRule, ''enables_rule''), (Cli, ''cli'')])"

definition conflict_pairs :: "flag_decl list \<Rightarrow> active_map \<Rightarrow> (string \<times> string) list" where
  "conflict_pairs flags active =
     concat (map (\<lambda>n. case flag_by_name flags n of
         None \<Rightarrow> [] | Some fd \<Rightarrow> map (\<lambda>c. (n, c)) (fd_conflicts fd)) (bt_keys active))"

definition first_conflict :: "flag_decl list \<Rightarrow> active_map \<Rightarrow> (string \<times> string) option" where
  "first_conflict flags active =
     List.find (\<lambda>fc. bt_get active (snd fc) \<noteq> None) (conflict_pairs flags active)"

definition raise_if_flag_conflicts ::
  "string \<Rightarrow> flag_decl list \<Rightarrow> active_map \<Rightarrow> flag_conflict + unit" where
  "raise_if_flag_conflicts dep flag_decls active =
     (case first_conflict flag_decls active of
        None \<Rightarrow> Inr ()
      | Some (f, c) \<Rightarrow>
          (let (fa, fb) = (if f \<le> c then (f, c) else (c, f)) in
           Inl \<lparr>fc_dep = dep, fc_flag_a = fa, fc_flag_b = fb,
                fc_sources_a = serialize_sources (bt_get_or {} active fa),
                fc_sources_b = serialize_sources (bt_get_or {} active fb)\<rparr>))"

subsection \<open>Predicates\<close>

text \<open>A space after the operator, which the constraint parser does not need.\<close>

definition normalize_ops :: "string list" where
  "normalize_ops = [''>='', ''<='', ''=='', ''!='', ''>'', ''<'', ''~'', ''^'']"

fun normalize_with :: "string list \<Rightarrow> string \<Rightarrow> string" where
  "normalize_with [] s = s"
| "normalize_with (op # ops) s =
     (case strip_prefix op s of Some r \<Rightarrow> op @ '' '' @ trim_start r | None \<Rightarrow> normalize_with ops s)"

definition normalize_constraint :: "string \<Rightarrow> string" where
  "normalize_constraint s = normalize_with normalize_ops s"

definition version_satisfies :: "version \<Rightarrow> string \<Rightarrow> bool" where
  "version_satisfies actual declared =
     (case declared of
        c # _ \<Rightarrow>
          if c \<in> {CHR ''>'', CHR ''<'', CHR ''='', CHR ''!'', CHR ''~'', CHR ''^''} then
            (case from_constraint (Some (normalize_constraint declared)) of
               Inr vs \<Rightarrow> vs_contains vs actual | Inl e \<Rightarrow> False)
          else (case parse_version declared of Some v \<Rightarrow> veq v actual | None \<Rightarrow> False)
      | [] \<Rightarrow> (case parse_version declared of Some v \<Rightarrow> veq v actual | None \<Rightarrow> False))"

text \<open>What an axis of the profile says of a value; \<open>None\<close> where the axis is absent or unknown.\<close>

definition axis_match :: "string \<Rightarrow> profile \<Rightarrow> (string \<Rightarrow> bool) option" where
  "axis_match nm p =
     (if nm = ''platform'' then map_option (\<lambda>a v. v = a) (pf_platform p)
      else if nm = ''arch'' then map_option (\<lambda>a v. v = a) (pf_arch p)
      else if nm = ''nim'' then map_option version_satisfies (pf_nim_version p)
      else if nm = ''milpa'' then map_option version_satisfies (pf_milpa_version p)
      else None)"

definition predicate_satisfied_profile_only :: "predicate \<Rightarrow> profile \<Rightarrow> bool" where
  "predicate_satisfied_profile_only pred p =
     (case axis_match (pr_name pred) p of
        None \<Rightarrow> False
      | Some f \<Rightarrow>
          (let any_match = list_ex f (pr_values pred) in
           if pr_negated pred then \<not> any_match else any_match))"

definition flag_pred_satisfied :: "string set \<Rightarrow> predicate \<Rightarrow> bool" where
  "flag_pred_satisfied active p =
     (let any_match = list_ex (\<lambda>v. v \<in> active) (pr_values p) in
      if pr_negated p then \<not> any_match else any_match)"

definition dep_passes_flag_predicates :: "mdep \<Rightarrow> string set \<Rightarrow> bool" where
  "dep_passes_flag_predicates d active =
     list_all (\<lambda>p. pr_name p \<noteq> ''flag'' \<or> flag_pred_satisfied active p) (dep_predicates d)"

subsection \<open>Filtering a manifest\<close>

record filter_ctx =
  fx_profile :: "profile option"
  fx_active_flags :: "string set"

definition default_flags :: "flag_decl list \<Rightarrow> string list" where
  "default_flags flags = map fd_name (filter fd_default flags)"

definition filter_ctx_build :: "manifest \<Rightarrow> profile option \<Rightarrow> string list option \<Rightarrow> filter_ctx" where
  "filter_ctx_build m p cli_seed =
     (let seed = (case cli_seed of Some s \<Rightarrow> s | None \<Rightarrow> default_flags (m_flags m)) in
      \<lparr>fx_profile = p,
       fx_active_flags = (if seed = [] then {} else flag_enables_closure (m_flags m) seed)\<rparr>)"

definition profile_gate :: "profile option \<Rightarrow> mdep \<Rightarrow> bool" where
  "profile_gate po d =
     (case po of
        None \<Rightarrow> True
      | Some p \<Rightarrow>
          list_all (\<lambda>q. pr_name q = ''flag'' \<or> predicate_satisfied_profile_only q p) (dep_predicates d))"

definition filter_deps :: "(mdep \<Rightarrow> bool) \<Rightarrow> manifest \<Rightarrow> manifest" where
  "filter_deps keep m = m\<lparr>m_deps := filter keep (m_deps m), m_dev_deps := filter keep (m_dev_deps m)\<rparr>"

definition filter_manifest :: "manifest \<Rightarrow> filter_ctx \<Rightarrow> manifest" where
  "filter_manifest m ctx =
     (if fx_profile ctx = None \<and> fx_active_flags ctx = {} then m
      else filter_deps
        (\<lambda>d. profile_gate (fx_profile ctx) d \<and> dep_passes_flag_predicates d (fx_active_flags ctx)) m)"

subsection \<open>The selection of the command line\<close>

datatype flag_error = Slug string | Conflict flag_conflict

definition feature_seed :: "flag_decl list \<Rightarrow> string list \<Rightarrow> bool \<Rightarrow> bool \<Rightarrow> flag_error + string list" where
  "feature_seed flags features no_default_features all_features =
     (if list_ex (\<lambda>f. f \<notin> fd_name ` set flags) features then Inl (Slug ''FROZEN-ACTIVE-FLAGS-MISMATCH'')
      else Inr (if all_features then map fd_name flags
                else if no_default_features then features
                else default_flags flags @ features))"

definition has_cli_features :: "string list \<Rightarrow> bool \<Rightarrow> bool \<Rightarrow> bool" where
  "has_cli_features features no_default_features all_features \<longleftrightarrow>
     features \<noteq> [] \<or> no_default_features \<or> all_features"

text \<open>
  The activation map of the root: the selected flags, and those that only the closure adds.
\<close>

definition root_active_map :: "flag_decl list \<Rightarrow> string list \<Rightarrow> active_map" where
  "root_active_map flags cli_seed =
     fold (\<lambda>f. bt_insert f {EnablesRule})
       (filter (\<lambda>f. f \<in> flag_enables_closure flags cli_seed \<and> f \<notin> set cli_seed) (map fd_name flags))
       (fold (\<lambda>f. bt_insert f {Cli}) cli_seed [])"

text \<open>
  The first part of \<^verbatim>\<open>resolve_with_features\<close>: the manifest that is handed to the solver.
\<close>

definition effective_root_manifest ::
  "manifest \<Rightarrow> profile option \<Rightarrow> string list \<Rightarrow> bool \<Rightarrow> bool \<Rightarrow> flag_error + manifest" where
  "effective_root_manifest m profile features no_default_features all_features =
     (let has_cli = has_cli_features features no_default_features all_features in
      rbind (if has_cli then feature_seed (m_flags m) features no_default_features all_features else Inr [])
        (\<lambda>cli_seed.
      rbind (if has_cli \<and> cli_seed \<noteq> [] \<and> m_flags m \<noteq> []
             then (case raise_if_flag_conflicts (case m_name m of Some n \<Rightarrow> n | None \<Rightarrow> ''__root__'')
                          (m_flags m) (root_active_map (m_flags m) cli_seed) of
                     Inl c \<Rightarrow> Inl (Conflict c) | Inr u \<Rightarrow> Inr u)
             else Inr ()) (\<lambda>_.
      Inr (case profile of
             Some p \<Rightarrow> filter_manifest m (filter_ctx_build m (Some p) (if has_cli then Some cli_seed else None))
           | None \<Rightarrow>
               if has_cli
               then filter_deps
                 (\<lambda>d. dep_passes_flag_predicates d (flag_enables_closure (m_flags m) cli_seed)) m
               else m))))"

text \<open>The check of a lockfile against the selection.\<close>

definition has_flag_pred :: "mdep \<Rightarrow> bool" where
  "has_flag_pred d \<longleftrightarrow> list_ex (\<lambda>p. pr_name p = ''flag'') (dep_predicates d)"

definition flags_mismatch :: "mdep list \<Rightarrow> lockfile \<Rightarrow> string set \<Rightarrow> bool" where
  "flags_mismatch deps lock active \<longleftrightarrow>
     list_ex (\<lambda>d. has_flag_pred d \<and>
       dep_passes_flag_predicates d active \<noteq> (dep_nm d \<in> ld_name ` set (lf_deps lock))) deps"

definition check_frozen_active_flags_mismatch ::
  "manifest \<Rightarrow> lockfile \<Rightarrow> string list \<Rightarrow> bool \<Rightarrow> bool \<Rightarrow> flag_error + unit" where
  "check_frozen_active_flags_mismatch m lock features no_default_features all_features =
     rbind (feature_seed (m_flags m) features no_default_features all_features) (\<lambda>seed.
     if flags_mismatch (m_deps m) lock (flag_enables_closure (m_flags m) seed)
     then Inl (Slug ''FROZEN-ACTIVE-FLAGS-MISMATCH'') else Inr ())"

subsection \<open>Trust policies\<close>

definition effective_trust_policy :: "trust_policy \<Rightarrow> bool \<Rightarrow> trust_policy option \<Rightarrow> trust_policy" where
  "effective_trust_policy manifest_policy flag env_override =
     (if manifest_policy = Off then Off
      else
        let base = (case env_override of Some Strict \<Rightarrow> Strict | _ \<Rightarrow> manifest_policy) in
        if flag then Strict else base)"

definition parse_env_bool :: "string \<Rightarrow> bool" where
  "parse_env_bool value \<longleftrightarrow> value \<noteq> [] \<and> value \<noteq> ''0'' \<and> value \<noteq> ''false''"

text \<open>The names of the packages whose edges came from a \<^verbatim>\<open>.nimble\<close> file.\<close>

definition depkey_for_solved_name :: "string \<Rightarrow> binding_resolver \<Rightarrow> dep_key" where
  "depkey_for_solved_name n br = (case display_for br n of Some dk \<Rightarrow> dk | None \<Rightarrow> from_solver_var n)"

definition name_by_source_id :: "string list \<Rightarrow> binding_resolver \<Rightarrow> source_id \<rightharpoonup> string" where
  "name_by_source_id discovery br =
     foldl (\<lambda>m n. let dk = depkey_for_solved_name n br in
         case source_id_for br dk of
           None \<Rightarrow> m
         | Some sid \<Rightarrow> if m sid = None then m(sid \<mapsto> solver_var dk) else m)
       Map.empty discovery"

definition nimble_fallback_names ::
  "string list \<Rightarrow> binding_resolver \<Rightarrow> ((source_id \<times> version) \<times> edge_set) list \<Rightarrow> string list" where
  "nimble_fallback_names discovery br cache =
     remdups_adj (sort (concat (map (\<lambda>((sid, v), es).
       case name_by_source_id discovery br sid of
         None \<Rightarrow> []
       | Some n \<Rightarrow> if n \<noteq> ''__root__'' \<and> es_source es = NimbleFallback then [n] else []) cache)))"

definition enforce_attestation_policy_strict ::
  "string list \<Rightarrow> binding_resolver \<Rightarrow> ((source_id \<times> version) \<times> edge_set) list \<Rightarrow> bool \<Rightarrow> string + unit" where
  "enforce_attestation_policy_strict discovery br cache is_strict =
     (if nimble_fallback_names discovery br cache = [] then Inr ()
      else if is_strict then Inl ''RES-UNATTESTED-METADATA''
      else Inr ())"

definition enforce_attestation_policy ::
  "string list \<Rightarrow> binding_resolver \<Rightarrow> ((source_id \<times> version) \<times> edge_set) list \<Rightarrow> manifest \<Rightarrow> bool \<Rightarrow>
   string + unit" where
  "enforce_attestation_policy discovery br cache m require_attested_metadata =
     enforce_attestation_policy_strict discovery br cache
       (effective_trust_policy (m_attestation_policy m) require_attested_metadata None = Strict)"

subsection \<open>Facts on the activation map\<close>

lemma add_source_get:
  "bt_get (add_source n src m) k = (if k = n then Some (insert src (bt_get_or {} m n)) else bt_get m k)"
  by (simp add: add_source_def)

lemma bt_ok_add_source [simp]: "bt_ok m \<Longrightarrow> bt_ok (add_source n src m)"
  by (simp add: add_source_def)

lemma bt_ok_add_enabled: "bt_ok (fst st) \<Longrightarrow> bt_ok (fst (foldl add_enabled st es))"
  by (induction es arbitrary: st) (auto simp: add_enabled_def)

lemma default_sources_get:
  "bt_get (default_sources flags) k =
     (if k \<in> set (default_flags flags) then Some {FromDefault} else None)"
proof (induction flags rule: rev_induct)
  case (snoc fd flags)
  then show ?case
    by (auto simp: default_sources_def default_flags_def add_source_get bt_get_or_def split: if_splits)
qed (simp add: default_sources_def default_flags_def)

definition asked :: "flag_decl list \<Rightarrow> flag_request list \<Rightarrow> string list" where
  "asked flags requested =
     map fr_name (filter (\<lambda>fr. fr_enabled fr \<and> flag_by_name flags (fr_name fr) \<noteq> None) requested)"

lemma request_sources_get:
  "bt_get (request_sources flags requested m) k =
     (if k \<in> set (asked flags requested) then Some (insert EdgeRequest (bt_get_or {} m k)) else bt_get m k)"
proof (induction requested rule: rev_induct)
  case (snoc fr requested)
  then show ?case
    by (auto simp: request_sources_def asked_def add_source_get bt_get_or_def)
qed (simp add: request_sources_def asked_def)

definition enabled_rel :: "flag_decl list \<Rightarrow> (string \<times> string) set" where
  "enabled_rel flags = {(a, b). b \<in> set (enabled_names flags a)}"

lemma enables_round_keys:
  "set (bt_keys (fst (enables_round flags m))) = set (bt_keys m) \<union> enabled_rel flags `` set (bt_keys m)"
proof (rule set_eqI)
  fix k
  have "k \<in> set (bt_keys (fst (enables_round flags m))) \<longleftrightarrow>
      k \<in> set (bt_keys m) \<or> (\<exists>n \<in> set (bt_keys m). k \<in> set (enabled_names flags n))"
    by (cases "bt_get m k") (simp_all add: bt_keys_get [of k] enables_round_get)
  then show "k \<in> set (bt_keys (fst (enables_round flags m))) \<longleftrightarrow>
      k \<in> set (bt_keys m) \<union> enabled_rel flags `` set (bt_keys m)"
    by (auto simp: enabled_rel_def)
qed

lemma rtrancl_image_step: "R\<^sup>* `` (A \<union> R `` A) = R\<^sup>* `` A"
  by (auto intro: converse_rtrancl_into_rtrancl)

lemma enables_fixpoint_get:
  "bt_get (enables_fixpoint flags m) k =
     (case bt_get m k of Some s \<Rightarrow> Some s
      | None \<Rightarrow> if k \<in> (enabled_rel flags)\<^sup>* `` set (bt_keys m) then Some {EnablesRule} else None)"
proof (induction flags m rule: enables_fixpoint.induct)
  case (1 flags m)
  let ?m' = "fst (enables_round flags m)" and ?R = "enabled_rel flags"
  have get: "bt_get ?m' k = (case bt_get m k of Some s \<Rightarrow> Some s
      | None \<Rightarrow> if k \<in> ?R `` set (bt_keys m) then Some {EnablesRule} else None)"
    unfolding enables_round_get by (cases "bt_get m k") (auto simp: enabled_rel_def)
  show ?case
  proof (cases "snd (enables_round flags m)")
    case True
    have eq: "bt_get (enables_fixpoint flags m) k = bt_get (enables_fixpoint flags ?m') k"
      using True by (subst enables_fixpoint.simps) simp
    have keys: "?R\<^sup>* `` set (bt_keys ?m') = ?R\<^sup>* `` set (bt_keys m)"
      by (simp add: enables_round_keys rtrancl_image_step)
    have "k \<in> ?R `` set (bt_keys m) \<Longrightarrow> k \<in> ?R\<^sup>* `` set (bt_keys m)" by auto
    then show ?thesis unfolding eq 1 [OF True] keys get by (cases "bt_get m k") auto
  next
    case False
    have eq: "bt_get (enables_fixpoint flags m) k = bt_get ?m' k"
      using False by (subst enables_fixpoint.simps) simp
    have "?R `` set (bt_keys m) \<subseteq> set (bt_keys m)"
      using False by (auto simp: enables_round_added enabled_rel_def bt_keys_get)
    then have keys: "?R\<^sup>* `` set (bt_keys m) = set (bt_keys m)"
      "?R `` set (bt_keys m) \<subseteq> set (bt_keys m)"
      by (simp_all add: Image_closed_trancl)
    have "k \<notin> set (bt_keys m)" if "bt_get m k = None" using that by (simp add: bt_keys_get)
    with keys(2) show ?thesis unfolding eq get keys(1) by (cases "bt_get m k") auto
  qed
qed

lemma active_flags_get:
  "bt_get (compute_dep_active_flags flags requested) k =
     (let d = k \<in> set (default_flags flags); r = k \<in> set (asked flags requested) in
      if d \<or> r then Some ((if d then {FromDefault} else {}) \<union> (if r then {EdgeRequest} else {}))
      else if k \<in> (enabled_rel flags)\<^sup>* `` set (default_flags flags @ asked flags requested)
      then Some {EnablesRule} else None)"
proof -
  let ?m = "request_sources flags requested (default_sources flags)"
  have keys: "set (bt_keys ?m) = set (default_flags flags @ asked flags requested)"
    by (auto simp: bt_keys_get request_sources_get default_sources_get split: if_splits)
  show ?thesis
    unfolding compute_dep_active_flags_def enables_fixpoint_get keys
    by (auto simp: request_sources_get default_sources_get bt_get_or_def Let_def)
qed

lemma flag_by_name_dom: "flag_by_name flags n \<noteq> None \<longleftrightarrow> n \<in> fd_name ` set flags"
  by (auto simp: flag_by_name_def map_of_eq_None_iff image_image)

lemma enables_by_name_flag: "enables_by_name flags n = map_option fd_enables_same_pkg (flag_by_name flags n)"
proof -
  have "map_of (map (\<lambda>fd. (fd_name fd, fd_enables_same_pkg fd)) fs) n =
    map_option fd_enables_same_pkg (map_of (map (\<lambda>fd. (fd_name fd, fd)) fs) n)" for fs
    by (induction fs) auto
  from this [of "rev flags"] show ?thesis by (simp add: enables_by_name_def flag_by_name_def rev_map)
qed

text \<open>Where every enabled name is declared, the two tables have the same edges.\<close>

lemma enabled_rel_declared:
  assumes "all_enabled flags \<subseteq> fd_name ` set flags"
  shows "enabled_rel flags = enables_rel flags"
proof -
  have "b \<in> set (enabled_names flags a) \<longleftrightarrow>
      (\<exists>ts. enables_by_name flags a = Some ts \<and> b \<in> set ts \<and> b \<in> fd_name ` set flags)" for a b
    using assms enabled_names_all [of flags a]
    by (cases "flag_by_name flags a") (auto simp: enables_by_name_flag enabled_names_def)
  then show ?thesis by (simp add: enabled_rel_def enables_rel_def)
qed

lemma active_flags_keys:
  "set (bt_keys (compute_dep_active_flags flags requested)) =
     (enabled_rel flags)\<^sup>* `` set (default_flags flags @ asked flags requested)" (is "_ = ?C")
proof (rule set_eqI)
  fix k
  have "k \<in> set (default_flags flags) \<or> k \<in> set (asked flags requested) \<Longrightarrow> k \<in> ?C" by auto
  then show "k \<in> set (bt_keys (compute_dep_active_flags flags requested)) \<longleftrightarrow> k \<in> ?C"
    by (auto simp: bt_keys_get [of k] active_flags_get Let_def simp del: set_append)
qed

lemma asked_iff:
  "k \<in> set (asked flags requested) \<longleftrightarrow>
     (\<exists>fr \<in> set requested. fr_enabled fr \<and> fr_name fr = k \<and> k \<in> fd_name ` set flags)"
  unfolding asked_def flag_by_name_dom by auto

text \<open>
  C25. The two implementations of flag activation agree.  For the declarations of an accepted
  manifest, the flags the resolver activates in a fetched package are exactly the closure of its
  default flags and the flags its consumers ask for; a default or requested flag keeps exactly
  these sources, and every other active flag is there by the \<open>enables\<close> rule alone.  Negative
  requests and requests for undeclared flags have no effect.
\<close>

theorem active_flags_closure:
  fixes requested :: "flag_request list"
  assumes "manifest_ok m"
  defines "seed \<equiv> default_flags (m_flags m) @
    map fr_name (filter (\<lambda>fr. fr_enabled fr \<and> fr_name fr \<in> fd_name ` set (m_flags m)) requested)"
  shows "set (bt_keys (compute_dep_active_flags (m_flags m) requested)) =
      flag_enables_closure (m_flags m) seed \<and>
    (\<forall>k s. bt_get (compute_dep_active_flags (m_flags m) requested) k = Some s \<longrightarrow>
       (FromDefault \<in> s \<longleftrightarrow> k \<in> set (default_flags (m_flags m))) \<and>
       (EdgeRequest \<in> s \<longleftrightarrow> (\<exists>fr \<in> set requested. fr_enabled fr \<and> fr_name fr = k \<and> k \<in> fd_name ` set (m_flags m))) \<and>
       (EnablesRule \<in> s \<longleftrightarrow> k \<notin> set seed) \<and> Cli \<notin> s)"
proof -
  have "all_enabled (m_flags m) \<subseteq> fd_name ` set (m_flags m)"
    using assms(1) by (auto simp: manifest_ok_def flag_refs_ok_def all_enabled_def Let_def)
  then have rel: "enabled_rel (m_flags m) = enables_rel (m_flags m)" by (rule enabled_rel_declared)
  have seed: "asked (m_flags m) requested =
      map fr_name (filter (\<lambda>fr. fr_enabled fr \<and> fr_name fr \<in> fd_name ` set (m_flags m)) requested)"
    unfolding asked_def flag_by_name_dom ..
  show ?thesis
    unfolding closure_reachable rel [symmetric] seed_def seed [symmetric] active_flags_keys
    unfolding active_flags_get asked_iff [symmetric] by (auto simp: Let_def split: if_splits)
qed

theorem active_flags_closure_witness:
  "case parse_manifest sample_kdl ''sample'' of Inl e \<Rightarrow> False
   | Inr m \<Rightarrow> set (bt_keys (compute_dep_active_flags (m_flags m) [])) =
       flag_enables_closure (m_flags m) (default_flags (m_flags m))"
proof -
  obtain m where m: "parse_manifest sample_kdl ''sample'' = Inr m"
    using sample_parsed by (cases "parse_manifest sample_kdl ''sample''") auto
  then have "manifest_ok m" by (simp add: parse_manifest_def rbind_Inr parse_manifest_doc_ok) (metis parse_manifest_doc_ok)
  from active_flags_closure [OF this, of "[]"] m show ?thesis by simp
qed

lemma conflict_pairs_iff:
  "(f, g) \<in> set (conflict_pairs flags active) \<longleftrightarrow>
     f \<in> set (bt_keys active) \<and> (\<exists>fd. flag_by_name flags f = Some fd \<and> g \<in> set (fd_conflicts fd))"
proof -
  have "(f, g) \<in> set (case flag_by_name flags n of None \<Rightarrow> [] | Some fd \<Rightarrow> map (\<lambda>c. (n, c)) (fd_conflicts fd)) \<longleftrightarrow>
      n = f \<and> (\<exists>fd. flag_by_name flags f = Some fd \<and> g \<in> set (fd_conflicts fd))" for n
    by (cases "flag_by_name flags n") auto
  then show ?thesis by (simp add: conflict_pairs_def)
qed

definition conflicting :: "flag_decl list \<Rightarrow> active_map \<Rightarrow> string \<Rightarrow> string \<Rightarrow> bool" where
  "conflicting flags active f g \<longleftrightarrow>
     f \<in> set (bt_keys active) \<and> g \<in> set (bt_keys active) \<and>
     (\<exists>fd. flag_by_name flags f = Some fd \<and> g \<in> set (fd_conflicts fd))"

lemma conflicting_iff:
  "conflicting flags active f g \<longleftrightarrow>
     (f, g) \<in> set (conflict_pairs flags active) \<and> bt_get active g \<noteq> None"
  by (auto simp: conflicting_def conflict_pairs_iff bt_keys_get [of g])

lemma first_conflict_None: "first_conflict flags active = None \<longleftrightarrow> (\<forall>f g. \<not> conflicting flags active f g)"
  by (force simp: first_conflict_def find_None_iff conflicting_iff)

lemma first_conflict_Some:
  assumes "first_conflict flags active = Some (f, g)"
  shows "conflicting flags active f g"
proof -
  from assms obtain i where "i < length (conflict_pairs flags active)"
    "bt_get active (snd (conflict_pairs flags active ! i)) \<noteq> None" "(f, g) = conflict_pairs flags active ! i"
    by (auto simp: first_conflict_def find_Some_iff)
  then show ?thesis unfolding conflicting_iff by (metis nth_mem snd_conv)
qed

text \<open>
  Conflicts are found exactly when there are any, from whichever side they are declared: the
  check passes if and only if no active flag, being declared, lists an active flag.  A reported
  pair is such a pair in alphabetical order.
\<close>

theorem flag_conflicts_exact:
  "(raise_if_flag_conflicts dep flags active = Inr () \<longleftrightarrow>
     (\<forall>f \<in> set (bt_keys active). \<forall>g \<in> set (bt_keys active). \<forall>fd.
        flag_by_name flags f = Some fd \<longrightarrow> g \<notin> set (fd_conflicts fd))) \<and>
   (raise_if_flag_conflicts dep flags active = Inl e \<longrightarrow>
     fc_flag_a e \<le> fc_flag_b e \<and>
     (conflicting flags active (fc_flag_a e) (fc_flag_b e) \<or>
      conflicting flags active (fc_flag_b e) (fc_flag_a e)))"
proof (cases "first_conflict flags active")
  case None
  then have "raise_if_flag_conflicts dep flags active = Inr ()" by (simp add: raise_if_flag_conflicts_def)
  with None show ?thesis unfolding first_conflict_None conflicting_def by auto
next
  case (Some fg)
  obtain f g where fg: "fg = (f, g)" by (cases fg)
  have c: "conflicting flags active f g" using Some fg by (simp add: first_conflict_Some)
  have "raise_if_flag_conflicts dep flags active \<noteq> Inr ()"
    "raise_if_flag_conflicts dep flags active = Inl e \<Longrightarrow>
       {fc_flag_a e, fc_flag_b e} = {f, g} \<and> fc_flag_a e \<le> fc_flag_b e \<and>
       (fc_flag_a e = f \<and> fc_flag_b e = g \<or> fc_flag_a e = g \<and> fc_flag_b e = f)"
    using Some fg by (auto simp: raise_if_flag_conflicts_def split: if_splits)
  with c show ?thesis unfolding conflicting_def by auto
qed

theorem flag_conflicts_exact_witness:
  "raise_if_flag_conflicts ''p'' [auto_flag ''b'', (auto_flag ''a'')\<lparr>fd_conflicts := [''b'']\<rparr>]
     [(''a'', {Cli}), (''b'', {EnablesRule})] \<noteq> Inr ()"
  using flag_conflicts_exact [of "''p''" "[auto_flag ''b'', (auto_flag ''a'')\<lparr>fd_conflicts := [''b'']\<rparr>]"
      "[(''a'', {Cli}), (''b'', {EnablesRule})]" undefined]
  by (simp add: bt_keys_def flag_by_name_def auto_flag_def)

subsection \<open>Conditional dependencies\<close>

lemma closure_Nil [simp]: "flag_enables_closure flags [] = {}"
  by (simp add: closure_reachable)

text \<open>With a profile, the live path and the lockfile check start from the same seed.\<close>

lemma filter_with_profile:
  "filter_manifest m (filter_ctx_build m (Some p) so) =
     filter_deps (\<lambda>d. profile_gate (Some p) d \<and> dep_passes_flag_predicates d
       (flag_enables_closure (m_flags m) (case so of Some s \<Rightarrow> s | None \<Rightarrow> default_flags (m_flags m)))) m"
  by (cases "(case so of Some s \<Rightarrow> s | None \<Rightarrow> default_flags (m_flags m)) = []")
    (simp_all add: filter_manifest_def filter_ctx_build_def Let_def)

lemma effective_root_filter:
  assumes "effective_root_manifest m (Some p) features nd all = Inr m'"
    "feature_seed (m_flags m) features nd all = Inr seed"
  shows "m' = filter_deps (\<lambda>d. profile_gate (Some p) d \<and>
    dep_passes_flag_predicates d (flag_enables_closure (m_flags m) seed)) m"
proof (cases "has_cli_features features nd all")
  case True
  with assms show ?thesis
    by (auto simp: effective_root_manifest_def rbind_Inr filter_with_profile)
next
  case False
  with assms(2) have "seed = default_flags (m_flags m)"
    by (auto simp: has_cli_features_def feature_seed_def)
  with False assms(1) show ?thesis
    by (auto simp: effective_root_manifest_def rbind_Inr filter_with_profile)
qed

text \<open>
  C26. Conditional dependencies.  Under a profile the dependencies handed to the solver are those of
  the manifest whose profile predicates all hold and whose flag predicates hold for the closure
  of the selected flags.  In an accepted manifest an optional dependency is therefore left out
  unless its own flag is in that closure: selected, on by default, or enabled by such a flag.
\<close>

theorem conditional_deps:
  assumes "effective_root_manifest m (Some p) features nd all = Inr m'"
    "feature_seed (m_flags m) features nd all = Inr seed"
  shows "(\<forall>d. d \<in> set (m_deps m') \<longleftrightarrow> d \<in> set (m_deps m) \<and>
      (\<forall>q \<in> set (dep_predicates d). if pr_name q = ''flag''
         then flag_pred_satisfied (flag_enables_closure (m_flags m) seed) q
         else predicate_satisfied_profile_only q p)) \<and>
    (manifest_ok m \<longrightarrow> (\<forall>d \<in> set (m_deps m' @ m_dev_deps m'). dep_optional d \<longrightarrow>
       dep_nm d \<in> flag_enables_closure (m_flags m) seed))"
proof -
  note m' = effective_root_filter [OF assms]
  have "dep_nm d \<in> flag_enables_closure (m_flags m) seed"
    if "manifest_ok m" "d \<in> set (m_deps m' @ m_dev_deps m')" "dep_optional d" for d
  proof -
    from that(2) m' have "d \<in> set (m_deps m @ m_dev_deps m)"
      "dep_passes_flag_predicates d (flag_enables_closure (m_flags m) seed)" by (auto simp: filter_deps_def)
    moreover from this(1) that have "gate_pred (dep_nm d) \<in> set (dep_predicates d)"
      by (auto simp: manifest_ok_def optional_ok_def)
    ultimately have "flag_pred_satisfied (flag_enables_closure (m_flags m) seed) (gate_pred (dep_nm d))"
      by (auto simp: dep_passes_flag_predicates_def list_all_iff gate_pred_def)
    then show ?thesis by (simp add: flag_pred_satisfied_def gate_pred_def)
  qed
  then show ?thesis
    by (auto simp: m' filter_deps_def profile_gate_def dep_passes_flag_predicates_def list_all_iff)
qed

definition linux :: profile where
  "linux = \<lparr>pf_platform = Some ''linux'', pf_arch = None, pf_nim_version = None,
     pf_milpa_version = None, pf_flags = []\<rparr>"

theorem conditional_deps_witness:
  "\<exists>m m'. manifest_ok m \<and> [d \<leftarrow> m_deps m. dep_optional d] \<noteq> [] \<and>
     effective_root_manifest m (Some linux) [] False False = Inr m' \<and>
     (\<forall>d \<in> set (m_deps m' @ m_dev_deps m'). dep_optional d \<longrightarrow>
       dep_nm d \<in> flag_enables_closure (m_flags m) (default_flags (m_flags m)))"
proof -
  obtain m where m: "parse_manifest sample_kdl ''sample'' = Inr m"
    using sample_parsed by (cases "parse_manifest sample_kdl ''sample''") auto
  have ok: "manifest_ok m" using m parse_manifest_doc_ok by (auto simp: parse_manifest_def rbind_Inr)
  have "case parse_manifest sample_kdl ''sample'' of Inl e \<Rightarrow> False | Inr m \<Rightarrow> [d \<leftarrow> m_deps m. dep_optional d] \<noteq> []"
    by code_simp
  with m have ne: "[d \<leftarrow> m_deps m. dep_optional d] \<noteq> []" by simp
  obtain m' where m': "effective_root_manifest m (Some linux) [] False False = Inr m'"
    by (simp add: effective_root_manifest_def has_cli_features_def)
  have "feature_seed (m_flags m) [] False False = Inr (default_flags (m_flags m))"
    by (simp add: feature_seed_def)
  from conditional_deps [OF m' this] ok ne m' show ?thesis by blast
qed

text \<open>
  The lockfile check against the command line's selection.  Take a lockfile that records, of
  the flag-gated dependencies, exactly those the live path hands to the solver under a profile.
  The check accepts it if and only if every flag-gated dependency whose flags are on also
  satisfies its profile predicates: the check evaluates flag predicates only, so an unchanged
  project with a dependency gated by a flag and by another platform is reported as a mismatch.
\<close>

theorem frozen_flags_check:
  assumes "effective_root_manifest m (Some p) features nd all = Inr m'"
    "feature_seed (m_flags m) features nd all = Inr seed"
    "\<forall>d \<in> set (m_deps m). has_flag_pred d \<longrightarrow>
       (dep_nm d \<in> ld_name ` set (lf_deps lock) \<longleftrightarrow> d \<in> set (m_deps m'))"
  shows "check_frozen_active_flags_mismatch m lock features nd all = Inr () \<longleftrightarrow>
    (\<forall>d \<in> set (m_deps m). has_flag_pred d \<longrightarrow>
       dep_passes_flag_predicates d (flag_enables_closure (m_flags m) seed) \<longrightarrow> profile_gate (Some p) d)"
  using assms(2,3) unfolding check_frozen_active_flags_mismatch_def flags_mismatch_def
    effective_root_filter [OF assms(1,2)] filter_deps_def
  by (auto simp: list_ex_iff)

text \<open>A dependency for another platform behind a flag that is on by default.\<close>

definition gated_elsewhere :: "string \<Rightarrow> manifest" where
  "gated_elsewhere plat = manifest_init
     \<lparr>m_name := Some ''app'', m_flags := [(auto_flag ''tls'')\<lparr>fd_default := True\<rparr>],
      m_deps := [DLocal \<lparr>lcd_name = ''ssl'', lcd_path = ''../ssl'', lcd_predicates =
        [\<lparr>pr_name = ''platform'', pr_values = [plat], pr_negated = False\<rparr>, gate_pred ''tls''],
        lcd_version = None\<rparr>]\<rparr>"

lemma gated_elsewhere_effective:
  "effective_root_manifest (gated_elsewhere ''windows'') (Some linux) [] False False =
     Inr ((gated_elsewhere ''windows'')\<lparr>m_deps := []\<rparr>)"
  by (simp add: effective_root_manifest_def has_cli_features_def filter_manifest_def filter_ctx_build_def
      filter_deps_def gated_elsewhere_def manifest_init_def profile_gate_def linux_def axis_match_def
      predicate_satisfied_profile_only_def default_flags_def auto_flag_def)

theorem frozen_flags_check_witness:
  "manifest_ok (gated_elsewhere ''windows'') \<and>
   check_frozen_active_flags_mismatch (gated_elsewhere ''windows'') lockfile_default [] False False =
     Inl (Slug ''FROZEN-ACTIVE-FLAGS-MISMATCH'')"
proof -
  let ?m = "gated_elsewhere ''windows''"
  have seed: "feature_seed (m_flags ?m) [] False False = Inr [''tls'']"
    by (simp add: feature_seed_def default_flags_def gated_elsewhere_def auto_flag_def)
  have d: "\<exists>d \<in> set (m_deps ?m). has_flag_pred d \<and> \<not> profile_gate (Some linux) d \<and>
      dep_passes_flag_predicates d (flag_enables_closure (m_flags ?m) [''tls''])"
    by (auto simp: gated_elsewhere_def has_flag_pred_def gate_pred_def profile_gate_def linux_def axis_match_def
        predicate_satisfied_profile_only_def dep_passes_flag_predicates_def flag_pred_satisfied_def
        closure_reachable)
  have "check_frozen_active_flags_mismatch ?m lockfile_default [] False False \<noteq> Inr ()"
    using frozen_flags_check [OF gated_elsewhere_effective seed, of lockfile_default] d
    by (auto simp: lockfile_default_def)
  moreover have "manifest_ok ?m"
    by (simp add: manifest_ok_def gated_elsewhere_def manifest_init_def VALID_KINDS_def
        MANIFEST_SPEC_VERSION_def dep_list_ok_def override_list_ok_def flag_list_ok_def flag_ok_def
        auto_flag_def valid_flag_name_def is_alnum_def is_alpha_def flag_refs_ok_def optional_ok_def gate_pred_def)
  ultimately show ?thesis
    using seed by (auto simp: check_frozen_active_flags_mismatch_def split: if_splits)
qed

subsection \<open>Trust policies and attestation\<close>

definition strength :: "trust_policy \<Rightarrow> nat" where
  "strength p = (case p of Off \<Rightarrow> 0 | Warn \<Rightarrow> 1 | Strict \<Rightarrow> 2)"

text \<open>
  Only the manifest can switch a trust policy off, and flag and environment can only make it
  stricter: the effective policy is off exactly when the manifest's is, it is never weaker than
  the manifest's, and otherwise it is strict as soon as one of the three asks for it.
\<close>

theorem trust_policy_strengthens:
  "(effective_trust_policy p flag env = Off \<longleftrightarrow> p = Off) \<and>
   strength p \<le> strength (effective_trust_policy p flag env) \<and>
   (effective_trust_policy p flag env = Strict \<longleftrightarrow> p \<noteq> Off \<and> (flag \<or> p = Strict \<or> env = Some Strict))"
  by (cases p; cases env; cases "the env") (auto simp: effective_trust_policy_def strength_def)

lemma nimble_fallback_names_iff:
  "n \<in> set (nimble_fallback_names discovery br cache) \<longleftrightarrow>
     (\<exists>sid v es. ((sid, v), es) \<in> set cache \<and> es_source es = NimbleFallback \<and>
        name_by_source_id discovery br sid = Some n \<and> n \<noteq> ''__root__'')"
  by (force simp: nimble_fallback_names_def split: option.splits if_splits)

text \<open>
  Under a strict attestation policy a resolution is refused exactly when the edges of some
  discovered package came from an unattested \<^verbatim>\<open>.nimble\<close> file.
\<close>

theorem attestation_enforced:
  "enforce_attestation_policy discovery br cache m require = Inl ''RES-UNATTESTED-METADATA'' \<longleftrightarrow>
     m_attestation_policy m \<noteq> Off \<and> (m_attestation_policy m = Strict \<or> require) \<and>
     (\<exists>sid v es n. ((sid, v), es) \<in> set cache \<and> es_source es = NimbleFallback \<and>
        name_by_source_id discovery br sid = Some n \<and> n \<noteq> ''__root__'')"
proof -
  have "nimble_fallback_names discovery br cache \<noteq> [] \<longleftrightarrow>
      (\<exists>sid v es n. ((sid, v), es) \<in> set cache \<and> es_source es = NimbleFallback \<and>
        name_by_source_id discovery br sid = Some n \<and> n \<noteq> ''__root__'')"
    unfolding set_empty [symmetric] ex_in_conv [symmetric] nimble_fallback_names_iff by blast
  moreover have "effective_trust_policy (m_attestation_policy m) require None = Strict \<longleftrightarrow>
      m_attestation_policy m \<noteq> Off \<and> (m_attestation_policy m = Strict \<or> require)"
    by (cases "m_attestation_policy m") (auto simp: effective_trust_policy_def)
  ultimately show ?thesis
    unfolding enforce_attestation_policy_def enforce_attestation_policy_strict_def by auto
qed

end
