(* ===== verification/CaStore.thy ===== *)
theory CaStore
  imports DagIdentity "HOL-Library.AList" "HOL-Library.Sublist"
begin

text \<open>
  The content-addressed store of \<^verbatim>\<open>milpa-core/src/store.rs\<close>.  A store is the directory listing below
  its root: per algorithm directory its named entries, each a file tree.  Only directories are in
  the listing.  System calls that fail for other reasons than the state of the store are not
  modelled; the window between the check and the rename of \<^verbatim>\<open>admit\<close> is, by the store as another process
  may have left it.  Paths are lists of components.
\<close>

subsection \<open>Layout and lookup\<close>

type_synonym cas = "(string \<times> (string \<times> fs_node) list) list"

definition cas_get :: "cas \<Rightarrow> string \<times> string \<Rightarrow> fs_node option" where
  "cas_get st p = Option.bind (map_of st (fst p)) (\<lambda>hs. map_of hs (snd p))"

definition path_for :: "string \<Rightarrow> string + string \<times> string" where
  "path_for identity = parse_identity identity"

definition contains :: "cas \<Rightarrow> string \<Rightarrow> string + bool" where
  "contains st identity = rbind (path_for identity) (\<lambda>p. Inr (cas_get st p \<noteq> None))"

definition scratch_name :: "string \<Rightarrow> bool" where
  "scratch_name n \<longleftrightarrow> starts_with ''_'' n"

definition list_identities :: "cas \<Rightarrow> string list" where
  "list_identities st =
     sort (concat (map (\<lambda>(algo, hs).
       if scratch_name algo then []
       else map (\<lambda>(hex, t). algo @ '':'' @ hex) (filter (\<lambda>(hex, t). \<not> scratch_name hex) hs)) st))"

text \<open>The hexadecimal part of a prefix and of an identity: what follows the first colon.\<close>

definition hex_part :: "string \<Rightarrow> string" where
  "hex_part pfx = (case split_once CHR '':'' pfx of Some (a, h) \<Rightarrow> h | None \<Rightarrow> pfx)"

definition identity_hex :: "string \<Rightarrow> string option" where
  "identity_hex i = map_option snd (split_once CHR '':'' i)"

definition unique_match :: "string list \<Rightarrow> string + string" where
  "unique_match matches =
     (case matches of [i] \<Rightarrow> Inr i | [] \<Rightarrow> Inl ''CAS-NOT-IN-STORE'' | _ \<Rightarrow> Inl ''STORE-AMBIGUOUS-PREFIX'')"

definition resolve_prefix :: "cas \<Rightarrow> string \<Rightarrow> string + string" where
  "resolve_prefix st pfx =
     (let h = hex_part pfx in
      if length h = 64 then
        (if CHR '':'' \<in> set pfx then
           rbind (path_for pfx) (\<lambda>p.
           if cas_get st p \<noteq> None then Inr pfx else Inl ''CAS-NOT-IN-STORE'')
         else unique_match (filter (\<lambda>i. identity_hex i = Some h) (list_identities st)))
      else if length h < 16 then Inl ''STORE-AMBIGUOUS-PREFIX''
      else unique_match (filter (\<lambda>i. case identity_hex i of None \<Rightarrow> False | Some x \<Rightarrow> starts_with h x)
             (list_identities st)))"

subsection \<open>Admission\<close>

definition cas_put :: "cas \<Rightarrow> string \<times> string \<Rightarrow> fs_node \<Rightarrow> cas" where
  "cas_put st p t =
     AList.update (fst p)
       (AList.update (snd p) t (case map_of st (fst p) of Some hs \<Rightarrow> hs | None \<Rightarrow> [])) st"

text \<open>
  \<open>st\<close> is the store at the check, \<open>st'\<close> at the rename.  A rename onto an existing entry fails and
  is taken for a hit.  The result is the store left behind and the path of the entry.
\<close>

definition admit_inner ::
  "(string \<Rightarrow> bool) \<Rightarrow> (string \<Rightarrow> string) \<Rightarrow> cas \<Rightarrow> cas \<Rightarrow> fs_node \<Rightarrow> string \<Rightarrow> string option \<Rightarrow>
   string + cas \<times> string \<times> string" where
  "admit_inner utf8 H st st' src identity precomputed_hash =
     rbind (case precomputed_hash of Some h \<Rightarrow> Inr h | None \<Rightarrow> compute_content_hash utf8 H src) (\<lambda>actual.
     if actual \<noteq> identity then Inl ''CAS-IDENTITY-MISMATCH''
     else
       rbind (path_for identity) (\<lambda>p.
       if cas_get st p \<noteq> None then Inr (st', p)
       else if cas_get st' p \<noteq> None then Inr (st', p)
       else Inr (cas_put st' p src, p)))"

definition admit ::
  "(string \<Rightarrow> bool) \<Rightarrow> (string \<Rightarrow> string) \<Rightarrow> cas \<Rightarrow> cas \<Rightarrow> fs_node \<Rightarrow> string \<Rightarrow> string + cas \<times> string \<times> string" where
  "admit utf8 H st st' src identity = admit_inner utf8 H st st' src identity None"

definition admit_with_hash ::
  "(string \<Rightarrow> bool) \<Rightarrow> (string \<Rightarrow> string) \<Rightarrow> cas \<Rightarrow> cas \<Rightarrow> fs_node \<Rightarrow> string \<Rightarrow> string \<Rightarrow>
   string + cas \<times> string \<times> string" where
  "admit_with_hash utf8 H st st' src identity precomputed_hash =
     admit_inner utf8 H st st' src identity (Some precomputed_hash)"

subsection \<open>Links\<close>

text \<open>The length of the common prefix, and the path from a directory to a target.\<close>

fun common :: "string list \<Rightarrow> string list \<Rightarrow> nat" where
  "common (a # f) (b # g) = (if a = b then Suc (common f g) else 0)"
| "common _ _ = 0"

definition relpath :: "string list \<Rightarrow> string list \<Rightarrow> string list" where
  "relpath dest base =
     (let c = common dest base;
          out = replicate (length base - c) ''..'' @ drop c dest
      in if out = [] then [''.''] else out)"

text \<open>What stands at a path that may be replaced by a link, and what a link stores.\<close>

datatype place = PlaceLink "string list" | PlaceFile | PlaceDir

type_synonym places = "string list \<Rightarrow> place option"

definition clear_dest :: "places \<Rightarrow> string list \<Rightarrow> places" where
  "clear_dest fs dest = (\<lambda>q. if prefix dest q then None else fs q)"

text \<open>\<^verbatim>\<open>create_dir_all\<close>: what is missing on the way down becomes a directory.\<close>

definition create_dirs :: "places \<Rightarrow> string list \<Rightarrow> places" where
  "create_dirs fs p = (\<lambda>q. if q \<noteq> [] \<and> prefix q p \<and> fs q = None then Some PlaceDir else fs q)"

definition link :: "string list \<Rightarrow> cas \<Rightarrow> places \<Rightarrow> string \<Rightarrow> string list \<Rightarrow> string + places" where
  "link root st fs identity target =
     rbind (path_for identity) (\<lambda>p.
     if cas_get st p = None then Inl ''CAS-NOT-IN-STORE''
     else Inr ((create_dirs (clear_dest fs target) (butlast target))
       (target \<mapsto> PlaceLink (relpath (root @ [fst p, snd p]) (butlast target)))))"

text \<open>Where the kernel ends up: a parent step leaves the directory reached so far.\<close>

fun follow :: "string list \<Rightarrow> string list \<Rightarrow> string list" where
  "follow at [] = at"
| "follow at (c # cs) =
     (if c = ''..'' then follow (butlast at) cs
      else if c = ''.'' then follow at cs
      else follow (at @ [c]) cs)"

subsection \<open>The root of the store\<close>

text \<open>Environment variables, and the directory below which each of them puts the store.\<close>

definition default_store :: "(string \<Rightarrow> string option) \<Rightarrow> string \<times> string list" where
  "default_store env =
     (case env ''MILPA_CACHE_DIR'' of
        Some (d # ds) \<Rightarrow> (d # ds, [])
      | _ \<Rightarrow>
          (case env ''XDG_CACHE_HOME'' of
             Some (x # xs) \<Rightarrow> (x # xs, [''milpa'', ''cas''])
           | _ \<Rightarrow>
               (case env ''HOME'' of Some h \<Rightarrow> h | None \<Rightarrow> ''.'', [''.cache'', ''milpa'', ''cas''])))"

subsection \<open>Facts\<close>

lemma cas_get_put: "cas_get (cas_put st p t) q = (if q = p then Some t else cas_get st q)"
  by (cases p; cases q) (auto simp: cas_get_def cas_put_def update_conv' split: option.splits)

text \<open>Every entry holds a tree whose hash is the entry's identity.\<close>

definition cas_ok :: "(string \<Rightarrow> bool) \<Rightarrow> (string \<Rightarrow> string) \<Rightarrow> cas \<Rightarrow> bool" where
  "cas_ok utf8 H st \<longleftrightarrow>
     (\<forall>i p t. parse_identity i = Inr p \<longrightarrow> cas_get st p = Some t \<longrightarrow> compute_content_hash utf8 H t = Inr i)"

lemma parse_identity_text: "parse_identity i = Inr (a, h) \<Longrightarrow> i = a @ '':'' @ h"
  by (auto simp: parse_identity_def split_identity_scheme_def rbind_Inr split_once_Some
      split: option.splits if_splits)

lemma parse_identity_inj: "parse_identity i = Inr p \<Longrightarrow> parse_identity j = Inr p \<Longrightarrow> i = j"
  using parse_identity_text by (cases p) metis

text \<open>
  C27. Integrity of the content-addressed store.  If every entry hashes to its identity, then after
  an admission every entry still does, whatever another process admitted in between; the admitted
  identity is present and no entry present before is replaced or lost.  A caller that passes a
  hash it has computed itself must pass the hash of the tree.
\<close>

theorem store_integrity:
  assumes "admit_inner utf8 H st st' src identity pre = Inr (st'', p)"
    "cas_ok utf8 H st'" "\<forall>q t. cas_get st q = Some t \<longrightarrow> cas_get st' q = Some t"
    "\<forall>h. pre = Some h \<longrightarrow> compute_content_hash utf8 H src = Inr h"
  shows "cas_ok utf8 H st'' \<and> contains st'' identity = Inr True \<and> path_for identity = Inr p \<and>
    (\<forall>q t. cas_get st' q = Some t \<longrightarrow> cas_get st'' q = Some t)"
proof -
  have p: "parse_identity identity = Inr p" and h: "compute_content_hash utf8 H src = Inr identity"
    using assms(1,4) by (auto simp: admit_inner_def path_for_def rbind_Inr split: if_splits option.splits)
  have kept: "cas_get st' p \<noteq> None" if "cas_get st p \<noteq> None" using assms(3) that by (cases p) auto
  have step: "st'' = (if cas_get st' p \<noteq> None then st' else cas_put st' p src)"
    using assms(1) p kept by (cases "cas_get st p"; cases "cas_get st' p") (auto simp: admit_inner_def path_for_def rbind_Inr split: if_splits)
  then consider "st'' = st'" "cas_get st' p \<noteq> None" | "cas_get st' p = None" "st'' = cas_put st' p src"
    by (auto split: if_splits)
  then show ?thesis
  proof cases
    case 1
    with p assms(2) show ?thesis by (auto simp: contains_def path_for_def)
  next
    case 2
    have "cas_ok utf8 H st''"
      using assms(2) h parse_identity_inj [OF p] unfolding cas_ok_def 2(2) cas_get_put by auto
    with 2 p show ?thesis by (auto simp: contains_def path_for_def cas_get_put)
  qed
qed

theorem store_integrity_witness:
  "\<exists>i st p. admit (\<lambda>_. True) pad_hash [] [] (FDir [(''a'', FFile False ''x'')]) i = Inr (st, p) \<and>
     cas_ok (\<lambda>_. True) pad_hash st \<and> contains st i = Inr True"
proof -
  let ?t = "FDir [(''a'', FFile False ''x'')]"
  let ?e = "[demo_entry MODE_REGULAR CHR ''x'']"
  have "compute_content_hash (\<lambda>_. True) pad_hash ?t = compute_dag_identity pad_hash ?e"
    by (simp add: compute_content_hash_def join_path_def demo_entry_def)
  moreover have "list_all blob_entry ?e" "list_all names_ok ?e"
    by (simp_all add: blob_entry_def demo_entry_def names_ok_def name_ok_def NAME_BYTE_CEILING_def)
  ultimately obtain i p where
    i: "compute_content_hash (\<lambda>_. True) pad_hash ?t = Inr i" "parse_identity i = Inr p"
    using dag_identity_result [of ?e pad_hash] length_pad_hash by auto
  then have a: "admit_inner (\<lambda>_. True) pad_hash [] [] ?t i None = Inr (cas_put [] p ?t, p)"
    by (simp add: admit_inner_def path_for_def cas_get_def)
  show ?thesis
  proof -
    have "cas_ok (\<lambda>_. True) pad_hash []" by (simp add: cas_ok_def cas_get_def)
    from store_integrity [OF a this] a show ?thesis unfolding admit_def by (cases p) force
  qed
qed

lemma unique_match_Inr: "unique_match ms = Inr i \<longleftrightarrow> ms = [i]"
  by (auto simp: unique_match_def split: list.splits)

definition hex_matches :: "string \<Rightarrow> string \<Rightarrow> bool" where
  "hex_matches h i \<longleftrightarrow> (case identity_hex i of None \<Rightarrow> False | Some x \<Rightarrow> starts_with h x)"

text \<open>
  A prefix that resolves without naming an algorithm has at least 16 digits and names the one
  identity of the store that begins with them.  The algorithm in front of a shorter prefix is not
  looked at: any text there gives the same answer.
\<close>

theorem prefix_resolution:
  assumes "CHR '':'' \<notin> set h" "CHR '':'' \<notin> set a" "length h \<noteq> 64"
  shows "(resolve_prefix st h = Inr i \<longleftrightarrow>
      16 \<le> length h \<and> [j \<leftarrow> list_identities st. hex_matches h j] = [i]) \<and>
    resolve_prefix st (a @ '':'' @ h) = resolve_prefix st h"
proof -
  have "hex_part h = h" "hex_part (a @ '':'' @ h) = h"
    using assms split_once_append [of "CHR '':''" a h] by (auto simp: hex_part_def split_once_None [THEN iffD2])
  with assms(3) show ?thesis
    by (auto simp: resolve_prefix_def Let_def unique_match_Inr hex_matches_def)
qed

theorem prefix_resolution_witness:
  "resolve_prefix [(''dag-sha256'', [(replicate 64 CHR ''a'', FDir [])])] (''sha1:'' @ replicate 16 CHR ''a'') =
     Inr (''dag-sha256:'' @ replicate 64 CHR ''a'')"
proof -
  let ?st = "[(''dag-sha256'', [(replicate 64 CHR ''a'', FDir [])])]"
  have "[j \<leftarrow> list_identities ?st. hex_matches (replicate 16 CHR ''a'') j] =
      [''dag-sha256:'' @ replicate 64 CHR ''a'']"
    by code_simp
  then show ?thesis
    using prefix_resolution [of "replicate 16 CHR ''a''" "''sha1''" ?st "''dag-sha256:'' @ replicate 64 CHR ''a''"]
    by simp
qed

lemma common_le: "common f b \<le> length f" "common f b \<le> length b" "take (common f b) f = take (common f b) b"
  by (induction f b rule: common.induct) auto

lemma follow_names: "''..'' \<notin> set cs \<Longrightarrow> ''.'' \<notin> set cs \<Longrightarrow> follow at cs = at @ cs"
  by (induction cs arbitrary: at) auto

lemma follow_up: "n \<le> length at \<Longrightarrow> follow at (replicate n ''..'' @ cs) = follow (take (length at - n) at) cs"
proof (induction n arbitrary: at)
  case (Suc n)
  then have "follow at (replicate (Suc n) ''..'' @ cs) = follow (take (length (butlast at) - n) (butlast at)) cs"
    by simp
  also have "take (length (butlast at) - n) (butlast at) = take (length at - Suc n) at"
    by (simp add: butlast_conv_take)
  finally show ?case .
qed simp

lemma relpath_follow:
  assumes "''..'' \<notin> set dest" "''.'' \<notin> set dest"
  shows "follow base (relpath dest base) = dest"
proof -
  let ?c = "common dest base"
  have "follow base (replicate (length base - ?c) ''..'' @ drop ?c dest) = dest"
  proof -
    have "''..'' \<notin> set (drop ?c dest)" "''.'' \<notin> set (drop ?c dest)"
      using assms by (auto dest: in_set_dropD)
    then show ?thesis
      using common_le [of dest base] by (subst follow_up) (simp_all add: follow_names, metis append_take_drop_id)
  qed
  then show ?thesis by (auto simp: relpath_def Let_def)
qed

lemma link_Inr:
  assumes "link root st fs identity target = Inr fs'" "list_all (\<lambda>c. c \<noteq> ''..'' \<and> c \<noteq> ''.'') root"
  shows "\<exists>a h rel. path_for identity = Inr (a, h) \<and> contains st identity = Inr True \<and>
    fs' target = Some (PlaceLink rel) \<and> follow (butlast target) rel = root @ [a, h] \<and>
    (\<forall>q. \<not> prefix target q \<longrightarrow> fs q \<noteq> None \<or> \<not> prefix q target \<longrightarrow> fs' q = fs q)"
proof -
  from assms(1) obtain a h where ah: "path_for identity = Inr (a, h)" "cas_get st (a, h) \<noteq> None"
    and fs': "fs' = (create_dirs (clear_dest fs target) (butlast target))
      (target \<mapsto> PlaceLink (relpath (root @ [a, h]) (butlast target)))"
    by (auto simp: link_def rbind_Inr split: if_splits)
  have "a = ''dag-sha256''" "list_all is_lower_hex h"
    using ah(1) by (auto simp: path_for_def parse_identity_def rbind_Inr SUPPORTED_ALGORITHMS_def
        split: option.splits if_splits)
  moreover have "h \<noteq> ''..''" "h \<noteq> ''.''"
    using calculation(2) by (auto simp: is_lower_hex_def is_digit_def)
  ultimately have "''..'' \<notin> set (root @ [a, h])" "''.'' \<notin> set (root @ [a, h])"
    using assms(2) by (auto simp: list_all_iff)
  note rel = relpath_follow [OF this]
  have "fs' q = fs q" if "\<not> prefix target q" "fs q \<noteq> None \<or> \<not> prefix q target" for q
    using that prefix_order.trans [OF _ prefixeq_butlast, of q target]
    by (auto simp: fs' create_dirs_def clear_dest_def)
  with rel ah fs' show ?thesis by (auto simp: contains_def)
qed

text \<open>
  A link never dangles: it is made only for an identity that is in the store, and read from the
  directory that holds it, its relative target is the entry of the identity.  Below the target nothing
  is left; of the other paths only missing parent directories of the target change.
\<close>

theorem link_resolves:
  assumes "link root st fs identity target = Inr fs'" "list_all (\<lambda>c. c \<noteq> ''..'' \<and> c \<noteq> ''.'') root"
  shows "\<exists>a h rel. path_for identity = Inr (a, h) \<and> contains st identity = Inr True \<and>
    fs' target = Some (PlaceLink rel) \<and> follow (butlast target) rel = root @ [a, h] \<and>
    (\<forall>q. \<not> prefix target q \<longrightarrow> fs q \<noteq> None \<or> \<not> prefix q target \<longrightarrow> fs' q = fs q)"
  using assms by (rule link_Inr)

theorem link_resolves_witness:
  "\<exists>fs' rel. link [''cas''] [(''dag-sha256'', [(replicate 64 CHR ''a'', FDir [])])] Map.empty
       (''dag-sha256:'' @ replicate 64 CHR ''a'') [''p'', ''_deps'', ''x''] = Inr fs' \<and>
     fs' [''p'', ''_deps'', ''x''] = Some (PlaceLink rel) \<and>
     follow [''p'', ''_deps''] rel = [''cas'', ''dag-sha256'', replicate 64 CHR ''a'']"
proof -
  let ?st = "[(''dag-sha256'', [(replicate 64 CHR ''a'', FDir [])])]"
  let ?i = "''dag-sha256:'' @ replicate 64 CHR ''a''"
  have p: "path_for ?i = Inr (''dag-sha256'', replicate 64 CHR ''a'')" by code_simp
  then obtain fs' where l: "link [''cas''] ?st Map.empty ?i [''p'', ''_deps'', ''x''] = Inr fs'"
    by (simp add: link_def cas_get_def)
  from link_resolves [OF l] p l show ?thesis by auto
qed

end
