(* ===== verification/Workspace.thy ===== *)
theory Workspace
  imports Flags "HOL-Library.Sublist"
begin

text \<open>
  Loading a workspace (\<^verbatim>\<open>milpa-core/src/workspace.rs\<close>): the lexical and best-effort resolution of member
  paths, the checks on each member in the order of the code, the declarations that only the root may
  make, the replacement of one member's manifest, and the lockfile check of a workspace against the
  selected features (\<^verbatim>\<open>milpa-core/src/resolver.rs\<close>).  A path is the list of its components.  The file
  system is a view: which paths exist, their canonical form, which are directories, and the texts of
  the files that can be read.  A small file system with symbolic links shows that the views exist, and
  what the containment check promises on it.
\<close>

subsection \<open>Paths\<close>

datatype path_comp = RootDir | CurDir | ParentDir | is_normal: Normal string

type_synonym path = "path_comp list"

definition comp_of :: "string \<Rightarrow> path_comp" where
  "comp_of s = (if s = ''..'' then ParentDir else Normal s)"

text \<open>\<^verbatim>\<open>Path::components\<close>: repeated separators and inner dots vanish, a leading dot stays.\<close>

definition components :: "string \<Rightarrow> path" where
  "components s =
     (let ps = split_on CHR ''/'' s;
          inner = map comp_of (filter (\<lambda>p. p \<noteq> [] \<and> p \<noteq> ''.'') ps)
      in if s = [] then []
         else if hd s = CHR ''/'' then RootDir # inner
         else if hd ps = ''.'' then CurDir # inner
         else inner)"

text \<open>\<^verbatim>\<open>Path::join\<close>: an absolute path replaces the base.\<close>

definition path_join :: "path \<Rightarrow> path \<Rightarrow> path" where
  "path_join base p =
     (if base = [] \<or> (p \<noteq> [] \<and> hd p = RootDir) then p else base @ filter (\<lambda>c. c \<noteq> CurDir) p)"

fun normalize_step :: "path \<Rightarrow> path_comp \<Rightarrow> path" where
  "normalize_step acc ParentDir =
     (if acc \<noteq> [] \<and> is_normal (last acc) then butlast acc else acc @ [ParentDir])"
| "normalize_step acc CurDir = acc"
| "normalize_step acc RootDir = [RootDir]"
| "normalize_step acc (Normal s) = acc @ [Normal s]"

definition normalize_lexically :: "path \<Rightarrow> path" where
  "normalize_lexically p = foldl normalize_step [] p"

record fs_view =
  v_exists :: "path \<Rightarrow> bool"
  v_canon :: "path \<Rightarrow> path option"
  v_is_dir :: "path \<Rightarrow> bool"
  v_read :: "path \<Rightarrow> string option"

text \<open>The first branch, which is also what the recursive call on an existing ancestor takes.\<close>

definition resolve_existing :: "fs_view \<Rightarrow> path \<Rightarrow> path" where
  "resolve_existing v p = (case v_canon v p of Some q \<Rightarrow> q | None \<Rightarrow> normalize_lexically p)"

function ancestors :: "path \<Rightarrow> path list" where
  "ancestors p = p # (if p = [] \<or> p = [RootDir] then [] else ancestors (butlast p))"
  by auto
termination by (relation "measure length") auto

declare ancestors.simps [simp del]

definition best_effort_resolve :: "fs_view \<Rightarrow> path \<Rightarrow> path" where
  "best_effort_resolve v p =
     (if v_exists v p then resolve_existing v p
      else
        case List.find (v_exists v) (ancestors p) of
          Some a \<Rightarrow> normalize_lexically (path_join (resolve_existing v a) (drop (length a) p))
        | None \<Rightarrow> normalize_lexically p)"

definition is_under_root :: "fs_view \<Rightarrow> path \<Rightarrow> path \<Rightarrow> bool" where
  "is_under_root v root cand \<longleftrightarrow> prefix (best_effort_resolve v root) (best_effort_resolve v cand)"

subsection \<open>Members\<close>

record loaded_member =
  lm_name :: string
  lm_path :: string
  lm_directory :: path
  lm_manifest :: manifest

record loaded_workspace =
  lw_root :: path
  lw_members :: "loaded_member list"
  lw_overrides :: "override list"
  lw_flags :: "flag_decl list"
  lw_index_trust_policy :: trust_policy
  lw_index_trust_signer :: "string option"
  lw_index_trust_bundle :: "string option"
  lw_entry_trust_policy :: trust_policy
  lw_index_history_policy :: trust_policy
  lw_resolution :: "resolution option"

definition manifest_file :: "path \<Rightarrow> path" where
  "manifest_file dir = path_join dir [Normal ''milpa.kdl'']"

text \<open>The body of the loop; the names seen so far are those of the members collected.\<close>

definition load_member ::
  "(string \<Rightarrow> kdl_node list option) \<Rightarrow> fs_view \<Rightarrow> path \<Rightarrow> loaded_member list \<Rightarrow> string \<Rightarrow>
   string + loaded_member list" where
  "load_member kdl v root members member_path =
     (if member_path = ''.'' \<or> member_path = ''./'' then Inl ''WS-MEMBER-DOT''
      else
        let member_dir = path_join root (components member_path) in
        if \<not> is_under_root v root member_dir then Inl ''WS-MEMBER-PATH-ESCAPE''
        else
          let effective_dir = normalize_lexically member_dir in
          if \<not> v_is_dir v effective_dir then Inl ''WS-MEMBER-DIR-MISSING''
          else
            case v_read v (manifest_file effective_dir) of
              None \<Rightarrow> Inl ''WS-MEMBER-NO-MANIFEST''
            | Some txt \<Rightarrow>
                rbind (parse_document kdl txt) (\<lambda>doc.
                case doc of
                  Workspace w \<Rightarrow> Inl ''WS-MEMBER-IS-WORKSPACE''
                | Package m \<Rightarrow>
                    if m_overrides m \<noteq> [] then Inl ''WS-MEMBER-HAS-OVERRIDES''
                    else
                      let name = (case m_name m of Some n \<Rightarrow> n | None \<Rightarrow> '''') in
                      if name \<in> lm_name ` set members then Inl ''WS-MEMBER-DUPLICATE-NAME''
                      else Inr (members @
                        [\<lparr>lm_name = name, lm_path = member_path, lm_directory = member_dir, lm_manifest = m\<rparr>])))"

subsection \<open>Declarations that only the root may make\<close>

definition check_members :: "(manifest \<Rightarrow> bool) \<Rightarrow> string \<Rightarrow> loaded_member list \<Rightarrow> string + unit" where
  "check_members declares slug members =
     (if list_ex (\<lambda>m. declares (lm_manifest m)) members then Inl slug else Inr ())"

definition check_member_index_trust_declarations :: "loaded_member list \<Rightarrow> string + unit" where
  "check_member_index_trust_declarations =
     check_members (\<lambda>m. m_index_trust_policy_explicit m \<or> m_index_trust_signer m \<noteq> None \<or>
       m_index_trust_bundle m \<noteq> None) ''WS-INDEX-TRUST-ON-MEMBER''"

definition check_member_entry_trust_declarations :: "loaded_member list \<Rightarrow> string + unit" where
  "check_member_entry_trust_declarations =
     check_members m_entry_trust_policy_explicit ''WS-ENTRY-TRUST-ON-MEMBER''"

definition check_member_index_history_declarations :: "loaded_member list \<Rightarrow> string + unit" where
  "check_member_index_history_declarations =
     check_members m_index_history_policy_explicit ''WS-INDEX-HISTORY-ON-MEMBER''"

definition check_member_resolution_declarations :: "loaded_member list \<Rightarrow> string + unit" where
  "check_member_resolution_declarations =
     check_members (\<lambda>m. m_resolution m \<noteq> None) ''MAN-RESOLUTION-MEMBER-SCOPE''"

definition check_declarations :: "loaded_member list \<Rightarrow> string + unit" where
  "check_declarations members =
     rbind (check_member_index_trust_declarations members) (\<lambda>_.
     rbind (check_member_entry_trust_declarations members) (\<lambda>_.
     rbind (check_member_index_history_declarations members) (\<lambda>_.
     check_member_resolution_declarations members)))"

subsection \<open>Loading\<close>

definition load_workspace_from_manifest ::
  "(string \<Rightarrow> kdl_node list option) \<Rightarrow> fs_view \<Rightarrow> path \<Rightarrow> workspace \<Rightarrow> string + loaded_workspace" where
  "load_workspace_from_manifest kdl v root parsed =
     rbind (rfold (load_member kdl v root) [] (w_members parsed)) (\<lambda>members.
     rbind (check_declarations members) (\<lambda>_.
     Inr \<lparr>lw_root = root, lw_members = members, lw_overrides = w_overrides parsed,
          lw_flags = w_flags parsed, lw_index_trust_policy = w_index_trust_policy parsed,
          lw_index_trust_signer = w_index_trust_signer parsed,
          lw_index_trust_bundle = w_index_trust_bundle parsed,
          lw_entry_trust_policy = w_entry_trust_policy parsed,
          lw_index_history_policy = w_index_history_policy parsed,
          lw_resolution = w_resolution parsed\<rparr>))"

definition load_workspace ::
  "(string \<Rightarrow> kdl_node list option) \<Rightarrow> fs_view \<Rightarrow> path \<Rightarrow> string + loaded_workspace" where
  "load_workspace kdl v root =
     (case v_read v (manifest_file root) of
        None \<Rightarrow> Inl ''WS-NO-MANIFEST''
      | Some txt \<Rightarrow>
          rbind (parse_document kdl txt) (\<lambda>doc.
          case doc of
            Package m \<Rightarrow> Inl ''WS-NOT-A-WORKSPACE''
          | Workspace w \<Rightarrow> load_workspace_from_manifest kdl v root w))"

definition canon_or_self :: "fs_view \<Rightarrow> path \<Rightarrow> path" where
  "canon_or_self v p = (case v_canon v p of Some q \<Rightarrow> q | None \<Rightarrow> p)"

definition load_workspace_with_member_override ::
  "fs_view \<Rightarrow> loaded_workspace \<Rightarrow> path \<Rightarrow> manifest \<Rightarrow> string + loaded_workspace" where
  "load_workspace_with_member_override v ws member_dir proposed =
     (let hit = (\<lambda>m. canon_or_self v (lm_directory m) = canon_or_self v member_dir);
          new_members = map (\<lambda>m. if hit m then m\<lparr>lm_manifest := proposed\<rparr> else m) (lw_members ws)
      in if \<not> list_ex hit (lw_members ws) then Inl ''WS-MEMBER-DIR-MISSING''
         else rbind (check_declarations new_members) (\<lambda>_. Inr (ws\<lparr>lw_members := new_members\<rparr>)))"

subsection \<open>The lockfile of a workspace and the selected features\<close>

text \<open>No selection and no default flag at the root leaves the seed to each member.\<close>

definition ws_cli_seed ::
  "flag_decl list \<Rightarrow> string list \<Rightarrow> bool \<Rightarrow> bool \<Rightarrow> flag_error + string list option" where
  "ws_cli_seed flags features no_default_features all_features =
     (if has_cli_features features no_default_features all_features
      then rbind (feature_seed flags features no_default_features all_features) (\<lambda>s. Inr (Some s))
      else Inr (if default_flags flags = [] then None else Some (default_flags flags)))"

definition member_active :: "string list option \<Rightarrow> flag_decl list \<Rightarrow> string set" where
  "member_active seed flags =
     (case seed of
        Some s \<Rightarrow> flag_enables_closure flags s
      | None \<Rightarrow> if default_flags flags = [] then {} else flag_enables_closure flags (default_flags flags))"

definition check_workspace_frozen_active_flags_mismatch ::
  "loaded_workspace \<Rightarrow> lockfile \<Rightarrow> string list \<Rightarrow> bool \<Rightarrow> bool \<Rightarrow> flag_error + unit" where
  "check_workspace_frozen_active_flags_mismatch ws lock features no_default_features all_features =
     rbind (ws_cli_seed (lw_flags ws) features no_default_features all_features) (\<lambda>seed.
     if list_ex (\<lambda>m. flags_mismatch (m_deps (lm_manifest m) @ m_dev_deps (lm_manifest m)) lock
            (member_active seed (m_flags (lm_manifest m)))) (lw_members ws)
     then Inl (Slug ''FROZEN-ACTIVE-FLAGS-MISMATCH'') else Inr ())"

subsection \<open>What a loaded workspace guarantees\<close>

lemma check_members_Inr [simp]: "check_members d slug ms = Inr u \<longleftrightarrow> (\<forall>m \<in> set ms. \<not> d (lm_manifest m))"
  by (auto simp: check_members_def list_ex_iff)

text \<open>No declaration of the member concerns a policy of the workspace.\<close>

definition declares_nothing :: "manifest \<Rightarrow> bool" where
  "declares_nothing m \<longleftrightarrow>
     \<not> m_index_trust_policy_explicit m \<and> m_index_trust_signer m = None \<and> m_index_trust_bundle m = None \<and>
     \<not> m_entry_trust_policy_explicit m \<and> \<not> m_index_history_policy_explicit m \<and> m_resolution m = None"

lemma check_declarations_Inr:
  "check_declarations ms = Inr u \<longleftrightarrow> (\<forall>m \<in> set ms. declares_nothing (lm_manifest m))"
  by (auto simp: check_declarations_def rbind_Inr check_member_index_trust_declarations_def
      check_member_entry_trust_declarations_def check_member_index_history_declarations_def
      check_member_resolution_declarations_def declares_nothing_def)

definition member_ok :: "(string \<Rightarrow> kdl_node list option) \<Rightarrow> fs_view \<Rightarrow> path \<Rightarrow> loaded_member \<Rightarrow> bool" where
  "member_ok kdl v root m \<longleftrightarrow>
     manifest_ok (lm_manifest m) \<and> m_overrides (lm_manifest m) = [] \<and>
     m_name (lm_manifest m) = Some (lm_name m) \<and>
     lm_directory m = path_join root (components (lm_path m)) \<and>
     is_under_root v root (lm_directory m) \<and> v_is_dir v (normalize_lexically (lm_directory m)) \<and>
     (\<exists>txt. v_read v (manifest_file (normalize_lexically (lm_directory m))) = Some txt \<and>
        parse_document kdl txt = Inr (Package (lm_manifest m)))"

lemma load_member_Inr:
  assumes "load_member kdl v root ms mp = Inr ms'"
  shows "\<exists>m. ms' = ms @ [m] \<and> lm_path m = mp \<and> lm_name m \<notin> lm_name ` set ms \<and> member_ok kdl v root m"
proof -
  have name: "m_name m \<noteq> None" "manifest_ok m" if "parse_document kdl t = Inr (Package m)" for t m
    using that parse_manifest_doc_ok
    by (auto simp: parse_document_def rbind_Inr manifest_ok_def split: if_splits)
  let ?d = "path_join root (components mp)"
  from assms obtain t m where t: "v_read v (manifest_file (normalize_lexically ?d)) = Some t"
    and m: "parse_document kdl t = Inr (Package m)"
    and rest: "is_under_root v root ?d" "v_is_dir v (normalize_lexically ?d)" "m_overrides m = []"
      "(case m_name m of Some n \<Rightarrow> n | None \<Rightarrow> '''') \<notin> lm_name ` set ms"
      "ms' = ms @ [\<lparr>lm_name = (case m_name m of Some n \<Rightarrow> n | None \<Rightarrow> ''''), lm_path = mp,
        lm_directory = ?d, lm_manifest = m\<rparr>]"
    unfolding load_member_def
    by (auto simp: rbind_def Let_def split: if_splits option.splits manifest_doc.splits sum.splits)
  with name [OF m] show ?thesis by (auto simp: member_ok_def)
qed

lemma load_members_Inr:
  assumes "rfold (load_member kdl v root) ms mps = Inr ms'"
    "distinct (map lm_name ms)" "\<forall>m \<in> set ms. member_ok kdl v root m"
  shows "map lm_path ms' = map lm_path ms @ mps \<and> distinct (map lm_name ms') \<and>
    (\<forall>m \<in> set ms'. member_ok kdl v root m)"
  using assms
proof (induction mps arbitrary: ms)
  case (Cons mp mps)
  then obtain ms1 where 1: "load_member kdl v root ms mp = Inr ms1" "rfold (load_member kdl v root) ms1 mps = Inr ms'"
    by (auto simp: rbind_Inr)
  from load_member_Inr [OF 1(1)] obtain m where "ms1 = ms @ [m]" "lm_path m = mp"
    "lm_name m \<notin> lm_name ` set ms" "member_ok kdl v root m" by auto
  with Cons.IH [OF 1(2)] Cons.prems show ?case by auto
qed simp

lemma load_workspace_Inr:
  "load_workspace kdl v root = Inr lw \<Longrightarrow>
   \<exists>txt w. v_read v (manifest_file root) = Some txt \<and> parse_document kdl txt = Inr (Workspace w) \<and>
     load_workspace_from_manifest kdl v root w = Inr lw"
  unfolding load_workspace_def
  by (auto simp: rbind_def split: option.splits manifest_doc.splits sum.splits)

lemma load_from_manifest_Inr:
  assumes "load_workspace_from_manifest kdl v root w = Inr lw"
  shows "lw_root lw = root \<and> map lm_path (lw_members lw) = w_members w \<and>
    distinct (map lm_name (lw_members lw)) \<and>
    (\<forall>m \<in> set (lw_members lw). member_ok kdl v root m \<and> declares_nothing (lm_manifest m)) \<and>
    lw_overrides lw = w_overrides w \<and> lw_flags lw = w_flags w"
  using assms load_members_Inr [of kdl v root "[]" "w_members w"]
  by (auto simp: load_workspace_from_manifest_def rbind_Inr check_declarations_Inr)


subsection \<open>A file system with symbolic links\<close>

text \<open>
  A file system maps absolute names to nodes.  The kernel walks a path from a directory; a link is
  expanded in front of the rest, at most \<open>n\<close> times.
\<close>

datatype fs_entry = WDir | WFile string | WLink path

type_synonym file_system = "string list \<Rightarrow> fs_entry option"

function walk_path :: "file_system \<Rightarrow> nat \<Rightarrow> string list \<Rightarrow> path \<Rightarrow> string list option" where
  "walk_path fs n at [] = Some at"
| "walk_path fs n at (RootDir # cs) = walk_path fs n [] cs"
| "walk_path fs n at (CurDir # cs) = walk_path fs n at cs"
| "walk_path fs n at (ParentDir # cs) = walk_path fs n (butlast at) cs"
| "walk_path fs n at (Normal s # cs) =
     (case fs (at @ [s]) of
        None \<Rightarrow> None
      | Some WDir \<Rightarrow> walk_path fs n (at @ [s]) cs
      | Some (WFile t) \<Rightarrow> if cs = [] then Some (at @ [s]) else None
      | Some (WLink p) \<Rightarrow> (case n of 0 \<Rightarrow> None | Suc k \<Rightarrow> walk_path fs k at (p @ cs)))"
  by pat_completeness auto
termination
  by (relation "measures [\<lambda>(fs, n, at, cs). n, \<lambda>(fs, n, at, cs). length cs]") auto

text \<open>Paths in canonical form, and the view of a file system; the working directory is its root.\<close>

definition abs_path :: "string list \<Rightarrow> path" where
  "abs_path names = RootDir # map Normal names"

definition view_of :: "file_system \<Rightarrow> nat \<Rightarrow> fs_view" where
  "view_of fs n =
     \<lparr>v_exists = (\<lambda>p. p \<noteq> [] \<and> walk_path fs n [] p \<noteq> None),
      v_canon = (\<lambda>p. if p = [] then None else map_option abs_path (walk_path fs n [] p)),
      v_is_dir = (\<lambda>p. p \<noteq> [] \<and> (case walk_path fs n [] p of
          None \<Rightarrow> False | Some q \<Rightarrow> q = [] \<or> fs q = Some WDir)),
      v_read = (\<lambda>p. case walk_path fs n [] p of
          None \<Rightarrow> None | Some q \<Rightarrow> (case fs q of Some (WFile t) \<Rightarrow> Some t | _ \<Rightarrow> None))\<rparr>"

definition link_free :: "file_system \<Rightarrow> bool" where
  "link_free fs \<longleftrightarrow> (\<forall>q p. fs q \<noteq> Some (WLink p))"

text \<open>Where a path leads when nothing on it is a link.\<close>

definition lex_step :: "string list \<Rightarrow> path_comp \<Rightarrow> string list" where
  "lex_step at c =
     (case c of RootDir \<Rightarrow> [] | CurDir \<Rightarrow> at | ParentDir \<Rightarrow> butlast at | Normal s \<Rightarrow> at @ [s])"

definition lexical :: "path \<Rightarrow> string list" where
  "lexical p = foldl lex_step [] p"

lemma walk_path_lexical:
  "link_free fs \<Longrightarrow> walk_path fs n at p = Some q \<Longrightarrow> q = foldl lex_step at p"
  by (induction fs n at p rule: walk_path.induct)
    (auto simp: lex_step_def link_free_def split: option.splits fs_entry.splits if_splits)

lemma lexical_abs_path [simp]: "lexical (abs_path ns) = ns"
proof -
  have "foldl lex_step at (map Normal ns) = at @ ns" for at ns
    by (induction ns arbitrary: at) (auto simp: lex_step_def)
  then show ?thesis by (simp add: lexical_def abs_path_def lex_step_def)
qed

lemma lexical_append: "lexical (p @ q) = foldl lex_step (lexical p) q"
  by (simp add: lexical_def)

lemma normalize_step_lexical:
  assumes "acc \<noteq> []" "hd acc = RootDir"
  shows "lexical (normalize_step acc c) = lex_step (lexical acc) c \<and>
    normalize_step acc c \<noteq> [] \<and> hd (normalize_step acc c) = RootDir"
proof (cases c)
  case ParentDir
  show ?thesis
  proof (cases "is_normal (last acc)")
    case True
    with assms obtain a s where a: "acc = a @ [Normal s]"
      by (cases acc rule: rev_cases) (auto simp: is_normal_def)
    moreover have "a \<noteq> []" using assms a by auto
    ultimately show ?thesis using assms ParentDir by (auto simp: lexical_append lex_step_def)
  next
    case False
    then show ?thesis using assms ParentDir by (simp add: lexical_append)
  qed
qed (use assms in \<open>auto simp: lexical_append lexical_def lex_step_def\<close>)

lemma normalize_lexical:
  assumes "hd p = RootDir" "p \<noteq> []"
  shows "lexical (normalize_lexically p) = lexical p \<and> normalize_lexically p \<noteq> [] \<and>
    hd (normalize_lexically p) = RootDir"
proof -
  have "lexical (foldl normalize_step acc q) = foldl lex_step (lexical acc) q \<and>
      foldl normalize_step acc q \<noteq> [] \<and> hd (foldl normalize_step acc q) = RootDir"
    if "acc \<noteq> []" "hd acc = RootDir" for acc q
    using that by (induction q arbitrary: acc) (simp_all add: normalize_step_lexical)
  from this [of "[RootDir]" "tl p"] assms show ?thesis
    by (cases p) (auto simp: normalize_lexically_def lexical_def lex_step_def)
qed

lemma lexical_join:
  assumes "b \<noteq> []" "hd b = RootDir"
  shows "lexical (path_join b p) = foldl lex_step (lexical b) p \<and> path_join b p \<noteq> [] \<and>
    hd (path_join b p) = RootDir"
proof (cases "p \<noteq> [] \<and> hd p = RootDir")
  case True
  then show ?thesis by (cases p) (auto simp: path_join_def lexical_def lex_step_def)
next
  case False
  have "foldl lex_step at (filter (\<lambda>c. c \<noteq> CurDir) q) = foldl lex_step at q" for at q
    by (induction q arbitrary: at) (auto simp: lex_step_def)
  with False assms show ?thesis by (auto simp: path_join_def lexical_append)
qed

text \<open>The shape of a normal form: surplus parent steps can only stand in front.\<close>

definition normal_form :: "path \<Rightarrow> bool" where
  "normal_form p \<longleftrightarrow> (\<exists>k ns. p = RootDir # replicate k ParentDir @ map Normal ns)"

lemma normal_form_step:
  assumes "normal_form acc"
  shows "normal_form (normalize_step acc c)"
proof -
  from assms obtain k ns where acc: "acc = RootDir # replicate k ParentDir @ map Normal ns"
    by (auto simp: normal_form_def)
  show ?thesis
  proof (cases c)
    case ParentDir
    show ?thesis
    proof (cases ns rule: rev_cases)
      case Nil
      then have "\<not> is_normal (last acc)" by (cases k) (auto simp: acc replicate_append_same [symmetric])
      then have "normalize_step acc c = RootDir # replicate (Suc k) ParentDir @ map Normal []"
        by (simp add: ParentDir acc Nil replicate_append_same)
      then show ?thesis unfolding normal_form_def by blast
    next
      case (snoc ms s)
      then have "normalize_step acc c = RootDir # replicate k ParentDir @ map Normal ms"
        by (simp add: ParentDir acc butlast_append)
      then show ?thesis unfolding normal_form_def by blast
    qed
  next
    case (Normal s)
    then have "normalize_step acc c = RootDir # replicate k ParentDir @ map Normal (ns @ [s])" by (simp add: acc)
    then show ?thesis unfolding normal_form_def by blast
  next
    case RootDir
    then have "normalize_step acc c = RootDir # replicate 0 ParentDir @ map Normal []" by simp
    then show ?thesis unfolding normal_form_def by blast
  qed (use assms in simp)
qed

lemma normalize_normal_form:
  assumes "p \<noteq> []" "hd p = RootDir"
  shows "normal_form (normalize_lexically p)"
proof -
  have "normal_form acc \<Longrightarrow> normal_form (foldl normalize_step acc q)" for acc q
    by (induction q arbitrary: acc) (simp_all add: normal_form_step)
  moreover have "normal_form [RootDir]" by (auto simp: normal_form_def intro: exI [of _ 0])
  ultimately show ?thesis using assms by (cases p) (auto simp: normalize_lexically_def)
qed

lemma normal_form_abs_path: "normal_form (abs_path ns)"
  unfolding normal_form_def abs_path_def by (rule exI [of _ 0]) auto

lemma normal_form_below:
  assumes "normal_form p" "prefix (abs_path rs) p"
  shows "prefix rs (lexical p)"
proof -
  from assms(1) obtain k ns where p: "p = RootDir # replicate k ParentDir @ map Normal ns"
    by (auto simp: normal_form_def)
  have "foldl lex_step [] (replicate k ParentDir) = []" by (induction k) (auto simp: lex_step_def)
  then have l: "lexical p = ns"
    using lexical_abs_path [of ns] by (simp add: p lexical_def abs_path_def lex_step_def)
  show ?thesis
  proof (cases rs)
    case (Cons r rs')
    with assms(2) have "k = 0" by (cases k) (auto simp: p abs_path_def)
    with assms(2) have "prefix (map Normal rs) (map Normal ns)" by (simp add: p abs_path_def)
    then have "prefix rs ns"
      by (auto simp: prefix_def map_eq_append_conv dest: injD [OF inj_mapI] split: if_splits)
        (metis injI list.inj_map_strong path_comp.inject)
    then show ?thesis by (simp add: l)
  qed simp
qed

lemma ancestors_prefix: "a \<in> set (ancestors p) \<Longrightarrow> prefix a p"
proof (induction p rule: ancestors.induct)
  case (1 p)
  then show ?case
    using prefix_order.trans [OF _ prefixeq_butlast]
    by (subst (asm) (2) ancestors.simps) (auto split: if_splits)
qed

lemma find_Some_in: "List.find P xs = Some x \<Longrightarrow> x \<in> set xs \<and> P x"
  by (induction xs) (auto split: if_splits)

lemma resolve_lexical:
  assumes "link_free fs" "p \<noteq> []" "hd p = RootDir"
  shows "lexical (best_effort_resolve (view_of fs n) p) = lexical p \<and>
    normal_form (best_effort_resolve (view_of fs n) p)"
proof -
  let ?v = "view_of fs n"
  have ex: "resolve_existing ?v q = abs_path (lexical q)" if "v_exists ?v q" for q
    using that walk_path_lexical [OF assms(1), of n "[]" q]
    by (auto simp: resolve_existing_def view_of_def lexical_def)
  show ?thesis
  proof (cases "v_exists ?v p")
    case True
    then show ?thesis by (simp add: best_effort_resolve_def ex normal_form_abs_path)
  next
    case False
    show ?thesis
    proof (cases "List.find (v_exists ?v) (ancestors p)")
      case None
      then show ?thesis using False assms normalize_lexical [of p] normalize_normal_form [of p]
        by (simp add: best_effort_resolve_def)
    next
      case (Some a)
      then have a: "v_exists ?v a" "prefix a p" using find_Some_in ancestors_prefix by fastforce+
      then have p: "p = a @ drop (length a) p" by (auto simp: prefix_def)
      let ?j = "path_join (abs_path (lexical a)) (drop (length a) p)"
      have "lexical ?j = lexical p" "?j \<noteq> []" "hd ?j = RootDir"
        using lexical_join [of "abs_path (lexical a)" "drop (length a) p"] lexical_append [of a "drop (length a) p"] p
        by (simp_all add: lexical_abs_path, simp_all add: abs_path_def)
      then show ?thesis using False Some a(1) ex normalize_lexical [of ?j] normalize_normal_form [of ?j]
        by (simp add: best_effort_resolve_def)
    qed
  qed
qed

lemma walk_path_prefix: "walk_path fs n at (p @ q) \<noteq> None \<Longrightarrow> walk_path fs n at p \<noteq> None"
  by (induction fs n at p rule: walk_path.induct) (auto split: option.splits fs_entry.splits nat.splits if_splits)

text \<open>
  C29. Containment of members.  On a file system without symbolic links, every member of a workspace
  that loads has its manifest and its directory at or below the root of the workspace, whatever
  parent steps, dots or absolute paths its declared path has: the directory that the loader reads
  (the lexical normal form) is where the declared path leads.
\<close>

theorem member_containment:
  assumes "load_workspace kdl (view_of fs n) (abs_path rs) = Inr lw" "link_free fs"
    "m \<in> set (lw_members lw)"
  shows "prefix rs (lexical (lm_directory m)) \<and>
    walk_path fs n [] (normalize_lexically (lm_directory m)) = Some (lexical (lm_directory m))"
proof -
  let ?v = "view_of fs n"
  have root: "best_effort_resolve ?v (abs_path rs) = abs_path rs"
  proof -
    have "v_read ?v (manifest_file (abs_path rs)) \<noteq> None" using load_workspace_Inr [OF assms(1)] by auto
    then have "walk_path fs n [] (abs_path rs @ [Normal ''milpa.kdl'']) \<noteq> None"
      by (auto simp: view_of_def manifest_file_def path_join_def abs_path_def split: option.splits)
    then have "walk_path fs n [] (abs_path rs) \<noteq> None" by (rule walk_path_prefix)
    then have "v_exists ?v (abs_path rs)" by (simp add: view_of_def abs_path_def)
    with walk_path_lexical [OF assms(2), of n "[]" "abs_path rs"] show ?thesis
      by (auto simp: best_effort_resolve_def resolve_existing_def view_of_def lexical_def [symmetric])
  qed
  have m: "is_under_root ?v (abs_path rs) (lm_directory m)"
    "v_is_dir ?v (normalize_lexically (lm_directory m))"
    "lm_directory m = path_join (abs_path rs) (components (lm_path m))"
    using load_workspace_Inr [OF assms(1)] load_from_manifest_Inr assms(3) by (fastforce simp: member_ok_def)+
  have abs: "lm_directory m \<noteq> []" "hd (lm_directory m) = RootDir"
    using lexical_join [of "abs_path rs" "components (lm_path m)"] by (simp_all add: m(3) abs_path_def)
  from m(1) have "prefix (abs_path rs) (best_effort_resolve ?v (lm_directory m))"
    by (simp add: is_under_root_def root)
  with resolve_lexical [OF assms(2) abs, of n] have "prefix rs (lexical (lm_directory m))"
    by (metis normal_form_below)
  moreover obtain q where "walk_path fs n [] (normalize_lexically (lm_directory m)) = Some q"
    using m(2) by (auto simp: view_of_def split: option.splits)
  moreover have "q = lexical (lm_directory m)"
    using walk_path_lexical [OF assms(2) calculation(2)] normalize_lexical [OF abs(2,1)] by (simp add: lexical_def)
  ultimately show ?thesis by simp
qed

text \<open>A package manifest and a workspace root, and the trees they stand in.\<close>

definition ws_kdl :: "string list \<Rightarrow> string \<Rightarrow> kdl_node list option" where
  "ws_kdl members t =
     (let arg = (\<lambda>s. \<lparr>ke_name = None, ke_ty = None, ke_value = KString s\<rparr>) in
      if t = ''package'' then Some [KNode ''name'' [arg ''lib''] []]
      else Some [KNode ''workspace'' [] (map (\<lambda>m. KNode ''member'' [arg m] []) members)])"

definition ws_tree :: "(string list \<times> fs_entry) list \<Rightarrow> file_system" where
  "ws_tree extra = map_of (extra @
     [([''r''], WDir), ([''r'', ''milpa.kdl''], WFile ''workspace''),
      ([''r'', ''m''], WDir), ([''r'', ''m'', ''milpa.kdl''], WFile ''package'')])"

theorem member_containment_witness:
  "case load_workspace (ws_kdl [''x/../m'']) (view_of (ws_tree []) 40) (abs_path [''r'']) of
     Inl e \<Rightarrow> False
   | Inr lw \<Rightarrow> lw_members lw \<noteq> [] \<and> (\<forall>m \<in> set (lw_members lw). prefix [''r''] (lexical (lm_directory m)))"
proof -
  let ?l = "load_workspace (ws_kdl [''x/../m'']) (view_of (ws_tree []) 40) (abs_path [''r''])"
  have "case ?l of Inl e \<Rightarrow> False | Inr lw \<Rightarrow> lw_members lw \<noteq> []" by code_simp
  moreover have "link_free (ws_tree [])"
    by (auto simp: link_free_def ws_tree_def split: if_splits)
  ultimately show ?thesis
    using member_containment [of "ws_kdl [''x/../m'']" "ws_tree []" 40 "[''r'']"] by (auto split: sum.splits)
qed

text \<open>
  A symbolic link defeats the containment check.  The check follows links, the directory that is
  loaded is the lexical normal form.  Below a root /r with a link a to /r/d/e, the member path
  a/../../m passes the check because it leads to /r/m, and the manifest that is loaded for it is the
  one in /m, outside the root.
\<close>

theorem symlink_member_escapes:
  "\<exists>fs lw m. load_workspace (ws_kdl [''a/../../m'']) (view_of fs 40) (abs_path [''r'']) = Inr lw \<and>
     m \<in> set (lw_members lw) \<and>
     walk_path fs 40 [] (normalize_lexically (lm_directory m)) = Some [''m''] \<and> \<not> prefix [''r''] [''m'']"
proof -
  let ?fs = "ws_tree [([''r'', ''a''], WLink (abs_path [''r'', ''d'', ''e''])), ([''r'', ''d''], WDir),
     ([''r'', ''d'', ''e''], WDir), ([''m''], WDir), ([''m'', ''milpa.kdl''], WFile ''package'')]"
  have "case load_workspace (ws_kdl [''a/../../m'']) (view_of ?fs 40) (abs_path [''r'']) of
     Inl e \<Rightarrow> False
   | Inr lw \<Rightarrow> (\<exists>m \<in> set (lw_members lw).
       walk_path ?fs 40 [] (normalize_lexically (lm_directory m)) = Some [''m''])"
    by code_simp
  then show ?thesis by (fastforce split: sum.splits)
qed


text \<open>
  The order of the errors: a member path that leaves the root is reported before the directory is
  looked at, a missing directory before a missing manifest, and a failure at an early member before
  any failure at a later one.
\<close>

lemma load_members_first_error:
  "rfold (load_member kdl v root) ms (ps @ p # qs) = Inl e \<Longrightarrow>
   rfold (load_member kdl v root) ms ps = Inr ms' \<Longrightarrow> load_member kdl v root ms' p = Inl e' \<Longrightarrow> e = e'"
  by (simp add: rfold_append)

end
