(* ===== verification/Frozen.thy ===== *)
theory Frozen
  imports Workspace CaStore LockGraph
begin

text \<open>
  The frozen path (\<^verbatim>\<open>milpa-core/src/frozen.rs\<close>): a graph is read back from the lockfile and the store,
  without a solver and without the network, after the lockfile has been checked against the manifest;
  and the dependency directory is rebuilt from it.  The directory is a map from paths to places.  The
  results of \<^verbatim>\<open>resolve_frozen\<close> are the graph and the directory.  A directory entry whose name begins
  with @ is taken for a namespace directory when it is a directory; the code also follows a link there,
  which the program never makes.
\<close>

subsection \<open>The lockfile against the manifest\<close>

definition frozen_baseline_strategy :: "resolution option \<Rightarrow> strategy" where
  "frozen_baseline_strategy r = (case Option.bind r rs_strategy of Some s \<Rightarrow> s | None \<Rightarrow> Maxver)"

definition check_strategy :: "strategy \<Rightarrow> lockfile \<Rightarrow> string + unit" where
  "check_strategy strategy lock =
     (if strategy_as_str strategy \<noteq> lf_strategy lock then Inl ''FROZEN-STRATEGY-MISMATCH'' else Inr ())"

definition frozen_baseline_exclude_newer :: "resolution option \<Rightarrow> timestamp option" where
  "frozen_baseline_exclude_newer r = Option.bind r rs_exclude_newer"

definition check_exclude_newer :: "timestamp option \<Rightarrow> lockfile \<Rightarrow> string + unit" where
  "check_exclude_newer baseline lock =
     (if baseline \<noteq> lf_exclude_newer lock then Inl ''FROZEN-EXCLUDE-NEWER-MISMATCH'' else Inr ())"

definition find_locked :: "lockfile \<Rightarrow> string \<Rightarrow> string option \<Rightarrow> locked_dep option" where
  "find_locked lock name namespace =
     (if namespace \<noteq> None
      then List.find (\<lambda>d. ld_name d = name \<and> ld_namespace d = namespace) (lf_deps lock)
      else List.find (\<lambda>d. (ld_name d = name \<and> ld_namespace d = None) \<or> name \<in> set (ld_aliases d)) (lf_deps lock))"

definition dep_namespace :: "mdep \<Rightarrow> string option" where
  "dep_namespace d = (case d of DNamed n \<Rightarrow> nd_namespace n | _ \<Rightarrow> None)"

definition dep_bound :: "mdep \<Rightarrow> version_set option" where
  "dep_bound d = (case d of DNamed n \<Rightarrow> nd_parsed_constraint n | _ \<Rightarrow> None)"

definition check_aligned :: "lockfile \<Rightarrow> mdep \<Rightarrow> string + unit" where
  "check_aligned lock d =
     (case find_locked lock (dep_nm d) (dep_namespace d) of
        None \<Rightarrow> Inl ''FROZEN-MANIFEST-DEP-NOT-IN-LOCK''
      | Some locked \<Rightarrow>
          (case dep_bound d of
             None \<Rightarrow> Inr ()
           | Some vset \<Rightarrow>
               (case parse_version (ld_version locked) of
                  None \<Rightarrow> Inl ''FROZEN-LOCKED-VERSION-UNPARSEABLE''
                | Some v \<Rightarrow> ensure (vs_contains vset v) ''FROZEN-CONSTRAINT-UNSATISFIED'')))"

definition check_manifest_alignment :: "manifest \<Rightarrow> lockfile \<Rightarrow> string + unit" where
  "check_manifest_alignment m lock = rfold (\<lambda>_. check_aligned lock) () (m_deps m @ m_dev_deps m)"

subsection \<open>Sources\<close>

definition source_id_matches_declared :: "source_id \<Rightarrow> source_id \<Rightarrow> bool" where
  "source_id_matches_declared declared locked \<longleftrightarrow>
     (case (declared, locked) of
        (Fetchable (Registry dr dns dn), Fetchable (Registry lr lns ln)) \<Rightarrow>
          dr = lr \<and> dn = ln \<and> (dns = None \<or> dns = lns)
      | _ \<Rightarrow> declared = locked)"

text \<open>Inserting the claims in order: the last one of a key stays.\<close>

definition declared_by_key :: "claim list \<Rightarrow> dep_key \<rightharpoonup> source_id" where
  "declared_by_key claims = map_of (rev (map (\<lambda>c. (key_for c, cl_source c)) claims))"

definition foreign_registry :: "source_id \<Rightarrow> bool" where
  "foreign_registry sid \<longleftrightarrow>
     (case sid of Fetchable (Registry r ns n) \<Rightarrow> r \<noteq> default_registry_alias | _ \<Rightarrow> False)"

definition locked_key :: "locked_dep \<Rightarrow> dep_key" where
  "locked_key l = \<lparr>dk_name = ld_name l, dk_namespace = ld_namespace l\<rparr>"

definition check_locked_source :: "(dep_key \<rightharpoonup> source_id) \<Rightarrow> locked_dep \<Rightarrow> string + unit" where
  "check_locked_source declared l =
     (case ld_source_id l of
        None \<Rightarrow> Inr ()
      | Some locked_sid \<Rightarrow>
          if foreign_registry locked_sid then Inl ''FROZEN-REGISTRY-ALIAS-UNRESOLVED''
          else
            case declared (locked_key l) of
              None \<Rightarrow> Inr ()
            | Some declared_sid \<Rightarrow>
                ensure (source_id_matches_declared declared_sid locked_sid) ''FROZEN-SOURCE-ID-MISMATCH'')"

definition check_source_id_preconditions ::
  "(string \<Rightarrow> string) \<Rightarrow> mdep list \<Rightarrow> override list \<Rightarrow> locked_dep list \<Rightarrow> string + unit" where
  "check_source_id_preconditions lower declared_deps overrides lockfile_deps =
     rbind (reconcile_root_claims lower (map decl_of declared_deps) (map rule_of overrides) \<lparr>ix_packages = []\<rparr>)
       (\<lambda>claims. rfold (\<lambda>_. check_locked_source (declared_by_key claims)) () lockfile_deps)"

definition is_member_target :: "override \<Rightarrow> bool" where
  "is_member_target ov \<longleftrightarrow> (case ovr_target ov of TMember m \<Rightarrow> True | _ \<Rightarrow> False)"

definition check_source_id_preconditions_standalone ::
  "(string \<Rightarrow> string) \<Rightarrow> manifest \<Rightarrow> locked_dep list \<Rightarrow> string + unit" where
  "check_source_id_preconditions_standalone lower m =
     check_source_id_preconditions lower (m_deps m @ m_dev_deps m)
       (filter (\<lambda>ov. \<not> is_member_target ov) (m_overrides m))"

definition is_member_dep :: "mdep \<Rightarrow> bool" where
  "is_member_dep d \<longleftrightarrow> (case d of DMember md \<Rightarrow> True | _ \<Rightarrow> False)"

definition ws_declared_deps :: "loaded_workspace \<Rightarrow> mdep list" where
  "ws_declared_deps ws =
     filter (\<lambda>d. dep_nm d \<notin> lm_name ` set (lw_members ws) \<and> \<not> is_member_dep d)
       (concat (map (\<lambda>m. m_deps (lm_manifest m) @ m_dev_deps (lm_manifest m)) (lw_members ws)))"

definition check_source_id_preconditions_workspace ::
  "(string \<Rightarrow> string) \<Rightarrow> loaded_workspace \<Rightarrow> locked_dep list \<Rightarrow> string + unit" where
  "check_source_id_preconditions_workspace lower ws =
     check_source_id_preconditions lower (ws_declared_deps ws) (lw_overrides ws)"

subsection \<open>Reading the graph back\<close>

definition provenance_from_record :: "provenance_record option \<Rightarrow> string + provenance_record" where
  "provenance_from_record record =
     (case record of Some rec \<Rightarrow> Inr rec | None \<Rightarrow> Inl ''FROZEN-IDENTITY-NOT-IN-STORE'')"

definition first_record :: "provenance_record list \<Rightarrow> provenance_record option" where
  "first_record ps = (case ps of [] \<Rightarrow> None | p # _ \<Rightarrow> Some p)"

definition resolved_from_locked :: "locked_dep \<Rightarrow> string + resolved_dep" where
  "resolved_from_locked l =
     (case parse_version (ld_version l) of
        None \<Rightarrow> Inl ''FROZEN-LOCKED-VERSION-UNPARSEABLE''
      | Some v \<Rightarrow>
          rbind (provenance_from_record (first_record (ld_provenances l))) (\<lambda>_.
          Inr \<lparr>rd_name = ld_name l, rd_namespace = ld_namespace l, rd_identity = or_empty (ld_identity l),
               rd_version = v, rd_src_dir = ld_src_dir l, rd_requires = ld_requires l,
               rd_provenances = ld_provenances l, rd_dep_decl = ld_dep_decl l, rd_cond_requires = [],
               rd_aliases = ld_aliases l, rd_active_flags = ld_active_flags l,
               rd_attestation = map_option (\<lambda>a. \<lparr>att_kind = la_kind a, att_rekor = la_rekor a,
                 att_bundle_pin = la_bundle_pin a\<rparr>) (ld_attestation l),
               rd_declared_version_source = ld_declared_version_source l, rd_source_id = ld_source_id l\<rparr>))"

definition in_store :: "cas \<Rightarrow> string option \<Rightarrow> bool" where
  "in_store st i = (case i of None \<Rightarrow> False | Some s \<Rightarrow> s \<noteq> [] \<and> contains st s = Inr True)"

definition from_store :: "cas \<Rightarrow> locked_dep \<Rightarrow> string + resolved_dep" where
  "from_store st l =
     (if in_store st (ld_identity l) then resolved_from_locked l else Inl ''FROZEN-IDENTITY-NOT-IN-STORE'')"

definition frozen_dep :: "cas \<Rightarrow> locked_dep \<Rightarrow> string + resolved_dep" where
  "frozen_dep st l =
     (case first_record (ld_provenances l) of
        Some (RMember n oo) \<Rightarrow> Inl ''FROZEN-MEMBER-DEP''
      | Some (RLocal p oo) \<Rightarrow> Inl ''FROZEN-LOCAL-DEP''
      | Some (RRoot n oo) \<Rightarrow> resolved_from_locked l
      | _ \<Rightarrow> from_store st l)"

text \<open>\<open>dir_hash\<close> is the content hash of a directory, or the error of computing it.\<close>

definition frozen_ws_dep ::
  "(path \<Rightarrow> string + string) \<Rightarrow> loaded_workspace \<Rightarrow> cas \<Rightarrow> locked_dep \<Rightarrow> string + resolved_dep" where
  "frozen_ws_dep dir_hash ws st l =
     (case first_record (ld_provenances l) of
        Some (RMember n oo) \<Rightarrow>
          (case List.find (\<lambda>m. lm_name m = n) (lw_members ws) of
             None \<Rightarrow> Inl ''FROZEN-MEMBER-NOT-IN-WORKSPACE''
           | Some m \<Rightarrow>
               rbind (dir_hash (lm_directory m)) (\<lambda>actual.
               if Some actual \<noteq> ld_identity l then Inl ''FROZEN-MEMBER-IDENTITY-DRIFT''
               else resolved_from_locked l))
      | Some (RLocal p oo) \<Rightarrow> Inl ''FROZEN-LOCAL-DEP''
      | Some (RRoot n oo) \<Rightarrow> resolved_from_locked l
      | _ \<Rightarrow> from_store st l)"

subsection \<open>The dependency directory\<close>

text \<open>The links to make, by entry name, and the names that local dependencies keep.\<close>

definition is_member_record :: "provenance_record list \<Rightarrow> bool" where
  "is_member_record ps \<longleftrightarrow> (case first_record ps of Some (RMember n oo) \<Rightarrow> True | _ \<Rightarrow> False)"

definition is_local_first :: "provenance_record list \<Rightarrow> bool" where
  "is_local_first ps \<longleftrightarrow> (case first_record ps of Some (RLocal p oo) \<Rightarrow> True | _ \<Rightarrow> False)"

definition expects_link :: "resolved_dep \<Rightarrow> bool" where
  "expects_link d \<longleftrightarrow>
     \<not> is_member_record (rd_provenances d) \<and> \<not> is_local_first (rd_provenances d) \<and> rd_identity d \<noteq> []"

definition dep_entries :: "resolved_dep \<Rightarrow> (string \<times> string) list" where
  "dep_entries d =
     (if expects_link d then map (\<lambda>n. (n, rd_identity d)) (dir_slot d # rd_aliases d) else [])"

definition expected :: "resolved_graph \<Rightarrow> (string \<times> string) list" where
  "expected graph = fold (\<lambda>(k, i). bt_insert k i) (concat (map dep_entries graph)) []"

definition local_names :: "resolved_graph \<Rightarrow> string set" where
  "local_names graph = rd_name ` set (filter (\<lambda>d. is_local_first (rd_provenances d)) graph)"

text \<open>What the sweep removes: an entry of the directory with all that is below it.\<close>

definition swept :: "(string \<times> string) list \<Rightarrow> string set \<Rightarrow> places \<Rightarrow> string list \<Rightarrow> string list \<Rightarrow> bool" where
  "swept ex locals fs deps_dir q \<longleftrightarrow>
     prefix deps_dir q \<and>
     (case drop (length deps_dir) q of
        [] \<Rightarrow> False
      | n # rest \<Rightarrow>
          if n \<noteq> [] \<and> hd n = CHR ''@'' \<and> fs (deps_dir @ [n]) = Some PlaceDir
          then (case rest of
                  [] \<Rightarrow> \<not> list_ex (\<lambda>k. case split_on CHR ''/'' k of
                      [a, c] \<Rightarrow> a = n \<and> fs (deps_dir @ [n, c]) \<noteq> None | _ \<Rightarrow> False) (bt_keys ex)
                | c # _ \<Rightarrow> n @ ''/'' @ c \<notin> set (bt_keys ex))
          else n \<notin> set (bt_keys ex) \<and> n \<notin> locals)"

definition relink :: "string list \<Rightarrow> cas \<Rightarrow> string list \<Rightarrow> string \<times> string \<Rightarrow> places \<Rightarrow> places" where
  "relink root st deps_dir e fs =
     (let target = deps_dir @ split_on CHR ''/'' (fst e);
          fs = create_dirs fs (butlast target)
      in case link root st fs (snd e) target of Inl _ \<Rightarrow> fs | Inr fs' \<Rightarrow> fs')"

definition rebuild_deps_view ::
  "string list \<Rightarrow> cas \<Rightarrow> string list \<Rightarrow> resolved_graph \<Rightarrow> places \<Rightarrow> places" where
  "rebuild_deps_view root st deps_dir graph fs =
     (if fs deps_dir \<noteq> Some PlaceDir then fs
      else
        let ex = expected graph in
        fold (relink root st deps_dir) ex
          (\<lambda>q. if swept ex (local_names graph) fs deps_dir q then None else fs q))"

subsection \<open>Resolution\<close>

definition store_path :: "string \<Rightarrow> string \<Rightarrow> string option" where
  "store_path root identity =
     (case path_for identity of Inl e \<Rightarrow> None | Inr p \<Rightarrow> Some (root @ ''/'' @ fst p @ ''/'' @ snd p))"

text \<open>\<open>root\<close> is the root of the store, \<open>provider\<close> the symbol provider that the code composes the check with.\<close>

definition finish_frozen ::
  "symbol_provider \<Rightarrow> string list \<Rightarrow> cas \<Rightarrow> string list \<Rightarrow> places \<Rightarrow> resolved_graph \<Rightarrow> string + resolved_graph \<times> places" where
  "finish_frozen provider root st deps_dir fs graph =
     rbind (check_import_slot_collisions provider (Some (store_path (''/'' @ join ''/'' root))) graph) (\<lambda>_.
     Inr (graph, rebuild_deps_view root st deps_dir graph fs))"

definition resolve_frozen ::
  "(string \<Rightarrow> string) \<Rightarrow> symbol_provider \<Rightarrow> string list \<Rightarrow> cas \<Rightarrow> manifest \<Rightarrow> lockfile \<Rightarrow> string list \<Rightarrow> places \<Rightarrow>
   string + resolved_graph \<times> places" where
  "resolve_frozen lower provider root st m lock deps_dir fs =
     rbind (check_strategy (frozen_baseline_strategy (m_resolution m)) lock) (\<lambda>_.
     rbind (check_exclude_newer (frozen_baseline_exclude_newer (m_resolution m)) lock) (\<lambda>_.
     rbind (check_manifest_alignment m lock) (\<lambda>_.
     rbind (check_source_id_preconditions_standalone lower m (lf_deps lock)) (\<lambda>_.
     rbind (rmap (frozen_dep st) (lf_deps lock)) (\<lambda>graph.
     finish_frozen provider root st deps_dir (create_dirs fs deps_dir) graph)))))"

definition resolve_workspace_frozen ::
  "(string \<Rightarrow> string) \<Rightarrow> (path \<Rightarrow> string + string) \<Rightarrow> symbol_provider \<Rightarrow> string list \<Rightarrow> cas \<Rightarrow> loaded_workspace \<Rightarrow>
   lockfile \<Rightarrow> string list \<Rightarrow> places \<Rightarrow> string + resolved_graph \<times> places" where
  "resolve_workspace_frozen lower dir_hash provider root st ws lock deps_dir fs =
     rbind (check_strategy (frozen_baseline_strategy (lw_resolution ws)) lock) (\<lambda>_.
     rbind (check_exclude_newer (frozen_baseline_exclude_newer (lw_resolution ws)) lock) (\<lambda>_.
     rbind (rfold (\<lambda>_ m. check_manifest_alignment (lm_manifest m) lock) () (lw_members ws)) (\<lambda>_.
     rbind (check_source_id_preconditions_workspace lower ws (lf_deps lock)) (\<lambda>_.
     rbind (rmap (frozen_ws_dep dir_hash ws st) (lf_deps lock)) (\<lambda>graph.
     finish_frozen provider root st deps_dir (create_dirs fs deps_dir) graph)))))"

subsection \<open>What the checks establish\<close>

lemma rfold_unit: "rfold (\<lambda>_. f) () xs = Inr u \<longleftrightarrow> (\<forall>x \<in> set xs. f x = Inr ())"
  by (induction xs) (auto simp: rbind_Inr)

lemma check_strategy_Inr [simp]: "check_strategy s lock = Inr u \<longleftrightarrow> lf_strategy lock = strategy_as_str s"
  by (auto simp: check_strategy_def)

lemma check_exclude_newer_Inr [simp]: "check_exclude_newer b lock = Inr u \<longleftrightarrow> lf_exclude_newer lock = b"
  by (auto simp: check_exclude_newer_def)

lemma find_locked_Some:
  assumes "find_locked lock n ns = Some l"
  shows "l \<in> set (lf_deps lock) \<and> (ld_name l = n \<and> ld_namespace l = ns \<or> ns = None \<and> n \<in> set (ld_aliases l))"
  using assms by (auto simp: find_locked_def dest!: find_Some_in split: if_splits)

text \<open>A declared dependency is covered by an entry of the lockfile that satisfies its constraint.\<close>

definition covers :: "mdep \<Rightarrow> locked_dep \<Rightarrow> bool" where
  "covers d l \<longleftrightarrow>
     (ld_name l = dep_nm d \<and> ld_namespace l = dep_namespace d \<or>
      dep_namespace d = None \<and> dep_nm d \<in> set (ld_aliases l)) \<and>
     (\<forall>vs. dep_bound d = Some vs \<longrightarrow> (\<exists>v. parse_version (ld_version l) = Some v \<and> vs_contains vs v))"

lemma check_aligned_covers: "check_aligned lock d = Inr u \<Longrightarrow> \<exists>l \<in> set (lf_deps lock). covers d l"
  using find_locked_Some by (fastforce simp: check_aligned_def covers_def split: option.splits)

lemma check_manifest_alignment_Inr:
  "check_manifest_alignment m lock = Inr u \<longleftrightarrow> (\<forall>d \<in> set (m_deps m @ m_dev_deps m). check_aligned lock d = Inr ())"
  by (simp add: check_manifest_alignment_def rfold_unit)

text \<open>The fields that a dependency read back has from its lockfile entry.\<close>

definition reads_back :: "locked_dep \<Rightarrow> resolved_dep \<Rightarrow> bool" where
  "reads_back l r \<longleftrightarrow>
     rd_name r = ld_name l \<and> rd_namespace r = ld_namespace l \<and> rd_identity r = or_empty (ld_identity l) \<and>
     parse_version (ld_version l) = Some (rd_version r) \<and> rd_provenances r = ld_provenances l \<and>
     rd_aliases r = ld_aliases l \<and> rd_source_id r = ld_source_id l \<and> ld_provenances l \<noteq> []"

lemma resolved_from_locked_reads: "resolved_from_locked l = Inr r \<Longrightarrow> reads_back l r"
  by (auto simp: resolved_from_locked_def reads_back_def rbind_Inr provenance_from_record_def first_record_def
      split: option.splits list.splits)

definition stored :: "cas \<Rightarrow> resolved_dep \<Rightarrow> bool" where
  "stored st r \<longleftrightarrow> rd_identity r \<noteq> [] \<and> contains st (rd_identity r) = Inr True"

lemma from_store_Inr: "from_store st l = Inr r \<Longrightarrow> reads_back l r \<and> stored st r"
  using resolved_from_locked_reads
  by (fastforce simp: from_store_def in_store_def stored_def reads_back_def or_empty_def split: if_splits option.splits)

definition is_root_record :: "provenance_record list \<Rightarrow> bool" where
  "is_root_record ps \<longleftrightarrow> (case first_record ps of Some (RRoot n oo) \<Rightarrow> True | _ \<Rightarrow> False)"

lemma frozen_dep_Inr:
  "frozen_dep st l = Inr r \<Longrightarrow>
   reads_back l r \<and> (is_root_record (rd_provenances r) \<or> stored st r) \<and>
   \<not> is_member_record (rd_provenances r) \<and> \<not> is_local_first (rd_provenances r)"
  using resolved_from_locked_reads [of l r] from_store_Inr [of st l r]
  by (auto simp: frozen_dep_def is_root_record_def is_member_record_def is_local_first_def reads_back_def
      split: option.splits provenance_record.splits)

lemma check_locked_source_Inr:
  "check_locked_source declared l = Inr u \<longleftrightarrow>
   (\<forall>sid. ld_source_id l = Some sid \<longrightarrow> \<not> foreign_registry sid \<and>
      (\<forall>decl. declared (locked_key l) = Some decl \<longrightarrow> source_id_matches_declared decl sid))"
  by (auto simp: check_locked_source_def split: option.splits)

lemma check_sources_Inr:
  "check_source_id_preconditions lower ds ovs ls = Inr u \<longleftrightarrow>
   (\<exists>claims. reconcile_root_claims lower (map decl_of ds) (map rule_of ovs) \<lparr>ix_packages = []\<rparr> = Inr claims \<and>
      (\<forall>l \<in> set ls. check_locked_source (declared_by_key claims) l = Inr ()))"
  by (simp add: check_source_id_preconditions_def rbind_Inr rfold_unit)


subsection \<open>Writing the graph back\<close>

text \<open>What the frozen path loses of an entry: its conditional requirements.\<close>

definition drop_conds :: "locked_dep \<Rightarrow> locked_dep" where
  "drop_conds l = l\<lparr>ld_cond_requires := []\<rparr>"

definition lock_without_conds :: "lockfile \<Rightarrow> lockfile" where
  "lock_without_conds lf = lf\<lparr>lf_deps := map drop_conds (lf_deps lf)\<rparr>"

text \<open>Graphs whose texts survive the way through a lockfile.\<close>

definition lockable :: "resolved_dep \<Rightarrow> bool" where
  "lockable d \<longleftrightarrow> wf_version (rd_version d) \<and>
     (\<forall>r \<in> set (rd_requires d). split_once_str ''::'' (req_name_to_lockfile r) = None)"

lemma locked_of_read_back:
  assumes "lockable d" "resolved_from_locked (locked_from_resolved d) = Inr r"
  shows "locked_from_resolved r = drop_conds (locked_from_resolved d) \<and> rd_cond_requires r = []"
proof -
  have v: "parse_version (format_version (rd_version d)) = Some (rd_version d)"
    using assms(1) parse_format_wf by (simp add: lockable_def)
  have q: "map req_name_to_lockfile (sort (map req_name_to_lockfile (rd_requires d))) =
      sort (map req_name_to_lockfile (rd_requires d))"
    by (rule map_idI) (use assms(1) in \<open>auto simp: lockable_def req_name_to_lockfile_def [of "req_name_to_lockfile _"]\<close>)
  have i: "opt (or_empty (opt s)) = opt s" for s by (simp add: opt_def or_empty_def)
  have a: "map_option (\<lambda>a. \<lparr>la_kind = att_kind a, la_rekor = att_rekor a, la_bundle_pin = att_bundle_pin a, la_namespace = n\<rparr>)
      (map_option (\<lambda>a. \<lparr>att_kind = la_kind a, att_rekor = la_rekor a, att_bundle_pin = la_bundle_pin a\<rparr>)
        (map_option (\<lambda>a. \<lparr>la_kind = att_kind a, la_rekor = att_rekor a, la_bundle_pin = att_bundle_pin a, la_namespace = n\<rparr>) x)) =
      map_option (\<lambda>a. \<lparr>la_kind = att_kind a, la_rekor = att_rekor a, la_bundle_pin = att_bundle_pin a, la_namespace = n\<rparr>) x" for n x
    by (cases x) simp_all
  show ?thesis
    using assms(2) by (auto simp: resolved_from_locked_def locked_from_resolved_def rbind_Inr drop_conds_def v q i a)
qed

lemma frozen_dep_reads: "frozen_dep st l = Inr r \<Longrightarrow> resolved_from_locked l = Inr r"
  by (auto simp: frozen_dep_def from_store_def split: option.splits provenance_record.splits if_splits)

text \<open>
  C38. The frozen path rewrites the lockfile it has read, without its conditional requirements.  Lock a
  graph, resolve frozen from that lockfile, and lock the result under the same strategy and time
  bound: the new lockfile is the old one, entry by entry and in the same order, except that the
  conditional requirements of every entry are gone.  So the file is reproduced if and only if it had
  none.
\<close>

theorem frozen_rewrites_lock:
  assumes "from_graph g0 s t = Some lock" "list_all lockable g0"
    "resolve_frozen lower provider root st m lock deps_dir fs = Inr (graph, fs')"
  shows "from_graph graph s t = Some (lock_without_conds lock) \<and>
    (from_graph graph s t = Some lock \<longleftrightarrow> (\<forall>l \<in> set (lf_deps lock). ld_cond_requires l = []))"
proof -
  let ?k = "\<lambda>d. (or_empty (ld_namespace d), ld_name d)"
  from assms(1) have lock: "lock = \<lparr>lf_version = LOCKFILE_SCHEMA_VERSION, lf_strategy = s, lf_exclude_newer = t,
      lf_deps = sort_key ?k (map locked_from_resolved g0)\<rparr>"
    by (auto simp: from_graph_def split: if_splits)
  have step: "locked_from_resolved r = drop_conds l \<and> rd_cond_requires r = []"
    if "l \<in> set (lf_deps lock)" "frozen_dep st l = Inr r" for l r
  proof -
    from that(1) obtain d where "d \<in> set g0" "l = locked_from_resolved d" by (auto simp: lock)
    with assms(2) that(2) show ?thesis
      using locked_of_read_back [of d r] frozen_dep_reads [of st l r] by (auto simp: list_all_iff)
  qed
  have "list_all2 (\<lambda>l r. frozen_dep st l = Inr r) (lf_deps lock) graph"
    using assms(3) by (auto simp: resolve_frozen_def finish_frozen_def rbind_Inr rmap_Inr)
  then have "list_all2 (\<lambda>l r. locked_from_resolved r = drop_conds l \<and> rd_cond_requires r = []) (lf_deps lock) graph"
    by (rule list.rel_mono_strong) (use step in blast)
  note all2 = this
  have m: "map locked_from_resolved graph = map drop_conds (lf_deps lock)"
    using all2 by (induction rule: list_all2_induct) auto
  have c: "list_all sort_keys_defined graph"
    using all2 by (induction rule: list_all2_induct) (auto simp: sort_keys_defined_def)
  have "map ?k (map drop_conds (lf_deps lock)) = map ?k (lf_deps lock)"
    by (simp add: drop_conds_def)
  then have "sorted (map ?k (map drop_conds (lf_deps lock)))" by (simp only: lock lockfile.simps sorted_sort_key)
  then have "sort_key ?k (map drop_conds (lf_deps lock)) = map drop_conds (lf_deps lock)"
    by (rule sort_key_id_if_sorted)
  then have g: "from_graph graph s t = Some (lock_without_conds lock)"
    using c by (simp add: from_graph_def m lock_without_conds_def) (simp add: lock)
  moreover have "lock_without_conds lock = lock \<longleftrightarrow> (\<forall>l \<in> set (lf_deps lock). ld_cond_requires l = [])"
  proof -
    have "drop_conds l = l \<longleftrightarrow> ld_cond_requires l = []" for l :: locked_dep
      by (cases l) (auto simp: drop_conds_def)
    then show ?thesis by (cases lock) (auto simp: lock_without_conds_def map_idI map_eq_conv [of _ _ id, simplified])
  qed
  ultimately show ?thesis by simp
qed

subsection \<open>Examples\<close>

text \<open>A manifest with two git dependencies, a lockfile that collapsed them into one entry, a store with its tree.\<close>

definition git_dep :: "string \<Rightarrow> string \<Rightarrow> mdep" where
  "git_dep n url = DUrl \<lparr>ud_name = n, ud_git = url, ud_git_ref = ''v1'', ud_mirrors = [], ud_predicates = [],
     ud_flag_requests = [], ud_optional = False, ud_version = None, ud_subpath = None\<rparr>"

definition frozen_manifest :: "string \<Rightarrow> string \<Rightarrow> manifest" where
  "frozen_manifest u1 u2 =
     manifest_init\<lparr>m_name := Some ''app'', m_deps := [git_dep ''a'' u1, git_dep ''b'' u2]\<rparr>"

definition frozen_identity :: string where
  "frozen_identity = ''dag-sha256:'' @ replicate 64 CHR ''a''"

definition frozen_lock :: "string \<Rightarrow> lockfile" where
  "frozen_lock url = lockfile_default\<lparr>lf_deps :=
     [(locked_dep_init ''a'')\<lparr>ld_identity := Some frozen_identity, ld_version := ''1.0.0'', ld_aliases := [''b''],
        ld_provenances := [RGit url (Some ''v1'') None ''observed'' []],
        ld_cond_requires := [\<lparr>cr_name = ''w'', cr_predicates = []\<rparr>],
        ld_source_id := Some (Fetchable (Git url (Some ''v1'') None))\<rparr>]\<rparr>"

definition frozen_store :: cas where
  "frozen_store = [(''dag-sha256'', [(replicate 64 CHR ''a'', FDir [])])]"

definition frozen_run :: "manifest \<Rightarrow> lockfile \<Rightarrow> string + resolved_graph \<times> places" where
  "frozen_run m lock =
     resolve_frozen ascii_lower (\<lambda>_ _. []) [''cas''] frozen_store m lock [''p'', ''_deps''] Map.empty"

subsection \<open>The rebuilt directory\<close>

definition entry_target :: "string list \<Rightarrow> string \<Rightarrow> string list" where
  "entry_target deps_dir k = deps_dir @ split_on CHR ''/'' k"

definition plain_dep :: "resolved_dep \<Rightarrow> bool" where
  "plain_dep d \<longleftrightarrow> valid_flag_name (rd_name d) \<and> opt_all valid_flag_name (rd_namespace d) \<and>
     list_all valid_flag_name (rd_aliases d)"

lemma valid_flag_chars: "valid_flag_name s \<Longrightarrow> CHR ''/'' \<notin> set s \<and> s \<noteq> [] \<and> hd s \<noteq> CHR ''@''"
  by (cases s) (auto simp: valid_flag_name_def is_alnum_def is_alpha_def is_digit_def list_all_iff)

text \<open>The two shapes of an entry name: in the directory itself, or in a namespace directory.\<close>

definition entry_shape :: "string \<Rightarrow> bool" where
  "entry_shape k \<longleftrightarrow>
     (split_on CHR ''/'' k = [k] \<and> k \<noteq> [] \<and> hd k \<noteq> CHR ''@'') \<or>
     (\<exists>a c. split_on CHR ''/'' k = [a, c] \<and> a \<noteq> [] \<and> hd a = CHR ''@'' \<and> k = a @ ''/'' @ c)"

lemma dep_entries_shape:
  assumes "plain_dep d" "(k, i) \<in> set (dep_entries d)"
  shows "entry_shape k"
proof -
  have flat: "entry_shape s" if "valid_flag_name s" for s
    using valid_flag_chars [OF that] by (simp add: entry_shape_def split_on_no_sep)
  have "entry_shape (''@'' @ ns @ ''/'' @ n)" if "valid_flag_name ns" "valid_flag_name n" for ns n
    using valid_flag_chars [OF that(1)] valid_flag_chars [OF that(2)]
      split_on_sep [of "CHR ''/''" "CHR ''@'' # ns" n]
    by (simp add: entry_shape_def split_on_no_sep)
  with flat assms show ?thesis
    by (auto simp: dep_entries_def plain_dep_def dir_slot_def dep_dir_name_def opt_all_def list_all_iff
        split: if_splits option.splits)
qed

lemma expected_get: "bt_get (expected g) k = map_of (rev (concat (map dep_entries g))) k"
  using bt.get_ins_all [of "[]" "concat (map dep_entries g)" k] by (simp add: bt.ins_all_def expected_def split: option.splits)

lemma expected_ok: "bt_ok (expected g)"
  using bt.inv_ins_all [of "[]" "concat (map dep_entries g)"] by (simp add: bt.ins_all_def expected_def)

lemma expected_shape:
  assumes "list_all plain_dep g" "k \<in> set (bt_keys (expected g))"
  shows "entry_shape k"
proof -
  from assms(2) have "bt_get (expected g) k \<noteq> None" by (simp add: bt_keys_get [of k])
  then obtain i where "(k, i) \<in> set (concat (map dep_entries g))"
    by (auto simp: expected_get dest: map_of_SomeD)
  with assms(1) show ?thesis using dep_entries_shape by (auto simp: list_all_iff)
qed

lemma entry_targets_apart:
  assumes "entry_shape k" "entry_shape k'" "prefix (entry_target dd k) (entry_target dd k')"
  shows "k = k'"
  using assms by (auto simp: entry_shape_def entry_target_def)

lemma create_dirs_keeps: "fs q \<noteq> None \<Longrightarrow> create_dirs fs p q = fs q"
  by (simp add: create_dirs_def)

lemma relink_keeps:
  assumes "list_all (\<lambda>c. c \<noteq> ''..'' \<and> c \<noteq> ''.'') root" "\<not> prefix (entry_target dd (fst e)) q" "fs q \<noteq> None"
  shows "relink root st dd e fs q = fs q"
proof -
  let ?f = "create_dirs fs (butlast (entry_target dd (fst e)))"
  have "?f q = fs q" using assms(3) by (rule create_dirs_keeps)
  then show ?thesis
    using link_Inr [of root st ?f "snd e" "entry_target dd (fst e)", OF _ assms(1)] assms(2,3)
    by (auto simp: relink_def Let_def entry_target_def [symmetric] split: sum.splits)
qed

text \<open>The link of an entry: relative, and leading to the tree of the identity.\<close>

definition linked :: "string list \<Rightarrow> string list \<Rightarrow> places \<Rightarrow> string \<Rightarrow> string \<Rightarrow> bool" where
  "linked root target fs k i \<longleftrightarrow>
     (\<exists>a h rel. path_for i = Inr (a, h) \<and> fs target = Some (PlaceLink rel) \<and>
        follow (butlast target) rel = root @ [a, h])"

lemma relink_links:
  assumes "list_all (\<lambda>c. c \<noteq> ''..'' \<and> c \<noteq> ''.'') root" "contains st i = Inr True"
  shows "linked root (entry_target dd k) (relink root st dd (k, i) fs) k i"
proof -
  let ?f = "create_dirs fs (butlast (entry_target dd k))"
  from assms(2) obtain fs' where l: "link root st ?f i (entry_target dd k) = Inr fs'"
    by (auto simp: contains_def link_def rbind_Inr)
  then have "relink root st dd (k, i) fs = fs'"
    by (simp add: relink_def entry_target_def)
  with link_Inr [OF l assms(1)] show ?thesis by (auto simp: linked_def)
qed

lemma fold_relink_keeps:
  assumes "list_all (\<lambda>c. c \<noteq> ''..'' \<and> c \<noteq> ''.'') root"
    "\<And>e. e \<in> set es \<Longrightarrow> \<not> prefix (entry_target dd (fst e)) q" "fs q \<noteq> None"
  shows "fold (relink root st dd) es fs q = fs q"
  using assms(2,3)
proof (induction es arbitrary: fs)
  case (Cons e es)
  then have "relink root st dd e fs q = fs q" using relink_keeps [OF assms(1)] by simp
  with Cons.IH [of "relink root st dd e fs"] Cons.prems show ?case by simp
qed simp

lemma fold_relink_links:
  assumes "list_all (\<lambda>c. c \<noteq> ''..'' \<and> c \<noteq> ''.'') root" "\<forall>e \<in> set es. entry_shape (fst e)"
    "distinct (map fst es)" "(k, i) \<in> set es" "contains st i = Inr True"
  shows "linked root (entry_target dd k) (fold (relink root st dd) es fs) k i"
proof -
  from assms(4) obtain xs ys where es: "es = xs @ (k, i) # ys" by (auto dest: split_list)
  let ?f = "relink root st dd (k, i) (fold (relink root st dd) xs fs)"
  have l: "linked root (entry_target dd k) ?f k i" using relink_links [OF assms(1,5)] .
  moreover have "fold (relink root st dd) ys ?f (entry_target dd k) = ?f (entry_target dd k)"
  proof (rule fold_relink_keeps [OF assms(1)])
    fix e assume "e \<in> set ys"
    then show "\<not> prefix (entry_target dd (fst e)) (entry_target dd k)"
      using assms(2,3) entry_targets_apart [of "fst e" k dd] by (auto simp: es)
  qed (use l in \<open>auto simp: linked_def\<close>)
  ultimately show ?thesis by (simp add: es linked_def)
qed

text \<open>The entries that may stand in the directory after a rebuild.\<close>

definition allowed :: "(string \<times> string) list \<Rightarrow> string set \<Rightarrow> string list \<Rightarrow> string list \<Rightarrow> bool" where
  "allowed ex locals dd q \<longleftrightarrow>
     (case drop (length dd) q of
        [] \<Rightarrow> True
      | n # rest \<Rightarrow> n \<in> set (bt_keys ex) \<or> n \<in> locals \<or>
          (n \<noteq> [] \<and> hd n = CHR ''@'' \<and> (case rest of [] \<Rightarrow> True | c # _ \<Rightarrow> n @ ''/'' @ c \<in> set (bt_keys ex))))"

lemma not_swept_allowed: "prefix dd q \<Longrightarrow> \<not> swept ex locals fs dd q \<Longrightarrow> allowed ex locals dd q"
  by (auto simp: swept_def allowed_def split: list.splits if_splits)

lemma target_allowed:
  assumes "entry_shape k" "k \<in> set (bt_keys ex)" "prefix q (entry_target dd k)" "prefix dd q"
  shows "allowed ex locals dd q"
proof -
  from assms(4) obtain r where q: "q = dd @ r" by (auto simp: prefix_def)
  with assms(3) have r: "prefix r (split_on CHR ''/'' k)" by (simp add: entry_target_def)
  from assms(1) show ?thesis unfolding entry_shape_def
  proof (elim disjE exE conjE)
    assume "split_on CHR ''/'' k = [k]"
    with r have "r = [] \<or> r = [k]" by (auto simp: prefix_Cons)
    then show ?thesis using assms(2) by (auto simp: allowed_def q)
  next
    fix a c assume s: "split_on CHR ''/'' k = [a, c]" "a \<noteq> []" "hd a = CHR ''@''" "k = a @ ''/'' @ c"
    with r have "r = [] \<or> r = [a] \<or> r = [a, c]" by (auto simp: prefix_Cons)
    then show ?thesis using assms(2) s(2-4) by (auto simp: allowed_def q)
  qed
qed

lemma relink_allowed:
  assumes "list_all (\<lambda>c. c \<noteq> ''..'' \<and> c \<noteq> ''.'') root" "entry_shape (fst e)" "fst e \<in> set (bt_keys ex)"
    "\<forall>q. prefix dd q \<longrightarrow> fs q \<noteq> None \<longrightarrow> allowed ex locals dd q" "prefix dd q" "relink root st dd e fs q \<noteq> None"
  shows "allowed ex locals dd q"
proof (cases "prefix q (entry_target dd (fst e))")
  case True
  then show ?thesis using target_allowed assms(2,3,5) by blast
next
  case False
  let ?t = "entry_target dd (fst e)"
  let ?f = "create_dirs fs (butlast ?t)"
  have "?f q = fs q" using False prefix_order.trans [OF _ prefixeq_butlast, of q ?t] by (auto simp: create_dirs_def)
  moreover have "fs' q = ?f q \<or> fs' q = None" if "link root st ?f (snd e) ?t = Inr fs'" for fs'
    using that False prefix_order.trans [OF _ prefixeq_butlast, of q ?t]
    by (auto simp: link_def rbind_Inr create_dirs_def clear_dest_def split: if_splits)
  moreover have "relink root st dd e fs = (case link root st ?f (snd e) ?t of Inl _ \<Rightarrow> ?f | Inr fs' \<Rightarrow> fs')"
    unfolding relink_def entry_target_def Let_def by (rule refl)
  ultimately have "fs q \<noteq> None"
    using assms(6) by (cases "link root st ?f (snd e) ?t") auto
  then show ?thesis using assms(4,5) by blast
qed

lemma fold_relink_allowed:
  assumes "list_all (\<lambda>c. c \<noteq> ''..'' \<and> c \<noteq> ''.'') root"
    "\<forall>e \<in> set es. entry_shape (fst e) \<and> fst e \<in> set (bt_keys ex)"
    "\<forall>q. prefix dd q \<longrightarrow> fs q \<noteq> None \<longrightarrow> allowed ex locals dd q"
  shows "\<forall>q. prefix dd q \<longrightarrow> fold (relink root st dd) es fs q \<noteq> None \<longrightarrow> allowed ex locals dd q"
  using assms(2,3)
proof (induction es arbitrary: fs)
  case (Cons e es)
  then have "\<forall>q. prefix dd q \<longrightarrow> relink root st dd e fs q \<noteq> None \<longrightarrow> allowed ex locals dd q"
    using relink_allowed [OF assms(1), of e ex dd fs locals] by auto
  with Cons show ?case by simp
qed simp

lemma rebuilt_links:
  assumes "list_all plain_dep g" "list_all (\<lambda>c. c \<noteq> ''..'' \<and> c \<noteq> ''.'') root" "fs dd = Some PlaceDir"
    "bt_get (expected g) k = Some i" "contains st i = Inr True"
  shows "linked root (entry_target dd k) (rebuild_deps_view root st dd g fs) k i"
proof -
  have "\<forall>e \<in> set (expected g). entry_shape (fst e)"
    using expected_shape [OF assms(1)] by (auto simp: bt_keys_def)
  moreover have "distinct (map fst (expected g))" using expected_ok [of g] by (simp add: bt_ok_def strict_sorted_iff)
  ultimately show ?thesis
    using fold_relink_links [OF assms(2) _ _ bt_get_in [OF assms(4)] assms(5)] assms(3)
    by (simp add: rebuild_deps_view_def Let_def)
qed


subsection \<open>Instances\<close>

definition frozen_one :: resolved_dep where
  "frozen_one = \<lparr>rd_name = ''a'', rd_namespace = None, rd_identity = frozen_identity, rd_version = release 1 0 0,
     rd_src_dir = [], rd_requires = [], rd_provenances = [RGit ''https://h/one'' (Some ''v1'') None ''observed'' []],
     rd_dep_decl = None, rd_cond_requires = [], rd_aliases = [''b''], rd_active_flags = [], rd_attestation = None,
     rd_declared_version_source = None, rd_source_id = Some (Fetchable (Git ''https://h/one'' (Some ''v1'') None))\<rparr>"

lemma frozen_contains: "contains frozen_store frozen_identity = Inr True"
  by code_simp

lemma frozen_parsed: "parse_version ''1.0.0'' = Some (release 1 0 0)"
proof -
  have "format_version (release 1 0 0) = ''1.0.0''"
    by (simp add: format_version_def release_def dec_of_word_def dec_of_nat.simps digit_char_def) code_simp
  moreover have "wf_version (release 1 0 0)" by (simp add: wf_version_def release_def)
  ultimately show ?thesis using parse_format_wf [of "release 1 0 0"] by simp
qed

lemma frozen_steps:
  "check_manifest_alignment (frozen_manifest ''https://h/one'' ''https://h/two'') (frozen_lock ''https://h/one'') = Inr ()"
  by code_simp

lemma frozen_sources:
  "check_source_id_preconditions_standalone ascii_lower (frozen_manifest ''https://h/one'' ''https://h/two'')
     (lf_deps (frozen_lock ''https://h/one'')) = Inr ()"
  by code_simp

lemma frozen_graph: "rmap (frozen_dep frozen_store) (lf_deps (frozen_lock ''https://h/one'')) = Inr [frozen_one]"
  using frozen_contains frozen_parsed
  by (simp add: frozen_lock_def lockfile_default_def locked_dep_init_def frozen_dep_def first_record_def from_store_def
      in_store_def resolved_from_locked_def provenance_from_record_def frozen_one_def frozen_identity_def or_empty_def)

lemma frozen_slots: "check_import_slot_collisions (\<lambda>_ _. []) (Some (store_path ''/cas'')) [frozen_one] = Inr ()"
  by code_simp

definition frozen_places :: places where
  "frozen_places =
     rebuild_deps_view [''cas''] frozen_store [''p'', ''_deps''] [frozen_one] (create_dirs Map.empty [''p'', ''_deps''])"

lemma frozen_result:
  "frozen_run (frozen_manifest ''https://h/one'' ''https://h/two'') (frozen_lock ''https://h/one'') =
     Inr ([frozen_one], frozen_places)"
  using frozen_steps frozen_sources frozen_graph frozen_slots
  by (simp add: frozen_run_def resolve_frozen_def finish_frozen_def check_strategy_def check_exclude_newer_def
      frozen_manifest_def manifest_init_def frozen_lock_def lockfile_default_def frozen_places_def
      frozen_baseline_strategy_def frozen_baseline_exclude_newer_def)

lemma frozen_plain: "list_all plain_dep [frozen_one]"
  by (simp add: plain_dep_def frozen_one_def opt_all_def valid_flag_name_def is_alnum_def is_alpha_def)

lemma frozen_expected: "bt_get (expected [frozen_one]) ''b'' = Some frozen_identity"
  by (simp add: frozen_one_def expected_get dep_entries_def expects_link_def is_member_record_def is_local_first_def
      first_record_def frozen_identity_def dir_slot_def dep_dir_name_def)

lemma entry_target_b: "entry_target dd ''b'' = dd @ [''b'']"
  by (simp add: entry_target_def)

text \<open>
  C39. An alias is not checked.  When two declarations had one source, the lockfile holds one entry with the
  other name as its alias.  If the declaration of the alias is then edited to another origin, the frozen
  path still succeeds, and the entry of that name in the dependency directory leads to the tree of the
  other package: the source check looks up the names of the entries only.
\<close>

theorem frozen_alias_unchecked:
  "\<exists>fs'. frozen_run (frozen_manifest ''https://h/one'' ''https://h/two'') (frozen_lock ''https://h/one'') =
       Inr ([frozen_one], fs') \<and>
     linked [''cas''] [''p'', ''_deps'', ''b''] fs' ''b'' frozen_identity \<and>
     rd_source_id frozen_one = Some (Fetchable (Git ''https://h/one'' (Some ''v1'') None)) \<and>
     git_dep ''b'' ''https://h/two'' \<in> set (m_deps (frozen_manifest ''https://h/one'' ''https://h/two''))"
proof -
  have "linked [''cas''] (entry_target [''p'', ''_deps''] ''b'') frozen_places ''b'' frozen_identity"
    unfolding frozen_places_def
    by (rule rebuilt_links [OF frozen_plain _ _ frozen_expected frozen_contains]) (simp_all add: create_dirs_def)
  then show ?thesis
    using frozen_result by (auto simp: entry_target_b frozen_one_def [of] frozen_manifest_def)
qed



theorem frozen_rewrites_lock_witness:
  "\<exists>lock'. from_graph [frozen_one] ''maxver'' None = Some lock' \<and> lock' \<noteq> frozen_lock ''https://h/one''"
proof -
  let ?g = "frozen_one\<lparr>rd_cond_requires := [\<lparr>cr_name = ''w'', cr_predicates = []\<rparr>]\<rparr>"
  have "format_version (release 1 0 0) = ''1.0.0''"
    by (simp add: format_version_def release_def dec_of_word_def dec_of_nat.simps digit_char_def) code_simp
  then have "from_graph [?g] ''maxver'' None = Some (frozen_lock ''https://h/one'')"
    by (simp add: from_graph_def sort_keys_defined_def frozen_one_def frozen_lock_def lockfile_default_def
        locked_from_resolved_def locked_dep_init_def opt_def frozen_identity_def)
  moreover have "list_all lockable [?g]"
    by (simp add: lockable_def frozen_one_def wf_version_def release_def)
  moreover note frozen_result [unfolded frozen_run_def]
  ultimately have "from_graph [frozen_one] ''maxver'' None \<noteq> Some (frozen_lock ''https://h/one'')"
    "from_graph [frozen_one] ''maxver'' None \<noteq> None"
    using frozen_rewrites_lock [of "[?g]" "''maxver''" None "frozen_lock ''https://h/one''"]
    by (auto simp: frozen_lock_def)
  then show ?thesis by auto
qed

definition inactive_manifest :: manifest where
  "inactive_manifest = (gated_elsewhere ''linux'')\<lparr>m_flags := [auto_flag ''tls'']\<rparr>"

text \<open>
  The frozen path looks at every declared dependency.  The live path drops the dependencies whose flags
  are off before it solves.  For a manifest whose only dependency is gated by a flag that is off, the
  live path solves for nothing, and the check of the lockfile against the feature selection accepts the
  empty lockfile; the frozen path refuses it, whatever the store and the directory hold.
\<close>

theorem frozen_refuses_inactive:
  "effective_root_manifest inactive_manifest (Some linux) [] False False = Inr (inactive_manifest\<lparr>m_deps := []\<rparr>) \<and>
   check_frozen_active_flags_mismatch inactive_manifest lockfile_default [] False False = Inr () \<and>
   resolve_frozen lower provider root st inactive_manifest lockfile_default deps_dir fs =
     Inl ''FROZEN-MANIFEST-DEP-NOT-IN-LOCK''"
proof -
  note defs = inactive_manifest_def gated_elsewhere_def manifest_init_def auto_flag_def gate_pred_def
  have "effective_root_manifest inactive_manifest (Some linux) [] False False = Inr (inactive_manifest\<lparr>m_deps := []\<rparr>)"
    by (simp add: effective_root_manifest_def has_cli_features_def filter_manifest_def filter_ctx_build_def
        filter_deps_def defs profile_gate_def linux_def axis_match_def predicate_satisfied_profile_only_def
        default_flags_def dep_passes_flag_predicates_def flag_pred_satisfied_def)
  moreover have "check_frozen_active_flags_mismatch inactive_manifest lockfile_default [] False False = Inr ()"
    by (simp add: check_frozen_active_flags_mismatch_def feature_seed_def default_flags_def defs flags_mismatch_def
        has_flag_pred_def dep_passes_flag_predicates_def flag_pred_satisfied_def lockfile_default_def)
  moreover have "resolve_frozen lower provider root st inactive_manifest lockfile_default deps_dir fs =
     Inl ''FROZEN-MANIFEST-DEP-NOT-IN-LOCK''"
    by (simp add: resolve_frozen_def check_strategy_def check_exclude_newer_def frozen_baseline_strategy_def
        frozen_baseline_exclude_newer_def check_manifest_alignment_def check_aligned_def find_locked_def
        dep_namespace_def lockfile_default_def defs)
  ultimately show ?thesis by blast
qed

end
