(* ===== verification/TarReader.thy ===== *)
theory TarReader
  imports Prelude
begin

text \<open>
  The tar reader of \<^verbatim>\<open>milpa-core/src/safe_extract.rs\<close>: header blocks, the checksum, octal fields, long names
  in the GNU and PAX forms, and the iterator over the entries.  A stream is the bytes that can be read
  and how it ends: cleanly, at the decompression cap, or in an error of the reader.  Numbers of the
  archive are natural numbers below \<open>2 ^ 64\<close>, with the wrap-around written out where the code
  adds; \<open>None\<close> is a panic.  \<open>utf8\<close> says which byte strings are UTF-8.
\<close>

subsection \<open>Streams\<close>

datatype read_failure = CapExceeded | UnexpectedEof | OtherIo

record reader =
  rd_bytes :: string
  rd_fail :: "read_failure option"

definition classify_stream_read_error :: "read_failure \<Rightarrow> string" where
  "classify_stream_read_error e = (if e = CapExceeded then ''EXTRACT-SIZE-LIMIT'' else ''FETCH-EXTRACT-FAILED'')"

definition rd_drop :: "nat \<Rightarrow> reader \<Rightarrow> reader" where
  "rd_drop n r = r\<lparr>rd_bytes := drop n (rd_bytes r)\<rparr>"

definition drain_to_eof :: "reader \<Rightarrow> string + unit" where
  "drain_to_eof r = (case rd_fail r of None \<Rightarrow> Inr () | Some e \<Rightarrow> Inl (classify_stream_read_error e))"

text \<open>A header block; \<open>None\<close> is the end of the archive.\<close>

definition read_header :: "reader \<Rightarrow> string + (string \<times> reader) option" where
  "read_header r =
     (let h = take 512 (rd_bytes r) in
      if length h < 512
      then (case rd_fail r of None \<Rightarrow> Inr None | Some e \<Rightarrow> Inl (classify_stream_read_error e))
      else if list_all (\<lambda>c. c = CHR 0x00) h then Inr None
      else Inr (Some (h, rd_drop 512 r)))"

definition read_entry_data :: "nat \<Rightarrow> nat \<Rightarrow> reader \<Rightarrow> string + string \<times> reader" where
  "read_entry_data max_entry_bytes n r =
     (if n > max_entry_bytes then Inl ''EXTRACT-SIZE-LIMIT''
      else if length (rd_bytes r) < n
      then Inl (case rd_fail r of
             None \<Rightarrow> ''EXTRACT-SIZE-LIMIT''
           | Some UnexpectedEof \<Rightarrow> ''EXTRACT-SIZE-LIMIT''
           | Some e \<Rightarrow> classify_stream_read_error e)
      else Inr (take n (rd_bytes r), rd_drop n r))"

definition skip_exact :: "nat \<Rightarrow> reader \<Rightarrow> string + reader" where
  "skip_exact n r =
     (if length (rd_bytes r) < n
      then Inl (case rd_fail r of None \<Rightarrow> ''EXTRACT-SIZE-LIMIT'' | Some e \<Rightarrow> classify_stream_read_error e)
      else Inr (rd_drop n r))"

subsection \<open>Fields\<close>

definition slice :: "nat \<Rightarrow> nat \<Rightarrow> string \<Rightarrow> string" where
  "slice a b s = take (b - a) (drop a s)"

definition until_nul :: "string \<Rightarrow> string" where
  "until_nul s = takeWhile (\<lambda>c. c \<noteq> CHR 0x00) s"

definition cstr :: "(string \<Rightarrow> bool) \<Rightarrow> string \<Rightarrow> string option" where
  "cstr utf8 field = (let s = until_nul field in if utf8 s then Some s else None)"

definition cstr_or_empty :: "(string \<Rightarrow> bool) \<Rightarrow> string \<Rightarrow> string" where
  "cstr_or_empty utf8 field = (case cstr utf8 field of Some s \<Rightarrow> s | None \<Rightarrow> [])"

definition is_octal :: "char \<Rightarrow> bool" where
  "is_octal c \<longleftrightarrow> 48 \<le> byte c \<and> byte c \<le> 55"

definition octal_value :: "string \<Rightarrow> nat" where
  "octal_value s = foldl (\<lambda>n c. 8 * n + digit_val c) 0 s"

text \<open>\<^verbatim>\<open>u64::from_str_radix(s, 8)\<close>: an optional plus sign, at least one digit, no overflow.\<close>

definition unsigned_text :: "string \<Rightarrow> string" where
  "unsigned_text s = (case s of c # cs \<Rightarrow> if c = CHR ''+'' then cs else s | [] \<Rightarrow> [])"

definition octal :: "string \<Rightarrow> nat option" where
  "octal field =
     (let s = filter (\<lambda>c. c \<noteq> CHR '' '' \<and> c \<noteq> CHR 0x00) field; d = unsigned_text s in
      if s = [] then Some 0
      else if d \<noteq> [] \<and> list_all is_octal d \<and> octal_value d < 2 ^ 64 then Some (octal_value d)
      else None)"

text \<open>The bytes of a header with the checksum field read as spaces.\<close>

definition checksum_bytes :: "string \<Rightarrow> nat list" where
  "checksum_bytes h = map byte (take 148 h @ replicate 8 CHR '' '' @ drop 156 h)"

definition signed_byte :: "nat \<Rightarrow> int" where
  "signed_byte b = (if b < 128 then int b else int b - 256)"

definition header_checksum_valid :: "string \<Rightarrow> bool" where
  "header_checksum_valid h =
     (case octal (slice 148 156 h) of
        None \<Rightarrow> False
      | Some stored \<Rightarrow>
          stored = sum_list (checksum_bytes h) \<or>
          int stored = \<bar>sum_list (map signed_byte (checksum_bytes h))\<bar>)"

subsection \<open>PAX records\<close>

text \<open>\<^verbatim>\<open>str::parse::<usize>\<close> on a 64-bit target.\<close>

definition parse_usize :: "string \<Rightarrow> nat option" where
  "parse_usize s =
     (let d = unsigned_text s in
      if d \<noteq> [] \<and> list_all is_digit d \<and> nat_of_dec d < 2 ^ 64 then Some (nat_of_dec d) else None)"

type_synonym overrides = "string option \<times> string option"

definition pax_value :: "(string \<Rightarrow> bool) \<Rightarrow> string \<Rightarrow> overrides \<Rightarrow> overrides" where
  "pax_value utf8 kv ov =
     (case split_once CHR ''='' kv of
        None \<Rightarrow> ov
      | Some (key, val) \<Rightarrow>
          if \<not> utf8 val then ov
          else if key = ''path'' then (Some val, snd ov)
          else if key = ''linkpath'' then (fst ov, Some val)
          else ov)"

definition pax_record :: "(string \<Rightarrow> bool) \<Rightarrow> nat \<Rightarrow> string \<Rightarrow> overrides \<Rightarrow> overrides" where
  "pax_record utf8 kv_start rec ov =
     (let kv_end = (if rec \<noteq> [] \<and> last rec = CHR 0x0A then length rec - 1 else length rec)
      in if kv_start \<ge> kv_end then ov else pax_value utf8 (slice kv_start kv_end rec) ov)"

text \<open>
  The sum \<^verbatim>\<open>pos + record_len\<close> wraps in a release build; a wrapped end in front of \<open>pos\<close> passes the
  bound check and makes the slice panic.  (A debug build panics at the sum.)
\<close>

function parse_pax :: "(string \<Rightarrow> bool) \<Rightarrow> string \<Rightarrow> nat \<Rightarrow> overrides \<Rightarrow> overrides option" where
  "parse_pax utf8 data pos ov =
     (if pos \<ge> length data then Some ov
      else
        case split_once CHR '' '' (drop pos data) of
          None \<Rightarrow> Some ov
        | Some (len_str, rest) \<Rightarrow>
            if \<not> utf8 len_str then Some ov
            else
              case parse_usize len_str of
                None \<Rightarrow> Some ov
              | Some record_len \<Rightarrow>
                  let e = (pos + record_len) mod 2 ^ 64 in
                  if record_len = 0 \<or> e > length data then Some ov
                  else if e < pos then None
                  else parse_pax utf8 data (pos + record_len)
                    (pax_record utf8 (length len_str + 1) (slice pos e data) ov))"
  by pat_completeness auto
termination
  by (relation "measure (\<lambda>(utf8, data, pos, ov). length data - pos)") auto

declare parse_pax.simps [simp del]

definition parse_pax_headers :: "(string \<Rightarrow> bool) \<Rightarrow> string \<Rightarrow> overrides \<Rightarrow> overrides option" where
  "parse_pax_headers utf8 data ov = parse_pax utf8 data 0 ov"

subsection \<open>Entries\<close>

datatype entry_kind = EFile | EDir | ESymlink | EHardLink | EOther

record tar_entry =
  te_name :: string
  te_linkname :: string
  te_size :: nat
  te_kind :: entry_kind
  te_mode :: nat
  te_data :: string

text \<open>The overrides that wait for the next entry.\<close>

record pending =
  pn_name :: "string option"
  pn_linkname :: "string option"
  pn_pax :: overrides

definition no_pending :: pending where
  "no_pending = \<lparr>pn_name = None, pn_linkname = None, pn_pax = (None, None)\<rparr>"

definition padding :: "nat \<Rightarrow> nat" where
  "padding sz = ((sz + 511) div 512 * 512 mod 2 ^ 64 + 2 ^ 64 - sz) mod 2 ^ 64"

definition kind_of :: "char \<Rightarrow> entry_kind" where
  "kind_of t =
     (if t = CHR ''0'' \<or> t = CHR 0x00 then EFile
      else if t = CHR ''5'' then EDir
      else if t = CHR ''2'' then ESymlink
      else if t = CHR ''1'' then EHardLink
      else EOther)"

definition control_data :: "nat \<Rightarrow> nat \<Rightarrow> reader \<Rightarrow> string + string \<times> reader" where
  "control_data max_bytes sz r =
     rbind (read_entry_data max_bytes sz r) (\<lambda>(data, r).
     rbind (skip_exact (padding sz) r) (\<lambda>r. Inr (data, r)))"

text \<open>The name: PAX path, GNU long name, prefix and name, name.  The link name alike.\<close>

definition resolve_name :: "(string \<Rightarrow> bool) \<Rightarrow> string \<Rightarrow> pending \<Rightarrow> string + string" where
  "resolve_name utf8 h p =
     (case fst (pn_pax p) of
        Some n \<Rightarrow> Inr n
      | None \<Rightarrow>
          (case pn_name p of
             Some n \<Rightarrow> Inr n
           | None \<Rightarrow>
               (case cstr utf8 (slice 0 100 h) of
                  None \<Rightarrow> Inl ''EXTRACT-ZIP-SLIP''
                | Some n \<Rightarrow>
                    if n = [] then Inl ''EXTRACT-ZIP-SLIP''
                    else
                      let pfx = cstr_or_empty utf8 (slice 345 500 h) in
                      Inr (if pfx = [] then n else pfx @ ''/'' @ n))))"

definition resolve_linkname :: "(string \<Rightarrow> bool) \<Rightarrow> string \<Rightarrow> pending \<Rightarrow> string" where
  "resolve_linkname utf8 h p =
     (case snd (pn_pax p) of
        Some n \<Rightarrow> n
      | None \<Rightarrow> (case pn_linkname p of Some n \<Rightarrow> n | None \<Rightarrow> cstr_or_empty utf8 (slice 157 257 h)))"

text \<open>One header: an entry, or an override for the next one.\<close>

datatype tar_step = More reader pending | Yield tar_entry reader

definition entry_body :: "(string \<Rightarrow> bool) \<Rightarrow> nat \<Rightarrow> string \<Rightarrow> nat \<Rightarrow> pending \<Rightarrow> reader \<Rightarrow> string + tar_step" where
  "entry_body utf8 max_bytes h sz p r =
     rbind (resolve_name utf8 h p) (\<lambda>name.
     let kind = kind_of (h ! 156);
         mode = (case octal (slice 100 108 h) of Some m \<Rightarrow> m mod 2 ^ 32 | None \<Rightarrow> 0)
     in rbind (if kind = EFile then read_entry_data max_bytes sz r
               else rbind (skip_exact sz r) (\<lambda>r. Inr ([], r))) (\<lambda>(data, r).
        rbind (skip_exact (padding sz) r) (\<lambda>r.
        Inr (Yield \<lparr>te_name = name, te_linkname = resolve_linkname utf8 h p, te_size = sz,
               te_kind = kind, te_mode = mode, te_data = data\<rparr> r))))"

definition utf8_override :: "(string \<Rightarrow> bool) \<Rightarrow> string \<Rightarrow> string option \<Rightarrow> string option" where
  "utf8_override utf8 data old = (if utf8 (until_nul data) then Some (until_nul data) else old)"

definition entry_step ::
  "(string \<Rightarrow> bool) \<Rightarrow> nat \<Rightarrow> string \<Rightarrow> pending \<Rightarrow> reader \<Rightarrow> (string + tar_step) option" where
  "entry_step utf8 max_bytes h p r =
     (if \<not> header_checksum_valid h then Some (Inl ''FETCH-EXTRACT-FAILED'')
      else
        case octal (slice 124 136 h) of
          None \<Rightarrow> Some (Inl ''EXTRACT-SIZE-LIMIT'')
        | Some sz \<Rightarrow>
            let t = h ! 156 in
            if t \<in> {CHR ''L'', CHR ''K'', CHR ''x'', CHR ''X''}
            then
              case control_data max_bytes sz r of
                Inl e \<Rightarrow> Some (Inl e)
              | Inr (data, r) \<Rightarrow>
                  if t = CHR ''L'' then Some (Inr (More r (p\<lparr>pn_name := utf8_override utf8 data (pn_name p)\<rparr>)))
                  else if t = CHR ''K''
                  then Some (Inr (More r (p\<lparr>pn_linkname := utf8_override utf8 data (pn_linkname p)\<rparr>)))
                  else map_option (\<lambda>ov. Inr (More r (p\<lparr>pn_pax := ov\<rparr>))) (parse_pax_headers utf8 data (pn_pax p))
            else Some (entry_body utf8 max_bytes h sz p r))"

text \<open>
  All entries up to the end, an error or a panic.  An entry takes every pending override; a GNU name
  behind a PAX name is dropped.
\<close>

datatype tar_end = End | Failed string | Panicked

lemma read_header_less: "read_header r = Inr (Some (h, r')) \<Longrightarrow> length (rd_bytes r') < length (rd_bytes r)"
  by (auto simp: read_header_def Let_def rd_drop_def split: if_splits option.splits)

lemma read_entry_data_le: "read_entry_data m n r = Inr (d, r') \<Longrightarrow> length (rd_bytes r') \<le> length (rd_bytes r)"
  by (auto simp: read_entry_data_def rd_drop_def split: if_splits)

lemma skip_exact_le: "skip_exact n r = Inr r' \<Longrightarrow> length (rd_bytes r') \<le> length (rd_bytes r)"
  by (auto simp: skip_exact_def rd_drop_def split: if_splits)

lemma control_data_le: "control_data m n r = Inr (d, r') \<Longrightarrow> length (rd_bytes r') \<le> length (rd_bytes r)"
  by (auto simp: control_data_def rbind_Inr dest!: read_entry_data_le skip_exact_le)

lemma entry_body_le: "entry_body utf8 m h n p r = Inr (Yield e r') \<Longrightarrow> length (rd_bytes r') \<le> length (rd_bytes r)"
  by (auto simp: entry_body_def rbind_Inr Let_def dest!: read_entry_data_le skip_exact_le split: if_splits)

lemma entry_body_yields: "entry_body utf8 m h n p r = Inr s \<Longrightarrow> \<exists>e r'. s = Yield e r'"
  by (auto simp: entry_body_def rbind_Inr Let_def)

lemma entry_step_le:
  "entry_step utf8 m h p r = Some (Inr s) \<Longrightarrow>
   (case s of More r' p' \<Rightarrow> length (rd_bytes r') \<le> length (rd_bytes r)
    | Yield e r' \<Rightarrow> length (rd_bytes r') \<le> length (rd_bytes r))"
  using entry_body_yields [of utf8 m h _ p r s] entry_body_le [of utf8 m h _ p r] control_data_le [of m _ r]
  by (fastforce simp: entry_step_def Let_def split: if_splits option.splits sum.splits tar_step.splits)

function read_entries :: "(string \<Rightarrow> bool) \<Rightarrow> nat \<Rightarrow> reader \<Rightarrow> pending \<Rightarrow> tar_entry list \<times> tar_end" where
  "read_entries utf8 max_bytes r p =
     (case read_header r of
        Inl e \<Rightarrow> ([], Failed e)
      | Inr None \<Rightarrow> ([], End)
      | Inr (Some (h, r)) \<Rightarrow>
          (case entry_step utf8 max_bytes h p r of
             None \<Rightarrow> ([], Panicked)
           | Some (Inl e) \<Rightarrow> ([], Failed e)
           | Some (Inr (More r p)) \<Rightarrow> read_entries utf8 max_bytes r p
           | Some (Inr (Yield e r)) \<Rightarrow>
               (let (es, status) = read_entries utf8 max_bytes r no_pending in (e # es, status))))"
  by pat_completeness auto
termination
  by (relation "measure (\<lambda>(utf8, m, r, p). length (rd_bytes r))")
    (auto dest!: read_header_less entry_step_le)

declare read_entries.simps [simp del]

definition tar_entries :: "(string \<Rightarrow> bool) \<Rightarrow> nat \<Rightarrow> reader \<Rightarrow> tar_entry list \<times> tar_end" where
  "tar_entries utf8 max_bytes r = read_entries utf8 max_bytes r no_pending"

subsection \<open>Framing\<close>

lemma octal_value_less: "list_all is_octal d \<Longrightarrow> octal_value d < 8 ^ length d"
proof (induction d rule: rev_induct)
  case (snoc c d)
  then have "48 \<le> byte c" "byte c \<le> 55" by (auto simp: is_octal_def)
  then have "digit_val c < 8" unfolding digit_val_def by linarith
  with snoc show ?case by (simp add: octal_value_def)
qed (simp add: octal_value_def)

lemma octal_bound:
  assumes "octal f = Some n"
  shows "n < 8 ^ length f"
proof -
  let ?s = "filter (\<lambda>c. c \<noteq> CHR '' '' \<and> c \<noteq> CHR 0x00) f"
  have "length (unsigned_text s) \<le> length s" for s by (cases s) (auto simp: unsigned_text_def)
  then have "length (unsigned_text ?s) \<le> length f" using length_filter_le le_trans by blast
  then have "(8::nat) ^ length (unsigned_text ?s) \<le> 8 ^ length f" by (simp add: power_increasing)
  moreover have "n = 0 \<or> n < 8 ^ length (unsigned_text ?s)"
    using assms octal_value_less by (auto simp: octal_def Let_def split: if_splits)
  ultimately show ?thesis by (auto intro: order.strict_trans2)
qed

lemma padding_small:
  assumes "n < 2 ^ 36"
  shows "padding n < 512 \<and> (n + padding n) mod 512 = 0"
proof -
  define k where "k = (n + 511) div 512"
  have k: "n \<le> k * 512" "k * 512 < n + 512" by (auto simp: k_def)
  then have "k * 512 < 2 ^ 37" using assms by simp
  then have "k * 512 mod 2 ^ 64 = k * 512" by simp
  then have "padding n = (k * 512 + 2 ^ 64 - n) mod 2 ^ 64" by (simp add: padding_def k_def)
  also have "k * 512 + 2 ^ 64 - n = k * 512 - n + 2 ^ 64" using k by simp
  also have "k * 512 - n + 2 ^ 64 = 2 ^ 64 + (k * 512 - n)" by simp
  also have "\<dots> mod 2 ^ 64 = k * 512 - n" unfolding mod_add_self1 using k by (simp add: mod_less)
  finally show ?thesis using k by (simp add: k_def)
qed

lemma size_field: "octal (slice 124 136 h) = Some n \<Longrightarrow> n < 2 ^ 36"
proof -
  assume "octal (slice 124 136 h) = Some n"
  then have "n < 8 ^ length (slice 124 136 h)" by (rule octal_bound)
  also have "\<dots> \<le> 8 ^ 12" by (rule power_increasing) (auto simp: slice_def)
  finally show ?thesis by simp
qed

lemma read_entry_data_length:
  "read_entry_data m n r = Inr (d, r') \<Longrightarrow> length (rd_bytes r) = length (rd_bytes r') + n \<and> n \<le> m"
  by (auto simp: read_entry_data_def rd_drop_def split: if_splits)

lemma skip_exact_length: "skip_exact n r = Inr r' \<Longrightarrow> length (rd_bytes r) = length (rd_bytes r') + n"
  by (auto simp: skip_exact_def rd_drop_def split: if_splits)

lemma control_data_length:
  "control_data m n r = Inr (d, r') \<Longrightarrow> length (rd_bytes r) = length (rd_bytes r') + (n + padding n) \<and> n \<le> m"
  by (auto simp: control_data_def rbind_Inr dest!: read_entry_data_length skip_exact_length)

lemma entry_body_length:
  "entry_body utf8 m h n p r = Inr (Yield e r') \<Longrightarrow> length (rd_bytes r) = length (rd_bytes r') + (n + padding n)"
  by (auto simp: entry_body_def rbind_Inr Let_def dest!: read_entry_data_length skip_exact_length split: if_splits)

text \<open>
  Framing.  The size field of a header has twelve bytes, so the padding arithmetic never wraps, and
  whatever a header is for, an entry, a long name or a PAX record, reading past it consumes a
  multiple of 512 bytes: the next header is looked for on a block boundary.  The data kept in memory
  for a file is exactly the declared size, and no more than the cap.
\<close>

theorem tar_framing:
  assumes "entry_step utf8 m h p r = Some (Inr s)"
  shows "\<exists>r' n. (s = More r' (case s of More _ p' \<Rightarrow> p' | _ \<Rightarrow> p) \<or> (\<exists>e. s = Yield e r' \<and> te_size e = n \<and>
      (te_kind e = EFile \<longrightarrow> length (te_data e) = n \<and> n \<le> m))) \<and>
    n < 2 ^ 36 \<and> length (rd_bytes r) = length (rd_bytes r') + (n + padding n) \<and> (n + padding n) mod 512 = 0"
proof -
  from assms obtain n where n: "octal (slice 124 136 h) = Some n"
    by (auto simp: entry_step_def split: if_splits option.splits)
  note b = padding_small [OF size_field [OF n]] size_field [OF n]
  show ?thesis
  proof (cases s)
    case (More r' p')
    then obtain d where "control_data m n r = Inr (d, r')"
      using assms n by (auto simp: entry_step_def Let_def dest: entry_body_yields split: if_splits sum.splits)
    from control_data_length [OF this] More b show ?thesis by auto
  next
    case (Yield e r')
    then have y: "entry_body utf8 m h n p r = Inr (Yield e r')"
      using assms n by (auto simp: entry_step_def Let_def split: if_splits sum.splits)
    have "te_size e = n" "te_kind e = EFile \<longrightarrow> length (te_data e) = n \<and> n \<le> m"
      using y by (auto simp: entry_body_def rbind_Inr Let_def read_entry_data_def split: if_splits)
    with entry_body_length [OF y] Yield b show ?thesis by auto
  qed
qed

text \<open>
  C40. A PAX record can crash the reader.  The end of a record is the sum of its position and its declared
  length, on machine words.  Behind a first record, a declared length close to \<open>2 ^ 64\<close> wraps the
  sum to an end in front of the position; it passes the bound check, and the slice panics.
\<close>

theorem pax_length_panics:
  "parse_pax_headers (\<lambda>_. True) (''6 a=b'' @ [CHR 0x0A] @ ''18446744073709551610 x=y'') (None, None) = None"
proof -
  let ?d = "''6 a=b'' @ [CHR 0x0A] @ ''18446744073709551610 x=y''"
  have 1: "parse_usize ''6'' = Some 6" by (simp add: parse_usize_def unsigned_text_def is_digit_def nat_of_dec_def digit_val_def)
  have 2: "parse_usize ''18446744073709551610'' = Some 18446744073709551610"
    by (simp add: parse_usize_def unsigned_text_def is_digit_def nat_of_dec_def digit_val_def)
  have s: "slice 0 6 ?d = ''6 a=b'' @ [CHR 0x0A]" by (simp add: slice_def)
  have "parse_pax_headers (\<lambda>_. True) ?d (None, None) = parse_pax (\<lambda>_. True) ?d 6 (None, None)"
    unfolding parse_pax_headers_def
    by (subst parse_pax.simps) (simp add: 1 s [simplified] pax_record_def pax_value_def slice_def)
  also have "\<dots> = None"
    by (subst parse_pax.simps) (simp add: 2)
  finally show ?thesis .
qed

subsection \<open>Archives in the plain form\<close>

text \<open>A writer of plain headers, the reference for the reader.\<close>

fun oct_digits :: "nat \<Rightarrow> nat \<Rightarrow> string" where
  "oct_digits 0 n = []"
| "oct_digits (Suc k) n = oct_digits k (n div 8) @ [digit_char (n mod 8)]"

definition field :: "nat \<Rightarrow> string \<Rightarrow> string" where
  "field n s = s @ replicate (n - length s) CHR 0x00"

definition typeflag :: "entry_kind \<Rightarrow> char" where
  "typeflag k = (case k of EFile \<Rightarrow> CHR ''0'' | EDir \<Rightarrow> CHR ''5'' | ESymlink \<Rightarrow> CHR ''2'' | EHardLink \<Rightarrow> CHR ''1''
     | EOther \<Rightarrow> CHR ''3'')"

definition head_part :: "tar_entry \<Rightarrow> string" where
  "head_part e = field 100 (te_name e) @ field 8 (oct_digits 7 (te_mode e)) @ replicate 16 CHR 0x00 @
     field 12 (oct_digits 11 (te_size e)) @ replicate 12 CHR 0x00"

definition tail_part :: "tar_entry \<Rightarrow> string" where
  "tail_part e = [typeflag (te_kind e)] @ field 100 (te_linkname e) @ replicate 255 CHR 0x00"

definition checksum_of :: "tar_entry \<Rightarrow> nat" where
  "checksum_of e = sum_list (map byte (head_part e @ replicate 8 CHR '' '' @ tail_part e))"

definition write_header :: "tar_entry \<Rightarrow> string" where
  "write_header e = head_part e @ field 8 (oct_digits 6 (checksum_of e)) @ tail_part e"

definition write_entry :: "tar_entry \<Rightarrow> string" where
  "write_entry e = write_header e @ te_data e @ replicate (padding (te_size e)) CHR 0x00"

definition plain_text :: "(string \<Rightarrow> bool) \<Rightarrow> string \<Rightarrow> bool" where
  "plain_text utf8 s \<longleftrightarrow> CHR 0x00 \<notin> set s \<and> length s \<le> 100 \<and> utf8 s"

definition plain_entry :: "(string \<Rightarrow> bool) \<Rightarrow> nat \<Rightarrow> tar_entry \<Rightarrow> bool" where
  "plain_entry utf8 m e \<longleftrightarrow>
     plain_text utf8 (te_name e) \<and> te_name e \<noteq> [] \<and> plain_text utf8 (te_linkname e) \<and> te_mode e < 8 ^ 7 \<and>
     te_size e = length (te_data e) \<and> te_size e < 8 ^ 11 \<and> te_size e \<le> m \<and> (te_kind e \<noteq> EFile \<longrightarrow> te_data e = [])"

lemma oct_digits_length [simp]: "length (oct_digits k n) = k"
  by (induction k arbitrary: n) auto

lemma oct_digits_octal: "list_all is_octal (oct_digits k n)"
  by (induction k arbitrary: n) (auto simp: is_octal_def digit_char_def)

lemma octal_value_digits: "octal_value (oct_digits k n) = n mod 8 ^ k"
proof (induction k arbitrary: n)
  case (Suc k)
  have "8 * (n div 8 mod 8 ^ k) + n mod 8 = n mod (8 * 8 ^ k)"
    by (simp add: mod_mult2_eq)
  with Suc show ?case by (simp add: octal_value_def digit_val_char)
qed (simp add: octal_value_def)

lemma octal_field:
  assumes "n < 8 ^ Suc k" "Suc k \<le> 21" "Suc k \<le> w"
  shows "octal (field w (oct_digits (Suc k) n)) = Some n"
proof -
  let ?d = "oct_digits (Suc k) n"
  have o: "list_all is_octal ?d" by (rule oct_digits_octal)
  then have f: "filter (\<lambda>c. c \<noteq> CHR '' '' \<and> c \<noteq> CHR 0x00) ?d = ?d"
    by (intro filter_True) (auto simp: list_all_iff is_octal_def)
  obtain c cs where d: "?d = c # cs" by (metis length_Suc_conv oct_digits_length)
  with o have "is_octal c" by (metis list.pred_inject(2))
  then have "c \<noteq> CHR ''+''" by (auto simp: is_octal_def)
  then have u: "unsigned_text ?d = ?d" unfolding d by (simp add: unsigned_text_def)
  have "(8::nat) ^ Suc k \<le> 8 ^ 21" by (rule power_increasing [OF assms(2)]) simp
  with assms(1) have "n < 2 ^ 64" by simp
  moreover have "octal_value ?d = n" using octal_value_digits [of "Suc k" n] assms(1) by simp
  moreover have "filter (\<lambda>c. c \<noteq> CHR '' '' \<and> c \<noteq> CHR 0x00) (field w ?d) = ?d"
    using f by (simp add: field_def del: oct_digits.simps)
  moreover have "?d \<noteq> []" using d by simp
  ultimately show ?thesis
    using o u unfolding octal_def Let_def by (simp del: oct_digits.simps)
qed

lemma field_length [simp]: "length s \<le> n \<Longrightarrow> length (field n s) = n"
  by (simp add: field_def)

lemma slice_skip: "length x \<le> a \<Longrightarrow> slice a b (x @ y) = slice (a - length x) (b - length x) y"
  by (simp add: slice_def)

lemma slice_here: "length x = b \<Longrightarrow> slice 0 b (x @ y) = x"
  by (simp add: slice_def)

lemma cstr_field: "plain_text utf8 s \<Longrightarrow> cstr utf8 (field 100 s) = Some s"
proof -
  assume "plain_text utf8 s"
  then have "takeWhile (\<lambda>c. c \<noteq> CHR 0x00) (s @ replicate k CHR 0x00) = s" for k
    by (subst takeWhile_append2) (auto simp: plain_text_def takeWhile_eq_Nil_iff)
  then show ?thesis using \<open>plain_text utf8 s\<close>
    by (simp add: cstr_def until_nul_def field_def plain_text_def)
qed

lemma head_length: "plain_entry utf8 m e \<Longrightarrow> length (head_part e) = 148"
  by (simp add: head_part_def plain_entry_def plain_text_def)

lemma tail_length: "plain_entry utf8 m e \<Longrightarrow> length (tail_part e) = 356"
  by (simp add: tail_part_def plain_entry_def plain_text_def)

lemma checksum_small: "plain_entry utf8 m e \<Longrightarrow> checksum_of e < 8 ^ 6"
proof -
  assume e: "plain_entry utf8 m e"
  have b: "sum_list (map byte s) \<le> 255 * length s" for s
  proof (induction s)
    case (Cons c s)
    have "byte c < 256" by (rule nat_of_char_less_256)
    then have "byte c \<le> 255" by linarith
    with Cons show ?case by (simp add: add_mono)
  qed simp
  have "checksum_of e \<le> 255 * 512"
    using b [of "head_part e @ replicate 8 CHR '' '' @ tail_part e"] head_length [OF e] tail_length [OF e]
    by (simp add: checksum_of_def)
  then show ?thesis by simp
qed

lemma header_length: "plain_entry utf8 m e \<Longrightarrow> length (write_header e) = 512"
  using head_length tail_length by (simp add: write_header_def)

lemma written_checksum: "plain_entry utf8 m e \<Longrightarrow> header_checksum_valid (write_header e)"
proof -
  assume e: "plain_entry utf8 m e"
  note l = head_length [OF e] tail_length [OF e]
  have "slice 148 156 (write_header e) = field 8 (oct_digits 6 (checksum_of e))"
    by (simp add: write_header_def slice_skip l slice_here)
  moreover have "octal (field 8 (oct_digits 6 (checksum_of e))) = Some (checksum_of e)"
    using octal_field [of "checksum_of e" 5 8] checksum_small [OF e] by (simp del: oct_digits.simps)
  moreover have "checksum_bytes (write_header e) = map byte (head_part e @ replicate 8 CHR '' '' @ tail_part e)"
    by (simp add: checksum_bytes_def write_header_def l)
  ultimately show ?thesis by (simp add: header_checksum_valid_def checksum_of_def)
qed

lemma written_fields:
  assumes "plain_entry utf8 m e"
  shows "octal (slice 124 136 (write_header e)) = Some (te_size e)" "write_header e ! 156 = typeflag (te_kind e)"
    "cstr utf8 (slice 0 100 (write_header e)) = Some (te_name e)" "cstr utf8 (slice 157 257 (write_header e)) = Some (te_linkname e)"
    "octal (slice 100 108 (write_header e)) = Some (te_mode e)" "until_nul (slice 345 500 (write_header e)) = []"
proof -
  note l = head_length [OF assms] tail_length [OF assms]
  have n: "length (te_name e) \<le> 100" "length (te_linkname e) \<le> 100"
    using assms by (simp_all add: plain_entry_def plain_text_def)
  have h: "write_header e = field 100 (te_name e) @ field 8 (oct_digits 7 (te_mode e)) @ replicate 16 CHR 0x00 @
      field 12 (oct_digits 11 (te_size e)) @ replicate 12 CHR 0x00 @ field 8 (oct_digits 6 (checksum_of e)) @ tail_part e"
    by (simp add: write_header_def head_part_def)
  have "slice 124 136 (write_header e) = field 12 (oct_digits 11 (te_size e))"
    by (simp add: h slice_skip n slice_here)
  then show "octal (slice 124 136 (write_header e)) = Some (te_size e)"
    using octal_field [of "te_size e" 10 12] assms by (simp add: plain_entry_def del: oct_digits.simps)
  have "slice 100 108 (write_header e) = field 8 (oct_digits 7 (te_mode e))"
    by (simp add: h slice_skip n slice_here)
  then show "octal (slice 100 108 (write_header e)) = Some (te_mode e)"
    using octal_field [of "te_mode e" 6 8] assms by (simp add: plain_entry_def del: oct_digits.simps)
  show "cstr utf8 (slice 0 100 (write_header e)) = Some (te_name e)"
    using assms by (simp add: h slice_here n cstr_field plain_entry_def)
  have "write_header e ! 156 = tail_part e ! 0" by (simp add: write_header_def nth_append l)
  then show "write_header e ! 156 = typeflag (te_kind e)" by (simp add: tail_part_def)
  have t: "write_header e = head_part e @ field 8 (oct_digits 6 (checksum_of e)) @ [typeflag (te_kind e)] @
      field 100 (te_linkname e) @ replicate 255 CHR 0x00"
    by (simp add: write_header_def tail_part_def)
  have "slice 157 257 (write_header e) = field 100 (te_linkname e)"
    unfolding t by (simp only: slice_skip slice_here l field_length oct_digits_length n list.size length_replicate) (simp add: slice_skip slice_here n)
  then show "cstr utf8 (slice 157 257 (write_header e)) = Some (te_linkname e)"
    using assms by (simp add: cstr_field plain_entry_def)
  have "slice 345 500 (write_header e) = replicate 155 CHR 0x00"
    unfolding t by (simp add: slice_skip l n slice_def)
  then show "until_nul (slice 345 500 (write_header e)) = []"
    by (simp add: until_nul_def takeWhile_eq_Nil_iff)
qed

lemma kind_of_typeflag: "kind_of (typeflag k) = k"
  by (cases k) (simp_all add: kind_of_def typeflag_def)

lemma typeflag_plain: "typeflag k \<notin> {CHR ''L'', CHR ''K'', CHR ''x'', CHR ''X''}"
  by (cases k) (simp_all add: typeflag_def)

lemma read_written_header:
  "plain_entry utf8 m e \<Longrightarrow>
   read_header \<lparr>rd_bytes = write_header e @ s, rd_fail = f\<rparr> = Inr (Some (write_header e, \<lparr>rd_bytes = s, rd_fail = f\<rparr>))"
proof -
  assume e: "plain_entry utf8 m e"
  have "te_name e \<noteq> [] \<and> CHR 0x00 \<notin> set (te_name e)" using e by (simp add: plain_entry_def plain_text_def)
  then have "\<exists>c \<in> set (write_header e). c \<noteq> CHR 0x00"
    by (cases "te_name e") (auto simp: write_header_def head_part_def field_def)
  then have "\<not> list_all (\<lambda>c. c = CHR 0x00) (write_header e)" by (auto simp: list_all_iff)
  then show ?thesis using header_length [OF e] by (simp add: read_header_def rd_drop_def)
qed

lemma entry_step_written:
  assumes "plain_entry utf8 m e" "utf8 []"
  shows "entry_step utf8 m (write_header e) no_pending
      \<lparr>rd_bytes = te_data e @ replicate (padding (te_size e)) CHR 0x00 @ s, rd_fail = f\<rparr> =
    Some (Inr (Yield e \<lparr>rd_bytes = s, rd_fail = f\<rparr>))"
proof -
  note w = written_fields [OF assms(1)]
  have e: "te_size e = length (te_data e)" "te_size e \<le> m" "te_kind e \<noteq> EFile \<Longrightarrow> te_data e = []" "te_name e \<noteq> []"
    "te_mode e < 2 ^ 32"
    using assms(1) by (auto simp: plain_entry_def)
  have p: "cstr_or_empty utf8 (slice 345 500 (write_header e)) = []"
    using assms(2) w(6) by (simp add: cstr_or_empty_def cstr_def)
  have r: "resolve_name utf8 (write_header e) no_pending = Inr (te_name e)"
    by (simp add: resolve_name_def no_pending_def w(3) e(4) p)
  have l: "resolve_linkname utf8 (write_header e) no_pending = te_linkname e"
    by (simp add: resolve_linkname_def no_pending_def cstr_or_empty_def w(4))
  have "entry_body utf8 m (write_header e) (te_size e) no_pending
      \<lparr>rd_bytes = te_data e @ replicate (padding (te_size e)) CHR 0x00 @ s, rd_fail = f\<rparr> =
    Inr (Yield e \<lparr>rd_bytes = s, rd_fail = f\<rparr>)"
    using e by (cases "te_kind e = EFile")
      (simp_all add: entry_body_def r l w(2,5) kind_of_typeflag Let_def read_entry_data_def skip_exact_def rd_drop_def)
  then show ?thesis
    using written_checksum [OF assms(1)] w(1) typeflag_plain [of "te_kind e"] by (simp add: entry_step_def Let_def w(2))
qed

lemma read_written:
  assumes "list_all (plain_entry utf8 m) es" "utf8 []"
  shows "tar_entries utf8 m \<lparr>rd_bytes = concat (map write_entry es) @ replicate 512 CHR 0x00 @ rest, rd_fail = f\<rparr> = (es, End)"
  using assms(1)
proof (induction es)
  case Nil
  show ?case
    by (simp add: tar_entries_def read_entries.simps read_header_def list_all_iff)
next
  case (Cons e es)
  then have e: "plain_entry utf8 m e" by simp
  show ?case
    using Cons e unfolding tar_entries_def
    by (subst read_entries.simps)
      (simp add: write_entry_def read_written_header [OF e] entry_step_written [OF e assms(2)])
qed

text \<open>
  C33. An archive in the plain form is read back: files, directories, links and hard links with names and
  link names of up to 100 bytes, written with checked headers and padded data and closed by zero
  blocks, are yielded in order with their names, link names, sizes, modes and contents, whatever
  follows the closing block.
\<close>

theorem tar_roundtrip:
  assumes "list_all (plain_entry utf8 m) es" "utf8 []"
  shows "tar_entries utf8 m \<lparr>rd_bytes = concat (map write_entry es) @ replicate 512 CHR 0x00 @ rest, rd_fail = f\<rparr> = (es, End)"
  using assms by (rule read_written)

theorem tar_roundtrip_witness:
  "tar_entries (\<lambda>_. True) 10 \<lparr>rd_bytes = write_entry \<lparr>te_name = ''a/b'', te_linkname = [], te_size = 2, te_kind = EFile,
     te_mode = 420, te_data = ''hi''\<rparr> @ replicate 1024 CHR 0x00, rd_fail = None\<rparr> =
   ([\<lparr>te_name = ''a/b'', te_linkname = [], te_size = 2, te_kind = EFile, te_mode = 420, te_data = ''hi''\<rparr>], End)"
proof -
  let ?e = "\<lparr>te_name = ''a/b'', te_linkname = [], te_size = 2, te_kind = EFile, te_mode = 420, te_data = ''hi''\<rparr>"
  have "list_all (plain_entry (\<lambda>_. True) 10) [?e]" by (simp add: plain_entry_def plain_text_def)
  from tar_roundtrip [OF this, of "replicate 512 CHR 0x00" None]
  show ?thesis by (simp add: replicate_add [symmetric])
qed

theorem tar_framing_witness:
  "let e = \<lparr>te_name = ''a'', te_linkname = [], te_size = 2, te_kind = EFile, te_mode = 0, te_data = ''hi''\<rparr> in
   \<exists>n. te_size e = n \<and> n \<le> 10 \<and> (n + padding n) mod 512 = 0"
proof -
  let ?e = "\<lparr>te_name = ''a'', te_linkname = [], te_size = 2, te_kind = EFile, te_mode = 0, te_data = ''hi''\<rparr>"
  have "plain_entry (\<lambda>_. True) 10 ?e" by (simp add: plain_entry_def plain_text_def)
  from tar_framing [OF entry_step_written [OF this, of "[]" None]] show ?thesis by auto
qed

end
