(* ===== verification/SafeExtract.thy ===== *)
theory SafeExtract
  imports TarReader Workspace DagIdentity
begin

text \<open>
  Archive extraction (\<^verbatim>\<open>milpa-core/src/safe_extract.rs\<close>): the two passes of \<^verbatim>\<open>extract_tar\<close> with their path, link
  and size checks, and the in-memory enumeration \<^verbatim>\<open>tar_materialize_entries\<close>.  The file system is the map of
  \<^verbatim>\<open>Workspace\<close>, with symbolic links; the operations on it are those of the kernel: every component but the
  last follows links, creating a file follows a final link, removing and linking do not.  System calls
  fail only for what the tree holds.
\<close>

unbundle bit_operations_syntax

subsection \<open>Limits\<close>

record limits =
  max_total_size :: nat
  max_file_size :: nat
  max_file_count :: nat

definition DECOMP_CAP_OVERHEAD :: nat where "DECOMP_CAP_OVERHEAD = 512"

definition DEFAULT_MAX_TOTAL_SIZE :: nat where "DEFAULT_MAX_TOTAL_SIZE = 2 ^ 30"

definition decomp_cap :: "limits \<Rightarrow> nat" where
  "decomp_cap l = (max_total_size l + DECOMP_CAP_OVERHEAD) mod 2 ^ 64"

definition limits_default :: limits where
  "limits_default =
     \<lparr>max_total_size = DEFAULT_MAX_TOTAL_SIZE, max_file_size = 2 ^ 28, max_file_count = 100000\<rparr>"

subsection \<open>Operations on the file system\<close>

definition LINK_LIMIT :: nat where "LINK_LIMIT = 40"

definition os_path :: "path \<Rightarrow> bool" where
  "os_path p \<longleftrightarrow> list_all (\<lambda>c. case c of Normal s \<Rightarrow> CHR 0x00 \<notin> set s | _ \<Rightarrow> True) p"

definition is_directory :: "file_system \<Rightarrow> string list \<Rightarrow> bool" where
  "is_directory fs q \<longleftrightarrow> q = [] \<or> fs q = Some WDir"

text \<open>\<^verbatim>\<open>create_dir_all\<close>: a link to a directory is followed, anything else that is in the way is an error.\<close>

fun mkdirs :: "file_system \<Rightarrow> string list \<Rightarrow> path \<Rightarrow> file_system option" where
  "mkdirs fs at [] = Some fs"
| "mkdirs fs at (RootDir # cs) = mkdirs fs [] cs"
| "mkdirs fs at (CurDir # cs) = mkdirs fs at cs"
| "mkdirs fs at (ParentDir # cs) = mkdirs fs (butlast at) cs"
| "mkdirs fs at (Normal s # cs) =
     (case fs (at @ [s]) of
        None \<Rightarrow> mkdirs (fs(at @ [s] \<mapsto> WDir)) (at @ [s]) cs
      | Some WDir \<Rightarrow> mkdirs fs (at @ [s]) cs
      | Some (WFile t) \<Rightarrow> None
      | Some (WLink p) \<Rightarrow>
          (case walk_path fs LINK_LIMIT at p of
             None \<Rightarrow> None
           | Some q \<Rightarrow> if is_directory fs q then mkdirs fs q cs else None))"

definition create_dir_all :: "file_system \<Rightarrow> path \<Rightarrow> file_system option" where
  "create_dir_all fs p = (if os_path p then mkdirs fs [] p else None)"

text \<open>Where a file at a path is, or would be created.\<close>

function locate :: "file_system \<Rightarrow> nat \<Rightarrow> string list \<Rightarrow> path \<Rightarrow> string list option" where
  "locate fs n at [] = Some at"
| "locate fs n at (RootDir # cs) = locate fs n [] cs"
| "locate fs n at (CurDir # cs) = locate fs n at cs"
| "locate fs n at (ParentDir # cs) = locate fs n (butlast at) cs"
| "locate fs n at (Normal s # cs) =
     (case fs (at @ [s]) of
        None \<Rightarrow> if cs = [] then Some (at @ [s]) else None
      | Some WDir \<Rightarrow> locate fs n (at @ [s]) cs
      | Some (WFile t) \<Rightarrow> if cs = [] then Some (at @ [s]) else None
      | Some (WLink p) \<Rightarrow> (case n of 0 \<Rightarrow> None | Suc k \<Rightarrow> locate fs k at (p @ cs)))"
  by pat_completeness auto
termination
  by (relation "measures [\<lambda>(fs, n, at, cs). n, \<lambda>(fs, n, at, cs). length cs]") auto

definition write_file :: "file_system \<Rightarrow> path \<Rightarrow> string \<Rightarrow> file_system option" where
  "write_file fs p d =
     (if \<not> os_path p then None
      else case locate fs LINK_LIMIT [] p of
        None \<Rightarrow> None
      | Some q \<Rightarrow> if is_directory fs q then None else Some (fs(q \<mapsto> WFile d)))"

definition read_file :: "file_system \<Rightarrow> path \<Rightarrow> string option" where
  "read_file fs p =
     (if \<not> os_path p then None
      else case walk_path fs LINK_LIMIT [] p of
        None \<Rightarrow> None
      | Some q \<Rightarrow> (case fs q of Some (WFile d) \<Rightarrow> Some d | _ \<Rightarrow> None))"

text \<open>The entry a path names, its last component not followed.\<close>

definition entry_at :: "file_system \<Rightarrow> path \<Rightarrow> string list option" where
  "entry_at fs p =
     (if p = [] \<or> \<not> os_path p then None
      else case last p of
        Normal s \<Rightarrow>
          (case walk_path fs LINK_LIMIT [] (butlast p) of
             None \<Rightarrow> None
           | Some d \<Rightarrow> if is_directory fs d then Some (d @ [s]) else None)
      | _ \<Rightarrow> None)"

definition remove_file :: "file_system \<Rightarrow> path \<Rightarrow> file_system" where
  "remove_file fs p =
     (case entry_at fs p of
        None \<Rightarrow> fs
      | Some q \<Rightarrow> (case fs q of Some WDir \<Rightarrow> fs | _ \<Rightarrow> fs(q := None)))"

definition symlink :: "file_system \<Rightarrow> string \<Rightarrow> path \<Rightarrow> file_system option" where
  "symlink fs linkname p =
     (case entry_at fs p of
        None \<Rightarrow> None
      | Some q \<Rightarrow>
          if fs q \<noteq> None \<or> linkname = [] \<or> CHR 0x00 \<in> set linkname then None
          else Some (fs(q \<mapsto> WLink (components linkname))))"

subsection \<open>Paths of an archive\<close>

text \<open>Here a parent step pops whatever component is last, another parent step included.\<close>

fun normalize_lexical_step :: "path \<Rightarrow> path_comp \<Rightarrow> path" where
  "normalize_lexical_step out ParentDir =
     (if out = [] \<or> out = [RootDir] then out @ [ParentDir] else butlast out)"
| "normalize_lexical_step out CurDir = out"
| "normalize_lexical_step out RootDir = [RootDir]"
| "normalize_lexical_step out (Normal s) = out @ [Normal s]"

definition normalize_lexical :: "path \<Rightarrow> path" where
  "normalize_lexical p = foldl normalize_lexical_step [] p"

definition strip_name :: "nat \<Rightarrow> string \<Rightarrow> string option" where
  "strip_name strip raw =
     (let parts = filter (\<lambda>p. p \<noteq> [] \<and> p \<noteq> ''.'') (split_on CHR ''/'' raw) in
      if length parts \<le> strip then None else Some (join ''/'' (drop strip parts)))"

definition path_parent :: "path \<Rightarrow> path option" where
  "path_parent p = (if p = [] \<or> p = [RootDir] then None else Some (butlast p))"

definition lexical_target :: "path \<Rightarrow> string \<Rightarrow> path" where
  "lexical_target base name = normalize_lexical (path_join base (components name))"

subsection \<open>The first pass\<close>

record extraction =
  xs_fs :: file_system
  xs_total :: nat
  xs_count :: nat
  xs_links :: "(string \<times> path) list"

definition mkdir_parent :: "path \<Rightarrow> file_system \<Rightarrow> string + file_system" where
  "mkdir_parent target fs =
     (case path_parent target of
        None \<Rightarrow> Inr fs
      | Some p \<Rightarrow> (case create_dir_all fs p of None \<Rightarrow> Inl ''EXTRACT-IO-ERROR'' | Some fs' \<Rightarrow> Inr fs'))"

definition or_io_error :: "file_system option \<Rightarrow> string + file_system" where
  "or_io_error r = (case r of None \<Rightarrow> Inl ''EXTRACT-IO-ERROR'' | Some fs \<Rightarrow> Inr fs)"

definition count_file :: "limits \<Rightarrow> extraction \<Rightarrow> string + extraction" where
  "count_file l x =
     (if xs_count x + 1 > max_file_count l then Inl ''EXTRACT-SIZE-LIMIT''
      else Inr (x\<lparr>xs_count := xs_count x + 1\<rparr>))"

text \<open>The three caps on a file of a given size; the total is a wrapping 64-bit sum.\<close>

definition charge :: "limits \<Rightarrow> nat \<Rightarrow> extraction \<Rightarrow> string + extraction" where
  "charge l sz x =
     (let total = (xs_total x + sz) mod 2 ^ 64 in
      if sz > max_file_size l then Inl ''EXTRACT-SIZE-LIMIT''
      else if total > max_total_size l then Inl ''EXTRACT-SIZE-LIMIT''
      else count_file l (x\<lparr>xs_total := total\<rparr>))"

definition put_file :: "path \<Rightarrow> string \<Rightarrow> extraction \<Rightarrow> string + extraction" where
  "put_file target d x =
     rbind (mkdir_parent target (xs_fs x)) (\<lambda>fs.
     rbind (or_io_error (write_file fs target d)) (\<lambda>fs. Inr (x\<lparr>xs_fs := fs\<rparr>)))"

definition extract_symlink :: "path \<Rightarrow> limits \<Rightarrow> extraction \<Rightarrow> path \<Rightarrow> string \<Rightarrow> string + extraction" where
  "extract_symlink dest_root l x target linkname =
     (let parent = (case path_parent target of Some p \<Rightarrow> p | None \<Rightarrow> dest_root) in
      if \<not> prefix dest_root (lexical_target parent linkname) then Inl ''EXTRACT-SYMLINK-ESCAPE''
      else
        rbind (mkdir_parent target (xs_fs x)) (\<lambda>fs.
        rbind (or_io_error (symlink (remove_file fs target) linkname target)) (\<lambda>fs.
        count_file l (x\<lparr>xs_fs := fs\<rparr>))))"

definition extract_entry :: "path \<Rightarrow> nat \<Rightarrow> limits \<Rightarrow> extraction \<Rightarrow> tar_entry \<Rightarrow> string + extraction" where
  "extract_entry dest_root strip l x e =
     (case strip_name strip (te_name e) of
        None \<Rightarrow> Inr x
      | Some stripped \<Rightarrow>
          let target = lexical_target dest_root stripped in
          if \<not> prefix dest_root target then Inl ''EXTRACT-ZIP-SLIP''
          else
            case te_kind e of
              EHardLink \<Rightarrow> Inr (x\<lparr>xs_links := xs_links x @ [(te_linkname e, target)]\<rparr>)
            | ESymlink \<Rightarrow> extract_symlink dest_root l x target (te_linkname e)
            | EDir \<Rightarrow> rbind (or_io_error (create_dir_all (xs_fs x) target)) (\<lambda>fs. Inr (x\<lparr>xs_fs := fs\<rparr>))
            | EFile \<Rightarrow> rbind (charge l (te_size e) x) (put_file target (te_data e))
            | EOther \<Rightarrow> Inr x)"

subsection \<open>The second pass\<close>

definition extract_hardlink :: "path \<Rightarrow> nat \<Rightarrow> limits \<Rightarrow> extraction \<Rightarrow> string \<times> path \<Rightarrow> string + extraction" where
  "extract_hardlink dest_root strip l x hl =
     (case strip_name strip (fst hl) of
        None \<Rightarrow> Inl ''EXTRACT-ZIP-SLIP''
      | Some stripped \<Rightarrow>
          let resolved = lexical_target dest_root stripped in
          if \<not> prefix dest_root resolved then Inl ''EXTRACT-ZIP-SLIP''
          else
            case read_file (xs_fs x) resolved of
              None \<Rightarrow> Inl ''EXTRACT-IO-ERROR''
            | Some d \<Rightarrow> rbind (charge l (length d) x) (put_file (snd hl) d))"

subsection \<open>Extraction\<close>

definition extract_start :: "file_system \<Rightarrow> extraction" where
  "extract_start fs = \<lparr>xs_fs = fs, xs_total = 0, xs_count = 0, xs_links = []\<rparr>"

text \<open>The loop over the entries read, how reading them ended, the rest of the stream, the hard links.\<close>

definition extract_entries ::
  "reader \<Rightarrow> path \<Rightarrow> nat \<Rightarrow> limits \<Rightarrow> file_system \<Rightarrow> tar_entry list \<times> tar_end \<Rightarrow> (string + extraction) option" where
  "extract_entries r dest_root strip l fs es =
     (case rfold (extract_entry dest_root strip l) (extract_start fs) (fst es) of
        Inl e \<Rightarrow> Some (Inl e)
      | Inr x \<Rightarrow>
          (case snd es of
             Panicked \<Rightarrow> None
           | Failed e \<Rightarrow> Some (Inl e)
           | End \<Rightarrow>
               Some (rbind (drain_to_eof r) (\<lambda>_.
                 rfold (extract_hardlink dest_root strip l) x (xs_links x)))))"

definition extract_tar ::
  "(string \<Rightarrow> bool) \<Rightarrow> reader \<Rightarrow> file_system \<Rightarrow> path \<Rightarrow> nat \<Rightarrow> limits \<Rightarrow> (string + extraction) option" where
  "extract_tar utf8 r fs dest strip l =
     (case create_dir_all fs dest of
        None \<Rightarrow> Some (Inl ''EXTRACT-IO-ERROR'')
      | Some fs \<Rightarrow>
          let dest_root = (case walk_path fs LINK_LIMIT [] dest of Some q \<Rightarrow> abs_path q | None \<Rightarrow> normalize_lexical dest)
          in extract_entries r dest_root strip l fs (tar_entries utf8 (max_file_size l) r))"

subsection \<open>Enumeration\<close>

definition mode_byte :: "nat \<Rightarrow> char" where
  "mode_byte mode = (if (of_nat mode :: 32 word) AND 73 \<noteq> 0 then MODE_EXECUTABLE else MODE_REGULAR)"

record enumeration =
  en_entries :: "materialized_entry list"
  en_index :: "string \<rightharpoonup> nat"
  en_links :: "(string \<times> string \<times> char) list"

definition enumerate_entry :: "nat \<Rightarrow> enumeration \<Rightarrow> tar_entry \<Rightarrow> enumeration" where
  "enumerate_entry strip s e =
     (case strip_name strip (te_name e) of
        None \<Rightarrow> s
      | Some rp \<Rightarrow>
          (case te_kind e of
             EDir \<Rightarrow> s
           | EOther \<Rightarrow> s
           | ESymlink \<Rightarrow>
               s\<lparr>en_entries := en_entries s @
                 [\<lparr>me_relpath = rp, me_mode_byte = MODE_SYMLINK, me_content = te_linkname e\<rparr>]\<rparr>
           | EFile \<Rightarrow>
               s\<lparr>en_index := (en_index s)(rp \<mapsto> length (en_entries s)),
                 en_entries := en_entries s @
                   [\<lparr>me_relpath = rp, me_mode_byte = mode_byte (te_mode e), me_content = te_data e\<rparr>]\<rparr>
           | EHardLink \<Rightarrow>
               (case strip_name strip (te_linkname e) of
                  None \<Rightarrow> s
                | Some link \<Rightarrow> s\<lparr>en_links := en_links s @ [(rp, link, mode_byte (te_mode e))]\<rparr>)))"

definition resolve_hardlink :: "(string \<rightharpoonup> nat) \<Rightarrow> materialized_entry list \<Rightarrow> string \<times> string \<times> char \<Rightarrow> materialized_entry list" where
  "resolve_hardlink idx es hl =
     (case hl of (rp, link, mb) \<Rightarrow>
       (case idx link of
          None \<Rightarrow> es
        | Some i \<Rightarrow> es @ [\<lparr>me_relpath = rp, me_mode_byte = mb, me_content = me_content (es ! i)\<rparr>]))"

definition tar_materialize_entries ::
  "(string \<Rightarrow> bool) \<Rightarrow> string \<Rightarrow> nat \<Rightarrow> (string + materialized_entry list) option" where
  "tar_materialize_entries utf8 tar strip =
     (let (es, status) = tar_entries utf8 (length tar) \<lparr>rd_bytes = tar, rd_fail = None\<rparr>;
          s = foldl (enumerate_entry strip) \<lparr>en_entries = [], en_index = Map.empty, en_links = []\<rparr> es
      in case status of
           Panicked \<Rightarrow> None
         | Failed e \<Rightarrow> Some (Inl e)
         | End \<Rightarrow> Some (Inr (foldl (resolve_hardlink (en_index s)) (en_entries s) (en_links s))))"

subsection \<open>What the caps bound\<close>

lemma mkdirs_adds: "mkdirs fs at p = Some fs' \<Longrightarrow> fs' q \<noteq> fs q \<Longrightarrow> fs q = None \<and> fs' q = Some WDir"
proof (induction fs at p arbitrary: fs' rule: mkdirs.induct)
  case (5 fs at s cs)
  show ?case
  proof (cases "fs (at @ [s])")
    case None
    with 5(4) have "mkdirs (fs(at @ [s] \<mapsto> WDir)) (at @ [s]) cs = Some fs'" by simp
    from 5(1) [OF None this] 5(5) None show ?thesis by (cases "q = at @ [s]"; cases "fs' q = Some WDir") auto
  next
    case (Some en)
    with 5 show ?thesis by (auto split: fs_entry.splits option.splits if_splits)
  qed
qed auto

lemma create_dir_all_adds:
  "create_dir_all fs p = Some fs' \<Longrightarrow> fs' q \<noteq> fs q \<Longrightarrow> fs q = None \<and> fs' q = Some WDir"
  using mkdirs_adds by (auto simp: create_dir_all_def split: if_splits)

lemma mkdir_parent_adds:
  "mkdir_parent t fs = Inr fs' \<Longrightarrow> fs' q \<noteq> fs q \<Longrightarrow> fs q = None \<and> fs' q = Some WDir"
  using create_dir_all_adds by (fastforce simp: mkdir_parent_def split: option.splits)

lemma or_io_error_Inr [simp]: "or_io_error r = Inr fs \<longleftrightarrow> r = Some fs"
  by (auto simp: or_io_error_def split: option.splits)

lemma count_file_Inr [simp]:
  "count_file l x = Inr x' \<longleftrightarrow> xs_count x < max_file_count l \<and> x' = x\<lparr>xs_count := xs_count x + 1\<rparr>"
  by (auto simp: count_file_def)

lemma charge_Inr:
  "charge l sz x = Inr x' \<longleftrightarrow>
   sz \<le> max_file_size l \<and> (xs_total x + sz) mod 2 ^ 64 \<le> max_total_size l \<and> xs_count x < max_file_count l \<and>
   x' = x\<lparr>xs_total := (xs_total x + sz) mod 2 ^ 64, xs_count := xs_count x + 1\<rparr>"
  by (auto simp: charge_def Let_def)

text \<open>New files are within the cap on a file.\<close>

definition small_files :: "limits \<Rightarrow> file_system \<Rightarrow> file_system \<Rightarrow> bool" where
  "small_files l fs0 fs \<longleftrightarrow>
     (\<forall>q d. fs q = Some (WFile d) \<longrightarrow> fs0 q = Some (WFile d) \<or> length d \<le> max_file_size l)"

definition within_caps :: "limits \<Rightarrow> file_system \<Rightarrow> extraction \<Rightarrow> bool" where
  "within_caps l fs0 x \<longleftrightarrow>
     xs_total x \<le> max_total_size l \<and> xs_count x \<le> max_file_count l \<and> small_files l fs0 (xs_fs x)"

lemma small_files_mkdir:
  "small_files l fs0 fs \<Longrightarrow> (\<And>q. fs' q \<noteq> fs q \<Longrightarrow> fs q = None \<and> fs' q = Some WDir) \<Longrightarrow> small_files l fs0 fs'"
  unfolding small_files_def by (metis fs_entry.distinct(1) option.inject)

lemma put_file_Inr:
  assumes "put_file t d x = Inr x'" "small_files l fs0 (xs_fs x)" "length d \<le> max_file_size l"
  shows "small_files l fs0 (xs_fs x') \<and> xs_total x' = xs_total x \<and> xs_count x' = xs_count x \<and> xs_links x' = xs_links x"
proof -
  from assms(1) obtain fs1 q where m: "mkdir_parent t (xs_fs x) = Inr fs1"
    and x': "x' = x\<lparr>xs_fs := fs1(q \<mapsto> WFile d)\<rparr>"
    by (auto simp: put_file_def rbind_Inr write_file_def split: if_splits option.splits)
  have "small_files l fs0 fs1" using small_files_mkdir [OF assms(2)] mkdir_parent_adds [OF m] by blast
  with assms(3) show ?thesis by (auto simp: x' small_files_def)
qed

lemma symlink_file: "symlink fs ln p = Some fs' \<Longrightarrow> fs' q = Some (WFile d) \<Longrightarrow> fs q = Some (WFile d)"
  by (auto simp: symlink_def split: option.splits if_splits)

lemma remove_file_file: "remove_file fs p q = Some en \<Longrightarrow> fs q = Some en"
  by (auto simp: remove_file_def split: option.splits fs_entry.splits if_splits)

lemma extract_symlink_Inr:
  assumes "extract_symlink dr l x t ln = Inr x'" "small_files l fs0 (xs_fs x)"
  shows "small_files l fs0 (xs_fs x') \<and> xs_total x' = xs_total x \<and> xs_count x' = xs_count x + 1 \<and>
    xs_count x < max_file_count l \<and> xs_links x' = xs_links x"
proof -
  from assms(1) obtain fs1 fs2 where m: "mkdir_parent t (xs_fs x) = Inr fs1"
    and s: "symlink (remove_file fs1 t) ln t = Some fs2" and c: "count_file l (x\<lparr>xs_fs := fs2\<rparr>) = Inr x'"
    by (auto simp: extract_symlink_def Let_def rbind_Inr split: if_splits)
  have "small_files l fs0 fs1" using small_files_mkdir [OF assms(2)] mkdir_parent_adds [OF m] by blast
  then have "small_files l fs0 fs2"
    using symlink_file [OF s] remove_file_file unfolding small_files_def by blast
  with c show ?thesis by auto
qed

text \<open>What an entry adds to the total and to the count, hard links at the end.\<close>

definition kept :: "nat \<Rightarrow> tar_entry list \<Rightarrow> tar_entry list" where
  "kept strip es = filter (\<lambda>e. strip_name strip (te_name e) \<noteq> None) es"

definition file_bytes :: "nat \<Rightarrow> tar_entry list \<Rightarrow> nat" where
  "file_bytes strip es = sum_list (map te_size (filter (\<lambda>e. te_kind e = EFile) (kept strip es)))"

definition counted :: "nat \<Rightarrow> tar_entry list \<Rightarrow> nat" where
  "counted strip es = length (filter (\<lambda>e. te_kind e \<in> {EFile, ESymlink, EHardLink}) (kept strip es))"

definition entry_fits :: "nat \<Rightarrow> tar_entry \<Rightarrow> bool" where
  "entry_fits m e \<longleftrightarrow> (te_kind e = EFile \<longrightarrow> length (te_data e) = te_size e \<and> te_size e \<le> m)"

lemma extract_entry_step:
  assumes "extract_entry dr strip l x e = Inr x'" "within_caps l fs0 x" "entry_fits (max_file_size l) e"
    "max_total_size l + max_file_size l < 2 ^ 64"
  shows "within_caps l fs0 x' \<and> xs_total x' = xs_total x + file_bytes strip [e] \<and>
    xs_count x' + length (xs_links x') = xs_count x + length (xs_links x) + counted strip [e]"
proof (cases "strip_name strip (te_name e)")
  case None
  then show ?thesis using assms by (simp add: extract_entry_def file_bytes_def counted_def kept_def)
next
  case (Some st)
  let ?t = "lexical_target dr st"
  show ?thesis
  proof (cases "te_kind e")
    case EFile
    with Some assms(1) obtain x1 where c: "charge l (te_size e) x = Inr x1" and p: "put_file ?t (te_data e) x1 = Inr x'"
      by (auto simp: extract_entry_def Let_def rbind_Inr split: if_splits)
    have d: "length (te_data e) \<le> max_file_size l" using assms(3) EFile by (simp add: entry_fits_def)
    have s: "small_files l fs0 (xs_fs x1)" using c assms(2) by (auto simp: charge_Inr within_caps_def)
    have "xs_total x + te_size e < 2 ^ 64"
      using c assms(2,4) by (auto simp: charge_Inr within_caps_def)
    then show ?thesis
      using put_file_Inr [OF p s d] c assms(2) Some EFile
      by (auto simp: charge_Inr within_caps_def file_bytes_def counted_def kept_def)
  next
    case EDir
    with Some assms(1) obtain fs1 where "create_dir_all (xs_fs x) ?t = Some fs1" "x' = x\<lparr>xs_fs := fs1\<rparr>"
      by (auto simp: extract_entry_def Let_def rbind_Inr split: if_splits)
    then show ?thesis
      using small_files_mkdir [of l fs0 "xs_fs x" fs1] create_dir_all_adds [of "xs_fs x" ?t fs1] assms(2) Some EDir
      by (auto simp: within_caps_def file_bytes_def counted_def kept_def)
  next
    case ESymlink
    with Some assms(1) have "extract_symlink dr l x ?t (te_linkname e) = Inr x'"
      by (auto simp: extract_entry_def Let_def split: if_splits)
    from extract_symlink_Inr [OF this, of fs0] assms(2) Some ESymlink show ?thesis
      by (auto simp: within_caps_def file_bytes_def counted_def kept_def)
  qed (use assms Some in \<open>auto simp: extract_entry_def Let_def within_caps_def file_bytes_def counted_def kept_def
      split: if_splits\<close>)
qed

lemma file_bytes_Cons: "file_bytes strip (e # es) = file_bytes strip [e] + file_bytes strip es"
  by (simp add: file_bytes_def kept_def)

lemma counted_Cons: "counted strip (e # es) = counted strip [e] + counted strip es"
  by (simp add: counted_def kept_def)

lemma extract_pass1:
  assumes "rfold (extract_entry dr strip l) x es = Inr x'" "within_caps l fs0 x"
    "\<forall>e \<in> set es. entry_fits (max_file_size l) e" "max_total_size l + max_file_size l < 2 ^ 64"
  shows "within_caps l fs0 x' \<and> xs_total x' = xs_total x + file_bytes strip es \<and>
    xs_count x' + length (xs_links x') = xs_count x + length (xs_links x) + counted strip es"
  using assms(1-3)
proof (induction es arbitrary: x)
  case Nil
  then show ?case by (simp add: file_bytes_def counted_def kept_def)
next
  case (Cons e es)
  then obtain x1 where 1: "extract_entry dr strip l x e = Inr x1" "rfold (extract_entry dr strip l) x1 es = Inr x'"
    by (auto simp: rbind_Inr)
  have "entry_fits (max_file_size l) e" using Cons.prems(3) by simp
  from extract_entry_step [OF 1(1) Cons.prems(2) this assms(4)] Cons.IH [OF 1(2)] Cons.prems(3)
  show ?case by (simp add: file_bytes_Cons [of strip e es] counted_Cons [of strip e es])
qed

lemma extract_pass2:
  assumes "rfold (extract_hardlink dr strip l) x ls = Inr x'" "within_caps l fs0 x"
    "max_total_size l + max_file_size l < 2 ^ 64"
  shows "within_caps l fs0 x' \<and> xs_total x \<le> xs_total x' \<and> xs_count x' = xs_count x + length ls"
  using assms(1,2)
proof (induction ls arbitrary: x)
  case (Cons hl ls)
  then obtain x1 where 1: "extract_hardlink dr strip l x hl = Inr x1" "rfold (extract_hardlink dr strip l) x1 ls = Inr x'"
    by (auto simp: rbind_Inr)
  from 1(1) obtain d y where c: "charge l (length d) x = Inr y" and p: "put_file (snd hl) d y = Inr x1"
    by (auto simp: extract_hardlink_def Let_def rbind_Inr split: if_splits option.splits)
  have d: "length d \<le> max_file_size l" using c by (simp add: charge_Inr)
  have s: "small_files l fs0 (xs_fs y)" using c Cons.prems(2) by (auto simp: charge_Inr within_caps_def)
  have "xs_total x + length d < 2 ^ 64"
    using c Cons.prems(2) assms(3) by (auto simp: charge_Inr within_caps_def)
  then have "within_caps l fs0 x1 \<and> xs_total x \<le> xs_total x1 \<and> xs_count x1 = xs_count x + 1"
    using put_file_Inr [OF p s d] c by (auto simp: charge_Inr within_caps_def)
  with Cons.IH [OF 1(2)] show ?case by auto
qed simp

lemma read_entry_data_Inr: "read_entry_data m n r = Inr (d, r') \<Longrightarrow> length d = n \<and> n \<le> m"
  by (auto simp: read_entry_data_def split: if_splits)

lemma entry_step_fits: "entry_step utf8 m h p r = Some (Inr (Yield e r')) \<Longrightarrow> entry_fits m e"
  by (auto simp: entry_step_def entry_body_def Let_def rbind_Inr entry_fits_def
      split: if_splits option.splits sum.splits dest!: read_entry_data_Inr)

lemma read_entries_fit: "\<forall>e \<in> set (fst (read_entries utf8 m r p)). entry_fits m e"
proof (induction utf8 m r p rule: read_entries.induct)
  case (1 utf8 m r p)
  show ?case
    using 1 by (subst read_entries.simps)
      (auto split: sum.splits option.splits tar_step.splits prod.splits dest: entry_step_fits)
qed

lemma extract_entries_Inr:
  assumes "extract_entries r dr strip l fs es = Some (Inr x)"
  shows "\<exists>y. rfold (extract_entry dr strip l) (extract_start fs) (fst es) = Inr y \<and>
    rfold (extract_hardlink dr strip l) y (xs_links y) = Inr x \<and> snd es = End \<and> rd_fail r = None"
  using assms by (auto simp: extract_entries_def rbind_Inr drain_to_eof_def split: sum.splits tar_end.splits option.splits)

lemma extract_entries_bounded:
  assumes "extract_entries r dr strip l fs es = Some (Inr x)" "\<forall>e \<in> set (fst es). entry_fits (max_file_size l) e"
    "max_total_size l + max_file_size l < 2 ^ 64" "small_files l fs0 fs"
  shows "within_caps l fs0 x \<and> file_bytes strip (fst es) \<le> xs_total x \<and> xs_count x = counted strip (fst es)"
proof -
  obtain y where y: "rfold (extract_entry dr strip l) (extract_start fs) (fst es) = Inr y"
    "rfold (extract_hardlink dr strip l) y (xs_links y) = Inr x"
    using extract_entries_Inr [OF assms(1)] by blast
  have "within_caps l fs0 (extract_start fs)" using assms(4) by (simp add: within_caps_def extract_start_def)
  from extract_pass1 [OF y(1) this assms(2,3)] extract_pass2 [OF y(2) _ assms(3), of fs0]
  show ?thesis by (auto simp: extract_start_def)
qed

text \<open>
  C32. Extraction is bounded.  When an archive is extracted, the sizes of its files that survive the
  stripping sum up to no more than the reported total, which is within the cap on the total; the
  reported count is the number of its files, links and hard links, and is within its cap; every file
  that was written, by whatever path and also by a hard link, is within the cap on a file; and the
  stream was read to its end without reaching the decompression cap.  The sums do not wrap as long
  as the caps do not.
\<close>

theorem extraction_bounded:
  assumes "extract_tar utf8 r fs dest strip l = Some (Inr x)" "max_total_size l + max_file_size l < 2 ^ 64"
  shows "file_bytes strip (fst (tar_entries utf8 (max_file_size l) r)) \<le> xs_total x \<and>
    xs_total x \<le> max_total_size l \<and>
    xs_count x = counted strip (fst (tar_entries utf8 (max_file_size l) r)) \<and>
    xs_count x \<le> max_file_count l \<and>
    (\<forall>q d. xs_fs x q = Some (WFile d) \<longrightarrow> fs q = Some (WFile d) \<or> length d \<le> max_file_size l) \<and>
    rd_fail r = None"
proof -
  from assms(1) obtain fs1 dr where c: "create_dir_all fs dest = Some fs1"
    and x: "extract_entries r dr strip l fs1 (tar_entries utf8 (max_file_size l) r) = Some (Inr x)"
    by (auto simp: extract_tar_def Let_def split: option.splits)
  have "small_files l fs fs" by (simp add: small_files_def)
  then have s: "small_files l fs fs1" using small_files_mkdir create_dir_all_adds [OF c] by blast
  have f: "\<forall>e \<in> set (fst (tar_entries utf8 (max_file_size l) r)). entry_fits (max_file_size l) e"
    by (simp add: tar_entries_def read_entries_fit)
  from extract_entries_bounded [OF x f assms(2) s] extract_entries_Inr [OF x] show ?thesis
    by (auto simp: within_caps_def small_files_def)
qed

subsection \<open>What stays outside\<close>

text \<open>A destination reached through real directories, without links below it.\<close>

definition clean_dest :: "string list \<Rightarrow> file_system \<Rightarrow> bool" where
  "clean_dest D fs \<longleftrightarrow> D \<noteq> [] \<and> (\<forall>q. q \<noteq> [] \<longrightarrow> prefix q D \<longrightarrow> fs q = Some WDir) \<and>
     (\<forall>q p. prefix D q \<longrightarrow> fs q \<noteq> Some (WLink p))"

definition same_outside :: "string list \<Rightarrow> file_system \<Rightarrow> file_system \<Rightarrow> bool" where
  "same_outside D fs fs' \<longleftrightarrow> (\<forall>q. \<not> prefix D q \<longrightarrow> fs' q = fs q)"

lemma clean_dest_no_link:
  "clean_dest D fs \<Longrightarrow> prefix D ms \<Longrightarrow> prefix q ms \<Longrightarrow> q \<noteq> [] \<Longrightarrow> fs q \<noteq> Some (WLink p)"
  by (metis clean_dest_def fs_entry.distinct(3) option.inject prefix_same_cases)

lemma locate_no_link:
  assumes "locate fs n at (map Normal ns) = Some q" "\<And>k p. fs (at @ take (Suc k) ns) \<noteq> Some (WLink p)"
  shows "q = at @ ns"
  using assms
proof (induction ns arbitrary: at)
  case (Cons s ns)
  have nl: "fs (at @ [s]) \<noteq> Some (WLink p)" for p using Cons.prems(2) [of 0] by simp
  have "fs ((at @ [s]) @ take (Suc k) ns) \<noteq> Some (WLink p)" for k p using Cons.prems(2) [of "Suc k"] by simp
  with Cons.IH [of "at @ [s]"] Cons.prems(1) nl show ?case
    by (auto split: option.splits fs_entry.splits if_splits)
qed simp

lemma write_file_inside:
  assumes "write_file fs (abs_path ms) d = Some fs'" "clean_dest D fs" "prefix D ms"
  shows "fs' = fs(ms \<mapsto> WFile d) \<and> fs ms \<noteq> Some WDir"
proof -
  obtain q where q: "locate fs LINK_LIMIT [] (map Normal ms) = Some q" "\<not> is_directory fs q" "fs' = fs(q \<mapsto> WFile d)"
    using assms(1) by (auto simp: write_file_def abs_path_def split: if_splits option.splits)
  have "q = [] @ ms"
  proof (rule locate_no_link [OF q(1)])
    fix k p
    have "take (Suc k) ms \<noteq> []" using assms(2,3) by (auto simp: clean_dest_def)
    then show "fs ([] @ take (Suc k) ms) \<noteq> Some (WLink p)"
      using clean_dest_no_link [OF assms(2,3) take_is_prefix, of "Suc k" p] by simp
  qed
  with q show ?thesis by (auto simp: is_directory_def)
qed

lemma clean_dest_put:
  "clean_dest D fs \<Longrightarrow> prefix D ms \<Longrightarrow> fs ms \<noteq> Some WDir \<Longrightarrow> clean_dest D (fs(ms \<mapsto> WFile d))"
  by (auto simp: clean_dest_def)

lemma clean_dest_mkdir: "clean_dest D fs \<Longrightarrow> clean_dest D (fs(q \<mapsto> WDir))"
  by (auto simp: clean_dest_def)

lemma same_outside_put: "same_outside D fs0 fs \<Longrightarrow> prefix D ms \<Longrightarrow> same_outside D fs0 (fs(ms \<mapsto> en))"
  by (auto simp: same_outside_def)

lemma mkdirs_inside:
  assumes "mkdirs fs at (map Normal ns) = Some fs'" "clean_dest D fs" "prefix D at" "same_outside D fs0 fs"
  shows "clean_dest D fs' \<and> same_outside D fs0 fs'"
  using assms
proof (induction ns arbitrary: at fs)
  case (Cons s ns)
  have p: "prefix D (at @ [s])" using Cons.prems(3) by (auto simp: prefix_def)
  show ?case
  proof (cases "fs (at @ [s])")
    case None
    with Cons.prems(1) have "mkdirs (fs(at @ [s] \<mapsto> WDir)) (at @ [s]) (map Normal ns) = Some fs'" by simp
    from Cons.IH [OF this clean_dest_mkdir [OF Cons.prems(2)] p same_outside_put [OF Cons.prems(4) p]] show ?thesis .
  next
    case (Some en)
    with Cons.prems(2) p have "en \<noteq> WLink l" for l by (auto simp: clean_dest_def)
    with Some Cons.prems Cons.IH [OF _ Cons.prems(2) p Cons.prems(4)] show ?thesis
      by (auto split: fs_entry.splits)
  qed
qed simp

text \<open>Directories above the destination exist, so nothing is made on the way down.\<close>

lemma mkdirs_down:
  assumes "\<And>q. q \<noteq> [] \<Longrightarrow> prefix q (at @ ns) \<Longrightarrow> fs q = Some WDir"
  shows "mkdirs fs at (map Normal (ns @ rest)) = mkdirs fs (at @ ns) (map Normal rest)"
  using assms
proof (induction ns arbitrary: at)
  case (Cons s ns)
  have "fs (at @ [s]) = Some WDir" using Cons.prems [of "at @ [s]"] by simp
  with Cons.IH [of "at @ [s]"] Cons.prems show ?case by simp
qed simp

lemma create_dir_all_inside:
  assumes "create_dir_all fs (abs_path ms) = Some fs'" "clean_dest D fs" "prefix D ms \<or> prefix ms D" "same_outside D fs0 fs"
  shows "clean_dest D fs' \<and> same_outside D fs0 fs'"
proof -
  have m: "mkdirs fs [] (map Normal ms) = Some fs'"
    using assms(1) by (auto simp: create_dir_all_def abs_path_def split: if_splits)
  have dirs: "q \<noteq> [] \<Longrightarrow> prefix q D \<Longrightarrow> fs q = Some WDir" for q using assms(2) by (simp add: clean_dest_def)
  from assms(3) show ?thesis
  proof
    assume "prefix D ms"
    then obtain rest where ms: "ms = D @ rest" by (auto simp: prefix_def)
    with m mkdirs_down [of "[]" D fs rest] dirs have "mkdirs fs D (map Normal rest) = Some fs'" by simp
    from mkdirs_inside [OF this assms(2) _ assms(4)] show ?thesis by simp
  next
    assume "prefix ms D"
    then have "q \<noteq> [] \<Longrightarrow> prefix q ms \<Longrightarrow> fs q = Some WDir" for q
      using dirs prefix_order.trans by blast
    with m mkdirs_down [of "[]" ms fs "[]"] have "fs' = fs" by simp
    then show ?thesis using assms(2,4) by simp
  qed
qed

text \<open>The shape of a lexical target: at most one surplus parent step, at the front.\<close>

definition lexical_form :: "path \<Rightarrow> bool" where
  "lexical_form p \<longleftrightarrow> (\<exists>ns. p = RootDir # map Normal ns \<or> p = RootDir # ParentDir # map Normal ns)"

lemma lexical_form_step:
  assumes "lexical_form out"
  shows "lexical_form (normalize_lexical_step out c)"
proof -
  from assms obtain ps ns where out: "out = RootDir # ps @ map Normal ns" "ps = [] \<or> ps = [ParentDir]"
    unfolding lexical_form_def by (metis append_Cons append_Nil)
  show ?thesis
  proof (cases c)
    case ParentDir
    show ?thesis
    proof (cases ns rule: rev_cases)
      case Nil
      with out show ?thesis by (auto simp: ParentDir lexical_form_def intro: exI [of _ "[]"])
    next
      case (snoc ms s)
      with out show ?thesis by (auto simp: ParentDir lexical_form_def butlast_append)
    qed
  next
    case (Normal s)
    with out show ?thesis
      by (auto simp: lexical_form_def intro: exI [of _ "ns @ [s]"])
  next
    case RootDir
    then show ?thesis by (auto simp: lexical_form_def intro: exI [of _ "[]"])
  qed (use assms in simp)
qed

lemma lexical_target_inside:
  assumes "prefix (abs_path D) (lexical_target (abs_path D) name)" "D \<noteq> []"
  obtains ms where "lexical_target (abs_path D) name = abs_path ms" "prefix D ms"
proof -
  let ?j = "path_join (abs_path D) (components name)"
  have "lexical_form out \<Longrightarrow> lexical_form (foldl normalize_lexical_step out q)" for out q
    by (induction q arbitrary: out) (simp_all add: lexical_form_step)
  moreover have "?j \<noteq> []" "hd ?j = RootDir"
    using lexical_join [of "abs_path D" "components name"] by (simp_all add: abs_path_def)
  moreover have "lexical_form [RootDir]" by (auto simp: lexical_form_def intro: exI [of _ "[]"])
  ultimately have "lexical_form (lexical_target (abs_path D) name)"
    by (cases ?j) (auto simp: lexical_target_def normalize_lexical_def)
  with assms obtain ms where m: "lexical_target (abs_path D) name = abs_path ms"
    by (auto simp: lexical_form_def abs_path_def neq_Nil_conv)
  with assms(1) have "prefix (map Normal D) (map Normal ms)" by (simp add: abs_path_def)
  then have "prefix D ms"
    using normal_form_below [OF normal_form_abs_path, of D ms] by (simp add: abs_path_def [symmetric])
      (metis abs_path_def lexical_abs_path normal_form_abs_path normal_form_below Cons_prefix_Cons)
  with m show ?thesis by (rule that)
qed

lemma mkdir_parent_inside:
  assumes "mkdir_parent (abs_path ms) fs = Inr fs'" "clean_dest D fs" "prefix D ms" "same_outside D fs0 fs"
  shows "clean_dest D fs' \<and> same_outside D fs0 fs'"
proof -
  have ms: "ms \<noteq> []" using assms(2,3) by (auto simp: clean_dest_def)
  then have "path_parent (abs_path ms) = Some (abs_path (butlast ms))"
    by (simp add: path_parent_def abs_path_def map_butlast)
  then have "create_dir_all fs (abs_path (butlast ms)) = Some fs'"
    using assms(1) by (auto simp: mkdir_parent_def split: option.splits)
  moreover have "prefix D (butlast ms) \<or> prefix (butlast ms) D"
    using assms(3) prefixeq_butlast [of ms] prefix_same_cases by blast
  ultimately show ?thesis using create_dir_all_inside assms(2,4) by blast
qed

lemma put_file_inside:
  assumes "put_file (abs_path ms) d x = Inr x'" "clean_dest D (xs_fs x)" "prefix D ms" "same_outside D fs0 (xs_fs x)"
  shows "clean_dest D (xs_fs x') \<and> same_outside D fs0 (xs_fs x') \<and> xs_links x' = xs_links x"
proof -
  from assms(1) obtain fs1 fs2 where m: "mkdir_parent (abs_path ms) (xs_fs x) = Inr fs1"
    and w: "write_file fs1 (abs_path ms) d = Some fs2" and x': "x' = x\<lparr>xs_fs := fs2\<rparr>"
    by (auto simp: put_file_def rbind_Inr)
  from mkdir_parent_inside [OF m assms(2-4)] have 1: "clean_dest D fs1" "same_outside D fs0 fs1" by auto
  from write_file_inside [OF w 1(1) assms(3)] have "fs2 = fs1(ms \<mapsto> WFile d)" "fs1 ms \<noteq> Some WDir" by auto
  then show ?thesis using clean_dest_put [OF 1(1) assms(3)] same_outside_put [OF 1(2) assms(3)] by (simp add: x')
qed

definition links_inside :: "string list \<Rightarrow> (string \<times> path) list \<Rightarrow> bool" where
  "links_inside D ls \<longleftrightarrow> (\<forall>l \<in> set ls. \<exists>ms. snd l = abs_path ms \<and> prefix D ms)"

definition inside :: "string list \<Rightarrow> file_system \<Rightarrow> extraction \<Rightarrow> bool" where
  "inside D fs0 x \<longleftrightarrow> clean_dest D (xs_fs x) \<and> same_outside D fs0 (xs_fs x) \<and> links_inside D (xs_links x)"

lemma charge_fields: "charge l sz x = Inr y \<Longrightarrow> xs_fs y = xs_fs x \<and> xs_links y = xs_links x"
  by (auto simp: charge_Inr)

lemma extract_entry_inside:
  assumes "extract_entry (abs_path D) strip l x e = Inr x'" "inside D fs0 x" "te_kind e \<noteq> ESymlink" "D \<noteq> []"
  shows "inside D fs0 x'"
proof (cases "strip_name strip (te_name e)")
  case None
  then show ?thesis using assms by (simp add: extract_entry_def)
next
  case (Some st)
  let ?t = "lexical_target (abs_path D) st"
  have "prefix (abs_path D) ?t" using assms(1) Some by (simp add: extract_entry_def Let_def split: if_splits)
  then obtain ms where t: "?t = abs_path ms" "prefix D ms" using lexical_target_inside assms(4) by blast
  show ?thesis
  proof (cases "te_kind e")
    case EFile
    with Some assms(1) t(1) obtain y where c: "charge l (te_size e) x = Inr y"
      and p: "put_file (abs_path ms) (te_data e) y = Inr x'"
      by (auto simp: extract_entry_def Let_def rbind_Inr split: if_splits)
    from put_file_inside [OF p _ t(2), of fs0] charge_fields [OF c] assms(2) show ?thesis by (simp add: inside_def)
  next
    case EDir
    with Some assms(1) t(1) obtain fs1 where "create_dir_all (xs_fs x) (abs_path ms) = Some fs1" "x' = x\<lparr>xs_fs := fs1\<rparr>"
      by (auto simp: extract_entry_def Let_def rbind_Inr split: if_splits)
    with create_dir_all_inside [of "xs_fs x" ms fs1 D fs0] t(2) assms(2) show ?thesis by (simp add: inside_def)
  next
    case EHardLink
    with Some assms(1) t(1) have "x' = x\<lparr>xs_links := xs_links x @ [(te_linkname e, abs_path ms)]\<rparr>"
      by (simp add: extract_entry_def Let_def split: if_splits)
    moreover have "links_inside D (xs_links x @ [(te_linkname e, abs_path ms)])"
      unfolding links_inside_def
    proof
      fix l assume "l \<in> set (xs_links x @ [(te_linkname e, abs_path ms)])"
      then show "\<exists>ms. snd l = abs_path ms \<and> prefix D ms"
        using assms(2) t(2) unfolding inside_def links_inside_def by (cases "l \<in> set (xs_links x)") auto
    qed
    ultimately show ?thesis using assms(2) by (simp add: inside_def)
  qed (use assms Some in \<open>auto simp: extract_entry_def Let_def split: if_splits\<close>)
qed

lemma extract_hardlink_inside:
  assumes "extract_hardlink (abs_path D) strip l x hl = Inr x'" "inside D fs0 x" "snd hl = abs_path ms" "prefix D ms"
  shows "inside D fs0 x'"
proof -
  from assms(1,3) obtain d y where c: "charge l (length d) x = Inr y" and p: "put_file (abs_path ms) d y = Inr x'"
    by (auto simp: extract_hardlink_def Let_def rbind_Inr split: if_splits option.splits)
  from put_file_inside [OF p _ assms(4), of fs0] charge_fields [OF c] assms(2) show ?thesis by (simp add: inside_def)
qed

lemma extract_hardlinks_inside:
  assumes "rfold (extract_hardlink (abs_path D) strip l) x ls = Inr x'" "inside D fs0 x" "links_inside D ls"
  shows "inside D fs0 x'"
  using assms
proof (induction ls arbitrary: x)
  case (Cons hl ls)
  from Cons.prems(1) obtain x1 where "extract_hardlink (abs_path D) strip l x hl = Inr x1"
    "rfold (extract_hardlink (abs_path D) strip l) x1 ls = Inr x'"
    by (auto simp: rbind_Inr)
  moreover obtain ms where "snd hl = abs_path ms" "prefix D ms" using Cons.prems(3) by (auto simp: links_inside_def)
  ultimately show ?case
    using Cons.IH extract_hardlink_inside [OF _ Cons.prems(2)] Cons.prems(3) by (auto simp: links_inside_def)
qed simp

lemma extract_pass1_inside:
  assumes "rfold (extract_entry (abs_path D) strip l) x es = Inr x'" "inside D fs0 x" "D \<noteq> []"
    "\<forall>e \<in> set es. te_kind e \<noteq> ESymlink"
  shows "inside D fs0 x'"
  using assms(1,2,4)
  by (induction es arbitrary: x) (auto simp: rbind_Inr intro: extract_entry_inside [OF _ _ _ assms(3)])

text \<open>
  C30. Extraction stays inside, without symbolic links.  Take a destination that is reached through real
  directories and has no link below it, and an archive without symbolic links.  Whatever the names of
  its files, directories and hard links are, an extraction that succeeds has changed nothing outside
  of the destination, and has still no link below it.
\<close>

theorem extraction_contained:
  assumes "extract_tar utf8 r fs (abs_path D) strip l = Some (Inr x)" "clean_dest D fs"
    "\<forall>e \<in> set (fst (tar_entries utf8 (max_file_size l) r)). te_kind e \<noteq> ESymlink"
  shows "(\<forall>q. \<not> prefix D q \<longrightarrow> xs_fs x q = fs q) \<and> (\<forall>q p. prefix D q \<longrightarrow> xs_fs x q \<noteq> Some (WLink p))"
proof -
  have D: "D \<noteq> []" and dirs: "\<And>q. q \<noteq> [] \<Longrightarrow> prefix q D \<Longrightarrow> fs q = Some WDir"
    using assms(2) by (auto simp: clean_dest_def)
  from assms(1) obtain fs1 where c: "create_dir_all fs (abs_path D) = Some fs1"
    by (auto simp: extract_tar_def split: option.splits)
  then have "fs1 = fs"
    using mkdirs_down [of "[]" D fs "[]"] dirs
    by (auto simp: create_dir_all_def abs_path_def split: if_splits)
  moreover have "walk_path fs LINK_LIMIT at (map Normal ns) = Some (at @ ns)"
    if "\<And>q. q \<noteq> [] \<Longrightarrow> prefix q (at @ ns) \<Longrightarrow> fs q = Some WDir" for at ns
    using that
  proof (induction ns arbitrary: at)
    case (Cons s ns)
    have "fs (at @ [s]) = Some WDir" using Cons.prems [of "at @ [s]"] by simp
    with Cons.IH [of "at @ [s]"] Cons.prems show ?case by simp
  qed simp
  from this [of "[]" D] dirs have "walk_path fs LINK_LIMIT [] (abs_path D) = Some D" by (simp add: abs_path_def)
  ultimately have x: "extract_entries r (abs_path D) strip l fs (tar_entries utf8 (max_file_size l) r) = Some (Inr x)"
    using assms(1) c by (simp add: extract_tar_def)
  obtain y where y: "rfold (extract_entry (abs_path D) strip l) (extract_start fs) (fst (tar_entries utf8 (max_file_size l) r)) = Inr y"
    "rfold (extract_hardlink (abs_path D) strip l) y (xs_links y) = Inr x"
    using extract_entries_Inr [OF x] by blast
  have "inside D fs (extract_start fs)"
    using assms(2) by (simp add: inside_def extract_start_def same_outside_def links_inside_def)
  from extract_pass1_inside [OF y(1) this D assms(3)] have "inside D fs y" .
  with extract_hardlinks_inside [OF y(2)] have "inside D fs x" by (auto simp: inside_def)
  then show ?thesis by (auto simp: inside_def same_outside_def clean_dest_def)
qed

subsection \<open>Links\<close>

text \<open>A file system with a destination and nothing else in it.\<close>

definition dest_tree :: file_system where
  "dest_tree = Map.empty([''t''] \<mapsto> WDir, [''t'', ''d''] \<mapsto> WDir)"

definition link_entry :: "string \<Rightarrow> string \<Rightarrow> tar_entry" where
  "link_entry n ln = \<lparr>te_name = n, te_linkname = ln, te_size = 0, te_kind = ESymlink, te_mode = 0, te_data = []\<rparr>"

definition file_entry :: "string \<Rightarrow> string \<Rightarrow> tar_entry" where
  "file_entry n d = \<lparr>te_name = n, te_linkname = [], te_size = length d, te_kind = EFile, te_mode = 0, te_data = d\<rparr>"

definition linked_once :: file_system where
  "linked_once = dest_tree([''t'', ''d'', ''x''] \<mapsto> WLink [CurDir])"

definition linked_twice :: file_system where
  "linked_twice = linked_once([''t'', ''d'', ''y''] \<mapsto> WLink [ParentDir])"

lemmas extract_eval =
  extract_entry_def strip_name_def lexical_target_def components_def comp_of_def path_join_def
  normalize_lexical_def abs_path_def extract_symlink_def path_parent_def mkdir_parent_def create_dir_all_def
  os_path_def remove_file_def entry_at_def symlink_def is_directory_def count_file_def charge_def put_file_def
  write_file_def LINK_LIMIT_def limits_default_def DEFAULT_MAX_TOTAL_SIZE_def or_io_error_def
  dest_tree_def linked_once_def linked_twice_def link_entry_def file_entry_def

lemma escape_1:
  "extract_entry (abs_path [''t'', ''d'']) 0 limits_default (extract_start dest_tree) (link_entry ''x'' ''.'') =
     Inr \<lparr>xs_fs = linked_once, xs_total = 0, xs_count = 1, xs_links = []\<rparr>"
  by (simp add: extract_eval extract_start_def)

lemma escape_2:
  "extract_entry (abs_path [''t'', ''d'']) 0 limits_default
     \<lparr>xs_fs = linked_once, xs_total = 0, xs_count = 1, xs_links = []\<rparr> (link_entry ''x/y'' ''..'') =
     Inr \<lparr>xs_fs = linked_twice, xs_total = 0, xs_count = 2, xs_links = []\<rparr>"
  by (simp add: extract_eval)

lemma escape_3:
  "extract_entry (abs_path [''t'', ''d'']) 0 limits_default
     \<lparr>xs_fs = linked_twice, xs_total = 0, xs_count = 2, xs_links = []\<rparr> (file_entry ''y/evil'' ''payload'') =
     Inr \<lparr>xs_fs = linked_twice([''t'', ''evil''] \<mapsto> WFile ''payload''), xs_total = 7, xs_count = 3, xs_links = []\<rparr>"
  by (simp add: extract_eval)

definition archive :: "tar_entry list \<Rightarrow> reader" where
  "archive es = \<lparr>rd_bytes = concat (map write_entry es) @ replicate 512 CHR 0x00 @ replicate 512 CHR 0x00, rd_fail = None\<rparr>"

lemma read_archive: "list_all (plain_entry (\<lambda>_. True) m) es \<Longrightarrow> tar_entries (\<lambda>_. True) m (archive es) = (es, End)"
  using read_written by (simp add: archive_def)

lemma clean_dest_tree: "clean_dest [''t'', ''d''] dest_tree"
  by (auto simp: clean_dest_def dest_tree_def prefix_Cons)

lemma extract_demo:
  assumes "list_all (plain_entry (\<lambda>_. True) (max_file_size limits_default)) es"
  shows "extract_tar (\<lambda>_. True) (archive es) dest_tree (abs_path [''t'', ''d'']) 0 limits_default =
    extract_entries (archive es) (abs_path [''t'', ''d'']) 0 limits_default dest_tree (es, End)"
proof -
  have "create_dir_all dest_tree (abs_path [''t'', ''d'']) = Some dest_tree"
    by (simp add: create_dir_all_def os_path_def abs_path_def dest_tree_def)
  moreover have "walk_path dest_tree LINK_LIMIT [] (abs_path [''t'', ''d'']) = Some [''t'', ''d'']"
    by (simp add: abs_path_def dest_tree_def)
  ultimately show ?thesis by (simp add: extract_tar_def read_archive [OF assms])
qed

lemma one_plain: "list_all (plain_entry (\<lambda>_. True) (max_file_size limits_default)) [file_entry ''a'' ''payload'']"
  by (simp add: plain_entry_def plain_text_def file_entry_def limits_default_def)

lemma extracted_one:
  "\<exists>x. extract_tar (\<lambda>_. True) (archive [file_entry ''a'' ''payload'']) dest_tree (abs_path [''t'', ''d'']) 0 limits_default =
     Some (Inr x) \<and> xs_fs x [''t'', ''d'', ''a''] = Some (WFile ''payload'')"
  unfolding extract_demo [OF one_plain]
  by (simp add: extract_entries_def drain_to_eof_def archive_def extract_eval extract_start_def)

text \<open>
  C31. Two links defeat the containment checks.  The checks are lexical, the writes follow the links that
  the archive has made before.  With the link x to the destination itself, the link x/y to the parent
  of x lies, lexically, in the destination and leads to it, but is made in the destination and leads to
  its parent; the file y/evil then passes the check and is written outside of the destination.
\<close>

theorem symlink_chain_escapes:
  "\<exists>x. extract_tar (\<lambda>_. True)
         (archive [link_entry ''x'' ''.'', link_entry ''x/y'' ''..'', file_entry ''y/evil'' ''payload''])
         dest_tree (abs_path [''t'', ''d'']) 0 limits_default = Some (Inr x) \<and>
       clean_dest [''t'', ''d''] dest_tree \<and> \<not> prefix [''t'', ''d''] [''t'', ''evil''] \<and>
       dest_tree [''t'', ''evil''] = None \<and> xs_fs x [''t'', ''evil''] = Some (WFile ''payload'')"
proof -
  let ?es = "[link_entry ''x'' ''.'', link_entry ''x/y'' ''..'', file_entry ''y/evil'' ''payload'']"
  have "extract_entries (archive ?es) (abs_path [''t'', ''d'']) 0 limits_default dest_tree (?es, End) =
      Some (Inr \<lparr>xs_fs = linked_twice([''t'', ''evil''] \<mapsto> WFile ''payload''), xs_total = 7, xs_count = 3, xs_links = []\<rparr>)"
    using escape_1 escape_2 escape_3 by (simp add: extract_entries_def drain_to_eof_def archive_def)
  moreover have "list_all (plain_entry (\<lambda>_. True) (max_file_size limits_default)) ?es"
    by (simp add: plain_entry_def plain_text_def link_entry_def file_entry_def limits_default_def)
  ultimately show ?thesis using clean_dest_tree by (simp add: extract_demo, simp add: dest_tree_def)
qed

theorem extraction_contained_witness:
  "\<exists>x. extract_tar (\<lambda>_. True) (archive [file_entry ''a'' ''payload'']) dest_tree (abs_path [''t'', ''d'']) 0 limits_default =
       Some (Inr x) \<and>
     xs_fs x [''t'', ''d'', ''a''] = Some (WFile ''payload'') \<and> xs_fs x [''t'', ''a''] = None"
proof -
  obtain x where x: "extract_tar (\<lambda>_. True) (archive [file_entry ''a'' ''payload'']) dest_tree (abs_path [''t'', ''d'']) 0
      limits_default = Some (Inr x)" "xs_fs x [''t'', ''d'', ''a''] = Some (WFile ''payload'')"
    using extracted_one by blast
  have "xs_fs x [''t'', ''a''] = dest_tree [''t'', ''a'']"
    using extraction_contained [OF x(1) clean_dest_tree] one_plain read_archive [OF one_plain]
    by (simp add: file_entry_def)
  with x show ?thesis by (simp add: dest_tree_def)
qed

theorem extraction_bounded_witness:
  "\<exists>x. extract_tar (\<lambda>_. True) (archive [file_entry ''a'' ''payload'']) dest_tree (abs_path [''t'', ''d'']) 0 limits_default =
       Some (Inr x) \<and> 7 \<le> xs_total x \<and> xs_total x \<le> 2 ^ 30 \<and> xs_count x = 1"
proof -
  obtain x where x: "extract_tar (\<lambda>_. True) (archive [file_entry ''a'' ''payload'']) dest_tree (abs_path [''t'', ''d'']) 0
      limits_default = Some (Inr x)"
    using extracted_one by blast
  have "file_bytes 0 [file_entry ''a'' ''payload''] = 7" "counted 0 [file_entry ''a'' ''payload''] = 1"
    by (simp_all add: file_bytes_def counted_def kept_def strip_name_def file_entry_def)
  moreover have "max_total_size limits_default = 2 ^ 30" "max_total_size limits_default + max_file_size limits_default < 2 ^ 64"
    by (simp_all add: limits_default_def DEFAULT_MAX_TOTAL_SIZE_def)
  moreover note extraction_bounded [OF x calculation(4), unfolded read_archive [OF one_plain] fst_conv]
  ultimately show ?thesis using x by auto
qed

end
