(* ===== verification/Nimble.thy ===== *)
theory Nimble
  imports ManifestTypes Version "HOL-Library.Monad_Syntax"
begin

text \<open>
  The line scanner of \<^verbatim>\<open>milpa-manifest/src/nimble.rs\<close>: \<^verbatim>\<open>parse_nimble\<close> with its text helpers, the
  grammar of \<^verbatim>\<open>when\<close> conditions, and the tracker of \<^verbatim>\<open>when\<close>, \<^verbatim>\<open>elif\<close> and \<^verbatim>\<open>else\<close> chains.  Lines are
  indexed from 0 as in the code.  The main facts: the scanner is total, and the predicates it attaches to
  the branches of a chain select exactly the branch that NimScript would take.
\<close>

subsection \<open>Text helpers\<close>

text \<open>\<^verbatim>\<open>str::lines\<close>: a final line without a newline keeps its carriage return.\<close>

definition strip_cr :: "string \<Rightarrow> string" where
  "strip_cr l = (case strip_suffix [CHR 0x0D] l of Some x \<Rightarrow> x | None \<Rightarrow> l)"

definition str_lines :: "string \<Rightarrow> string list" where
  "str_lines s =
     (let ps = split_on CHR 0x0A s in map strip_cr (butlast ps) @ (if last ps = [] then [] else [last ps]))"

fun comment_free :: "bool \<Rightarrow> string \<Rightarrow> string" where
  "comment_free in_string [] = []"
| "comment_free in_string (c # s) =
     (if c = CHR 0x22 then c # comment_free (\<not> in_string) s
      else if c = CHR ''#'' \<and> \<not> in_string then []
      else c # comment_free in_string s)"

definition strip_comment :: "string \<Rightarrow> string" where
  "strip_comment line = trim_end (comment_free False line)"

text \<open>The first character is white space; the text before the first quote or white space.\<close>

definition ws_at :: "string \<Rightarrow> bool" where
  "ws_at s \<longleftrightarrow> trim_start s \<noteq> s"

fun token :: "string \<Rightarrow> string" where
  "token [] = []"
| "token (c # s) = (if c = CHR 0x22 \<or> ws_at (c # s) then [] else c # token s)"

definition strip_quote :: "string \<Rightarrow> string" where
  "strip_quote s = (case strip_prefix [CHR 0x22] s of Some r \<Rightarrow> r | None \<Rightarrow> s)"

definition assigned :: "string \<Rightarrow> string \<Rightarrow> string option" where
  "assigned key line =
     do { rest \<leftarrow> strip_prefix key (trim_start line);
          rest \<leftarrow> strip_prefix ''='' (trim_start rest);
          (let rest = strip_quote (trim_start rest);
               v = token rest
           in if v = [] then None
              else if trim (strip_quote (drop (length v) rest)) = [] then Some v else None) }"

definition match_src_dir :: "string \<Rightarrow> string option" where
  "match_src_dir = assigned ''srcDir''"

definition match_version :: "string \<Rightarrow> string option" where
  "match_version = assigned ''version''"

definition match_requires :: "string \<Rightarrow> string option" where
  "match_requires line =
     (case strip_prefix ''requires'' (trim_start line) of
        None \<Rightarrow> None
      | Some rest \<Rightarrow> if ws_at rest then Some (trim_start rest) else None)"

function extract_quoted :: "string \<Rightarrow> string list" where
  "extract_quoted s =
     (case split_once CHR 0x22 s of
        None \<Rightarrow> []
      | Some (skipped, r) \<Rightarrow>
          (case split_once CHR 0x22 r of
             None \<Rightarrow> []
           | Some (q, r') \<Rightarrow> q # extract_quoted r'))"
  by pat_completeness auto
termination
  by (relation "measure length") (auto simp: split_once_Some)

declare extract_quoted.simps [simp del]

subsection \<open>Conditions\<close>

definition PLATFORM_TOKENS :: "(string \<times> string) list" where
  "PLATFORM_TOKENS =
     [(''linux'', ''linux''), (''macosx'', ''macosx''), (''macos'', ''macosx''), (''windows'', ''windows''),
      (''win'', ''windows''), (''freebsd'', ''freebsd''), (''openbsd'', ''openbsd''), (''netbsd'', ''netbsd'')]"

definition ARCH_TOKENS :: "string list" where "ARCH_TOKENS = [''amd64'', ''arm64'', ''i386'']"

definition NIM_OPS :: "string list" where "NIM_OPS = [''>='', ''>'', ''<='', ''<'', ''=='']"

definition one_value :: "string \<Rightarrow> string \<Rightarrow> predicate" where
  "one_value n v = \<lparr>pr_name = n, pr_values = [v], pr_negated = False\<rparr>"

text \<open>\<^verbatim>\<open>str::parse::<u32>\<close>.\<close>

definition parse_u32 :: "string \<Rightarrow> u32 option" where
  "parse_u32 s =
     (let d = (case strip_prefix ''+'' s of Some r \<Rightarrow> r | None \<Rightarrow> s)
      in if d \<noteq> [] \<and> list_all is_digit d then word_of_dec d else None)"

fun extract_op_in :: "string list \<Rightarrow> string \<Rightarrow> (string \<times> string) option" where
  "extract_op_in [] s = None"
| "extract_op_in (op # ops) s =
     (case strip_prefix op s of Some rest \<Rightarrow> Some (op, rest) | None \<Rightarrow> extract_op_in ops s)"

definition extract_op :: "string \<Rightarrow> (string \<times> string) option" where
  "extract_op = extract_op_in NIM_OPS"

definition parse_defined :: "string \<Rightarrow> predicate option" where
  "parse_defined cond =
     do { rest \<leftarrow> strip_prefix ''defined('' (trim cond);
          rest \<leftarrow> strip_suffix '')'' rest;
          (let inner = trim rest
           in if inner = [] then None
              else case map_of PLATFORM_TOKENS inner of
                Some tok \<Rightarrow> Some (one_value ''platform'' tok)
              | None \<Rightarrow> if inner \<in> set ARCH_TOKENS then Some (one_value ''arch'' inner) else None) }"

definition try_nim_major_single :: "string \<Rightarrow> string option" where
  "try_nim_major_single s =
     do { rest \<leftarrow> strip_prefix ''NimMajor'' s;
          (op, after_op) \<leftarrow> extract_op (trim_start rest);
          maj \<leftarrow> parse_u32 (trim after_op);
          Some (op @ dec_of_word maj @ ''.0.0'') }"

definition split_on_comma :: "string \<Rightarrow> (string \<times> string) option" where
  "split_on_comma = split_once CHR '',''"

definition split_before_rparen :: "string \<Rightarrow> (string \<times> string) option" where
  "split_before_rparen = split_once CHR '')''"

definition keyword :: "string \<Rightarrow> string \<Rightarrow> string option" where
  "keyword k s = map_option trim_start (strip_prefix k s)"

definition try_tuple3 :: "string \<Rightarrow> string option" where
  "try_tuple3 s =
     do { rest \<leftarrow> keyword ''NimMajor'' (trim_start s);
          rest \<leftarrow> keyword '','' rest;
          rest \<leftarrow> keyword ''NimMinor'' rest;
          rest \<leftarrow> keyword '','' rest;
          rest \<leftarrow> keyword ''NimPatch'' rest;
          rest \<leftarrow> keyword '')'' rest;
          (op, after_op) \<leftarrow> extract_op rest;
          after_op \<leftarrow> keyword ''('' (trim_start after_op);
          (maj, after_major) \<leftarrow> split_on_comma after_op;
          maj \<leftarrow> parse_u32 (trim maj);
          (mnr, after_minor) \<leftarrow> split_on_comma (trim_start after_major);
          mnr \<leftarrow> parse_u32 (trim mnr);
          (pat, remainder) \<leftarrow> split_before_rparen (trim_start after_minor);
          pat \<leftarrow> parse_u32 (trim pat);
          (if trim remainder \<noteq> [] then None
           else Some (op @ dec_of_word maj @ ''.'' @ dec_of_word mnr @ ''.'' @ dec_of_word pat)) }"

definition try_tuple2 :: "string \<Rightarrow> string option" where
  "try_tuple2 s =
     do { rest \<leftarrow> keyword ''NimMajor'' (trim_start s);
          rest \<leftarrow> keyword '','' rest;
          rest \<leftarrow> keyword ''NimMinor'' rest;
          rest \<leftarrow> keyword '')'' rest;
          (op, after_op) \<leftarrow> extract_op rest;
          after_op \<leftarrow> keyword ''('' (trim_start after_op);
          (maj, after_major) \<leftarrow> split_on_comma after_op;
          maj \<leftarrow> parse_u32 (trim maj);
          (mnr, remainder) \<leftarrow> split_before_rparen (trim_start after_major);
          mnr \<leftarrow> parse_u32 (trim mnr);
          (if trim remainder \<noteq> [] then None
           else Some (op @ dec_of_word maj @ ''.'' @ dec_of_word mnr @ ''.0'')) }"

definition try_nim_tuple :: "string \<Rightarrow> string option" where
  "try_nim_tuple s =
     do { rest \<leftarrow> strip_prefix ''('' s;
          (case try_tuple3 rest of Some v \<Rightarrow> Some v | None \<Rightarrow> try_tuple2 rest) }"

definition parse_nim_comparison :: "string \<Rightarrow> predicate option" where
  "parse_nim_comparison cond =
     (let s = trim cond
      in case try_nim_major_single s of
        Some v \<Rightarrow> Some (one_value ''nim'' v)
      | None \<Rightarrow> map_option (one_value ''nim'') (if starts_with ''('' s then try_nim_tuple s else None))"

definition parse_single :: "string \<Rightarrow> predicate option" where
  "parse_single cond =
     (case parse_defined cond of Some p \<Rightarrow> Some p | None \<Rightarrow> parse_nim_comparison cond)"

definition strip_not_prefix :: "string \<Rightarrow> string option" where
  "strip_not_prefix s =
     do { rest \<leftarrow> strip_prefix ''not'' s; (if ws_at rest then Some (trim rest) else None) }"

definition word_char :: "char \<Rightarrow> bool" where
  "word_char c \<longleftrightarrow> is_alnum c \<or> c = CHR ''_''"

text \<open>\<open>before\<close> is the reversed text in front.\<close>

fun split_on_and_from :: "string \<Rightarrow> string \<Rightarrow> (string \<times> string) option" where
  "split_on_and_from before [] = None"
| "split_on_and_from before (c # s) =
     (case strip_prefix ''and'' (c # s) of
        Some r \<Rightarrow>
          if (before = [] \<or> \<not> word_char (hd before)) \<and> (r = [] \<or> \<not> word_char (hd r)) \<and>
             trim (rev before) \<noteq> [] \<and> trim r \<noteq> []
          then Some (trim (rev before), trim r)
          else split_on_and_from (c # before) s
      | None \<Rightarrow> split_on_and_from (c # before) s)"

definition split_on_and :: "string \<Rightarrow> (string \<times> string) option" where
  "split_on_and cond = split_on_and_from [] cond"

definition negate_pred :: "predicate \<Rightarrow> predicate" where
  "negate_pred p = p\<lparr>pr_negated := \<not> pr_negated p\<rparr>"

definition parse_when_condition :: "string \<Rightarrow> predicate list option" where
  "parse_when_condition cond =
     (let stripped = trim cond
      in if stripped = [] then None
         else case strip_not_prefix stripped of
           Some inner \<Rightarrow> map_option (\<lambda>p. [p\<lparr>pr_negated := True\<rparr>]) (parse_single inner)
         | None \<Rightarrow>
             (case split_on_and stripped of
                Some (l, r) \<Rightarrow>
                  do { lp \<leftarrow> parse_nim_comparison l; rp \<leftarrow> parse_nim_comparison r; Some [lp, rp] }
              | None \<Rightarrow> map_option (\<lambda>p. [p]) (parse_single stripped)))"
subsection \<open>Headers and bodies\<close>

definition leading_spaces :: "string \<Rightarrow> nat" where
  "leading_spaces s = length (takeWhile (\<lambda>c. c = CHR '' '' \<or> c = CHR 0x09) s)"

text \<open>The condition and the text behind the colon of a \<^verbatim>\<open>when\<close> or \<^verbatim>\<open>elif\<close> header.\<close>

definition match_cond_header :: "string \<Rightarrow> string \<Rightarrow> (nat \<times> string \<times> string) option" where
  "match_cond_header k s =
     do { rest \<leftarrow> strip_prefix k (trim_start s);
          (if \<not> ws_at rest then None
           else do { (cond, tail) \<leftarrow> split_once CHR '':'' (trim_start rest);
                     Some (leading_spaces s, trim cond, trim tail) }) }"

definition match_when_header :: "string \<Rightarrow> (nat \<times> string \<times> string) option" where
  "match_when_header = match_cond_header ''when''"

definition match_elif_header :: "string \<Rightarrow> (nat \<times> string \<times> string) option" where
  "match_elif_header = match_cond_header ''elif''"

definition match_else_header :: "string \<Rightarrow> (nat \<times> string) option" where
  "match_else_header s =
     do { rest \<leftarrow> strip_prefix ''else'' (trim_start s);
          tail \<leftarrow> strip_prefix '':'' (trim_start rest);
          Some (leading_spaces s, trim tail) }"

definition is_requires_line :: "string \<Rightarrow> bool" where
  "is_requires_line s \<longleftrightarrow>
     (case strip_prefix ''requires'' (trim_start s) of Some rest \<Rightarrow> ws_at rest | None \<Rightarrow> False)"

fun has_word :: "string \<Rightarrow> bool \<Rightarrow> string \<Rightarrow> bool" where
  "has_word w left_ok [] \<longleftrightarrow> False"
| "has_word w left_ok (c # s) \<longleftrightarrow>
     (case strip_prefix w (c # s) of
        Some r \<Rightarrow> left_ok \<and> (r = [] \<or> \<not> word_char (hd r)) | None \<Rightarrow> False) \<or>
     has_word w (\<not> word_char c) s"

definition tail_has_requires :: "string \<Rightarrow> bool" where
  "tail_has_requires tail \<longleftrightarrow> has_word ''requires'' True tail"

abbreviation line_at :: "string list \<Rightarrow> nat \<Rightarrow> string" where
  "line_at ls j \<equiv> strip_comment (ls ! j)"

function find_body_end :: "string list \<Rightarrow> nat \<Rightarrow> nat \<Rightarrow> nat \<Rightarrow> nat" where
  "find_body_end ls j e header_indent =
     (if j < e then
        if trim (line_at ls j) = [] then find_body_end ls (Suc j) e header_indent
        else if leading_spaces (line_at ls j) \<le> header_indent then j
        else find_body_end ls (Suc j) e header_indent
      else j)"
  by pat_completeness auto
termination by (relation "measure (\<lambda>(ls, j, e, h). e - j)") auto

function skip_blank :: "string list \<Rightarrow> nat \<Rightarrow> nat \<Rightarrow> nat" where
  "skip_blank ls k e =
     (if k < e \<and> trim (line_at ls k) = [] then skip_blank ls (Suc k) e else k)"
  by pat_completeness auto
termination by (relation "measure (\<lambda>(ls, k, e). e - k)") auto

text \<open>The last line of a statement that goes on behind a trailing comma.\<close>

function skip_continuation :: "string list \<Rightarrow> nat \<Rightarrow> nat \<Rightarrow> string \<Rightarrow> nat" where
  "skip_continuation ls i e tail =
     (if tail \<noteq> [] \<and> last tail = CHR '','' then
        if Suc i \<ge> e then Suc i else skip_continuation ls (Suc i) e (trim (line_at ls (Suc i)))
      else i)"
  by pat_completeness auto
termination by (relation "measure (\<lambda>(ls, i, e, t). e - i)") auto

declare find_body_end.simps [simp del] skip_blank.simps [simp del] skip_continuation.simps [simp del]

lemma find_body_end_ge: "j \<le> find_body_end ls j e h"
proof (induction ls j e h rule: find_body_end.induct)
  case (1 ls j e h)
  then show ?case
    by (subst find_body_end.simps) (cases "trim (line_at ls j) = []"; auto dest: Suc_leD)
qed

lemma skip_blank_ge: "k \<le> skip_blank ls k e"
  by (induction ls k e rule: skip_blank.induct) (subst skip_blank.simps, auto)

lemma skip_continuation_ge: "i \<le> skip_continuation ls i e t"
  by (induction ls i e t rule: skip_continuation.induct) (subst skip_continuation.simps, auto)

subsection \<open>Chains\<close>

datatype branch_kind = BWhen | BElif | BElse

record branch_raw =
  bw_kind :: branch_kind
  bw_cond :: string
  bw_tail :: string
  bw_header_line :: nat
  bw_body_start :: nat
  bw_body_end :: nat

record when_branch =
  wb_predicates :: "predicate list option"
  wb_require_lines :: "nat list"

text \<open>The rest of a chain at the indentation of its header, and the line behind it.\<close>

function chain_rest :: "string list \<Rightarrow> nat \<Rightarrow> nat \<Rightarrow> nat \<Rightarrow> branch_raw list \<times> nat" where
  "chain_rest ls k e h =
     (let k = skip_blank ls k e in
      if k \<ge> e then ([], k)
      else
        let ks = line_at ls k; b_end = find_body_end ls (Suc k) e h in
        if leading_spaces ks \<noteq> h then ([], k)
        else case match_elif_header ks of
          Some (i, cond, tail) \<Rightarrow>
            (let (bs, k') = chain_rest ls b_end e h
             in (\<lparr>bw_kind = BElif, bw_cond = cond, bw_tail = tail, bw_header_line = k,
                  bw_body_start = Suc k, bw_body_end = b_end\<rparr> # bs, k'))
        | None \<Rightarrow>
            (case match_else_header ks of
               Some (i, tail) \<Rightarrow>
                 ([\<lparr>bw_kind = BElse, bw_cond = [], bw_tail = tail, bw_header_line = k,
                    bw_body_start = Suc k, bw_body_end = b_end\<rparr>], b_end)
             | None \<Rightarrow> ([], k)))"
  by pat_completeness auto
termination
proof (relation "measure (\<lambda>(ls, k, e, h). e - k)")
  fix ls k e h k' ks b_end x y a c t
  assume "k' = skip_blank ls k e" "\<not> e \<le> k'" "b_end = find_body_end ls (Suc k') e h"
  then show "((ls, b_end, e, h), ls, k, e, h) \<in> measure (\<lambda>(ls, k, e, h). e - k)"
    using skip_blank_ge [of k ls e] find_body_end_ge [of "Suc k'" ls e h] by simp
qed simp

declare chain_rest.simps [simp del]

lemma chain_rest_ge: "k \<le> snd (chain_rest ls k e h)"
proof (induction ls k e h rule: chain_rest.induct)
  case (1 ls k e h)
  let ?k = "skip_blank ls k e"
  have le: "k \<le> ?k" "Suc ?k \<le> find_body_end ls (Suc ?k) e h"
    by (rule skip_blank_ge, rule find_body_end_ge)
  have "find_body_end ls (Suc ?k) e h \<le> snd (chain_rest ls (find_body_end ls (Suc ?k) e h) e h)"
    if "\<not> e \<le> ?k" "\<not> leading_spaces (line_at ls ?k) \<noteq> h" "match_elif_header (line_at ls ?k) = Some (i, c, t)" for i c t
    using 1 [OF refl that(1) refl refl that(2,3)] by simp
  with le show ?case
    by (subst chain_rest.simps) (auto simp: Let_def split: option.splits prod.splits intro: le_trans)
qed

text \<open>
  The predicates of the branches: none when a condition is not recognised, when a chain of several
  branches has a condition of two predicates, or inside another chain.
\<close>

definition poisons :: "bool \<Rightarrow> branch_raw \<Rightarrow> bool" where
  "poisons siblings b \<longleftrightarrow> bw_kind b \<noteq> BElse \<and>
     (case parse_when_condition (bw_cond b) of None \<Rightarrow> True | Some pk \<Rightarrow> siblings \<and> length pk > 1)"

fun assign_predicates :: "branch_raw list \<Rightarrow> predicate list \<Rightarrow> predicate list list" where
  "assign_predicates [] prior_negations = []"
| "assign_predicates (b # bs) prior_negations =
     (let pk = (case parse_when_condition (bw_cond b) of Some pk \<Rightarrow> pk | None \<Rightarrow> [])
      in case bw_kind b of
        BWhen \<Rightarrow> pk # assign_predicates bs (prior_negations @ map negate_pred pk)
      | BElif \<Rightarrow> (pk @ prior_negations) # assign_predicates bs (prior_negations @ map negate_pred pk)
      | BElse \<Rightarrow> prior_negations # assign_predicates bs prior_negations)"

definition branch_predicates :: "nat \<Rightarrow> branch_raw list \<Rightarrow> predicate list option list" where
  "branch_predicates depth branches =
     (if list_ex (poisons (length branches > 1)) branches \<or> depth \<ge> 1
      then map (\<lambda>_. None) branches
      else map Some (assign_predicates branches []))"

function collect_direct_requires :: "string list \<Rightarrow> nat \<Rightarrow> nat \<Rightarrow> nat list" where
  "collect_direct_requires ls i e =
     (if i < e then
        let s = line_at ls i in
        if trim s = [] then collect_direct_requires ls (Suc i) e
        else if match_when_header s \<noteq> None then
          collect_direct_requires ls
            (snd (chain_rest ls (find_body_end ls (Suc i) e (leading_spaces s)) e (leading_spaces s))) e
        else if is_requires_line s then
          i # collect_direct_requires ls (Suc (skip_continuation ls i e (trim_end s))) e
        else collect_direct_requires ls (Suc i) e
      else [])"
  by pat_completeness auto
termination
proof (relation "measure (\<lambda>(ls, i, e). e - i)")
  fix ls i e s
  assume "i < (e :: nat)"
  moreover have "Suc i \<le> snd (chain_rest ls (find_body_end ls (Suc i) e h) e h)" for h
    using find_body_end_ge [of "Suc i" ls e h] chain_rest_ge [of "find_body_end ls (Suc i) e h" ls e h] by simp
  ultimately show
    "((ls, snd (chain_rest ls (find_body_end ls (Suc i) e (leading_spaces s)) e (leading_spaces s)), e), ls, i, e)
       \<in> measure (\<lambda>(ls, i, e). e - i)"
    by (simp add: Suc_le_eq diff_less_mono2)
next
  fix ls i e s
  assume "i < (e :: nat)"
  then show "((ls, Suc (skip_continuation ls i e (trim_end s)), e), ls, i, e) \<in> measure (\<lambda>(ls, i, e). e - i)"
    using skip_continuation_ge [of i ls e "trim_end s"] by simp
qed auto

function linear_scan_lines :: "string list \<Rightarrow> nat \<Rightarrow> nat \<Rightarrow> nat list" where
  "linear_scan_lines ls i e =
     (if i < e then
        let s = line_at ls i in
        if is_requires_line s then i # linear_scan_lines ls (Suc (skip_continuation ls i e (trim_end s))) e
        else linear_scan_lines ls (Suc i) e
      else [])"
  by pat_completeness auto
termination
proof (relation "measure (\<lambda>(ls, i, e). e - i)")
  fix ls i e s
  assume "i < (e :: nat)"
  then show "((ls, Suc (skip_continuation ls i e (trim_end s)), e), ls, i, e) \<in> measure (\<lambda>(ls, i, e). e - i)"
    using skip_continuation_ge [of i ls e "trim_end s"] by simp
qed auto

declare collect_direct_requires.simps [simp del] linear_scan_lines.simps [simp del]

definition linear_scan_requires :: "string list \<Rightarrow> nat \<Rightarrow> nat \<Rightarrow> when_branch list" where
  "linear_scan_requires ls i e =
     (let reqs = linear_scan_lines ls i e
      in if reqs = [] then [] else [\<lparr>wb_predicates = None, wb_require_lines = reqs\<rparr>])"

definition MAX_WHEN_DEPTH :: nat where "MAX_WHEN_DEPTH = 8"

definition branch_requires :: "string list \<Rightarrow> branch_raw \<Rightarrow> nat list" where
  "branch_requires ls b =
     (if bw_tail b \<noteq> [] \<and> tail_has_requires (bw_tail b) then [bw_header_line b] else []) @
     collect_direct_requires ls (bw_body_start b) (bw_body_end b)"

definition when_head :: "string list \<Rightarrow> nat \<Rightarrow> nat \<Rightarrow> nat \<times> string \<times> string \<Rightarrow> branch_raw" where
  "when_head ls i e m =
     \<lparr>bw_kind = BWhen, bw_cond = fst (snd m), bw_tail = snd (snd m), bw_header_line = i,
      bw_body_start = Suc i, bw_body_end = find_body_end ls (Suc i) e (fst m)\<rparr>"

function scan_region :: "string list \<Rightarrow> nat \<Rightarrow> nat \<Rightarrow> nat \<Rightarrow> when_branch list" where
  "scan_region ls i e depth =
     (if depth \<ge> MAX_WHEN_DEPTH then linear_scan_requires ls i e
      else if i < e then
        let s = line_at ls i in
        if trim s = [] then scan_region ls (Suc i) e depth
        else case match_when_header s of
          None \<Rightarrow> scan_region ls (Suc i) e depth
        | Some m \<Rightarrow>
            let b_end = find_body_end ls (Suc i) e (fst m);
                branches = when_head ls i e m # fst (chain_rest ls b_end e (fst m));
                preds = branch_predicates depth branches
            in concat (map (\<lambda>(b, p).
                 (let reqs = branch_requires ls b
                  in if reqs = [] then [] else [\<lparr>wb_predicates = p, wb_require_lines = reqs\<rparr>]) @
                 scan_region ls (bw_body_start b) (bw_body_end b) (Suc depth)) (zip branches preds)) @
               scan_region ls (snd (chain_rest ls b_end e (fst m))) e depth
      else [])"
  by pat_completeness auto
termination
proof (relation "measures [\<lambda>(ls, i, e, d). MAX_WHEN_DEPTH - d, \<lambda>(ls, i, e, d). e - i]")
  fix ls i e d m b_end
  assume "i < (e :: nat)" "b_end = find_body_end ls (Suc i) e (fst m)"
  moreover have "Suc i \<le> snd (chain_rest ls (find_body_end ls (Suc i) e h) e h)" for h
    using find_body_end_ge [of "Suc i" ls e h] chain_rest_ge [of "find_body_end ls (Suc i) e h" ls e h] by simp
  ultimately show "((ls, snd (chain_rest ls b_end e (fst m)), e, d), ls, i, e, d)
    \<in> measures [\<lambda>(ls, i, e, d). MAX_WHEN_DEPTH - d, \<lambda>(ls, i, e, d). e - i]"
    by (simp add: Suc_le_eq diff_less_mono2)
qed auto

declare scan_region.simps [simp del]

definition parse_when_branches :: "string list \<Rightarrow> when_branch list" where
  "parse_when_branches ls = scan_region ls 0 (length ls) 0"
subsection \<open>The file\<close>

datatype nimble_requirement =
    NUrl (nq_spec: string) (nq_url: string) (nq_ref: "string option") (nq_predicates: "predicate list")
  | NNamed (nq_spec: string) (nq_name: string) (nq_constraint: "string option") (nq_predicates: "predicate list")

record nimble_manifest =
  nm_requires :: "nimble_requirement list"
  nm_src_dir :: "string option"
  nm_version :: "version option"

definition URL_SCHEMES :: "string list" where
  "URL_SCHEMES = [''http://'', ''https://'', ''ssh://'', ''git://'', ''file://'']"

fun until_ws :: "string \<Rightarrow> string" where
  "until_ws [] = []"
| "until_ws (c # s) = (if ws_at (c # s) then [] else c # until_ws s)"

definition parse_spec :: "string \<Rightarrow> predicate list \<Rightarrow> nimble_requirement" where
  "parse_spec spec preds =
     (if list_ex (\<lambda>p. starts_with p spec) URL_SCHEMES
      then (case split_once CHR ''#'' spec of
              Some (url, r) \<Rightarrow> NUrl spec url (Some r) preds
            | None \<Rightarrow> NUrl spec spec None preds)
      else let c = trim (drop (length (until_ws spec)) spec)
        in NNamed spec (until_ws spec) (if c = [] then None else Some c) preds)"

text \<open>The specifications behind the colon of a one-line header.\<close>

definition extract_colon_form_requires :: "string \<Rightarrow> string list" where
  "extract_colon_form_requires line =
     (case (case match_when_header line of Some (i, c, t) \<Rightarrow> Some t
            | None \<Rightarrow> (case match_elif_header line of Some (i, c, t) \<Rightarrow> Some t
              | None \<Rightarrow> map_option snd (match_else_header line))) of
        None \<Rightarrow> []
      | Some tail \<Rightarrow>
          if tail = [] \<or> \<not> tail_has_requires tail then []
          else (case match_requires tail of None \<Rightarrow> [] | Some r \<Rightarrow> extract_quoted (trim r)))"

text \<open>The statement with its continuation lines, and the last line it takes.\<close>

function join_continuation :: "string list \<Rightarrow> nat \<Rightarrow> string \<Rightarrow> string \<times> nat" where
  "join_continuation ls i tail =
     (if tail \<noteq> [] \<and> last tail = CHR '','' then
        if Suc i \<ge> length ls then (tail, Suc i)
        else join_continuation ls (Suc i) (tail @ '' '' @ trim (line_at ls (Suc i)))
      else (tail, i))"
  by pat_completeness auto
termination by (relation "measure (\<lambda>(ls, i, t). length ls - i)") auto

declare join_continuation.simps [simp del]

lemma join_continuation_ge: "i \<le> snd (join_continuation ls i t)"
  by (induction ls i t rule: join_continuation.induct) (subst join_continuation.simps, auto)

record nimble_scan =
  sc_src_dir :: "string option"
  sc_version :: "string option"
  sc_specs :: "(string \<times> nat) list"

function scan_file :: "string list \<Rightarrow> nat \<Rightarrow> nimble_scan \<Rightarrow> nimble_scan" where
  "scan_file ls i acc =
     (if i < length ls then
        let line = line_at ls i in
        case match_src_dir line of
          Some d \<Rightarrow> scan_file ls (Suc i) (acc\<lparr>sc_src_dir := Some d\<rparr>)
        | None \<Rightarrow>
        (case match_version line of
          Some v \<Rightarrow> scan_file ls (Suc i) (acc\<lparr>sc_version := Some v\<rparr>)
        | None \<Rightarrow>
        (case match_requires line of
          Some rest \<Rightarrow>
            (let st = join_continuation ls i (trim rest)
             in scan_file ls (Suc (snd st))
               (acc\<lparr>sc_specs := sc_specs acc @ map (\<lambda>q. (q, i)) (extract_quoted (fst st))\<rparr>))
        | None \<Rightarrow>
            scan_file ls (Suc i)
              (acc\<lparr>sc_specs := sc_specs acc @ map (\<lambda>q. (q, i)) (extract_colon_form_requires line)\<rparr>)))
      else acc)"
  by pat_completeness auto
termination
proof (relation "measure (\<lambda>(ls, i, acc). length ls - i)")
  fix ls i acc acc' rest st
  assume "i < length ls" "st = join_continuation ls i (trim rest)"
  then show "((ls, Suc (snd st), acc'), ls, i, acc) \<in> measure (\<lambda>(ls, i, acc). length ls - i)"
    using join_continuation_ge [of i ls "trim rest"] by simp
qed auto

declare scan_file.simps [simp del]

text \<open>The table from the lines of the branches to their predicates; a later branch replaces an earlier one.\<close>

definition line_preds :: "when_branch list \<Rightarrow> nat \<rightharpoonup> predicate list option" where
  "line_preds branches =
     foldl (\<lambda>m b. foldl (\<lambda>m ln. m(ln \<mapsto> wb_predicates b)) m (wb_require_lines b)) Map.empty branches"

definition parse_nimble :: "string \<Rightarrow> nimble_manifest" where
  "parse_nimble txt =
     (let ls = str_lines txt;
          tbl = line_preds (parse_when_branches ls);
          sc = scan_file ls 0 \<lparr>sc_src_dir = None, sc_version = None, sc_specs = []\<rparr>
      in \<lparr>nm_requires = map (\<lambda>(spec, ln). parse_spec spec
             (case tbl ln of Some (Some ps) \<Rightarrow> ps | _ \<Rightarrow> [])) (sc_specs sc),
          nm_src_dir = sc_src_dir sc,
          nm_version = Option.bind (sc_version sc) parse_version\<rparr>)"

subsection \<open>Facts on chains\<close>

lemma parse_when_condition_nonempty: "parse_when_condition c = Some ps \<Longrightarrow> ps \<noteq> []"
  by (auto simp: parse_when_condition_def Let_def bind_eq_Some_conv split: if_splits option.splits)

text \<open>Only the last branch of a chain can be an \<^verbatim>\<open>else\<close>, only the first is a \<^verbatim>\<open>when\<close>.\<close>

fun tail_shape :: "branch_raw list \<Rightarrow> bool" where
  "tail_shape [] = True"
| "tail_shape (b # bs) \<longleftrightarrow> (bw_kind b = BElif \<and> tail_shape bs) \<or> (bw_kind b = BElse \<and> bs = [])"

lemma chain_rest_shape: "tail_shape (fst (chain_rest ls k e h))"
proof (induction ls k e h rule: chain_rest.induct)
  case (1 ls k e h)
  let ?k = "skip_blank ls k e"
  have "tail_shape (fst (chain_rest ls (find_body_end ls (Suc ?k) e h) e h))"
    if "\<not> e \<le> ?k" "\<not> leading_spaces (line_at ls ?k) \<noteq> h" "match_elif_header (line_at ls ?k) = Some (i, c, t)" for i c t
    using 1 [OF refl that(1) refl refl that(2,3)] by simp
  then show ?case
    by (subst chain_rest.simps) (auto simp: Let_def split: option.splits prod.splits)
qed

text \<open>The condition of a branch holds in an environment that judges single predicates.\<close>

definition cond_holds :: "(predicate \<Rightarrow> bool) \<Rightarrow> branch_raw \<Rightarrow> bool" where
  "cond_holds sat b \<longleftrightarrow> bw_kind b = BElse \<or>
     (case parse_when_condition (bw_cond b) of Some ps \<Rightarrow> list_all sat ps | None \<Rightarrow> False)"

definition recognised :: "branch_raw list \<Rightarrow> bool" where
  "recognised bs \<longleftrightarrow> \<not> list_ex (poisons (length bs > 1)) bs"

lemma assign_length: "length (assign_predicates bs ns) = length bs"
  by (induction bs ns rule: assign_predicates.induct) (auto simp: Let_def split: branch_kind.splits)

lemma single_cond:
  assumes "\<not> poisons True b" "bw_kind b \<noteq> BElse"
  obtains p where "parse_when_condition (bw_cond b) = Some [p]"
proof -
  from assms obtain ps where ps: "parse_when_condition (bw_cond b) = Some ps" "length ps \<le> 1"
    by (auto simp: poisons_def split: option.splits)
  with parse_when_condition_nonempty [OF ps(1)] that show ?thesis by (cases ps) auto
qed

lemma assign_tail:
  assumes neg: "\<And>p. sat (negate_pred p) \<longleftrightarrow> \<not> sat p"
  shows "tail_shape bs \<Longrightarrow> \<forall>b \<in> set bs. \<not> poisons True b \<Longrightarrow> i < length bs \<Longrightarrow>
    list_all sat (assign_predicates bs ns ! i) \<longleftrightarrow>
      list_all sat ns \<and> cond_holds sat (bs ! i) \<and> (\<forall>j < i. \<not> cond_holds sat (bs ! j))"
proof (induction bs arbitrary: i ns)
  case (Cons b bs)
  show ?case
  proof (cases "bw_kind b = BElse")
    case True
    with Cons.prems show ?thesis by (auto simp: cond_holds_def)
  next
    case False
    with Cons.prems(1) have elif: "bw_kind b = BElif" "tail_shape bs" by auto
    from Cons.prems(2) False obtain p where p: "parse_when_condition (bw_cond b) = Some [p]"
      using single_cond [of b] by auto
    show ?thesis
    proof (cases i)
      case 0
      with elif p show ?thesis by (auto simp: cond_holds_def)
    next
      case (Suc i')
      with Cons.IH [OF elif(2), of i' "ns @ [negate_pred p]"] Cons.prems elif p neg
      show ?thesis by (auto simp: cond_holds_def All_less_Suc2)
    qed
  qed
qed simp

subsection \<open>Properties\<close>

text \<open>
  C35. The predicates of a \<^verbatim>\<open>when\<close> chain select the branch that NimScript would take.  For the chain that
  the tracker reads at a header outside other chains, when all its conditions are recognised, every branch
  gets predicates, and in any environment that judges single predicates with the negation as complement the
  predicates of a branch hold exactly when its condition holds and no earlier condition of the chain does:
  at most one branch is selected, and with an \<^verbatim>\<open>else\<close> exactly one.
\<close>

theorem when_chain_selects:
  assumes "match_when_header (line_at ls i) = Some m"
    and "branches = when_head ls i e m # fst (chain_rest ls (find_body_end ls (Suc i) e (fst m)) e (fst m))"
    and "recognised branches" "\<forall>p. sat (negate_pred p) \<longleftrightarrow> \<not> sat p"
  shows "\<exists>pss. branch_predicates 0 branches = map Some pss \<and> length pss = length branches \<and>
    (\<forall>k < length branches. list_all sat (pss ! k) \<longleftrightarrow>
       cond_holds sat (branches ! k) \<and> (\<forall>j < k. \<not> cond_holds sat (branches ! j)))"
proof (intro exI [of _ "assign_predicates branches []"] conjI)
  show "branch_predicates 0 branches = map Some (assign_predicates branches [])"
    using assms(3) by (simp add: branch_predicates_def recognised_def)
  show "length (assign_predicates branches []) = length branches" by (rule assign_length)
  obtain b bs where bs: "branches = b # bs" "bw_kind b = BWhen" "tail_shape bs"
    using assms(2) chain_rest_shape by (simp add: when_head_def)
  show "\<forall>k < length branches. list_all sat (assign_predicates branches [] ! k) \<longleftrightarrow>
       cond_holds sat (branches ! k) \<and> (\<forall>j < k. \<not> cond_holds sat (branches ! j))"
  proof (cases bs)
    case Nil
    from assms(3) bs obtain ps where "parse_when_condition (bw_cond b) = Some ps"
      by (auto simp: recognised_def poisons_def split: option.splits)
    with Nil bs show ?thesis by (simp add: cond_holds_def)
  next
    case (Cons c cs)
    then have two: "length branches > 1" using bs by simp
    with assms(3) bs have np: "\<not> poisons True b" "\<forall>x \<in> set bs. \<not> poisons True x"
      by (auto simp: recognised_def list_ex_iff)
    with bs(2) obtain p where p: "parse_when_condition (bw_cond b) = Some [p]"
      using single_cond [of b] by auto
    show ?thesis
    proof (intro allI impI)
      fix k assume k: "k < length branches"
      show "list_all sat (assign_predicates branches [] ! k) \<longleftrightarrow>
         cond_holds sat (branches ! k) \<and> (\<forall>j < k. \<not> cond_holds sat (branches ! j))"
      proof (cases k)
        case 0
        with bs p show ?thesis by (simp add: cond_holds_def)
      next
        case (Suc k')
        with k bs p assms(4) assign_tail [of sat bs k' "[negate_pred p]"] np(2) show ?thesis
          by (auto simp: cond_holds_def All_less_Suc2)
      qed
    qed
  qed
qed
definition demo_nimble :: "string list" where
  "demo_nimble = [''when defined(linux):'', ''  requires a'', ''elif defined(macosx): requires b'', ''else:'', ''  requires c'']"

definition on_linux :: "predicate \<Rightarrow> bool" where
  "on_linux p \<longleftrightarrow> (pr_values p = [''linux'']) \<noteq> pr_negated p"

definition demo_chain :: "branch_raw list" where
  "demo_chain =
     [\<lparr>bw_kind = BWhen, bw_cond = ''defined(linux)'', bw_tail = [], bw_header_line = 0, bw_body_start = 1, bw_body_end = 2\<rparr>,
      \<lparr>bw_kind = BElif, bw_cond = ''defined(macosx)'', bw_tail = ''requires b'', bw_header_line = 2, bw_body_start = 3, bw_body_end = 3\<rparr>,
      \<lparr>bw_kind = BElse, bw_cond = [], bw_tail = [], bw_header_line = 3, bw_body_start = 4, bw_body_end = 5\<rparr>]"

lemma demo_chain_read:
  "match_when_header (line_at demo_nimble 0) = Some (0, ''defined(linux)'', [])"
  "demo_chain = when_head demo_nimble 0 5 (0, ''defined(linux)'', []) #
     fst (chain_rest demo_nimble (find_body_end demo_nimble (Suc 0) 5 0) 5 0)"
  by code_simp+

lemma demo_conditions:
  "parse_when_condition ''defined(linux)'' = Some [one_value ''platform'' ''linux'']"
  "parse_when_condition ''defined(macosx)'' = Some [one_value ''platform'' ''macosx'']"
  by code_simp+

theorem when_chain_selects_witness:
  "\<exists>pss. branch_predicates 0 demo_chain = map Some pss \<and> length pss = 3 \<and>
     list_all on_linux (pss ! 0) \<and> \<not> list_all on_linux (pss ! 1) \<and> \<not> list_all on_linux (pss ! 2)"
proof -
  have "recognised demo_chain" "\<forall>p. on_linux (negate_pred p) \<longleftrightarrow> \<not> on_linux p"
    by (auto simp: recognised_def demo_chain_def poisons_def demo_conditions on_linux_def negate_pred_def)
  from when_chain_selects [OF demo_chain_read(1), of demo_chain 5 on_linux] this demo_chain_read(2)
  obtain pss where pss: "branch_predicates 0 demo_chain = map Some pss" "length pss = length demo_chain"
    "\<forall>k < length demo_chain. list_all on_linux (pss ! k) \<longleftrightarrow>
       cond_holds on_linux (demo_chain ! k) \<and> (\<forall>j < k. \<not> cond_holds on_linux (demo_chain ! j))"
    by auto
  have "cond_holds on_linux (demo_chain ! 0)" "length demo_chain = 3"
    by (simp_all add: demo_chain_def cond_holds_def demo_conditions on_linux_def one_value_def)
  with pss show ?thesis by (intro exI [of _ pss]) (auto intro: exI [of _ 0])
qed

end
