(* ===== verification/EdgeSources.thy ===== *)
theory EdgeSources
  imports Nimble Flags DepDecl ArtifactStore ManifestDoc
begin

text \<open>
  Where the edges of a fetched package come from, \<^verbatim>\<open>milpa-core/src/edge_sources.rs\<close>: the three sources
  (the index-attested artifact, \<^verbatim>\<open>milpa.kdl\<close>, the \<^verbatim>\<open>.nimble\<close> scan), their priority with the sealed cache,
  the attestation policy that \<^verbatim>\<open>resolver.rs\<close> wraps around the first, and the declared version of a
  package.  The directory of a package is what the file system calls on it return; \<open>kdl\<close> is the third-party
  parser and \<open>utf8\<close> the validity test of byte strings.
\<close>

subsection \<open>Directories and the context\<close>

record dir_view =
  dv_names :: "string list"
  dv_is_file :: "string \<Rightarrow> bool"
  dv_read :: "string \<Rightarrow> string option"

record edge_ctx =
  ec_dir :: "dir_view option"
  ec_dep_name :: string
  ec_dep_decl :: "string option"
  ec_is_overridden :: bool
  ec_has_milpa_kdl :: bool
  ec_schema_version :: "int option"
  ec_active_flags :: "string list"
  ec_ref :: "string option"
  ec_version :: "version option"

definition nimble_file :: "string \<Rightarrow> bool" where
  "nimble_file name =
     (case rsplit_once CHR ''.'' name of Some (stem, ext) \<Rightarrow> stem \<noteq> [] \<and> ext = ''nimble'' | None \<Rightarrow> False)"

definition find_nimble :: "dir_view \<Rightarrow> string \<Rightarrow> string option" where
  "find_nimble d hint =
     (if dv_is_file d (hint @ ''.nimble'') then Some (hint @ ''.nimble'')
      else case sort (filter nimble_file (dv_names d)) of [] \<Rightarrow> None | n # ns \<Rightarrow> Some n)"

subsection \<open>The \<^verbatim>\<open>milpa.kdl\<close> source\<close>

definition require_of :: "mdep \<Rightarrow> require_entry list" where
  "require_of d =
     (case d of
        DUrl u \<Rightarrow> [Url \<lparr>ur_url = ud_git u, ur_ref = ud_git_ref u, ur_predicates = [],
                    ur_flag_requests = ud_flag_requests u, ur_name = Some (ud_name u)\<rparr>]
      | DNamed n \<Rightarrow>
          if nd_name n = ''nim'' then []
          else [Named \<lparr>nr_name = nd_name n, nr_constraint_str = (case nd_constraint n of Some c \<Rightarrow> c | None \<Rightarrow> []),
                  nr_predicates = [], nr_namespace = nd_namespace n\<rparr>]
      | _ \<Rightarrow> [])"

definition build_edgeset_with_flags :: "manifest \<Rightarrow> string list \<Rightarrow> edge_set" where
  "build_edgeset_with_flags m active_flags =
     (let active = set (default_flags (m_flags m)) \<union> set active_flags
      in \<lparr>es_requires = concat (map require_of (filter (\<lambda>d. dep_passes_flag_predicates d active) (m_deps m))),
          es_src_dir = m_src_dir m, es_source = MilpaKdl\<rparr>)"

definition empty_milpa_kdl :: edge_set where
  "empty_milpa_kdl = \<lparr>es_requires = [], es_src_dir = [], es_source = MilpaKdl\<rparr>"

definition milpa_kdl_edges :: "(string \<Rightarrow> kdl_node list option) \<Rightarrow> edge_ctx \<Rightarrow> edge_set" where
  "milpa_kdl_edges kdl ctx =
     (case Option.bind (ec_dir ctx) (\<lambda>d. dv_read d ''milpa.kdl'') of
        None \<Rightarrow> empty_milpa_kdl
      | Some txt \<Rightarrow>
          (case parse_manifest kdl txt of
             Inl e \<Rightarrow> empty_milpa_kdl
           | Inr m \<Rightarrow> build_edgeset_with_flags m (ec_active_flags ctx)))"

subsection \<open>The \<^verbatim>\<open>.nimble\<close> source\<close>

definition empty_nimble :: edge_set where
  "empty_nimble = \<lparr>es_requires = [], es_src_dir = [], es_source = NimbleFallback\<rparr>"

fun nimble_require :: "nimble_requirement \<Rightarrow> require_entry list" where
  "nimble_require (NUrl spec url r ps) =
     [Url \<lparr>ur_url = url, ur_ref = (case r of Some x \<Rightarrow> x | None \<Rightarrow> ''HEAD''), ur_predicates = ps,
        ur_flag_requests = [], ur_name = None\<rparr>]"
| "nimble_require (NNamed spec name c ps) =
     (if name = ''nim'' then []
      else [Named \<lparr>nr_name = name, nr_constraint_str = (case c of Some x \<Rightarrow> x | None \<Rightarrow> []),
              nr_predicates = ps, nr_namespace = None\<rparr>])"

definition nimble_edges :: "edge_ctx \<Rightarrow> string + edge_set" where
  "nimble_edges ctx =
     (case Option.bind (ec_dir ctx) (\<lambda>d. Option.bind (find_nimble d (ec_dep_name ctx)) (dv_read d)) of
        None \<Rightarrow> Inr empty_nimble
      | Some txt \<Rightarrow>
          (let nm = parse_nimble txt;
               src_dir = (case nm_src_dir nm of Some s \<Rightarrow> s | None \<Rightarrow> [])
           in if src_dir \<noteq> [] \<and> contains_unsafe_char src_dir then Inl ''MAN-SRC-DIR-UNSAFE''
              else Inr \<lparr>es_requires = concat (map nimble_require (nm_requires nm)), es_src_dir = src_dir,
                es_source = NimbleFallback\<rparr>))"

subsection \<open>The attested source\<close>

type_synonym dep_decl_store = "string \<Rightarrow> string + string"

definition dep_decl_edges ::
  "(string \<Rightarrow> bool) \<Rightarrow> (string \<Rightarrow> kdl_node list option) \<Rightarrow> dep_decl_store \<Rightarrow> edge_ctx \<Rightarrow> string \<Rightarrow>
   string + edge_set" where
  "dep_decl_edges utf8 kdl get ctx hash =
     rbind (get hash) (\<lambda>bytes.
     rbind (parse_dep_decl utf8 kdl bytes) (\<lambda>(es, v).
     if v > MAX_DEP_DECL_SCHEMA_VERSION then Inl ''TNG-DEPDECL-SCHEMA-UNSUPPORTED''
     else case ec_schema_version ctx of
       None \<Rightarrow> Inr es
     | Some iv \<Rightarrow> if v \<noteq> iv then Inl ''TNG-DEPDECL-SCHEMA-MISMATCH'' else Inr es))"

definition local_edges :: "(string \<Rightarrow> kdl_node list option) \<Rightarrow> edge_ctx \<Rightarrow> string + edge_set" where
  "local_edges kdl ctx =
     (if ec_has_milpa_kdl ctx then Inr (milpa_kdl_edges kdl ctx) else nimble_edges ctx)"

text \<open>The policy of the resolver: an unreachable artifact falls through unless attestation is strict.\<close>

definition policy_dep_decl_edges ::
  "(string \<Rightarrow> bool) \<Rightarrow> (string \<Rightarrow> kdl_node list option) \<Rightarrow> dep_decl_store \<Rightarrow> bool \<Rightarrow> edge_ctx \<Rightarrow> string \<Rightarrow>
   string + edge_set" where
  "policy_dep_decl_edges utf8 kdl get strict ctx hash =
     (case dep_decl_edges utf8 kdl get ctx hash of
        Inr es \<Rightarrow> Inr es
      | Inl e \<Rightarrow>
          if e = ''TNG-DEPDECL-FETCH-FAILED'' \<and> \<not> strict then local_edges kdl ctx else Inl e)"

subsection \<open>The coordinator\<close>

type_synonym edge_cache = "((source_id \<times> version) \<times> edge_set) list"

definition cache_get :: "edge_cache \<Rightarrow> source_id \<Rightarrow> version \<Rightarrow> edge_set option" where
  "cache_get cache sid v =
     map_option snd (List.find (\<lambda>e. fst (fst e) = sid \<and> veq (snd (fst e)) v) cache)"

text \<open>\<open>store\<close> is the injected attested source, with the policy; \<open>None\<close> when there is no store.\<close>

definition fresh_edges ::
  "(string \<Rightarrow> bool) \<Rightarrow> (string \<Rightarrow> kdl_node list option) \<Rightarrow> dep_decl_store option \<Rightarrow> bool \<Rightarrow> edge_ctx \<Rightarrow>
   string + edge_set" where
  "fresh_edges utf8 kdl store strict ctx =
     (if ec_is_overridden ctx then local_edges kdl ctx
      else case (ec_dep_decl ctx, store) of
        (Some hash, Some get) \<Rightarrow> policy_dep_decl_edges utf8 kdl get strict ctx hash
      | _ \<Rightarrow> local_edges kdl ctx)"

definition resolve_edges ::
  "(string \<Rightarrow> bool) \<Rightarrow> (string \<Rightarrow> kdl_node list option) \<Rightarrow> dep_decl_store option \<Rightarrow> bool \<Rightarrow> edge_ctx \<Rightarrow>
   source_id \<Rightarrow> version \<Rightarrow> edge_cache \<Rightarrow> string + (edge_set \<times> edge_cache)" where
  "resolve_edges utf8 kdl store strict ctx sid v cache =
     (case cache_get cache sid v of
        Some es \<Rightarrow> Inr (es, cache)
      | None \<Rightarrow>
          rbind (fresh_edges utf8 kdl store strict ctx) (\<lambda>es. Inr (es, cache @ [((sid, v), es)])))"

subsection \<open>The declared version\<close>

definition declared_version_for ::
  "(string \<Rightarrow> kdl_node list option) \<Rightarrow> edge_ctx \<Rightarrow> (version \<times> version_source) option" where
  "declared_version_for kdl ctx =
     (let manifest_version =
            (if ec_has_milpa_kdl ctx
             then (case Option.bind (ec_dir ctx) (\<lambda>d. dv_read d ''milpa.kdl'') of
                     None \<Rightarrow> None
                   | Some txt \<Rightarrow> (case parse_manifest kdl txt of Inl e \<Rightarrow> None | Inr m \<Rightarrow> m_version m))
             else None);
          nimble_version =
            Option.bind (ec_dir ctx) (\<lambda>d. Option.bind (Option.bind (find_nimble d (ec_dep_name ctx)) (dv_read d))
              (\<lambda>txt. nm_version (parse_nimble txt)))
      in case manifest_version of
        Some v \<Rightarrow> Some (v, Manifest)
      | None \<Rightarrow>
      (case nimble_version of
        Some v \<Rightarrow> Some (v, Nimble)
      | None \<Rightarrow>
      (case Option.bind (ec_ref ctx) parse_version of
        Some v \<Rightarrow> Some (v, Tag)
      | None \<Rightarrow> map_option (\<lambda>v. (v, Annotation)) (ec_version ctx))))"

subsection \<open>Names from URLs\<close>

fun trim_slashes_rev :: "string \<Rightarrow> string" where
  "trim_slashes_rev [] = []"
| "trim_slashes_rev (c # s) = (if c = CHR ''/'' then trim_slashes_rev s else c # s)"

definition trim_end_slashes :: "string \<Rightarrow> string" where
  "trim_end_slashes s = rev (trim_slashes_rev (rev s))"

definition url_tail :: "string \<Rightarrow> string" where
  "url_tail url =
     (let tail = last (split_on CHR ''/'' (trim_end_slashes url))
      in case strip_suffix ''.git'' tail of Some n \<Rightarrow> n | None \<Rightarrow> tail)"

definition name_from_url :: "string \<Rightarrow> string + string" where
  "name_from_url url =
     (let name = url_tail url
      in if name = [] \<or> contains_str ''..'' name \<or> CHR ''/'' \<in> set name \<or> CHR 0x5C \<in> set name
         then Inl ''RES-NO-INDEX'' else Inr name)"
subsection \<open>Facts\<close>

lemma parse_dep_decl_error: "parse_dep_decl utf8 kdl bytes = Inl e \<Longrightarrow> e = ''TNG-DEPDECL-PARSE-ERROR''"
  by (auto simp: parse_dep_decl_def parse_dep_decl_doc_def split: if_splits option.splits list.splits prod.splits)

lemma parse_dep_decl_source: "parse_dep_decl utf8 kdl bytes = Inr (es, v) \<Longrightarrow> es_source es = DepDecl"
  by (auto simp: parse_dep_decl_def parse_dep_decl_doc_def edge_set_from_dep_decl_def
      split: if_splits option.splits list.splits prod.splits)

lemma dep_decl_edges_Inr:
  "dep_decl_edges utf8 kdl get ctx hash = Inr es \<longleftrightarrow>
     (\<exists>bytes v. get hash = Inr bytes \<and> parse_dep_decl utf8 kdl bytes = Inr (es, v) \<and>
        v \<le> MAX_DEP_DECL_SCHEMA_VERSION \<and> (\<forall>iv. ec_schema_version ctx = Some iv \<longrightarrow> v = iv))"
  by (auto simp: dep_decl_edges_def rbind_def split: sum.splits option.splits if_splits)

lemma dep_decl_edges_unreachable:
  "dep_decl_edges utf8 kdl get ctx hash = Inl ''TNG-DEPDECL-FETCH-FAILED'' \<Longrightarrow>
   get hash = Inl ''TNG-DEPDECL-FETCH-FAILED''"
  using parse_dep_decl_error [of utf8 kdl]
  by (auto simp: dep_decl_edges_def rbind_def split: sum.splits option.splits if_splits)

lemma cache_get_append:
  "cache_get (cache @ [((sid, v), es)]) sid' w =
     (case cache_get cache sid' w of Some x \<Rightarrow> Some x | None \<Rightarrow> if sid' = sid \<and> veq v w then Some es else None)"
  by (induction cache) (auto simp: cache_get_def)

lemma resolve_edges_sealed:
  "resolve_edges utf8 kdl store strict ctx sid v cache = Inr (es, cache') \<Longrightarrow>
   cache_get cache' sid v = Some es \<and> (\<forall>s w x. cache_get cache s w = Some x \<longrightarrow> cache_get cache' s w = Some x)"
  by (auto simp: resolve_edges_def rbind_def cache_get_append split: option.splits sum.splits)

subsection \<open>Properties\<close>

text \<open>
  C34. The edges of a package with an attested artifact.  When the index points to an artifact, the store is the
  verifying HTTP store and the package is not overridden, the edges are those of bytes whose digest is the one
  the index names, in a schema version that is known and equals the one of the index; an integrity failure never
  falls back to the package's own files.  Only an unreachable artifact does, and only under the lenient policy.
  The result is sealed: every later request for the same source and version returns it, from whatever parent.
\<close>

theorem attested_edges:
  assumes "resolve_edges utf8 kdl (Some (\<lambda>h. fst (http_dep_decl_get out sha st h d))) strict ctx sid v cache =
      Inr (es, cache')"
    and "cache_get cache sid v = None" "\<not> ec_is_overridden ctx" "ec_dep_decl ctx = Some hash"
  shows "((\<exists>bytes w. dep_decl_hash sha bytes = hash \<and> parse_dep_decl utf8 kdl bytes = Inr (es, w) \<and>
       es_source es = DepDecl \<and> w \<le> MAX_DEP_DECL_SCHEMA_VERSION \<and>
       (\<forall>iv. ec_schema_version ctx = Some iv \<longrightarrow> w = iv)) \<or>
     (\<not> strict \<and> fst (http_dep_decl_get out sha st hash d) = Inl ''TNG-DEPDECL-FETCH-FAILED'' \<and>
       local_edges kdl ctx = Inr es)) \<and>
    (\<forall>store' strict' ctx'. resolve_edges utf8 kdl store' strict' ctx' sid v cache' = Inr (es, cache'))"
proof -
  let ?get = "\<lambda>h. fst (http_dep_decl_get out sha st h d)"
  have sealed: "cache_get cache' sid v = Some es" using resolve_edges_sealed [OF assms(1)] by simp
  have "policy_dep_decl_edges utf8 kdl ?get strict ctx hash = Inr es"
    using assms by (auto simp: resolve_edges_def fresh_edges_def rbind_def split: sum.splits)
  then consider "dep_decl_edges utf8 kdl ?get ctx hash = Inr es"
    | "\<not> strict" "dep_decl_edges utf8 kdl ?get ctx hash = Inl ''TNG-DEPDECL-FETCH-FAILED''" "local_edges kdl ctx = Inr es"
    by (auto simp: policy_dep_decl_edges_def split: sum.splits if_splits)
  then show ?thesis
  proof cases
    case 1
    then obtain bytes w where b: "?get hash = Inr bytes" "parse_dep_decl utf8 kdl bytes = Inr (es, w)"
      "w \<le> MAX_DEP_DECL_SCHEMA_VERSION" "\<forall>iv. ec_schema_version ctx = Some iv \<longrightarrow> w = iv"
      by (auto simp: dep_decl_edges_Inr)
    have "dep_decl_hash sha bytes = hash"
      using dep_decl_http.get_digest [of out sha st hash d bytes] b(1) by (metis prod.collapse)
    with b parse_dep_decl_source [OF b(2)] sealed show ?thesis by (auto simp: resolve_edges_def)
  next
    case 2
    with dep_decl_edges_unreachable [OF 2(2)] sealed show ?thesis by (auto simp: resolve_edges_def)
  qed
qed
definition demo_ctx :: edge_ctx where
  "demo_ctx = \<lparr>ec_dir = None, ec_dep_name = ''a'', ec_dep_decl = Some ''sha256:aa'', ec_is_overridden = False,
     ec_has_milpa_kdl = False, ec_schema_version = Some 0, ec_active_flags = [], ec_ref = None, ec_version = None\<rparr>"

theorem attested_edges_witness:
  "\<exists>bytes w. dep_decl_hash (\<lambda>_. ''aa'') bytes = ''sha256:aa'' \<and>
     parse_dep_decl (\<lambda>_. True) (\<lambda>_. Some [KNode ''dep_decl'' [] []]) bytes = Inr (edge_set_from_dep_decl [] [], w)"
proof -
  let ?out = "\<lparr>read_file = \<lambda>_. None, fetch = \<lambda>_ _. Some (200, ''dep_decl''), writable = False\<rparr>"
  let ?st = "http_dep_decl_store ''https://h/'' None"
  let ?kdl = "\<lambda>_ :: string. Some [KNode ''dep_decl'' [] []]"
  let ?sid = "Fetchable (Local ''p'')"
  have get: "http_dep_decl_get ?out (\<lambda>_. ''aa'') ?st ''sha256:aa'' Map.empty = (Inr ''dep_decl'', Map.empty)"
    by (simp add: http_dep_decl_get_def store_defs http_get_bytes_def artifact_url_def cache_path_def
        http_dep_decl_store_def verify_dep_decl_def ensure_def dep_decl_hash_def starts_with_def)
  have depth: "kdl_brace_depth ''dep_decl'' = 0" "kdl_block_comment_depth ''dep_decl'' = 0"
    by code_simp+
  have parse: "parse_dep_decl (\<lambda>_. True) ?kdl ''dep_decl'' = Inr (edge_set_from_dep_decl [] [], 0)"
    by (simp add: parse_dep_decl_def parse_dep_decl_doc_def depth)
  have "resolve_edges (\<lambda>_. True) ?kdl (Some (\<lambda>h. fst (http_dep_decl_get ?out (\<lambda>_. ''aa'') ?st h Map.empty))) True
      demo_ctx ?sid (release 1 0 0) [] =
    Inr (edge_set_from_dep_decl [] [], [((?sid, release 1 0 0), edge_set_from_dep_decl [] [])])"
    by (simp add: resolve_edges_def cache_get_def fresh_edges_def demo_ctx_def policy_dep_decl_edges_def
        dep_decl_edges_def get parse MAX_DEP_DECL_SCHEMA_VERSION_def)
  from attested_edges [OF this, of "''sha256:aa''"] show ?thesis
    by (auto simp: cache_get_def demo_ctx_def)
qed

text \<open>
  C0. The edges of a fetched package ignore the \<^verbatim>\<open>enables\<close> rules of its flags.  In a package whose flag
  \<^verbatim>\<open>full\<close> is on by default and enables \<^verbatim>\<open>tls\<close>, the activation map that is recorded for the package has
  both flags, but the dependency that is gated by \<^verbatim>\<open>tls\<close> is not among its edges: it is dropped silently.  (The
  fixpoint of the resolver does not add it later: it compares against the activation map, under which the
  dependency counts as admitted.)
\<close>

definition enabling_flags :: "flag_decl list" where
  "enabling_flags =
     [\<lparr>fd_name = ''full'', fd_default = True, fd_description = [], fd_defines = [], fd_enables_same_pkg = [''tls''],
       fd_enables_cross_pkg = [], fd_conflicts = []\<rparr>,
      \<lparr>fd_name = ''tls'', fd_default = False, fd_description = [], fd_defines = [], fd_enables_same_pkg = [],
       fd_enables_cross_pkg = [], fd_conflicts = []\<rparr>]"

definition enabling_manifest :: manifest where
  "enabling_manifest = manifest_init\<lparr>m_name := Some ''app'', m_flags := enabling_flags,
     m_deps := [DNamed \<lparr>nd_name = ''ssl'', nd_constraint = None, nd_parsed_constraint = None, nd_flag_requests = [],
       nd_optional = False, nd_predicates = [\<lparr>pr_name = ''flag'', pr_values = [''tls''], pr_negated = False\<rparr>],
       nd_namespace = None\<rparr>]\<rparr>"

theorem edges_ignore_enables:
  "bt_keys (compute_dep_active_flags (m_flags enabling_manifest) []) = [''full'', ''tls''] \<and>
   es_requires (build_edgeset_with_flags enabling_manifest []) = [] \<and>
   list_all (\<lambda>d. dep_passes_flag_predicates d
     (set (bt_keys (compute_dep_active_flags (m_flags enabling_manifest) [])))) (m_deps enabling_manifest)"
proof -
  have "bt_keys (compute_dep_active_flags enabling_flags []) = [''full'', ''tls'']" by code_simp
  then show ?thesis
    by (simp add: enabling_manifest_def build_edgeset_with_flags_def default_flags_def enabling_flags_def
        dep_passes_flag_predicates_def flag_pred_satisfied_def)
qed

end
