(* ===== verification/Provider.thy ===== *)
theory Provider
  imports EdgeSources LockGraph EntryTrust DagIdentity
begin

text \<open>
  The state of a resolution, the \<^verbatim>\<open>ResolveProvider\<close> of \<^verbatim>\<open>milpa-core/src/resolver.rs\<close>: work items, fetched
  candidates, overrides, the admission of every item through the binding resolver (\<^verbatim>\<open>gate_only\<close>), the
  queries of the solver, the pins of the prior lockfile and the translation of edges into solver terms.
  Fields that never change during a run are in \<open>env\<close>, the others in \<open>provider\<close>.  A map from versions is
  keyed by the precedence of the version, as \<^verbatim>\<open>BTreeMap<Version, _>\<close> is; the set of recorded discoveries is
  the set of the recorded list.  A call panics, raises an error slug, or returns.  The main facts: what is
  admitted is bound, under its own name and to its own source; bindings only grow; a name never has two
  sources.
\<close>

subsection \<open>Runs\<close>

fun run_bind :: "'a run \<Rightarrow> ('a \<Rightarrow> 'b run) \<Rightarrow> 'b run" where
  "run_bind (Returns x) f = f x"
| "run_bind (Raises e) f = Raises e"
| "run_bind Panics f = Panics"

fun run_of :: "string + 'a \<Rightarrow> 'a run" where
  "run_of (Inl e) = Raises e"
| "run_of (Inr x) = Returns x"

fun run_fold :: "('s \<Rightarrow> 'a \<Rightarrow> 's run) \<Rightarrow> 's \<Rightarrow> 'a list \<Rightarrow> 's run" where
  "run_fold f s [] = Returns s"
| "run_fold f s (x # xs) = run_bind (f s x) (\<lambda>s'. run_fold f s' xs)"

lemma run_bind_Returns: "run_bind r f = Returns y \<longleftrightarrow> (\<exists>x. r = Returns x \<and> f x = Returns y)"
  by (cases r) auto

lemma run_of_Returns [simp]: "run_of r = Returns x \<longleftrightarrow> r = Inr x"
  by (cases r) auto

lemma run_fold_invariant:
  assumes "run_fold f s xs = Returns s'" "P s"
    and "\<And>s x s'. x \<in> set xs \<Longrightarrow> P s \<Longrightarrow> f s x = Returns s' \<Longrightarrow> P s'"
  shows "P s'"
  using assms by (induction xs arbitrary: s) (auto simp: run_bind_Returns)

lemma run_fold_append: "run_fold f s (xs @ ys) = run_bind (run_fold f s xs) (\<lambda>s'. run_fold f s' ys)"
proof (induction xs arbitrary: s)
  case (Cons x xs)
  then show ?case by (cases "f s x") auto
qed simp

subsection \<open>Constants and items\<close>

definition url_dep_version :: version where "url_dep_version = release 0 0 1"
definition root_version :: version where "root_version = release 0 0 0"
definition ROOT :: string where "ROOT = ''__root__''"

record oci_dep =
  od_name :: string
  od_registry :: string
  od_repository :: string
  od_digest :: string
  od_subpath :: "string option"
  od_version :: "version option"

datatype item =
    IUrl url_dep
  | INamed string version_set "string option"
  | ILocal local_dep
  | ITarball tarball_dep
  | IOci oci_dep

definition url_dep_with_subpath ::
  "string \<Rightarrow> string \<Rightarrow> string \<Rightarrow> version option \<Rightarrow> string option \<Rightarrow> url_dep" where
  "url_dep_with_subpath n git r v sp =
     \<lparr>ud_name = n, ud_git = git, ud_git_ref = r, ud_mirrors = [], ud_predicates = [], ud_flag_requests = [],
      ud_optional = False, ud_version = v, ud_subpath = sp\<rparr>"

definition url_dep_of :: "string \<Rightarrow> string \<Rightarrow> string \<Rightarrow> version option \<Rightarrow> url_dep" where
  "url_dep_of n git r v = url_dep_with_subpath n git r v None"

text \<open>The constraint of a redirection to a registry coordinate.\<close>

definition version_pin :: "version option \<Rightarrow> version_set" where
  "version_pin v = (case v of Some w \<Rightarrow> vs_eq w | None \<Rightarrow> vs_full)"

text \<open>A member target is intercepted by the callers; the function would panic on it.\<close>

definition override_effective_item :: "string \<Rightarrow> override \<Rightarrow> item option" where
  "override_effective_item n ov =
     (case ovr_target ov of
        TGit url r sp \<Rightarrow> Some (IUrl (url_dep_with_subpath n url r (ovr_version ov) sp))
      | TLocal p \<Rightarrow> Some (ILocal \<lparr>lcd_name = n, lcd_path = p, lcd_predicates = [], lcd_version = ovr_version ov\<rparr>)
      | TOci reg repo d sp \<Rightarrow>
          Some (IOci \<lparr>od_name = n, od_registry = reg, od_repository = repo, od_digest = d, od_subpath = sp,
            od_version = ovr_version ov\<rparr>)
      | TTarball url sha strip sp \<Rightarrow>
          Some (ITarball \<lparr>td_name = n, td_url = url, td_sha256 = sha, td_strip_components = strip,
            td_predicates = [], td_version = ovr_version ov, td_subpath = sp\<rparr>)
      | TRegistry m ns \<Rightarrow> Some (INamed m (version_pin (ovr_version ov)) ns)
      | TMember m \<Rightarrow> None)"

record extracted =
  ex_deps :: "dep list"
  ex_requires_names :: "string list"
  ex_src_dir :: string
  ex_sub_items :: "item list"
  ex_edge_set :: edge_set
  ex_requires_predicates :: "(string \<times> predicate list list) list"
  ex_declared :: "(version \<times> version_source) option"

record candidate =
  ca_name :: string
  ca_version :: version
  ca_identity :: string
  ca_src_dir :: string
  ca_requires_names :: "string list"
  ca_deps :: "dep list"
  ca_provenance :: "provenance_record option"
  ca_declared_mirror_urls :: "string list"
  ca_dep_decl :: "string option"
  ca_requires_predicates :: "(string \<times> predicate list list) list"
  ca_attestation :: "entry_attestation option"
  ca_is_registry :: bool
  ca_registry_namespace :: string
  ca_version_unknown :: bool
  ca_declared_version_source :: "version_source option"

subsection \<open>Maps from versions\<close>

type_synonym 'a version_map = "(vkey \<times> version \<times> 'a) list"

definition vm_get :: "'a version_map \<Rightarrow> version \<Rightarrow> 'a option" where
  "vm_get m v = map_option snd (bt_get m (precedence_key v))"

text \<open>An insertion at a key that compares equal keeps the old key and replaces the value.\<close>

definition vm_insert :: "version \<Rightarrow> 'a \<Rightarrow> 'a version_map \<Rightarrow> 'a version_map" where
  "vm_insert v x m =
     bt_insert (precedence_key v)
       ((case bt_get m (precedence_key v) of Some (w, y) \<Rightarrow> w | None \<Rightarrow> v), x) m"

definition vm_remove :: "version \<Rightarrow> 'a version_map \<Rightarrow> 'a version_map" where
  "vm_remove v m = bt_remove (precedence_key v) m"

definition vm_versions :: "'a version_map \<Rightarrow> version list" where
  "vm_versions m = map (fst \<circ> snd) m"

definition vm_first :: "'a version_map \<Rightarrow> 'a option" where
  "vm_first m = (case m of [] \<Rightarrow> None | (k, v, x) # _ \<Rightarrow> Some x)"

lemma vm_get_insert [simp]: "vm_get (vm_insert v x m) w = (if veq w v then Some x else vm_get m w)"
  by (simp add: vm_get_def vm_insert_def veq_def)

type_synonym candidate_map = "(string \<times> candidate version_map) list"

definition cand_get :: "candidate_map \<Rightarrow> string \<Rightarrow> version \<Rightarrow> candidate option" where
  "cand_get cs n v = Option.bind (bt_get cs n) (\<lambda>m. vm_get m v)"

subsection \<open>The state\<close>

text \<open>
  What a transport reports about a fetch.  The fetcher of \<open>env\<close> is a parameter; its first argument counts the fetches
  of the run, so that a server may answer the same request differently.  \<open>en_view\<close> is what the file system calls
  of the resolver return on a fetched tree.
\<close>

record receipt =
  re_resolved_ref :: "string option"
  re_archive_sha256 :: "string option"
  re_committer_date :: "timestamp option"
  re_submodule_shas :: "(string \<times> string) list"

record env =
  en_lower :: "string \<Rightarrow> string"
  en_utf8 :: "string \<Rightarrow> bool"
  en_kdl :: "string \<Rightarrow> kdl_node list option"
  en_index :: index
  en_overrides :: "(string \<times> override) list"
  en_prior :: "lockfile option"
  en_dep_decl_store :: "dep_decl_store option"
  en_strict_attestation :: bool
  en_strategy :: strategy
  en_strategy_explicit :: bool
  en_exclude_newer :: "timestamp option"
  en_project_dir :: dir_view
  en_sha :: "string \<Rightarrow> string"
  en_view :: "fs_node \<Rightarrow> dir_view"
  en_fetch :: "nat \<Rightarrow> string \<Rightarrow> provenance \<Rightarrow> string + fs_node \<times> receipt"

record provider =
  pv_root_authority :: "string set"
  pv_root_direct_keys :: "dep_key set"
  pv_member_names :: "string set"
  pv_root_self_name :: "string option"
  pv_root_self_version :: "version option"
  pv_binding :: binding_resolver
  pv_candidates :: candidate_map
  pv_stubs :: "(string \<times> index_version version_map) list"
  pv_edge_cache :: edge_cache
  pv_seen_url :: "(string \<times> string \<times> string option) set"
  pv_seen_named :: "dep_key set"
  pv_seen_local :: "string set"
  pv_seen_tarball :: "string set"
  pv_seen_oci :: "string set"
  pv_flag_requests :: "(string \<times> flag_request list) list"
  pv_discovery_order :: "string list"
  pv_error :: "string option"
  pv_dep_active_flags :: "(string \<times> active_map) list"
  pv_member_manifests :: "(string \<times> manifest) list"
  pv_trees :: "string \<rightharpoonup> fs_node"
  pv_fetches :: nat

definition provider_new :: "binding_resolver \<Rightarrow> provider" where
  "provider_new br =
     \<lparr>pv_root_authority = {}, pv_root_direct_keys = {}, pv_member_names = {}, pv_root_self_name = None,
      pv_root_self_version = None, pv_binding = br, pv_candidates = [], pv_stubs = [], pv_edge_cache = [],
      pv_seen_url = {}, pv_seen_named = {}, pv_seen_local = {}, pv_seen_tarball = {}, pv_seen_oci = {},
      pv_flag_requests = [], pv_discovery_order = [], pv_error = None, pv_dep_active_flags = [],
      pv_member_manifests = [], pv_trees = Map.empty, pv_fetches = 0\<rparr>"

definition record_discovery :: "string \<Rightarrow> provider \<Rightarrow> provider" where
  "record_discovery key p =
     (if key \<in> set (pv_discovery_order p) then p
      else p\<lparr>pv_discovery_order := pv_discovery_order p @ [key]\<rparr>)"

definition store_candidate :: "candidate \<Rightarrow> provider \<Rightarrow> provider" where
  "store_candidate c p =
     p\<lparr>pv_candidates := bt_insert (ca_name c)
          (vm_insert (ca_version c) c (bt_get_or [] (pv_candidates p) (ca_name c))) (pv_candidates p)\<rparr>"

definition capture :: "string \<Rightarrow> provider \<Rightarrow> provider" where
  "capture e p = (if pv_error p = None then p\<lparr>pv_error := Some e\<rparr> else p)"

definition take_error :: "provider \<Rightarrow> string option \<times> provider" where
  "take_error p = (pv_error p, p\<lparr>pv_error := None\<rparr>)"

subsection \<open>Overrides\<close>

definition apply_override :: "env \<Rightarrow> item \<Rightarrow> item" where
  "apply_override en it =
     (case (case it of IUrl d \<Rightarrow> bt_get (en_overrides en) (ud_name d)
            | INamed n vs ns \<Rightarrow> bt_get (en_overrides en) n | _ \<Rightarrow> None) of
        None \<Rightarrow> it
      | Some ov \<Rightarrow>
          (case override_effective_item (case it of IUrl d \<Rightarrow> ud_name d | INamed n vs ns \<Rightarrow> n | _ \<Rightarrow> []) ov of
             None \<Rightarrow> it
           | Some it' \<Rightarrow> it'))"

definition override_rules :: "env \<Rightarrow> string \<rightharpoonup> override_rule" where
  "override_rules en n = map_option rule_of (bt_get (en_overrides en) n)"

subsection \<open>The binding phase\<close>

definition build_single_binding_resolver ::
  "(string \<Rightarrow> string) \<Rightarrow> manifest \<Rightarrow> index \<Rightarrow> binding_resolver run" where
  "build_single_binding_resolver lower m ix =
     run_bind (run_of (reconcile_root_claims lower (map decl_of (m_deps m @ m_dev_deps m))
        (map rule_of (filter (\<lambda>ov. case ovr_target ov of TMember _ \<Rightarrow> False | _ \<Rightarrow> True) (m_overrides m))) ix))
       (\<lambda>claims. binding_new (claims @
          (case m_name m of None \<Rightarrow> []
           | Some n \<Rightarrow> [\<lparr>cl_name = n, cl_source = Member n, cl_is_root = True, cl_claimant = ''root-self''\<rparr>])))"

subsection \<open>Admission\<close>

definition item_claim :: "env \<Rightarrow> item \<Rightarrow> string + claim" where
  "item_claim en it =
     (let (n, raw) = (case it of
          IUrl d \<Rightarrow> (ud_name d, Fetchable (Git (ud_git d) (Some (ud_git_ref d)) (ud_subpath d)))
        | INamed n vs ns \<Rightarrow> (solver_var \<lparr>dk_name = n, dk_namespace = ns\<rparr>, registry_origin n ns (en_index en))
        | ILocal d \<Rightarrow> (lcd_name d, Fetchable (Local (lcd_path d)))
        | ITarball d \<Rightarrow> (td_name d, Fetchable (Tarball (td_url d) (td_subpath d)))
        | IOci d \<Rightarrow> (od_name d, Fetchable (Oci (od_registry d) (od_repository d) (Some (od_digest d)) (od_subpath d))))
      in rbind (normalize_source (en_lower en) raw) (\<lambda>sid.
         Inr \<lparr>cl_name = n, cl_source = sid, cl_is_root = False, cl_claimant = ''transitive''\<rparr>))"

text \<open>A requirement on the root's own name must admit the root's version.\<close>

definition root_self_check :: "provider \<Rightarrow> item \<Rightarrow> string + unit" where
  "root_self_check p it =
     (case it of
        INamed n vs None \<Rightarrow>
          ensure (\<not> (pv_root_self_name p = Some n \<and>
             (case pv_root_self_version p of Some v \<Rightarrow> \<not> vs_contains vs v | None \<Rightarrow> False)))
            ''RES-ROOT-SELF-VERSION-CONSTRAINT''
      | _ \<Rightarrow> Inr ())"

definition shadow_check :: "env \<Rightarrow> provider \<Rightarrow> item \<Rightarrow> claim \<Rightarrow> string + unit" where
  "shadow_check en p it c =
     (case it of
        IUrl d \<Rightarrow>
          if is_root_authority (pv_binding p) (dep_key_bare (ud_name d)) then Inr ()
          else rbind (check_registry_shadow (en_lower en) c (en_index en) (en_strict_attestation en)) (\<lambda>_. Inr ())
      | _ \<Rightarrow> Inr ())"

definition gate_only :: "env \<Rightarrow> provider \<Rightarrow> item \<Rightarrow> (item option \<times> provider) run" where
  "gate_only en p it0 =
     (let it = apply_override en it0 in
      run_bind (run_of (root_self_check p it)) (\<lambda>_.
      run_bind (run_of (item_claim en it)) (\<lambda>c.
      run_bind (run_of (shadow_check en p it c)) (\<lambda>_.
      run_bind (submit c (pv_binding p)) (\<lambda>(decision, br).
      Returns (if bd_outcome decision = LostToRoot then None else Some it,
        record_discovery (canonical (bd_accepted decision)) (p\<lparr>pv_binding := br\<rparr>)))))))"

definition gate_step :: "env \<Rightarrow> item list \<times> provider \<Rightarrow> item \<Rightarrow> (item list \<times> provider) run" where
  "gate_step en st it =
     run_bind (gate_only en (snd st) it) (\<lambda>(survivor, p).
     Returns (fst st @ (case survivor of Some x \<Rightarrow> [x] | None \<Rightarrow> []), p))"

text \<open>The first loop of \<^verbatim>\<open>process_items\<close>: every item of a batch is admitted before any is fetched.\<close>

definition gate_items :: "env \<Rightarrow> provider \<Rightarrow> item list \<Rightarrow> (item list \<times> provider) run" where
  "gate_items en p items = run_fold (gate_step en) ([], p) items"

subsection \<open>The queries of the solver\<close>

definition prov_versions_of :: "provider \<Rightarrow> string \<Rightarrow> version list" where
  "prov_versions_of p package =
     vm_versions (fold (\<lambda>v m. if vm_get m v = None then vm_insert v () m else m)
       (vm_versions (bt_get_or [] (pv_candidates p) package) @ vm_versions (bt_get_or [] (pv_stubs p) package)) [])"

definition is_version_unknown :: "provider \<Rightarrow> string \<Rightarrow> bool" where
  "is_version_unknown p package =
     (case vm_first (bt_get_or [] (pv_candidates p) package) of Some c \<Rightarrow> ca_version_unknown c | None \<Rightarrow> False)"

definition is_root_direct :: "provider \<Rightarrow> string \<Rightarrow> bool" where
  "is_root_direct p package \<longleftrightarrow> depkey_for_solved_name package (pv_binding p) \<in> pv_root_direct_keys p"

definition bypasses_lock_preference :: "env \<Rightarrow> provider \<Rightarrow> lockfile \<Rightarrow> string \<Rightarrow> bool" where
  "bypasses_lock_preference en p prior package \<longleftrightarrow>
     en_strategy_explicit en \<and> strategy_as_str (en_strategy en) \<noteq> lf_strategy prior \<and>
     (en_strategy en = LowestDirect \<longrightarrow> is_root_direct p package)"

definition preference :: "env \<Rightarrow> provider \<Rightarrow> string \<Rightarrow> version option" where
  "preference en p package =
     (case en_prior en of
        None \<Rightarrow> None
      | Some prior \<Rightarrow>
          if bypasses_lock_preference en p prior package then None
          else let dk = depkey_for_solved_name package (pv_binding p)
            in case List.find (\<lambda>d. ld_name d = dk_name dk \<and> ld_namespace d = dk_namespace dk) (lf_deps prior) of
              None \<Rightarrow> None
            | Some l \<Rightarrow> if ld_identity l = None then None else parse_version (ld_version l))"

fun index_of :: "string list \<Rightarrow> string \<Rightarrow> nat option" where
  "index_of [] n = None"
| "index_of (x # xs) n = (if x = n then Some 0 else map_option Suc (index_of xs n))"

definition declaration_order :: "provider \<Rightarrow> string \<Rightarrow> u64" where
  "declaration_order p package =
     (case index_of (pv_discovery_order p) package of Some i \<Rightarrow> of_nat i | None \<Rightarrow> - 1)"

subsection \<open>Pins of the prior lockfile\<close>

definition prior_pinned :: "env \<Rightarrow> string \<Rightarrow> (string \<times> locked_dep) option" where
  "prior_pinned en n =
     do { prior \<leftarrow> en_prior en;
          locked \<leftarrow> List.find (\<lambda>d. ld_name d = n) (lf_deps prior);
          i \<leftarrow> ld_identity locked;
          (if i = [] then None else Some (i, locked)) }"

definition git_pin :: "env \<Rightarrow> url_dep \<Rightarrow> string option \<times> string option" where
  "git_pin en d =
     (case prior_pinned en (ud_name d) of
        None \<Rightarrow> (None, None)
      | Some (i, locked) \<Rightarrow>
          (case List.find (\<lambda>r. case r of RGit url rf sha org subs \<Rightarrow> url = ud_git d \<and> rf = Some (ud_git_ref d)
               | _ \<Rightarrow> False) (ld_provenances locked) of
             Some (RGit url rf sha org subs) \<Rightarrow> (Some i, sha)
           | _ \<Rightarrow> (None, None)))"

definition tarball_pin :: "env \<Rightarrow> tarball_dep \<Rightarrow> string option \<times> string option" where
  "tarball_pin en d =
     (case prior_pinned en (td_name d) of
        None \<Rightarrow> (None, None)
      | Some (i, locked) \<Rightarrow>
          (case List.find (\<lambda>r. case r of RTarball url sha org \<Rightarrow> url = td_url d | _ \<Rightarrow> False) (ld_provenances locked) of
             Some (RTarball url sha org) \<Rightarrow> (Some i, sha)
           | _ \<Rightarrow> (None, None)))"

definition prior_declared_mirror_urls :: "env \<Rightarrow> string \<Rightarrow> string list" where
  "prior_declared_mirror_urls en n =
     (case Option.bind (en_prior en) (\<lambda>l. List.find (\<lambda>d. ld_name d = n) (lf_deps l)) of
        None \<Rightarrow> []
      | Some d \<Rightarrow> concat (map (\<lambda>r. case r of
            RGit url rf sha org subs \<Rightarrow> if org = ''declared'' then [url] else [] | _ \<Rightarrow> []) (ld_provenances d)))"
subsection \<open>Facts on admission\<close>

text \<open>What every step of a resolution keeps of the state in front of it.\<close>

definition prov_ok :: "provider \<Rightarrow> bool" where
  "prov_ok p \<longleftrightarrow> br_ok (pv_binding p) \<and> distinct (pv_discovery_order p)"

definition grows :: "provider \<Rightarrow> provider \<Rightarrow> bool" where
  "grows p q \<longleftrightarrow> (prov_ok p \<longrightarrow> prov_ok q) \<and>
     (\<forall>k s. br_bindings (pv_binding p) k = Some s \<longrightarrow> br_bindings (pv_binding q) k = Some s) \<and>
     br_root_keys (pv_binding q) = br_root_keys (pv_binding p) \<and>
     (\<exists>more. pv_discovery_order q = pv_discovery_order p @ more)"

lemma grows_refl [simp]: "grows p p"
  by (simp add: grows_def)

lemma grows_trans [trans]: "grows p q \<Longrightarrow> grows q r \<Longrightarrow> grows p r"
  by (fastforce simp: grows_def)

lemma record_discovery_simps [simp]:
  "pv_binding (record_discovery k p) = pv_binding p"
  "set (pv_discovery_order (record_discovery k p)) = insert k (set (pv_discovery_order p))"
  "distinct (pv_discovery_order p) \<Longrightarrow> distinct (pv_discovery_order (record_discovery k p))"
  "\<exists>more. pv_discovery_order (record_discovery k p) = pv_discovery_order p @ more"
  by (auto simp: record_discovery_def)

text \<open>An item is claimed: its name is bound to its own source, which has been recorded.\<close>

definition claimed :: "env \<Rightarrow> provider \<Rightarrow> item \<Rightarrow> bool" where
  "claimed en p it \<longleftrightarrow>
     (\<exists>c. item_claim en it = Inr c \<and> br_bindings (pv_binding p) (key_for c) = Some (cl_source c) \<and>
        canonical (cl_source c) \<in> set (pv_discovery_order p))"

definition beaten :: "env \<Rightarrow> provider \<Rightarrow> item \<Rightarrow> bool" where
  "beaten en p it \<longleftrightarrow>
     (\<exists>c s. item_claim en it = Inr c \<and> key_for c \<in> br_root_keys (pv_binding p) \<and>
        br_bindings (pv_binding p) (key_for c) = Some s \<and> s \<noteq> cl_source c)"

lemma claimed_grows: "claimed en p it \<Longrightarrow> grows p q \<Longrightarrow> claimed en q it"
  by (fastforce simp: claimed_def grows_def)

lemma beaten_grows: "beaten en p it \<Longrightarrow> grows p q \<Longrightarrow> beaten en q it"
  by (fastforce simp: beaten_def grows_def)

lemma item_claim_transitive: "item_claim en it = Inr c \<Longrightarrow> \<not> cl_is_root c"
  by (auto simp: item_claim_def rbind_def split: prod.splits sum.splits)

lemma gate_only_cases:
  assumes "gate_only en p it0 = Returns (s, q)"
  shows "grows p q \<and>
    (case s of Some x \<Rightarrow> x = apply_override en it0 \<and> claimed en q x
     | None \<Rightarrow> beaten en q (apply_override en it0))"
proof -
  let ?it = "apply_override en it0"
  from assms obtain c decision br where c: "item_claim en ?it = Inr c"
    "submit c (pv_binding p) = Returns (decision, br)"
    "s = (if bd_outcome decision = LostToRoot then None else Some ?it)"
    "q = record_discovery (canonical (bd_accepted decision)) (p\<lparr>pv_binding := br\<rparr>)"
    by (auto simp: gate_only_def Let_def run_bind_Returns)
  note b = submit_bindings [OF c(2)]
  have "grows p q"
    using b submit_ok [OF _ c(2)] record_discovery_simps(3) [of "p\<lparr>pv_binding := br\<rparr>"]
      record_discovery_simps(4) [where p = "p\<lparr>pv_binding := br\<rparr>"]
    by (auto simp: grows_def prov_ok_def c(4))
  moreover have "bd_outcome decision \<noteq> LostToRoot \<Longrightarrow> bd_accepted decision = cl_source c"
    "bd_outcome decision = LostToRoot \<Longrightarrow> key_for c \<in> br_root_keys (pv_binding p) \<and> bd_accepted decision \<noteq> cl_source c"
    using c(2) item_claim_transitive [OF c(1)] by (auto simp: submit_eq split: option.splits if_splits)
  moreover have "br_bindings br (key_for c) = Some (bd_accepted decision)" "br_root_keys br = br_root_keys (pv_binding p)"
    using submit_bindings [OF c(2)] by blast+
  ultimately show ?thesis
    unfolding claimed_def beaten_def using c(1,3,4) by (cases "bd_outcome decision = LostToRoot") simp_all
qed

text \<open>A batch: what survives, and what does not.\<close>

lemma gate_items_cases:
  assumes "gate_items en p items = Returns (survivors, q)"
  shows "grows p q \<and> (\<forall>x \<in> set survivors. claimed en q x \<and> x \<in> apply_override en ` set items) \<and>
    (\<forall>it \<in> set items. apply_override en it \<in> set survivors \<or> beaten en q (apply_override en it))"
proof -
  have "run_fold (gate_step en) (s, p) items = Returns (s', q) \<Longrightarrow>
    grows p q \<and> (\<exists>new. s' = s @ new \<and> (\<forall>x \<in> set new. claimed en q x \<and> x \<in> apply_override en ` set items) \<and>
      (\<forall>it \<in> set items. apply_override en it \<in> set new \<or> beaten en q (apply_override en it)))" for s s'
  proof (induction items arbitrary: s p)
    case (Cons it items)
    from Cons.prems obtain s1 p1 where "gate_step en (s, p) it = Returns (s1, p1)"
      and tl: "run_fold (gate_step en) (s1, p1) items = Returns (s', q)"
      by (auto simp: run_bind_Returns)
    then obtain r where r: "gate_only en p it = Returns (r, p1)"
      "run_fold (gate_step en) (s @ (case r of Some x \<Rightarrow> [x] | None \<Rightarrow> []), p1) items = Returns (s', q)"
      by (auto simp: gate_step_def run_bind_Returns split: option.splits)
    from Cons.IH [OF r(2)] obtain new where new: "grows p1 q"
      "s' = (s @ (case r of Some x \<Rightarrow> [x] | None \<Rightarrow> [])) @ new"
      "\<forall>x \<in> set new. claimed en q x \<and> x \<in> apply_override en ` set items"
      "\<forall>it \<in> set items. apply_override en it \<in> set new \<or> beaten en q (apply_override en it)" by auto
    note g = gate_only_cases [OF r(1)]
    have "grows p q" using g new(1) grows_trans by blast
    moreover have "r = None \<and> beaten en q (apply_override en it) \<or>
        r = Some (apply_override en it) \<and> claimed en q (apply_override en it)"
    proof (cases r)
      case None
      with g have "beaten en p1 (apply_override en it)" by simp
      with None beaten_grows [OF _ new(1)] show ?thesis by blast
    next
      case (Some x)
      with g have "x = apply_override en it" "claimed en p1 (apply_override en it)" by auto
      with Some claimed_grows [OF _ new(1)] show ?thesis by blast
    qed
    ultimately show ?case
    proof (elim disjE conjE)
      assume "grows p q" "r = None" "beaten en q (apply_override en it)"
      then show ?case using new(2-4) by (intro conjI exI [of _ new]) auto
    next
      assume "grows p q" "r = Some (apply_override en it)" "claimed en q (apply_override en it)"
      then show ?case
        using new(2-4) by (intro conjI exI [of _ "apply_override en it # new"]) auto
    qed
  qed simp
  from this [of "[]" survivors] assms show ?thesis by (auto simp: gate_items_def)
qed

subsection \<open>Properties\<close>

text \<open>
  C9. Admission.  When a batch of items is admitted, every item that survives is the item after the overrides,
  its name is bound to exactly its own source and that source is recorded; an item that does not survive
  lost to a different source that the root declared for its name; nothing else is dropped.  Two
  survivors of one name have one source, whatever the parents said; bindings made before stay, and the root's
  keys stay the root's.
\<close>

theorem admission_one_source:
  assumes "gate_items en p items = Returns (survivors, q)" "prov_ok p"
  shows "(\<forall>x \<in> set survivors. claimed en q x \<and> x \<in> apply_override en ` set items) \<and>
    (\<forall>it \<in> set items. apply_override en it \<in> set survivors \<or> beaten en q (apply_override en it)) \<and>
    (\<forall>x \<in> set survivors. \<forall>y \<in> set survivors. \<forall>c d. item_claim en x = Inr c \<and> item_claim en y = Inr d \<and>
       key_for c = key_for d \<longrightarrow> cl_source c = cl_source d) \<and>
    (\<forall>k s. br_bindings (pv_binding p) k = Some s \<longrightarrow> br_bindings (pv_binding q) k = Some s) \<and>
    br_root_keys (pv_binding q) = br_root_keys (pv_binding p) \<and> distinct (pv_discovery_order q)"
proof -
  note g = gate_items_cases [OF assms(1)]
  have one: "cl_source c = cl_source d"
    if "x \<in> set survivors" "y \<in> set survivors" "item_claim en x = Inr c" "item_claim en y = Inr d" "key_for c = key_for d"
    for x y c d
  proof -
    have "claimed en q x" "claimed en q y" using that g by blast+
    then show ?thesis using that(3-5) by (auto simp: claimed_def)
  qed
  have "grows p q" using g by blast
  then have "(\<forall>k s. br_bindings (pv_binding p) k = Some s \<longrightarrow> br_bindings (pv_binding q) k = Some s) \<and>
    br_root_keys (pv_binding q) = br_root_keys (pv_binding p) \<and> distinct (pv_discovery_order q)"
    using assms(2) unfolding grows_def prov_ok_def by blast
  with g one show ?thesis by blast
qed

theorem admission_one_source_witness:
  "\<exists>en p q. gate_items en p [ILocal \<lparr>lcd_name = ''a'', lcd_path = ''p'', lcd_predicates = [], lcd_version = None\<rparr>] =
      Returns ([ILocal \<lparr>lcd_name = ''a'', lcd_path = ''p'', lcd_predicates = [], lcd_version = None\<rparr>], q) \<and>
     br_bindings (pv_binding q) (dep_key_bare ''a'') = Some (Fetchable (Local ''p'')) \<and> pv_discovery_order q = [''file+p'']"
proof -
  let ?d = "\<lparr>lcd_name = ''a'', lcd_path = ''p'', lcd_predicates = [], lcd_version = None\<rparr>"
  let ?en = "(undefined :: env)\<lparr>en_overrides := []\<rparr>"
  let ?br = "\<lparr>br_bindings = Map.empty, br_root_keys = {}, br_solverkey_index = Map.empty\<rparr>"
  have ok: "prov_ok (provider_new ?br)"
    by (simp add: prov_ok_def provider_new_def br_ok_def)
  have it: "apply_override ?en (ILocal ?d) = ILocal ?d" by (simp add: apply_override_def)
  have cl: "item_claim ?en (ILocal ?d) = Inr \<lparr>cl_name = ''a'', cl_source = Fetchable (Local ''p''), cl_is_root = False,
      cl_claimant = ''transitive''\<rparr>"
    by (simp add: item_claim_def) code_simp
  obtain q where q: "gate_items ?en (provider_new ?br) [ILocal ?d] = Returns ([ILocal ?d], q)"
    and o: "pv_discovery_order q = [''file+p'']"
    by (simp add: gate_items_def gate_step_def gate_only_def it cl root_self_check_def shadow_check_def submit_def
        provider_new_def key_for_def record_discovery_def run_bind_Returns)
  from admission_one_source [OF q ok] have "claimed ?en q (ILocal ?d)" by simp
  moreover have "from_solver_var ''a'' = dep_key_bare ''a''" by code_simp
  ultimately have "br_bindings (pv_binding q) (dep_key_bare ''a'') = Some (Fetchable (Local ''p''))"
    by (simp add: claimed_def cl key_for_def)
  with q o show ?thesis by blast
qed

end
