(* ===== verification/ResolveFetch.thy ===== *)
theory ResolveFetch
  imports Provider Epoch
begin

text \<open>
  The discovery of packages in \<^verbatim>\<open>milpa-core/src/resolver.rs\<close>: fetching with the identity gate, reading the edges
  of a fetched tree, the worker of every transport, the enumeration of the index, the late fetch of a package
  that the solver selects, and the fixpoint of flags across packages.  The steps are actions on the
  state of \<open>Provider\<close> that keep the state when they fail, because an error inside the solver's callbacks is
  captured and the run goes on.  The workers call \<^verbatim>\<open>process_items\<close> again on what they discover; nothing
  bounds how far a hostile server can extend that, so the recursion has fuel and \<open>Looping\<close> says that it is spent.
\<close>

subsection \<open>Actions\<close>

datatype 'a res = Done 'a provider | Fail string provider | Stop | Looping

type_synonym 'a act = "provider \<Rightarrow> 'a res"

definition act_ret :: "'a \<Rightarrow> 'a act" where
  "act_ret x p = Done x p"

definition act_bind :: "'a act \<Rightarrow> ('a \<Rightarrow> 'b act) \<Rightarrow> 'b act" where
  "act_bind m f p =
     (case m p of Done x q \<Rightarrow> f x q | Fail e q \<Rightarrow> Fail e q | Stop \<Rightarrow> Stop | Looping \<Rightarrow> Looping)"

definition act_try :: "(provider \<Rightarrow> string + 'a) \<Rightarrow> 'a act" where
  "act_try f p = (case f p of Inl e \<Rightarrow> Fail e p | Inr x \<Rightarrow> Done x p)"

definition act_get :: "(provider \<Rightarrow> 'a) \<Rightarrow> 'a act" where
  "act_get f p = Done (f p) p"

definition act_upd :: "(provider \<Rightarrow> provider) \<Rightarrow> unit act" where
  "act_upd f p = Done () (f p)"

fun act_each :: "('b \<Rightarrow> unit act) \<Rightarrow> 'b list \<Rightarrow> unit act" where
  "act_each f [] = act_ret ()"
| "act_each f (x # xs) = act_bind (f x) (\<lambda>_. act_each f xs)"

fun act_fold :: "('s \<Rightarrow> 'b \<Rightarrow> 's act) \<Rightarrow> 's \<Rightarrow> 'b list \<Rightarrow> 's act" where
  "act_fold f s [] = act_ret s"
| "act_fold f s (x # xs) = act_bind (f s x) (\<lambda>s'. act_fold f s' xs)"

definition act_run :: "(provider \<Rightarrow> ('a \<times> provider) run) \<Rightarrow> 'a act" where
  "act_run f p = (case f p of Returns (x, q) \<Rightarrow> Done x q | Raises e \<Rightarrow> Fail e p | Panics \<Rightarrow> Stop)"

named_theorems act_simps

lemmas [act_simps] = act_ret_def act_bind_def act_try_def act_get_def act_upd_def act_run_def

subsection \<open>Trees in \<^verbatim>\<open>_deps\<close>\<close>

definition dest_view :: "env \<Rightarrow> provider \<Rightarrow> string \<Rightarrow> dir_view option" where
  "dest_view en p dest = map_option (en_view en) (pv_trees p dest)"

text \<open>The manifest of a fetched tree, where the file is there, readable and well formed.\<close>

definition dep_manifest :: "env \<Rightarrow> provider \<Rightarrow> string \<Rightarrow> manifest option" where
  "dep_manifest en p dest =
     do { d \<leftarrow> dest_view en p dest;
          txt \<leftarrow> (if dv_is_file d ''milpa.kdl'' then dv_read d ''milpa.kdl'' else None);
          (case parse_manifest (en_kdl en) txt of Inl e \<Rightarrow> None | Inr m \<Rightarrow> Some m) }"

definition clear_dir :: "string \<Rightarrow> provider \<Rightarrow> provider" where
  "clear_dir dest p = p\<lparr>pv_trees := (pv_trees p)(dest := None)\<rparr>"

text \<open>One attempt.  A failed transport may leave anything below \<open>dest\<close>; the caller clears it before it is read.\<close>

definition fetch_once :: "env \<Rightarrow> string \<Rightarrow> provenance \<Rightarrow> string \<Rightarrow> (fs_node \<times> receipt) act" where
  "fetch_once en n prov dest p =
     (let q = (clear_dir dest p)\<lparr>pv_fetches := Suc (pv_fetches p)\<rparr>
      in case en_fetch en (pv_fetches p) n prov of
        Inl e \<Rightarrow> Fail e q
      | Inr (t, r) \<Rightarrow> Done (t, r) (q\<lparr>pv_trees := (pv_trees q)(dest \<mapsto> t)\<rparr>))"

fun fetch_from ::
  "env \<Rightarrow> string \<Rightarrow> string \<Rightarrow> string option \<Rightarrow> nat \<Rightarrow> provenance list \<Rightarrow> (string \<times> receipt \<times> nat) act" where
  "fetch_from en n dest expected idx [] p = Fail ''FETCH-ALL-FAILED'' (clear_dir dest p)"
| "fetch_from en n dest expected idx (prov # provs) p =
     (case fetch_once en n prov dest p of
        Fail e q \<Rightarrow> fetch_from en n dest expected (Suc idx) provs q
      | Done (t, r) q \<Rightarrow>
          (case compute_content_hash (en_utf8 en) (en_sha en) t of
             Inl e \<Rightarrow> Fail e q
           | Inr identity \<Rightarrow>
               if expected \<noteq> None \<and> expected \<noteq> Some identity then Fail ''FETCH-PROVENANCE-DIVERGENCE'' q
               else Done (identity, r, idx) q)
      | Stop \<Rightarrow> Stop
      | Looping \<Rightarrow> Looping)"

definition fetch_any_tracked ::
  "env \<Rightarrow> string \<Rightarrow> provenance list \<Rightarrow> string \<Rightarrow> string option \<Rightarrow> (string \<times> receipt \<times> nat) act" where
  "fetch_any_tracked en n provs dest expected = fetch_from en n dest expected 0 provs"

definition fetch_any ::
  "env \<Rightarrow> string \<Rightarrow> provenance list \<Rightarrow> string \<Rightarrow> string option \<Rightarrow> (string \<times> receipt) act" where
  "fetch_any en n provs dest expected =
     act_bind (fetch_any_tracked en n provs dest expected) (\<lambda>(i, r, idx). act_ret (i, r))"

subsection \<open>Edges as solver terms\<close>

text \<open>The term of a name with an override: everything, or the version of a registry redirection.\<close>

definition override_term :: "env \<Rightarrow> string \<Rightarrow> version_set option" where
  "override_term en n =
     map_option (\<lambda>ov. case ovr_target ov of TRegistry m ns \<Rightarrow> version_pin (ovr_version ov) | _ \<Rightarrow> vs_full)
       (bt_get (en_overrides en) n)"

definition requirement_key ::
  "env \<Rightarrow> provider \<Rightarrow> string \<Rightarrow> string option \<Rightarrow> string option \<Rightarrow> string option \<Rightarrow> string + string" where
  "requirement_key en p n ns url r =
     rbind (canonical_key_for_requirement (en_lower en) n ns url r (override_rules en) (en_index en)
        (pv_root_self_name p) (Some (pv_binding p))) (\<lambda>sk. Inr (sk_identity sk))"

definition push_predicates :: "string \<Rightarrow> predicate list \<Rightarrow> extracted \<Rightarrow> extracted" where
  "push_predicates k ps x =
     (if ps = [] then x
      else x\<lparr>ex_requires_predicates :=
        bt_insert k (bt_get_or [] (ex_requires_predicates x) k @ [ps]) (ex_requires_predicates x)\<rparr>)"

definition push_term :: "string \<Rightarrow> version_set \<Rightarrow> extracted \<Rightarrow> extracted" where
  "push_term k vs x =
     x\<lparr>ex_deps := ex_deps x @ [\<lparr>dep_package = k, dep_constraint = vs\<rparr>],
       ex_requires_names := ex_requires_names x @ [k]\<rparr>"

definition push_item :: "item \<Rightarrow> extracted \<Rightarrow> extracted" where
  "push_item it x = x\<lparr>ex_sub_items := ex_sub_items x @ [it]\<rparr>"

definition extract_url :: "env \<Rightarrow> provider \<Rightarrow> extracted \<Rightarrow> url_require \<Rightarrow> string + extracted" where
  "extract_url en p x u =
     rbind (case ur_name u of Some n \<Rightarrow> Inr n | None \<Rightarrow> name_from_url (ur_url u)) (\<lambda>n.
     rbind (requirement_key en p n None (Some (ur_url u)) (Some (ur_ref u))) (\<lambda>k.
     let vs = (case override_term en n of Some t \<Rightarrow> t | None \<Rightarrow> vs_full);
         x1 = (if k \<in> set (ex_requires_names x) then x else push_term k vs x);
         d = (url_dep_of n (ur_url u) (ur_ref u) None)\<lparr>ud_flag_requests := ur_flag_requests u\<rparr>
     in Inr (push_predicates k (ur_predicates u) (push_item (IUrl d) x1))))"

definition named_term :: "env \<Rightarrow> edge_source \<Rightarrow> named_require \<Rightarrow> string + version_set" where
  "named_term en src n =
     (case override_term en (nr_name n) of
        Some t \<Rightarrow> Inr t
      | None \<Rightarrow>
          (case from_constraint (if nr_constraint_str n = [] then None else Some (nr_constraint_str n)) of
             Inr vs \<Rightarrow> Inr vs
           | Inl e \<Rightarrow> if src = NimbleFallback then Inl ''MAN-NIMBLE-CONSTRAINT'' else Inr vs_full))"

definition extract_named :: "env \<Rightarrow> provider \<Rightarrow> edge_source \<Rightarrow> extracted \<Rightarrow> named_require \<Rightarrow> string + extracted" where
  "extract_named en p src x n =
     rbind (requirement_key en p (nr_name n) (nr_namespace n) None None) (\<lambda>k.
     rbind (if k \<in> set (ex_requires_names x) then Inr x
            else rbind (named_term en src n) (\<lambda>vs.
              Inr (push_item (INamed (nr_name n) vs (nr_namespace n)) (push_term k vs x)))) (\<lambda>x1.
     Inr (push_predicates k (nr_predicates n) x1)))"

definition edgeset_to_extracted :: "env \<Rightarrow> provider \<Rightarrow> edge_set \<Rightarrow> string + extracted" where
  "edgeset_to_extracted en p es =
     rfold (\<lambda>x e. case e of Url u \<Rightarrow> extract_url en p x u | Named n \<Rightarrow> extract_named en p (es_source es) x n)
       \<lparr>ex_deps = [], ex_requires_names = [], ex_src_dir = es_src_dir es, ex_sub_items = [], ex_edge_set = es,
        ex_requires_predicates = [], ex_declared = None\<rparr> (es_requires es)"

definition source_id_for_edge_cache :: "string \<Rightarrow> provider \<Rightarrow> string + source_id" where
  "source_id_for_edge_cache n p =
     (case source_id_for (pv_binding p) (depkey_for_solved_name n (pv_binding p)) of
        Some sid \<Rightarrow> Inr sid | None \<Rightarrow> Inl ''MILPA-INTERNAL'')"

text \<open>What the consumer says about the package: the attested artifact, its flags, the git ref and the annotation.\<close>

record consumer =
  cm_dep_decl :: "string option"
  cm_schema :: "int option"
  cm_flags :: "string list"
  cm_ref :: "string option"
  cm_version :: "version option"

definition edge_ctx_of :: "env \<Rightarrow> provider \<Rightarrow> string \<Rightarrow> string \<Rightarrow> consumer \<Rightarrow> edge_ctx" where
  "edge_ctx_of en p dest n cm =
     (let d = dest_view en p dest in
      \<lparr>ec_dir = d, ec_dep_name = n, ec_dep_decl = cm_dep_decl cm, ec_is_overridden = False,
       ec_has_milpa_kdl = (case d of None \<Rightarrow> False | Some v \<Rightarrow> dv_is_file v ''milpa.kdl''),
       ec_schema_version = cm_schema cm, ec_active_flags = cm_flags cm, ec_ref = cm_ref cm, ec_version = cm_version cm\<rparr>)"

definition extract_requires ::
  "env \<Rightarrow> string \<Rightarrow> string \<Rightarrow> version \<Rightarrow> consumer \<Rightarrow> source_id \<Rightarrow> extracted act" where
  "extract_requires en dest n v cm sid =
     act_bind (act_get (\<lambda>p. edge_ctx_of en p dest n cm)) (\<lambda>ctx.
     act_bind (act_try (\<lambda>p. resolve_edges (en_utf8 en) (en_kdl en) (en_dep_decl_store en)
        (en_strict_attestation en) ctx sid v (if cm_flags cm = [] then pv_edge_cache p else []))) (\<lambda>(es, cache).
     act_bind (act_upd (\<lambda>p. if cm_flags cm = [] then p\<lparr>pv_edge_cache := cache\<rparr> else p)) (\<lambda>_.
     act_bind (act_try (\<lambda>p. edgeset_to_extracted en p es)) (\<lambda>x.
     act_ret (x\<lparr>ex_declared := declared_version_for (en_kdl en) ctx\<rparr>)))))"

subsection \<open>Newly admitted edges\<close>

definition map_first :: "('a \<Rightarrow> 'a) \<Rightarrow> 'a version_map \<Rightarrow> 'a version_map" where
  "map_first f m = (case m of [] \<Rightarrow> [] | (k, v, x) # m' \<Rightarrow> (k, v, f x) # m')"

definition first_identity :: "provider \<Rightarrow> string \<Rightarrow> string" where
  "first_identity p k =
     (case vm_first (bt_get_or [] (pv_candidates p) k) of Some c \<Rightarrow> ca_identity c | None \<Rightarrow> [])"

definition flag_names :: "provider \<Rightarrow> string \<Rightarrow> string set" where
  "flag_names p identity = set (bt_keys (bt_get_or [] (pv_dep_active_flags p) identity))"

definition union_active :: "active_map \<Rightarrow> active_map \<Rightarrow> active_map" where
  "union_active old new = foldl (\<lambda>m (n, s). bt_insert n (bt_get_or {} m n \<union> s) m) old new"

definition merge_active :: "string \<Rightarrow> active_map \<Rightarrow> provider \<Rightarrow> provider" where
  "merge_active identity new p =
     p\<lparr>pv_dep_active_flags :=
        bt_insert identity (union_active (bt_get_or [] (pv_dep_active_flags p) identity) new) (pv_dep_active_flags p)\<rparr>"

definition mdep_term :: "env \<Rightarrow> mdep \<Rightarrow> version_set" where
  "mdep_term en d =
     (case d of
        DNamed n \<Rightarrow>
          if bt_get (en_overrides en) (nd_name n) \<noteq> None then vs_full
          else (case from_constraint (case nd_constraint n of Some [] \<Rightarrow> None | c \<Rightarrow> c) of
                  Inr vs \<Rightarrow> vs | Inl e \<Rightarrow> vs_full)
      | _ \<Rightarrow> vs_full)"

definition mdep_key :: "env \<Rightarrow> provider \<Rightarrow> mdep \<Rightarrow> string + string" where
  "mdep_key en p d =
     (case d of
        DNamed n \<Rightarrow> requirement_key en p (dep_nm d) (nd_namespace n) None None
      | DUrl u \<Rightarrow> requirement_key en p (dep_nm d) None (Some (ud_git u)) (Some (ud_git_ref u))
      | _ \<Rightarrow> requirement_key en p (dep_nm d) None None None)"

text \<open>The candidate registered first under \<open>parent\<close> gets the edge, unless it requires \<open>k\<close> already.\<close>

definition extend_parent :: "string \<Rightarrow> string \<Rightarrow> version_set \<Rightarrow> provider \<Rightarrow> provider" where
  "extend_parent parent k vs p =
     (case bt_get (pv_candidates p) parent of
        None \<Rightarrow> p
      | Some m \<Rightarrow>
          p\<lparr>pv_candidates := bt_insert parent
             (map_first (\<lambda>c. if k \<in> set (ca_requires_names c) then c
                else c\<lparr>ca_deps := ca_deps c @ [\<lparr>dep_package = k, dep_constraint = vs\<rparr>],
                       ca_requires_names := ca_requires_names c @ [k]\<rparr>) m) (pv_candidates p)\<rparr>)"

definition unseen_item :: "env \<Rightarrow> provider \<Rightarrow> mdep \<Rightarrow> item list" where
  "unseen_item en p d =
     (case d of
        DUrl u \<Rightarrow> if (ud_git u, ud_git_ref u, ud_subpath u) \<in> pv_seen_url p then [] else [IUrl u]
      | DNamed n \<Rightarrow>
          if \<lparr>dk_name = nd_name n, dk_namespace = nd_namespace n\<rparr> \<in> pv_seen_named p then []
          else [INamed (nd_name n) (mdep_term en d) (nd_namespace n)]
      | DLocal l \<Rightarrow> if lcd_path l \<in> pv_seen_local p then [] else [ILocal l]
      | DTarball t \<Rightarrow> if td_url t \<in> pv_seen_tarball p then [] else [ITarball t]
      | DMember m \<Rightarrow> [])"

text \<open>The dependencies that the flags \<open>new\<close> admit and \<open>old\<close> did not: edges of the parent, and items to process.\<close>

definition admit_edges :: "env \<Rightarrow> string \<Rightarrow> mdep list \<Rightarrow> string set \<Rightarrow> string set \<Rightarrow> item list act" where
  "admit_edges en parent ds old new =
     act_fold (\<lambda>items d.
         act_bind (act_try (\<lambda>p. mdep_key en p d)) (\<lambda>k.
         act_bind (act_upd (extend_parent parent k (mdep_term en d))) (\<lambda>_.
         act_bind (act_get (\<lambda>p. unseen_item en p d)) (\<lambda>its. act_ret (items @ its)))))
       [] (filter (\<lambda>d. dep_passes_flag_predicates d new \<and> \<not> dep_passes_flag_predicates d old) ds)"

subsection \<open>The workers\<close>

text \<open>\<open>again\<close> is \<^verbatim>\<open>process_items\<close>.\<close>

definition candidate_label :: "version option \<Rightarrow> version" where
  "candidate_label v = (case v of Some w \<Rightarrow> w | None \<Rightarrow> url_dep_version)"

definition git_prov :: "string \<Rightarrow> string \<Rightarrow> string option \<Rightarrow> provenance" where
  "git_prov url r sha = PGit url r sha"

definition opt_text :: "string \<Rightarrow> string option" where
  "opt_text s = (if s = [] then None else Some s)"

fun transport_to_record :: "provenance \<Rightarrow> provenance_record" where
  "transport_to_record (PGit url r sha) = RGit url (opt_text r) sha ''observed'' []"
| "transport_to_record (PTarball url sha strip) = RTarball url sha ''observed''"
| "transport_to_record (PLocal path) = RLocal path ''observed''"
| "transport_to_record (POci reg repo digest src) = ROci reg repo digest ''observed''"

definition own_key :: "string \<Rightarrow> provider \<Rightarrow> string + string" where
  "own_key n p = rbind (canonical_for (pv_binding p) (dep_key_bare n)) (\<lambda>sk. Inr (sk_identity sk))"

text \<open>A candidate that does not come from the index.\<close>

definition eager_candidate ::
  "string \<Rightarrow> string \<Rightarrow> extracted \<Rightarrow> provenance_record \<Rightarrow> string list \<Rightarrow> candidate" where
  "eager_candidate k identity x prov mirrors =
     \<lparr>ca_name = k, ca_version = candidate_label (map_option fst (ex_declared x)), ca_identity = identity,
      ca_src_dir = ex_src_dir x, ca_requires_names = ex_requires_names x, ca_deps = ex_deps x,
      ca_provenance = Some prov, ca_declared_mirror_urls = mirrors, ca_dep_decl = None,
      ca_requires_predicates = ex_requires_predicates x, ca_attestation = None, ca_is_registry = False,
      ca_registry_namespace = [], ca_version_unknown = (ex_declared x = None),
      ca_declared_version_source = map_option snd (ex_declared x)\<rparr>"

definition plain_consumer :: "version option \<Rightarrow> consumer" where
  "plain_consumer v = \<lparr>cm_dep_decl = None, cm_schema = None, cm_flags = [], cm_ref = None, cm_version = v\<rparr>"

definition enabled_requests :: "flag_request list \<Rightarrow> flag_request list" where
  "enabled_requests frs = filter fr_enabled frs"

text \<open>Another consumer of a repository that is there already: its flags are united with those active.\<close>

definition unite_flags :: "env \<Rightarrow> (item list \<Rightarrow> unit act) \<Rightarrow> string \<Rightarrow> url_dep \<Rightarrow> unit act" where
  "unite_flags en again k d p =
     (let reqs = enabled_requests (ud_flag_requests d); identity = first_identity p k in
      case (if reqs = [] then None else dep_manifest en p (ud_name d)) of
        None \<Rightarrow> Done () p
      | Some m \<Rightarrow>
          let new = compute_dep_active_flags (m_flags m) reqs; q = merge_active identity new p
          in if new = [] \<or> identity = [] then Done () p
             else if flag_names q identity = flag_names p identity then Done () q
             else act_bind (admit_edges en k (m_deps m) (flag_names p identity) (flag_names q identity))
               (\<lambda>items. if items = [] then act_ret () else again items) q)"

definition seed_flags :: "env \<Rightarrow> string \<Rightarrow> string \<Rightarrow> flag_request list \<Rightarrow> provider \<Rightarrow> provider" where
  "seed_flags en dest identity frs p =
     (case (if identity = [] then None else dep_manifest en p dest) of
        None \<Rightarrow> p
      | Some m \<Rightarrow>
          let active = compute_dep_active_flags (m_flags m) frs
          in if active = [] then p
             else p\<lparr>pv_dep_active_flags := bt_insert identity active (pv_dep_active_flags p)\<rparr>)"

definition candidate_urls :: "env \<Rightarrow> url_dep \<Rightarrow> string list" where
  "candidate_urls en d =
     dedup (ud_git d # ud_mirrors d @
       filter (\<lambda>u. u \<in> set (ud_mirrors d)) (prior_declared_mirror_urls en (ud_name d)))"

definition newer_than_bound :: "env \<Rightarrow> receipt \<Rightarrow> bool" where
  "newer_than_bound en r \<longleftrightarrow>
     (case (en_exclude_newer en, re_committer_date r) of (Some b, Some d) \<Rightarrow> \<not> ts_le d b | _ \<Rightarrow> False)"

definition first_some :: "'a option \<Rightarrow> 'a option \<Rightarrow> 'a option" where
  "first_some a b = (case a of Some x \<Rightarrow> Some x | None \<Rightarrow> b)"

definition fetch_url :: "env \<Rightarrow> (item list \<Rightarrow> unit act) \<Rightarrow> string \<Rightarrow> url_dep \<Rightarrow> unit act" where
  "fetch_url en again k d =
     (let (expected, pinned) = git_pin en d; urls = candidate_urls en d in
      act_bind (fetch_any_tracked en (ud_name d) (map (\<lambda>u. git_prov u (ud_git_ref d) pinned) urls) (ud_name d) expected)
        (\<lambda>(identity, r, idx).
      act_bind (act_try (\<lambda>_. ensure (\<not> newer_than_bound en r) ''RES-EXCLUDE-NEWER-PIN'')) (\<lambda>_.
      act_bind (act_try (source_id_for_edge_cache (ud_name d))) (\<lambda>sid.
      act_bind (extract_requires en (ud_name d) (ud_name d) url_dep_version
         \<lparr>cm_dep_decl = None, cm_schema = None, cm_flags = map fr_name (enabled_requests (ud_flag_requests d)),
          cm_ref = Some (ud_git_ref d), cm_version = ud_version d\<rparr> sid) (\<lambda>x.
      let observed = urls ! idx;
          prov = RGit observed (opt_text (ud_git_ref d)) (first_some (re_resolved_ref r) pinned) ''observed''
            (re_submodule_shas r)
      in act_bind (act_upd (store_candidate (eager_candidate k identity x prov (filter (\<lambda>u. u \<noteq> observed) urls)))) (\<lambda>_.
         act_bind (act_upd (seed_flags en (ud_name d) identity (ud_flag_requests d))) (\<lambda>_.
         again (ex_sub_items x))))))))"

definition process_url :: "env \<Rightarrow> (item list \<Rightarrow> unit act) \<Rightarrow> url_dep \<Rightarrow> unit act" where
  "process_url en again d =
     act_bind (act_try (own_key (ud_name d))) (\<lambda>k.
     act_bind (act_get (\<lambda>p. (ud_git d, ud_git_ref d, ud_subpath d) \<in> pv_seen_url p)) (\<lambda>seen.
     if seen then unite_flags en again k d
     else act_bind (act_upd (\<lambda>p. p\<lparr>pv_seen_url := insert (ud_git d, ud_git_ref d, ud_subpath d) (pv_seen_url p)\<rparr>))
       (\<lambda>_. fetch_url en again k d)))"

text \<open>What the three other eager workers do after their fetch.\<close>

definition register_fetched ::
  "env \<Rightarrow> (item list \<Rightarrow> unit act) \<Rightarrow> string \<Rightarrow> string \<Rightarrow> version option \<Rightarrow> provenance_record \<Rightarrow> unit act" where
  "register_fetched en again n identity v prov =
     act_bind (act_try (source_id_for_edge_cache n)) (\<lambda>sid.
     act_bind (extract_requires en n n url_dep_version (plain_consumer v) sid) (\<lambda>x.
     act_bind (act_try (own_key n)) (\<lambda>k.
     act_bind (act_upd (store_candidate (eager_candidate k identity x prov []))) (\<lambda>_.
     again (ex_sub_items x)))))"

text \<open>The path handed to the fetcher is the declared one; the model leaves the root of the project to the fetcher.\<close>

definition process_local :: "env \<Rightarrow> (item list \<Rightarrow> unit act) \<Rightarrow> local_dep \<Rightarrow> unit act" where
  "process_local en again d =
     act_bind (act_get (\<lambda>p. lcd_path d \<in> pv_seen_local p)) (\<lambda>seen.
     if seen then act_ret ()
     else
       act_bind (act_upd (\<lambda>p. p\<lparr>pv_seen_local := insert (lcd_path d) (pv_seen_local p)\<rparr>)) (\<lambda>_.
       act_bind (fetch_once en (lcd_name d) (PLocal (lcd_path d)) (lcd_name d)) (\<lambda>_.
       register_fetched en again (lcd_name d) [] (lcd_version d) (RLocal (lcd_path d) ''observed''))))"

definition process_tarball :: "env \<Rightarrow> (item list \<Rightarrow> unit act) \<Rightarrow> tarball_dep \<Rightarrow> unit act" where
  "process_tarball en again d =
     act_bind (act_get (\<lambda>p. td_url d \<in> pv_seen_tarball p)) (\<lambda>seen.
     if seen then act_ret ()
     else
       let (expected, locked) = tarball_pin en d in
       act_bind (act_upd (\<lambda>p. p\<lparr>pv_seen_tarball := insert (td_url d) (pv_seen_tarball p)\<rparr>)) (\<lambda>_.
       act_bind (fetch_any en (td_name d)
           [PTarball (td_url d) (first_some (td_sha256 d) locked) (td_strip_components d)] (td_name d) expected)
         (\<lambda>(identity, r).
       register_fetched en again (td_name d) identity (td_version d)
         (RTarball (td_url d) (first_some (td_sha256 d) (first_some (re_archive_sha256 r) locked)) ''observed''))))"

definition oci_key :: "oci_dep \<Rightarrow> string" where
  "oci_key d = od_registry d @ ''/'' @ od_repository d @ ''@'' @ od_digest d"

definition process_oci :: "env \<Rightarrow> (item list \<Rightarrow> unit act) \<Rightarrow> oci_dep \<Rightarrow> unit act" where
  "process_oci en again d =
     act_bind (act_try (\<lambda>_. validate_oci_digest (od_digest d))) (\<lambda>_.
     act_bind (act_get (\<lambda>p. oci_key d \<in> pv_seen_oci p)) (\<lambda>seen.
     if seen then act_ret ()
     else
       act_bind (act_upd (\<lambda>p. p\<lparr>pv_seen_oci := insert (oci_key d) (pv_seen_oci p)\<rparr>)) (\<lambda>_.
       act_bind (fetch_once en (od_name d) (POci (od_registry d) (od_repository d) (od_digest d) None) (od_name d))
         (\<lambda>(t, r).
       act_bind (act_try (\<lambda>_. compute_content_hash (en_utf8 en) (en_sha en) t)) (\<lambda>identity.
       register_fetched en again (od_name d) identity (od_version d)
         (ROci (od_registry d) (od_repository d) (od_digest d) ''observed''))))))"

subsection \<open>Packages of the index\<close>

definition named_versions :: "env \<Rightarrow> string \<Rightarrow> string option \<Rightarrow> string + index_version list" where
  "named_versions en n ns =
     rbind (case ns of Some s \<Rightarrow> resolve_named_all_qualified (en_index en) s n vs_full
            | None \<Rightarrow> resolve_named_all (en_index en) n vs_full) (\<lambda>versions.
     let (kept, dropped) = filter_by_exclude_newer versions (en_exclude_newer en) in
     if dropped > 0 \<and> kept = [] then Inl ''RES-EXCLUDE-NEWER-EMPTY'' else Inr kept)"

definition add_version :: "index_version version_map \<Rightarrow> index_version \<Rightarrow> index_version version_map" where
  "add_version m iv = (case parse_version (iv_version iv) of None \<Rightarrow> m | Some v \<Rightarrow> vm_insert v iv m)"

definition add_stubs :: "string \<Rightarrow> index_version version_map \<Rightarrow> provider \<Rightarrow> provider" where
  "add_stubs k m p =
     p\<lparr>pv_stubs := bt_insert k
        (foldl (\<lambda>acc (key, v, iv). vm_insert v iv acc) (bt_get_or [] (pv_stubs p) k) m) (pv_stubs p)\<rparr>"

text \<open>The constraint of the requirement is not used here: enumeration is blind to it.\<close>

definition process_named :: "env \<Rightarrow> string \<Rightarrow> string option \<Rightarrow> unit act" where
  "process_named en n ns =
     (let dk = \<lparr>dk_name = n, dk_namespace = ns\<rparr>;
          mark = act_upd (\<lambda>p. p\<lparr>pv_seen_named := insert dk (pv_seen_named p)\<rparr>)
      in if n = ''nim'' then mark
      else act_bind (act_get (\<lambda>p. n \<in> pv_member_names p \<or> dk \<in> pv_seen_named p)) (\<lambda>skip.
      if skip then act_ret ()
      else act_bind mark (\<lambda>_.
        act_bind (act_try (\<lambda>_. named_versions en n ns)) (\<lambda>versions.
        let by_ver = foldl add_version [] versions in
        if by_ver = [] then act_ret ()
        else act_bind (act_try (\<lambda>p. canonical_for (pv_binding p) dk)) (\<lambda>sk.
          act_upd (add_stubs (sk_identity sk) by_ver))))))"

definition dispatch :: "env \<Rightarrow> (item list \<Rightarrow> unit act) \<Rightarrow> item \<Rightarrow> unit act" where
  "dispatch en again it =
     (case it of
        IUrl d \<Rightarrow> process_url en again d
      | ILocal d \<Rightarrow> process_local en again d
      | ITarball d \<Rightarrow> process_tarball en again d
      | INamed n vs ns \<Rightarrow> process_named en n ns
      | IOci d \<Rightarrow> process_oci en again d)"

definition gate_batch :: "env \<Rightarrow> item list \<Rightarrow> item list act" where
  "gate_batch en =
     act_fold (\<lambda>survivors it. act_bind (act_run (\<lambda>p. gate_only en p it)) (\<lambda>s.
       act_ret (survivors @ (case s of Some x \<Rightarrow> [x] | None \<Rightarrow> [])))) []"

fun process_items :: "nat \<Rightarrow> env \<Rightarrow> item list \<Rightarrow> unit act" where
  "process_items 0 en items p = Looping"
| "process_items (Suc n) en items p =
     act_bind (gate_batch en items) (act_each (dispatch en (process_items n en))) p"

subsection \<open>The package that the solver selects\<close>

text \<open>The candidate of a fetched index entry.\<close>

definition named_candidate :: "string \<Rightarrow> version \<Rightarrow> index_version \<Rightarrow> string \<Rightarrow> extracted \<Rightarrow> candidate" where
  "named_candidate k v iv identity x =
     \<lparr>ca_name = k, ca_version = v, ca_identity = identity, ca_src_dir = ex_src_dir x,
      ca_requires_names = ex_requires_names x, ca_deps = ex_deps x,
      ca_provenance = (case iv_provenances iv of [] \<Rightarrow> None | pr # prs \<Rightarrow> Some (transport_to_record pr)),
      ca_declared_mirror_urls = [],
      ca_dep_decl = (if es_source (ex_edge_set x) = DepDecl then iv_dep_decl iv else None),
      ca_requires_predicates = ex_requires_predicates x, ca_attestation = iv_attestation iv,
      ca_is_registry = True, ca_registry_namespace = iv_namespace iv, ca_version_unknown = False,
      ca_declared_version_source = None\<rparr>"

definition drop_stub :: "string \<Rightarrow> version \<Rightarrow> provider \<Rightarrow> provider" where
  "drop_stub k v p =
     (case bt_get (pv_stubs p) k of
        None \<Rightarrow> p | Some m \<Rightarrow> p\<lparr>pv_stubs := bt_insert k (vm_remove v m) (pv_stubs p)\<rparr>)"

definition named_flags :: "provider \<Rightarrow> string \<Rightarrow> flag_request list" where
  "named_flags p k = bt_get_or [] (pv_flag_requests p) k"

text \<open>The conflict check runs right after the flags of the package are seeded, on what was seeded.\<close>

definition named_conflict_check :: "env \<Rightarrow> string \<Rightarrow> string \<Rightarrow> string \<Rightarrow> string \<Rightarrow> provider \<Rightarrow> string + unit" where
  "named_conflict_check en dest identity n k p =
     (case (if identity = [] then None else dep_manifest en p dest) of
        None \<Rightarrow> Inr ()
      | Some m \<Rightarrow>
          (let active = compute_dep_active_flags (m_flags m) (named_flags p k) in
           if active = [] then Inr ()
           else case raise_if_flag_conflicts n (m_flags m) active of
             Inl c \<Rightarrow> Inl ''RESOLVE-FLAG-CONFLICT'' | Inr u \<Rightarrow> Inr ()))"

definition materialize_named ::
  "env \<Rightarrow> (item list \<Rightarrow> unit act) \<Rightarrow> string \<Rightarrow> version \<Rightarrow> index_version \<Rightarrow> dep list act" where
  "materialize_named en again k v iv =
     act_bind (act_get (\<lambda>p. depkey_for_solved_name k (pv_binding p))) (\<lambda>dk.
     let n = dk_name dk; dest = dep_dir_name n (dk_namespace dk) in
     act_bind (act_try (\<lambda>_. ensure (iv_content_hash iv \<noteq> []) ''TNG-NO-IDENTITY'')) (\<lambda>_.
     act_bind (fetch_any en n (iv_provenances iv) dest (Some (iv_content_hash iv))) (\<lambda>(identity, r).
     act_bind (act_get (\<lambda>p. map fr_name (enabled_requests (named_flags p k)))) (\<lambda>flags.
     act_bind (act_try (source_id_for_edge_cache k)) (\<lambda>sid.
     act_bind (extract_requires en dest n v
        \<lparr>cm_dep_decl = iv_dep_decl iv, cm_schema = iv_dep_decl_schema iv, cm_flags = flags, cm_ref = None,
         cm_version = None\<rparr> sid) (\<lambda>x.
     act_bind (act_upd (store_candidate (named_candidate k v iv identity x))) (\<lambda>_.
     act_bind (act_upd (drop_stub k v)) (\<lambda>_.
     act_bind (act_upd (\<lambda>p. seed_flags en dest identity (named_flags p k) p)) (\<lambda>_.
     act_bind (act_try (named_conflict_check en dest identity n k)) (\<lambda>_.
     act_bind (again (ex_sub_items x)) (\<lambda>_. act_ret (ex_deps x))))))))))))"

definition stub_get :: "provider \<Rightarrow> string \<Rightarrow> version \<Rightarrow> index_version option" where
  "stub_get p k v = Option.bind (bt_get (pv_stubs p) k) (\<lambda>m. vm_get m v)"

text \<open>An action whose failure the provider keeps for the end of the run.\<close>

definition captured :: "'a \<Rightarrow> 'a act \<Rightarrow> 'a act" where
  "captured d m p = (case m p of Fail e q \<Rightarrow> Done d (capture e q) | r \<Rightarrow> r)"

definition prov_dependencies :: "env \<Rightarrow> (item list \<Rightarrow> unit act) \<Rightarrow> string \<Rightarrow> version \<Rightarrow> dep list act" where
  "prov_dependencies en again k v p =
     (case cand_get (pv_candidates p) k v of
        Some c \<Rightarrow> Done (ca_deps c) p
      | None \<Rightarrow>
          (case stub_get p k v of
             None \<Rightarrow> Done [] p
           | Some iv \<Rightarrow> captured [] (materialize_named en again k v iv) p))"

definition get_or_materialize ::
  "env \<Rightarrow> (item list \<Rightarrow> unit act) \<Rightarrow> string \<Rightarrow> version \<Rightarrow> candidate option act" where
  "get_or_materialize en again k v p =
     (case cand_get (pv_candidates p) k v of
        Some c \<Rightarrow> Done (Some c) p
      | None \<Rightarrow>
          (case stub_get p k v of
             None \<Rightarrow> Done None p
           | Some iv \<Rightarrow>
               (case materialize_named en again k v iv p of
                  Fail e q \<Rightarrow> Done None (capture e q)
                | Done ds q \<Rightarrow> Done (cand_get (pv_candidates q) k v) q
                | Stop \<Rightarrow> Stop
                | Looping \<Rightarrow> Looping)))"

subsection \<open>Flags across packages\<close>

definition key_dir :: "provider \<Rightarrow> string \<Rightarrow> string" where
  "key_dir p k = (let dk = depkey_for_solved_name k (pv_binding p) in dep_dir_name (dk_name dk) (dk_namespace dk))"

definition dep_names :: "provider \<Rightarrow> string list" where
  "dep_names p = filter (\<lambda>k. k \<noteq> ROOT) (bt_keys (pv_candidates p))"

text \<open>The manifests that can be read, with those of the workspace members where there is no other.\<close>

definition dep_manifests :: "env \<Rightarrow> provider \<Rightarrow> (string \<times> manifest) list" where
  "dep_manifests en p =
     foldl (\<lambda>ms (k, m). if bt_get ms k = None then bt_insert k m ms else ms)
       (foldl (\<lambda>ms k. case dep_manifest en p (key_dir p k) of None \<Rightarrow> ms | Some m \<Rightarrow> bt_insert k m ms) [] (dep_names p))
       (pv_member_manifests p)"

type_synonym requests = "(string \<times> flag_request list) list"

definition add_requests :: "string \<Rightarrow> flag_request list \<Rightarrow> requests \<Rightarrow> requests" where
  "add_requests k frs m = bt_insert k (bt_get_or [] m k @ frs) m"

definition fired_enables :: "provider \<Rightarrow> string \<Rightarrow> manifest \<Rightarrow> cross_pkg_enable list" where
  "fired_enables p k m =
     (let identity = (if k \<in> set (dep_names p) then first_identity p k else []) in
      if identity = [] \<or> bt_get (pv_dep_active_flags p) identity = None then []
      else concat (map fd_enables_cross_pkg
        (filter (\<lambda>fd. fd_name fd \<in> flag_names p identity) (m_flags m))))"

definition cross_requests :: "env \<Rightarrow> provider \<Rightarrow> (string \<times> manifest) list \<Rightarrow> string + requests" where
  "cross_requests en p manifests =
     rfold (\<lambda>m cpe. rbind (requirement_key en p (cpe_dep cpe) None None None) (\<lambda>k.
         Inr (add_requests k (cpe_flag_requests cpe) m)))
       [] (concat (map (\<lambda>(k, m). fired_enables p k m) manifests))"

definition MAX_TOTAL_ACTIVATIONS :: nat where "MAX_TOTAL_ACTIVATIONS = 10000"
definition MAX_ITERS :: nat where "MAX_ITERS = 50"

record round_state =
  rn_changed :: bool
  rn_items :: "item list"
  rn_total :: nat

definition target_step ::
  "env \<Rightarrow> (string \<times> manifest) list \<Rightarrow> round_state \<Rightarrow> string \<times> flag_request list \<Rightarrow> round_state act" where
  "target_step en manifests st tr p =
     (let target = fst tr; identity = first_identity p target in
      case bt_get manifests target of
        None \<Rightarrow> Done st p
      | Some m \<Rightarrow>
          if identity = [] then Done st p
          else
            let old = flag_names p identity;
                active = compute_dep_active_flags (m_flags m) (snd tr);
                merged = old \<union> set (bt_keys active);
                acts = rn_total st + card (merged - old)
            in if merged = old then Done st p
               else if acts > MAX_TOTAL_ACTIVATIONS then Fail ''MILPA-INTERNAL'' p
               else act_bind (act_upd (merge_active identity active)) (\<lambda>_.
                 act_bind (admit_edges en target (m_deps m) old merged) (\<lambda>items.
                 act_ret \<lparr>rn_changed = True, rn_items = rn_items st @ items, rn_total = acts\<rparr>)) p)"

text \<open>One round; the result says whether there may be another, with the activations so far.\<close>

definition s4a_round :: "env \<Rightarrow> (item list \<Rightarrow> unit act) \<Rightarrow> nat \<Rightarrow> nat option act" where
  "s4a_round en again acts =
     act_bind (act_get (dep_manifests en)) (\<lambda>manifests.
     act_bind (act_try (\<lambda>p. cross_requests en p manifests)) (\<lambda>reqs.
     if reqs = [] then act_ret None
     else
       act_bind (act_fold (target_step en manifests) \<lparr>rn_changed = False, rn_items = [], rn_total = acts\<rparr> reqs) (\<lambda>st.
       if \<not> rn_changed st then act_ret None
       else act_bind (if rn_items st = [] then act_ret () else again (rn_items st)) (\<lambda>_.
         act_ret (Some (rn_total st))))))"

fun s4a_loop :: "env \<Rightarrow> (item list \<Rightarrow> unit act) \<Rightarrow> nat \<Rightarrow> nat \<Rightarrow> unit act" where
  "s4a_loop en again 0 acts p = Fail ''MILPA-INTERNAL'' p"
| "s4a_loop en again (Suc n) acts p =
     act_bind (s4a_round en again acts) (\<lambda>r. case r of None \<Rightarrow> act_ret () | Some t \<Rightarrow> s4a_loop en again n t) p"

definition run_s4a_fixpoint :: "env \<Rightarrow> (item list \<Rightarrow> unit act) \<Rightarrow> unit act" where
  "run_s4a_fixpoint en again = s4a_loop en again MAX_ITERS 0"

definition s4c_check_one :: "env \<Rightarrow> provider \<Rightarrow> string \<Rightarrow> flag_conflict + unit" where
  "s4c_check_one en p k =
     (if bt_get_or [] (pv_candidates p) k = [] then Inr ()
      else case dep_manifest en p (key_dir p k) of
        None \<Rightarrow> Inr ()
      | Some m \<Rightarrow>
          if m_flags m = [] then Inr ()
          else
            let stored = bt_get_or [] (pv_dep_active_flags p) (first_identity p k);
                active = (if stored = [] then compute_dep_active_flags (m_flags m) [] else stored)
            in if active = [] then Inr ()
               else raise_if_flag_conflicts (solver_var (depkey_for_solved_name k (pv_binding p))) (m_flags m) active)"

definition check_s4c_flag_conflicts :: "env \<Rightarrow> provider \<Rightarrow> flag_conflict + unit" where
  "check_s4c_flag_conflicts en p = rfold (\<lambda>_. s4c_check_one en p) () (dep_names p)"

subsection \<open>The identity gate\<close>

definition transport_failed :: "env \<Rightarrow> string \<Rightarrow> nat \<Rightarrow> provenance \<Rightarrow> bool" where
  "transport_failed en n i prov \<longleftrightarrow> (\<exists>e. en_fetch en i n prov = Inl e)"

text \<open>
  The two ways out of a fetch that are not a failure of every transport: the \<open>k\<close>-th candidate is the first that
  delivers a tree, and the tree is either the expected one or not.
\<close>

definition delivers :: "env \<Rightarrow> string \<Rightarrow> provenance list \<Rightarrow> nat \<Rightarrow> nat \<Rightarrow> fs_node \<Rightarrow> receipt \<Rightarrow> string \<Rightarrow> bool" where
  "delivers en n provs start k t r identity \<longleftrightarrow>
     k < length provs \<and> (\<forall>j < k. transport_failed en n (start + j) (provs ! j)) \<and>
     en_fetch en (start + k) n (provs ! k) = Inr (t, r) \<and> compute_content_hash (en_utf8 en) (en_sha en) t = Inr identity"

lemma delivers_Cons:
  "transport_failed en n start prov \<Longrightarrow>
   delivers en n (prov # provs) start k t r i \<longleftrightarrow>
     (\<exists>j. k = Suc j \<and> delivers en n provs (Suc start) j t r i)"
  by (cases k) (auto simp: delivers_def transport_failed_def nth_Cons less_Suc_eq_0_disj split: nat.splits)

lemma delivers_first: "delivers en n (prov # provs) start 0 t r i \<longleftrightarrow>
   en_fetch en start n prov = Inr (t, r) \<and> compute_content_hash (en_utf8 en) (en_sha en) t = Inr i"
  by (simp add: delivers_def)

lemma fetch_from_cases:
  "case fetch_from en n dest expected idx provs p of
     Done (i, r, k) q \<Rightarrow> idx \<le> k \<and> (expected = None \<or> expected = Some i) \<and>
       (\<exists>t. delivers en n provs (pv_fetches p) (k - idx) t r i \<and> pv_trees q dest = Some t)
   | Fail e q \<Rightarrow> e = ''FETCH-PROVENANCE-DIVERGENCE'' \<longrightarrow>
       (\<exists>k t r i. delivers en n provs (pv_fetches p) k t r i \<and> expected \<noteq> None \<and> expected \<noteq> Some i) \<or>
       (\<exists>t. compute_content_hash (en_utf8 en) (en_sha en) t = Inl e)
   | Stop \<Rightarrow> False | Looping \<Rightarrow> False"
proof (induction provs arbitrary: idx p)
  case (Cons prov provs)
  show ?case
  proof (cases "en_fetch en (pv_fetches p) n prov")
    case (Inl e)
    then have f: "transport_failed en n (pv_fetches p) prov" by (simp add: transport_failed_def)
    let ?q = "(clear_dir dest p)\<lparr>pv_fetches := Suc (pv_fetches p)\<rparr>"
    have "fetch_from en n dest expected idx (prov # provs) p = fetch_from en n dest expected (Suc idx) provs ?q"
      by (simp add: fetch_once_def Inl)
    with Cons.IH [of "Suc idx" ?q] show ?thesis
      by (auto simp: delivers_Cons [OF f] Suc_le_eq split: res.splits) (metis Suc_diff_Suc less_imp_le)+
  next
    case (Inr tr)
    then obtain t r where tr: "en_fetch en (pv_fetches p) n prov = Inr (t, r)" by (cases tr) auto
    show ?thesis
      using tr by (auto simp: fetch_once_def Let_def delivers_first split: sum.splits intro!: exI [of _ 0])
  qed
qed simp

lemma fetch_from_delivers:
  assumes "delivers en n provs (pv_fetches p) k t r i"
  shows "\<exists>q. fetch_from en n dest expected idx provs p =
    (if expected = None \<or> expected = Some i then Done (i, r, idx + k) q else Fail ''FETCH-PROVENANCE-DIVERGENCE'' q) \<and>
    pv_trees q dest = Some t"
  using assms
proof (induction provs arbitrary: idx k p)
  case (Cons prov provs)
  show ?case
  proof (cases k)
    case 0
    with Cons.prems show ?thesis by (auto simp: delivers_first fetch_once_def Let_def)
  next
    case (Suc j)
    with Cons.prems have f: "transport_failed en n (pv_fetches p) prov"
      by (auto simp: delivers_def dest: spec [of _ 0])
    then obtain e where e: "en_fetch en (pv_fetches p) n prov = Inl e" by (auto simp: transport_failed_def)
    let ?q = "(clear_dir dest p)\<lparr>pv_fetches := Suc (pv_fetches p)\<rparr>"
    from Cons.prems Suc have "delivers en n provs (pv_fetches ?q) j t r i" by (simp add: delivers_Cons [OF f])
    from Cons.IH [OF this, of "Suc idx"] obtain q where
      "fetch_from en n dest expected (Suc idx) provs ?q =
        (if expected = None \<or> expected = Some i then Done (i, r, Suc idx + j) q else Fail ''FETCH-PROVENANCE-DIVERGENCE'' q)"
      "pv_trees q dest = Some t" by blast
    then show ?thesis by (intro exI [of _ q]) (simp add: fetch_once_def e Suc)
  qed
qed (simp add: delivers_def)

lemma fetch_from_all_failed:
  "\<forall>k < length provs. transport_failed en n (pv_fetches p + k) (provs ! k) \<Longrightarrow>
   \<exists>q. fetch_from en n dest expected idx provs p = Fail ''FETCH-ALL-FAILED'' q \<and> pv_trees q dest = None"
proof (induction provs arbitrary: idx p)
  case (Cons prov provs)
  let ?q = "(clear_dir dest p)\<lparr>pv_fetches := Suc (pv_fetches p)\<rparr>"
  from Cons.prems have "transport_failed en n (pv_fetches p) prov" by fastforce
  then obtain e where e: "en_fetch en (pv_fetches p) n prov = Inl e" by (auto simp: transport_failed_def)
  have "\<forall>k < length provs. transport_failed en n (pv_fetches ?q + k) (provs ! k)"
    using Cons.prems by fastforce
  from Cons.IH [OF this, of "Suc idx"] show ?case by (simp add: fetch_once_def e)
qed (simp add: clear_dir_def)

subsection \<open>What every step keeps\<close>

text \<open>
  Triples for actions: whatever the outcome, the state moves along \<open>R\<close>; a result satisfies \<open>Q\<close>.  The rules hold for
  every preorder \<open>R\<close>; they are used for the growth of the bindings and for the soundness of the registry data.
\<close>

definition act_ok :: "(provider \<Rightarrow> provider \<Rightarrow> bool) \<Rightarrow> 'a act \<Rightarrow> ('a \<Rightarrow> bool) \<Rightarrow> bool" where
  "act_ok R m Q \<longleftrightarrow>
     (\<forall>p. case m p of Done x q \<Rightarrow> R p q \<and> Q x | Fail e q \<Rightarrow> R p q | Stop \<Rightarrow> True | Looping \<Rightarrow> True)"

locale state_preorder =
  fixes R :: "provider \<Rightarrow> provider \<Rightarrow> bool"
  assumes R_refl: "R p p" and R_trans: "R p q \<Longrightarrow> R q r \<Longrightarrow> R p r"
begin

lemma ok_ret: "Q x \<Longrightarrow> act_ok R (act_ret x) Q"
  by (simp add: act_ok_def act_ret_def R_refl)

lemma ok_bind:
  assumes "act_ok R m P" "\<And>x. P x \<Longrightarrow> act_ok R (f x) Q"
  shows "act_ok R (act_bind m f) Q"
  unfolding act_ok_def
proof
  fix p
  show "case act_bind m f p of Done x q \<Rightarrow> R p q \<and> Q x | Fail e q \<Rightarrow> R p q | Stop \<Rightarrow> True | Looping \<Rightarrow> True"
  proof (cases "m p")
    case (Done x q)
    with assms(1) have x: "R p q" "P x" by (auto simp: act_ok_def dest: spec [of _ p])
    from assms(2) [OF x(2)] R_trans [OF x(1)] Done show ?thesis
      by (auto simp: act_bind_def act_ok_def split: res.splits)
  qed (use assms(1) in \<open>auto simp: act_bind_def act_ok_def split: res.splits dest: spec [of _ p]\<close>)
qed

lemma ok_bind_any: "act_ok R m (\<lambda>_. True) \<Longrightarrow> (\<And>x. act_ok R (f x) Q) \<Longrightarrow> act_ok R (act_bind m f) Q"
  by (rule ok_bind) auto

lemma ok_weaken: "act_ok R m P \<Longrightarrow> (\<And>x. P x \<Longrightarrow> Q x) \<Longrightarrow> act_ok R m Q"
  by (fastforce simp: act_ok_def split: res.splits)

lemma ok_try: "(\<And>p x. f p = Inr x \<Longrightarrow> Q x) \<Longrightarrow> act_ok R (act_try f) Q"
  by (simp add: act_ok_def act_try_def R_refl split: sum.splits)

lemma ok_get: "(\<And>p. Q (f p)) \<Longrightarrow> act_ok R (act_get f) Q"
  by (simp add: act_ok_def act_get_def R_refl)

lemma ok_upd: "(\<And>p. R p (f p)) \<Longrightarrow> Q () \<Longrightarrow> act_ok R (act_upd f) Q"
  by (simp add: act_ok_def act_upd_def)

lemma ok_fold:
  "(\<And>s x. act_ok R (f s x) (\<lambda>_. True)) \<Longrightarrow> act_ok R (act_fold f s xs) (\<lambda>_. True)"
  by (induction xs arbitrary: s) (auto intro: ok_ret ok_bind)

lemma ok_each: "(\<And>x. act_ok R (f x) (\<lambda>_. True)) \<Longrightarrow> act_ok R (act_each f xs) (\<lambda>_. True)"
  by (induction xs) (auto intro: ok_ret ok_bind)

lemma ok_run:
  "(\<And>p x q. f p = Returns (x, q) \<Longrightarrow> R p q) \<Longrightarrow> act_ok R (act_run f) (\<lambda>_. True)"
  by (auto simp: act_ok_def act_run_def R_refl split: run.splits)

lemma ok_at:
  "act_ok R m Q \<Longrightarrow> R p q \<Longrightarrow>
   case m q of Done x r \<Rightarrow> R p r \<and> Q x | Fail e r \<Rightarrow> R p r | Stop \<Rightarrow> True | Looping \<Rightarrow> True"
  using R_trans [of p q] by (auto simp: act_ok_def split: res.splits dest: spec [of _ q])

lemmas ok_rules = ok_bind_any ok_try ok_get ok_ret ok_upd

end

subsection \<open>Soundness of registry data\<close>

text \<open>An index entry that may be used, and what a candidate of the registry must carry of one.\<close>

definition entry_ok :: "env \<Rightarrow> index_version \<Rightarrow> bool" where
  "entry_ok en iv \<longleftrightarrow>
     (\<exists>pkg \<in> set (ix_packages (en_index en)). iv \<in> set (pk_versions pkg)) \<and> \<not> iv_yanked iv \<and> iv_provenances iv \<noteq> [] \<and>
     (\<forall>b. en_exclude_newer en = Some b \<longrightarrow> (\<exists>pa. iv_published_at iv = Some pa \<and> ts_le pa b))"

definition registry_ok :: "env \<Rightarrow> candidate \<Rightarrow> bool" where
  "registry_ok en c \<longleftrightarrow> ca_is_registry c \<longrightarrow>
     (\<exists>iv. entry_ok en iv \<and> ca_identity c = iv_content_hash iv \<and> ca_identity c \<noteq> [] \<and>
        ca_attestation c = iv_attestation iv \<and> ca_registry_namespace c = iv_namespace iv \<and>
        (ca_dep_decl c = None \<or> ca_dep_decl c = iv_dep_decl iv) \<and> \<not> ca_version_unknown c)"

definition values_of :: "'a version_map \<Rightarrow> 'a set" where
  "values_of m = (snd \<circ> snd) ` set m"

definition all_values :: "(string \<times> 'a version_map) list \<Rightarrow> 'a set" where
  "all_values cs = (\<Union>e \<in> set cs. values_of (snd e))"

definition sound :: "env \<Rightarrow> provider \<Rightarrow> bool" where
  "sound en p \<longleftrightarrow> (\<forall>iv \<in> all_values (pv_stubs p). entry_ok en iv) \<and> (\<forall>c \<in> all_values (pv_candidates p). registry_ok en c)"

definition stays_sound :: "env \<Rightarrow> provider \<Rightarrow> provider \<Rightarrow> bool" where
  "stays_sound en p q \<longleftrightarrow> (sound en p \<longrightarrow> sound en q \<and> grows p q)"

lemma values_insert: "values_of (vm_insert v x m) \<subseteq> insert x (values_of m)"
  using set_bt_insert [of "precedence_key v" _ m] by (fastforce simp: values_of_def vm_insert_def)

lemma values_remove: "values_of (vm_remove v m) \<subseteq> values_of m"
  using set_bt_remove [of "precedence_key v" m] by (auto simp: values_of_def vm_remove_def)

lemma values_map_first: "x \<in> values_of (map_first f m) \<Longrightarrow> x \<in> values_of m \<or> (\<exists>y \<in> values_of m. x = f y)"
  by (auto simp: values_of_def map_first_def split: list.splits prod.splits)

lemma vm_get_value: "vm_get m v = Some x \<Longrightarrow> x \<in> values_of m"
  by (force simp: vm_get_def values_of_def dest: bt_get_in)

lemma vm_first_value: "vm_first m = Some x \<Longrightarrow> x \<in> values_of m"
  by (force simp: vm_first_def values_of_def split: list.splits prod.splits)

lemma all_values_insert: "all_values (bt_insert k m cs) \<subseteq> values_of m \<union> all_values cs"
  using set_bt_insert [of k m cs] by (fastforce simp: all_values_def)

lemma all_values_get: "bt_get cs k = Some m \<Longrightarrow> values_of m \<subseteq> all_values cs"
  by (force simp: all_values_def dest: bt_get_in)

lemma all_values_get_or: "values_of (bt_get_or [] cs k) \<subseteq> all_values cs"
  by (cases "bt_get cs k") (simp_all add: bt_get_or_def all_values_get, simp add: values_of_def)

lemma cand_get_value: "cand_get cs k v = Some c \<Longrightarrow> c \<in> all_values cs"
  using all_values_get vm_get_value by (fastforce simp: cand_get_def bind_eq_Some_conv)

lemma stub_get_value: "stub_get p k v = Some iv \<Longrightarrow> iv \<in> all_values (pv_stubs p)"
  using all_values_get vm_get_value by (fastforce simp: stub_get_def bind_eq_Some_conv)

lemma sound_store: "sound en p \<Longrightarrow> registry_ok en c \<Longrightarrow> sound en (store_candidate c p)"
  using all_values_insert values_insert all_values_get_or
  by (fastforce simp: sound_def store_candidate_def)

lemma sound_extend: "sound en p \<Longrightarrow> sound en (extend_parent parent k vs p)"
proof -
  assume s: "sound en p"
  let ?f = "\<lambda>c. if k \<in> set (ca_requires_names c) then c
      else c\<lparr>ca_deps := ca_deps c @ [\<lparr>dep_package = k, dep_constraint = vs\<rparr>],
             ca_requires_names := ca_requires_names c @ [k]\<rparr>"
  show ?thesis
  proof (cases "bt_get (pv_candidates p) parent")
    case (Some m)
    have m: "registry_ok en c" if "c \<in> values_of m" for c
      using that s all_values_get [OF Some] by (auto simp: sound_def)
    have "registry_ok en c" if "c \<in> values_of (map_first ?f m)" for c
    proof -
      from values_map_first [OF that] consider "c \<in> values_of m" | y where "y \<in> values_of m" "c = ?f y" by blast
      then show ?thesis by cases (use m in \<open>auto simp: registry_ok_def\<close>)
    qed
    then show ?thesis
      using s Some all_values_insert [of parent "map_first ?f m" "pv_candidates p"]
      by (auto simp: sound_def extend_parent_def)
  qed (use s in \<open>simp add: extend_parent_def\<close>)
qed

lemma sound_add_stubs:
  assumes "sound en p" "\<forall>iv \<in> values_of m. entry_ok en iv"
  shows "sound en (add_stubs k m p)"
proof -
  have "values_of (foldl (\<lambda>acc (key, v, iv). vm_insert v iv acc) acc m) \<subseteq> values_of acc \<union> values_of m" for acc
  proof (induction m arbitrary: acc)
    case (Cons e m)
    obtain key v iv where e: "e = (key, v, iv)" by (cases e)
    from Cons [of "vm_insert v iv acc"] values_insert [of v iv acc] show ?case
      by (auto simp: e) (auto simp: values_of_def)
  qed simp
  then show ?thesis
    using assms all_values_get_or [of "pv_stubs p" k] all_values_insert [of k _ "pv_stubs p"]
    by (fastforce simp: sound_def add_stubs_def)
qed

lemma sound_drop_stub: "sound en p \<Longrightarrow> sound en (drop_stub k v p)"
  using all_values_insert all_values_get values_remove
  by (fastforce simp: sound_def drop_stub_def split: option.splits)

lemma sound_others [simp]:
  "sound en (p\<lparr>pv_seen_url := a\<rparr>) = sound en p" "sound en (p\<lparr>pv_seen_local := b\<rparr>) = sound en p"
  "sound en (p\<lparr>pv_seen_tarball := c\<rparr>) = sound en p" "sound en (p\<lparr>pv_seen_oci := d\<rparr>) = sound en p"
  "sound en (p\<lparr>pv_seen_named := e\<rparr>) = sound en p" "sound en (p\<lparr>pv_dep_active_flags := f\<rparr>) = sound en p"
  "sound en (p\<lparr>pv_edge_cache := g\<rparr>) = sound en p" "sound en (p\<lparr>pv_trees := h\<rparr>) = sound en p"
  "sound en (p\<lparr>pv_fetches := i\<rparr>) = sound en p" "sound en (p\<lparr>pv_binding := j\<rparr>) = sound en p"
  "sound en (p\<lparr>pv_error := k\<rparr>) = sound en p" "sound en (record_discovery l p) = sound en p"
  by (simp_all add: sound_def record_discovery_def)

subsection \<open>Every worker keeps it\<close>

interpretation ss: state_preorder "stays_sound en" for en
  by unfold_locales (auto simp: stays_sound_def intro: grows_trans)

lemma stays_sound_upd:
  assumes "pv_binding q = pv_binding p" "pv_discovery_order q = pv_discovery_order p" "sound en p \<Longrightarrow> sound en q"
  shows "stays_sound en p q"
  using assms by (simp add: stays_sound_def grows_def prov_ok_def)

lemma ok_extend: "stays_sound en p (extend_parent parent k vs p)"
proof (rule stays_sound_upd)
  show "pv_binding (extend_parent parent k vs p) = pv_binding p"
    "pv_discovery_order (extend_parent parent k vs p) = pv_discovery_order p"
    by (simp_all add: extend_parent_def split: option.splits)
qed (rule sound_extend)

lemma ok_admit_edges: "act_ok (stays_sound en) (admit_edges en k ds old new) (\<lambda>_. True)"
  unfolding admit_edges_def by (intro ss.ok_fold ss.ok_rules TrueI ok_extend)

lemma ok_clear: "stays_sound en p (clear_dir dest p)"
  by (simp add: stays_sound_upd clear_dir_def)

lemma ok_fetch_once: "act_ok (stays_sound en) (fetch_once en n prov dest) (\<lambda>_. True)"
  by (auto simp: act_ok_def fetch_once_def clear_dir_def Let_def split: sum.splits intro!: stays_sound_upd)

lemma ok_fetch_from:
  "act_ok (stays_sound en) (fetch_from en n dest expected idx provs) (\<lambda>(i, r, k). expected = None \<or> expected = Some i)"
proof (induction provs arbitrary: idx)
  case Nil
  show ?case by (simp add: act_ok_def ok_clear)
next
  case (Cons prov provs)
  show ?case
    unfolding act_ok_def
  proof
    fix p
    from ok_fetch_once [of en n prov dest, unfolded act_ok_def, rule_format, of p]
      Cons.IH [of "Suc idx", unfolded act_ok_def]
    show "case fetch_from en n dest expected idx (prov # provs) p of
        Done x q \<Rightarrow> stays_sound en p q \<and> (case x of (i, r, k) \<Rightarrow> expected = None \<or> expected = Some i)
      | Fail e q \<Rightarrow> stays_sound en p q | Stop \<Rightarrow> True | Looping \<Rightarrow> True"
      by (auto split: res.splits sum.splits prod.splits intro: ss.R_trans)
  qed
qed

lemma ok_fetch_any_tracked:
  "act_ok (stays_sound en) (fetch_any_tracked en n provs dest expected) (\<lambda>(i, r, k). expected = None \<or> expected = Some i)"
  unfolding fetch_any_tracked_def by (rule ok_fetch_from)

lemma ok_fetch_any:
  "act_ok (stays_sound en) (fetch_any en n provs dest expected) (\<lambda>(i, r). expected = None \<or> expected = Some i)"
  unfolding fetch_any_def by (rule ss.ok_bind [OF ok_fetch_any_tracked]) (auto intro: ss.ok_ret)

lemma ok_fetched_any:
  "act_ok (stays_sound en) (fetch_any_tracked en n provs dest expected) (\<lambda>_. True)"
  "act_ok (stays_sound en) (fetch_any en n provs dest expected) (\<lambda>_. True)"
  by (rule ss.ok_weaken [OF ok_fetch_any_tracked], simp) (rule ss.ok_weaken [OF ok_fetch_any], simp)

lemma ok_extract_requires: "act_ok (stays_sound en) (extract_requires en dest n v cm sid) (\<lambda>_. True)"
  unfolding extract_requires_def
  by (intro ss.ok_rules TrueI) (auto split: prod.splits intro!: ss.ok_rules stays_sound_upd)

lemma ok_store:
  "registry_ok en c \<Longrightarrow> stays_sound en p (store_candidate c p)"
  using sound_store by (auto intro!: stays_sound_upd simp: store_candidate_def)

lemma eager_ok [simp]: "registry_ok en (eager_candidate k i x prov ms)"
  by (simp add: registry_ok_def eager_candidate_def)

lemma ok_seed: "stays_sound en p (seed_flags en dest identity frs p)"
  by (auto simp: seed_flags_def Let_def intro!: stays_sound_upd split: option.splits)

lemma ok_merge: "stays_sound en p (merge_active identity new p)"
  by (simp add: merge_active_def stays_sound_upd)

lemma sound_merge [simp]: "pv_binding (merge_active i a p) = pv_binding p"
  by (simp add: merge_active_def)

text \<open>The workers are sound when the processing they start again is; \<open>process_items\<close> is an instance below.\<close>

locale sound_again =
  fixes en :: env and again :: "item list \<Rightarrow> unit act"
  assumes again: "act_ok (stays_sound en) (again items) (\<lambda>_. True)"
begin

lemma ok_unite_flags: "act_ok (stays_sound en) (unite_flags en again k d) (\<lambda>_. True)"
  unfolding act_ok_def
proof
  fix p
  let ?i = "first_identity p k"
  let ?rest = "\<lambda>ds old new. act_bind (admit_edges en k ds old new) (\<lambda>items. if items = [] then act_ret () else again items)"
  have rest: "act_ok (stays_sound en) (?rest ds old new) (\<lambda>_. True)" for ds old new
    by (rule ss.ok_bind_any [OF ok_admit_edges]) (auto intro: ss.ok_ret again)
  have "unite_flags en again k d p = Done () p \<or> (\<exists>a. unite_flags en again k d p = Done () (merge_active ?i a p)) \<or>
    (\<exists>a ds old new. unite_flags en again k d p = ?rest ds old new (merge_active ?i a p))"
    unfolding unite_flags_def Let_def by (auto split: option.split)
  then show "case unite_flags en again k d p of
      Done x q \<Rightarrow> stays_sound en p q \<and> True | Fail e q \<Rightarrow> stays_sound en p q | Stop \<Rightarrow> True | Looping \<Rightarrow> True"
    by (elim disjE exE) (simp_all add: ss.R_refl ok_merge ss.ok_at [OF rest ok_merge])
qed

lemma ok_fetch_url: "act_ok (stays_sound en) (fetch_url en again k d) (\<lambda>_. True)"
proof -
  have tail: "act_ok (stays_sound en) (act_bind (act_upd (store_candidate (eager_candidate k i x prov ms))) (\<lambda>_.
      act_bind (act_upd (seed_flags en n i frs)) (\<lambda>_. again (ex_sub_items x)))) (\<lambda>_. True)" for i x prov ms n frs
    by (intro ss.ok_bind_any ss.ok_upd TrueI ok_store ok_seed eager_ok again)
  show ?thesis
    unfolding fetch_url_def Let_def
    by (auto split: prod.splits intro!: ss.ok_bind_any ss.ok_try ok_fetched_any ok_extract_requires tail)
qed

lemma ok_process_url: "act_ok (stays_sound en) (process_url en again d) (\<lambda>_. True)"
  unfolding process_url_def
  by (auto intro!: ss.ok_bind_any ss.ok_try ss.ok_get ss.ok_upd ok_unite_flags ok_fetch_url stays_sound_upd)

lemma ok_register: "act_ok (stays_sound en) (register_fetched en again n i v prov) (\<lambda>_. True)"
  unfolding register_fetched_def
  by (intro ss.ok_bind_any ss.ok_try ss.ok_upd TrueI ok_extract_requires ok_store eager_ok again)

lemma ok_process_local: "act_ok (stays_sound en) (process_local en again d) (\<lambda>_. True)"
  unfolding process_local_def
  by (auto intro!: ss.ok_bind_any ss.ok_ret ss.ok_get ss.ok_upd ok_fetch_once ok_register stays_sound_upd)

lemma ok_process_tarball: "act_ok (stays_sound en) (process_tarball en again d) (\<lambda>_. True)"
  unfolding process_tarball_def
  by (auto split: prod.splits intro!: ss.ok_bind_any ok_fetched_any
      ss.ok_ret ss.ok_get ss.ok_upd ok_register stays_sound_upd)

lemma ok_process_oci: "act_ok (stays_sound en) (process_oci en again d) (\<lambda>_. True)"
  unfolding process_oci_def
  by (auto split: prod.splits intro!: ss.ok_bind_any ss.ok_try ss.ok_ret ss.ok_get ss.ok_upd ok_fetch_once ok_register
      stays_sound_upd)

lemma named_versions_ok: "named_versions en n ns = Inr versions \<Longrightarrow> \<forall>iv \<in> set versions. entry_ok en iv"
proof -
  assume a: "named_versions en n ns = Inr versions"
  have c: "entry_ok en iv" if "select_candidates pkg vs_full = Inr all" "pkg \<in> set (ix_packages (en_index en))"
    "iv \<in> set (fst (filter_by_exclude_newer all (en_exclude_newer en)))" for pkg all iv
    using that by (auto simp: entry_ok_def select_candidates_def filter_candidates_eq filter_by_exclude_newer_def Let_def
        split: option.splits if_splits)
  have b: "pkg \<in> set (ix_packages (en_index en))" if "lookup_bare (en_index en) n = Found pkg" for pkg
    using that unfolding lookup_bare_Found by (metis filter_is_subset list.set_intros(1) subsetD)
  have q: "pkg \<in> set (ix_packages (en_index en))" if "lookup_qualified (en_index en) m n = Some pkg" for pkg m
    using that by (simp add: lookup_qualified_def find_Some_iff) (metis nth_mem)
  show ?thesis
    using a c b q
    by (fastforce simp: named_versions_def rbind_def resolve_named_all_def resolve_named_all_qualified_def
        split: option.splits sum.splits bare_lookup.splits prod.splits if_splits)
qed

lemma add_versions_values:
  "\<forall>iv \<in> set versions. P iv \<Longrightarrow> \<forall>iv \<in> values_of m. P iv \<Longrightarrow> \<forall>iv \<in> values_of (foldl add_version m versions). P iv"
proof (induction versions arbitrary: m)
  case (Cons v vs)
  have "\<forall>iv \<in> values_of (add_version m v). P iv"
    using Cons.prems values_insert by (fastforce simp: add_version_def split: option.splits)
  with Cons show ?case by simp
qed simp

lemma ok_process_named: "act_ok (stays_sound en) (process_named en n ns) (\<lambda>_. True)"
proof -
  have tail: "act_ok (stays_sound en) (act_bind (act_try f) (\<lambda>sk. act_upd (add_stubs (sk_identity sk) (foldl add_version [] versions))))
      (\<lambda>_. True)" if "\<forall>iv \<in> set versions. entry_ok en iv" for versions f
  proof (intro ss.ok_bind_any ss.ok_try ss.ok_upd TrueI stays_sound_upd)
    show "sound en p \<Longrightarrow> sound en (add_stubs k (foldl add_version [] versions) p)" for p k
      by (rule sound_add_stubs, assumption, rule add_versions_values [OF that]) (simp add: values_of_def)
  qed (simp_all add: add_stubs_def)
  show ?thesis
    unfolding process_named_def Let_def
    by (auto intro!: ss.ok_bind_any ss.ok_get ss.ok_ret ss.ok_upd stays_sound_upd tail
        ss.ok_bind [OF ss.ok_try [where Q = "\<lambda>vs. \<forall>iv \<in> set vs. entry_ok en iv"]] named_versions_ok [THEN bspec])
qed

lemma ok_dispatch: "act_ok (stays_sound en) (dispatch en again it) (\<lambda>_. True)"
  by (simp add: dispatch_def ok_process_url ok_process_local ok_process_tarball ok_process_named ok_process_oci
      split: item.splits)

lemma ok_gate_batch: "act_ok (stays_sound en) (gate_batch en items) (\<lambda>_. True)"
proof -
  have "stays_sound en p q" if "gate_only en p it = Returns (s, q)" for p it s q
    using gate_only_cases [OF that] that
    by (auto simp: stays_sound_def gate_only_def Let_def run_bind_Returns)
  then show ?thesis
    unfolding gate_batch_def by (intro ss.ok_fold ss.ok_bind_any ss.ok_run ss.ok_ret) auto
qed

lemma ok_batch: "act_ok (stays_sound en) (act_bind (gate_batch en items) (act_each (dispatch en again))) (\<lambda>_. True)"
  by (intro ss.ok_bind_any ok_gate_batch ss.ok_each ok_dispatch)

lemma ok_materialize:
  assumes "entry_ok en iv"
  shows "act_ok (stays_sound en) (materialize_named en again k v iv) (\<lambda>_. True)"
proof -
  have cand: "registry_ok en (named_candidate k v iv (iv_content_hash iv) x)" if "iv_content_hash iv \<noteq> []" for x
    using that assms by (auto simp: registry_ok_def named_candidate_def)
  have stub: "stays_sound en p (drop_stub k v p)" for p
    by (rule stays_sound_upd) (auto simp: sound_drop_stub, auto simp: drop_stub_def split: option.splits)
  have gate: "act_ok (stays_sound en) (act_try (\<lambda>_. ensure (iv_content_hash iv \<noteq> []) e)) (\<lambda>_. iv_content_hash iv \<noteq> [])" for e
    by (rule ss.ok_try) (simp add: ensure_def split: if_splits)
  show ?thesis
    unfolding materialize_named_def Let_def
    by (rule ss.ok_bind_any [OF ss.ok_get], simp, rule ss.ok_bind [OF gate], rule ss.ok_bind [OF ok_fetch_any])
      (auto intro!: ss.ok_bind_any ss.ok_get ss.ok_try ss.ok_upd ss.ok_ret ok_extract_requires
        ok_store cand stub ok_seed again)
qed

end

subsection \<open>Seeding\<close>

definition member_candidate_version ::
  "(string \<Rightarrow> kdl_node list option) \<Rightarrow> string \<Rightarrow> manifest \<Rightarrow> dir_view \<Rightarrow> version \<times> version_source option" where
  "member_candidate_version kdl n m dir =
     (case m_version m of
        Some v \<Rightarrow> (v, Some Manifest)
      | None \<Rightarrow>
          (case declared_version_for kdl \<lparr>ec_dir = Some dir, ec_dep_name = n, ec_dep_decl = None,
              ec_is_overridden = False, ec_has_milpa_kdl = False, ec_schema_version = None, ec_active_flags = [],
              ec_ref = None, ec_version = None\<rparr> of
             Some (v, s) \<Rightarrow> (v, Some s)
           | None \<Rightarrow> (url_dep_version, None)))"

record seed =
  sd_deps :: "dep list"
  sd_requires :: "string list"
  sd_queue :: "item list"

definition seed_push :: "string \<Rightarrow> version_set \<Rightarrow> item \<Rightarrow> seed \<Rightarrow> seed act" where
  "seed_push k vs it sd =
     act_bind (act_upd (record_discovery k)) (\<lambda>_. act_ret
       (sd\<lparr>sd_deps := sd_deps sd @ [\<lparr>dep_package = k, dep_constraint = vs\<rparr>], sd_requires := sd_requires sd @ [k],
           sd_queue := sd_queue sd @ [it]\<rparr>))"

text \<open>The targets that have an item of their own: archives, registry artifacts and registry coordinates.\<close>

definition seed_extended_override_target :: "string \<Rightarrow> override \<Rightarrow> seed \<Rightarrow> seed option act" where
  "seed_extended_override_target n ov sd =
     (case (ovr_target ov, override_effective_item n ov) of
        (TTarball url h strip sp, Some it) \<Rightarrow>
          act_bind (act_try (own_key n)) (\<lambda>k. act_bind (seed_push k vs_full it sd) (\<lambda>s. act_ret (Some s)))
      | (TOci reg repo dg sp, Some it) \<Rightarrow>
          act_bind (act_try (own_key n)) (\<lambda>k. act_bind (seed_push k vs_full it sd) (\<lambda>s. act_ret (Some s)))
      | (TRegistry m ns, Some it) \<Rightarrow>
          act_bind (act_try (own_key n)) (\<lambda>k.
          act_bind (seed_push k (version_pin (ovr_version ov)) it sd) (\<lambda>s. act_ret (Some s)))
      | _ \<Rightarrow> act_ret None)"

definition local_override :: "string \<Rightarrow> string \<Rightarrow> override \<Rightarrow> item" where
  "local_override n path ov =
     ILocal \<lparr>lcd_name = n, lcd_path = path, lcd_predicates = [], lcd_version = ovr_version ov\<rparr>"

definition seed_url :: "env \<Rightarrow> seed \<Rightarrow> url_dep \<Rightarrow> seed act" where
  "seed_url en sd u =
     (let n = ud_name u in
      act_bind (act_try (own_key n)) (\<lambda>k.
      case bt_get (en_overrides en) n of
        None \<Rightarrow> seed_push k vs_full (IUrl u) sd
      | Some ov \<Rightarrow>
          (case ovr_target ov of
             TLocal path \<Rightarrow> seed_push k vs_full (local_override n path ov) sd
           | TMember m \<Rightarrow> seed_push k vs_full (IUrl u) sd
           | _ \<Rightarrow> act_bind (seed_extended_override_target n ov sd) (\<lambda>r.
               case r of Some s \<Rightarrow> act_ret s | None \<Rightarrow> seed_push k vs_full (IUrl u) sd))))"

text \<open>An override is bound under the bare name, whatever namespace the dependency has.\<close>

definition seed_named :: "env \<Rightarrow> seed \<Rightarrow> named_dep \<Rightarrow> seed act" where
  "seed_named en sd d =
     (let n = nd_name d; vs = (case nd_parsed_constraint d of Some x \<Rightarrow> x | None \<Rightarrow> vs_full);
          ov = bt_get (en_overrides en) n; it = INamed n vs (nd_namespace d);
          dk = (if ov \<noteq> None then dep_key_bare n else \<lparr>dk_name = n, dk_namespace = nd_namespace d\<rparr>)
      in act_bind (act_try (\<lambda>p. canonical_for (pv_binding p) dk)) (\<lambda>sk.
      let k = sk_identity sk in
      act_bind (act_upd (\<lambda>p. if nd_flag_requests d = [] then p
          else p\<lparr>pv_flag_requests := bt_insert k (nd_flag_requests d) (pv_flag_requests p)\<rparr>)) (\<lambda>_.
      case ov of
        None \<Rightarrow> seed_push k vs it sd
      | Some o' \<Rightarrow>
          (case ovr_target o' of
             TLocal path \<Rightarrow> seed_push k vs_full (local_override n path o') sd
           | TMember m \<Rightarrow> seed_push k vs it sd
           | TGit url r sp \<Rightarrow> seed_push k vs_full it sd
           | _ \<Rightarrow> act_bind (seed_extended_override_target n o' sd) (\<lambda>r.
               case r of Some s \<Rightarrow> act_ret s | None \<Rightarrow> act_ret sd)))))"

definition seed_dep :: "env \<Rightarrow> seed \<Rightarrow> mdep \<Rightarrow> seed act" where
  "seed_dep en sd d =
     (case d of
        DTarball t \<Rightarrow> act_bind (act_try (own_key (td_name t))) (\<lambda>k. seed_push k vs_full (ITarball t) sd)
      | DLocal l \<Rightarrow> act_bind (act_try (own_key (lcd_name l))) (\<lambda>k. seed_push k vs_full (ILocal l) sd)
      | DUrl u \<Rightarrow> seed_url en sd u
      | DNamed n \<Rightarrow> seed_named en sd n
      | DMember m \<Rightarrow> act_try (\<lambda>_. Inl ''RES-MEMBER-OUTSIDE-WORKSPACE''))"

definition declared_key :: "mdep \<Rightarrow> dep_key" where
  "declared_key d = \<lparr>dk_name = dep_nm d, dk_namespace = (case d of DNamed n \<Rightarrow> nd_namespace n | _ \<Rightarrow> None)\<rparr>"

definition synthetic_candidate ::
  "string \<Rightarrow> version \<Rightarrow> string \<Rightarrow> string list \<Rightarrow> dep list \<Rightarrow> provenance_record option \<Rightarrow> version_source option \<Rightarrow> candidate" where
  "synthetic_candidate k v src_dir requires ds prov src =
     \<lparr>ca_name = k, ca_version = v, ca_identity = [], ca_src_dir = src_dir, ca_requires_names = requires, ca_deps = ds,
      ca_provenance = prov, ca_declared_mirror_urls = [], ca_dep_decl = None, ca_requires_predicates = [],
      ca_attestation = None, ca_is_registry = False, ca_registry_namespace = [], ca_version_unknown = False,
      ca_declared_version_source = src\<rparr>"

text \<open>The root as a candidate for its own name, when it has one.\<close>

definition seed_self :: "env \<Rightarrow> manifest \<Rightarrow> unit act" where
  "seed_self en m =
     (case m_name m of
        None \<Rightarrow> act_ret ()
      | Some n \<Rightarrow>
          (let (v, src) = member_candidate_version (en_kdl en) n m (en_project_dir en) in
           act_bind (act_upd (\<lambda>p. p\<lparr>pv_root_self_name := Some n, pv_root_self_version := Some v\<rparr>)) (\<lambda>_.
           act_bind (act_try (own_key n)) (\<lambda>k.
           act_upd (store_candidate (synthetic_candidate k v (m_src_dir m) [] [] (Some (RRoot n ''observed'')) src))))))"

definition root_keys_of :: "manifest \<Rightarrow> dep_key set" where
  "root_keys_of m =
     declared_key ` set (m_deps m @ m_dev_deps m) \<union> (\<lambda>ov. dep_key_bare (ovr_name ov)) ` set (m_overrides m) \<union>
     (case m_name m of None \<Rightarrow> {} | Some n \<Rightarrow> {dep_key_bare n})"

definition seed_root :: "env \<Rightarrow> manifest \<Rightarrow> item list act" where
  "seed_root en m =
     act_bind (act_fold (seed_dep en) \<lparr>sd_deps = [], sd_requires = [], sd_queue = []\<rparr> (m_deps m @ m_dev_deps m)) (\<lambda>sd.
     act_bind (seed_self en m) (\<lambda>_.
     act_bind (act_upd (\<lambda>p. p\<lparr>pv_root_authority := dk_name ` root_keys_of m, pv_root_direct_keys := root_keys_of m\<rparr>)) (\<lambda>_.
     act_bind (act_upd (store_candidate (synthetic_candidate ROOT root_version [] (sd_requires sd) (sd_deps sd) None None)))
       (\<lambda>_. act_ret (sd_queue sd)))))"

subsection \<open>The life of a provider\<close>

text \<open>
  The steps of a resolution on its state: the root is seeded, batches are processed, the flags settle, the solver
  queries dependencies, the solution is visited, and the captured error is taken.
\<close>

inductive driver_step :: "nat \<Rightarrow> env \<Rightarrow> manifest \<Rightarrow> provider \<Rightarrow> provider \<Rightarrow> bool" for n en m where
  seed: "seed_root en m p = Done items q \<Longrightarrow> driver_step n en m p q"
| process: "process_items n en items p = Done () q \<Longrightarrow> driver_step n en m p q"
| settle: "run_s4a_fixpoint en (process_items n en) p = Done () q \<Longrightarrow> driver_step n en m p q"
| query: "prov_dependencies en (process_items n en) k v p = Done ds q \<Longrightarrow> driver_step n en m p q"
| visit: "get_or_materialize en (process_items n en) k v p = Done c q \<Longrightarrow> driver_step n en m p q"
| taken: "take_error p = (e, q) \<Longrightarrow> driver_step n en m p q"

inductive_cases driver_stepE: "driver_step n en m p q"

lemma synthetic_ok [simp]: "registry_ok en (synthetic_candidate k v s r ds prov src)"
  by (simp add: registry_ok_def synthetic_candidate_def)

lemma ok_capture: "stays_sound en p (capture e p)"
  by (simp add: capture_def stays_sound_upd)

lemma ok_record: "stays_sound en p (record_discovery k p)"
  by (auto simp: stays_sound_def grows_def prov_ok_def)

lemma ok_seed_push: "act_ok (stays_sound en) (seed_push k vs it sd) (\<lambda>_. True)"
  unfolding seed_push_def by (intro ss.ok_bind_any ss.ok_upd ss.ok_ret ok_record TrueI)

lemma ok_seed_extended: "act_ok (stays_sound en) (seed_extended_override_target n ov sd) (\<lambda>_. True)"
  unfolding seed_extended_override_target_def
  by (auto split: override_form.splits option.splits intro!: ss.ok_bind_any ss.ok_try ss.ok_ret ok_seed_push)

lemma ok_seed_dep: "act_ok (stays_sound en) (seed_dep en sd d) (\<lambda>_. True)"
proof -
  have ext: "act_ok (stays_sound en) (act_bind (seed_extended_override_target n ov sd)
      (\<lambda>r. case r of Some s \<Rightarrow> act_ret s | None \<Rightarrow> f)) (\<lambda>_. True)"
    if "act_ok (stays_sound en) f (\<lambda>_. True)" for n ov f
    using that by (auto intro!: ss.ok_bind_any ok_seed_extended ss.ok_ret split: option.splits)
  have "act_ok (stays_sound en) (seed_url en sd u) (\<lambda>_. True)" for u
    unfolding seed_url_def Let_def
    by (auto split: override_form.splits option.splits intro!: ss.ok_bind_any [OF ss.ok_try] ok_seed_push ext)
  moreover have "act_ok (stays_sound en) (seed_named en sd nd) (\<lambda>_. True)" for nd
    unfolding seed_named_def Let_def
    by (auto split: override_form.splits option.splits intro!: ss.ok_bind_any [OF ss.ok_try] ss.ok_bind_any [OF ss.ok_upd]
        ok_seed_push ext ss.ok_ret stays_sound_upd simp: sound_def)
  ultimately show ?thesis
    unfolding seed_dep_def by (auto split: mdep.splits intro!: ss.ok_bind_any ss.ok_try ok_seed_push)
qed

lemma ok_seed_root: "act_ok (stays_sound en) (seed_root en m) (\<lambda>_. True)"
proof -
  have "act_ok (stays_sound en) (seed_self en m) (\<lambda>_. True)"
    unfolding seed_self_def
    by (auto split: option.splits prod.splits intro!: ss.ok_bind_any ss.ok_ret ss.ok_try ss.ok_upd ok_store stays_sound_upd
        simp: sound_def)
  then show ?thesis
    unfolding seed_root_def
    by (intro ss.ok_bind_any ss.ok_fold ok_seed_dep ss.ok_upd ss.ok_ret ok_store TrueI synthetic_ok)
      (auto intro!: stays_sound_upd simp: sound_def)
qed

lemma process_items_sound: "sound_again en (process_items n en)"
proof (induction n)
  case 0
  show ?case by unfold_locales (simp add: act_ok_def)
next
  case (Suc n)
  then have "act_ok (stays_sound en) (act_bind (gate_batch en items) (act_each (dispatch en (process_items n en)))) (\<lambda>_. True)"
    for items by (rule sound_again.ok_batch)
  then show ?case by unfold_locales (simp add: act_ok_def)
qed

interpretation pi: sound_again en "process_items n en" for en n
  by (rule process_items_sound)

lemma ok_run_s4a: "act_ok (stays_sound en) (run_s4a_fixpoint en (process_items n en)) (\<lambda>_. True)"
proof -
  have target: "act_ok (stays_sound en) (target_step en ms st tr) (\<lambda>_. True)" for ms st tr
    unfolding act_ok_def
  proof
    fix p
    let ?rest = "\<lambda>i active m old merged acts. act_bind (act_upd (merge_active i active)) (\<lambda>_.
        act_bind (admit_edges en (fst tr) (m_deps m) old merged) (\<lambda>items.
        act_ret \<lparr>rn_changed = True, rn_items = rn_items st @ items, rn_total = acts\<rparr>))"
    have rest: "act_ok (stays_sound en) (?rest i active m old merged acts) (\<lambda>_. True)" for i active m old merged acts
      by (intro ss.ok_bind_any ss.ok_upd ss.ok_ret ok_admit_edges ok_merge TrueI)
    note after = ss.ok_at [OF rest ss.R_refl, simplified]
    show "case target_step en ms st tr p of
        Done x q \<Rightarrow> stays_sound en p q \<and> True | Fail e q \<Rightarrow> stays_sound en p q | Stop \<Rightarrow> True | Looping \<Rightarrow> True"
      unfolding target_step_def Let_def by (simp add: ss.R_refl after split: option.split)
  qed
  have round: "act_ok (stays_sound en) (s4a_round en (process_items n en) acts) (\<lambda>_. True)" for acts
    unfolding s4a_round_def
    by (auto intro!: ss.ok_bind_any ss.ok_get ss.ok_try ss.ok_ret ss.ok_fold target pi.again)
  have "act_ok (stays_sound en) (s4a_loop en (process_items n en) k acts) (\<lambda>_. True)" for k acts
  proof (induction k arbitrary: acts)
    case 0
    show ?case by (simp add: act_ok_def ss.R_refl)
  next
    case (Suc k)
    have "act_ok (stays_sound en) (act_bind (s4a_round en (process_items n en) acts)
        (\<lambda>r. case r of None \<Rightarrow> act_ret () | Some t \<Rightarrow> s4a_loop en (process_items n en) k t)) (\<lambda>_. True)"
      by (rule ss.ok_bind_any [OF round]) (auto intro: ss.ok_ret Suc split: option.splits)
    then show ?case by (simp add: act_ok_def)
  qed
  then show ?thesis by (simp add: run_s4a_fixpoint_def)
qed

lemma stub_entry_ok: "sound en p \<Longrightarrow> stub_get p k v = Some iv \<Longrightarrow> entry_ok en iv"
  using stub_get_value by (fastforce simp: sound_def)

lemma materialize_state:
  assumes "sound en p" "stub_get p k v = Some iv"
  shows "case materialize_named en (process_items n en) k v iv p of
    Done x q \<Rightarrow> stays_sound en p q \<and> True | Fail e q \<Rightarrow> stays_sound en p q | Stop \<Rightarrow> True | Looping \<Rightarrow> True"
  by (rule ss.ok_at [OF pi.ok_materialize [OF stub_entry_ok [OF assms]] ss.R_refl])

lemma done_sound: "act_ok (stays_sound en) a Q \<Longrightarrow> a p = Done x q \<Longrightarrow> stays_sound en p q"
  using ss.ok_at [OF _ ss.R_refl, of en a Q p] by simp

lemma query_sound:
  assumes "prov_dependencies en (process_items n en) k v p = Done ds q \<or>
    get_or_materialize en (process_items n en) k v p = Done c q"
  shows "stays_sound en p q"
proof (cases "sound en p")
  case True
  show ?thesis
    using assms materialize_state [OF True, of k v _ n] ok_capture ss.R_refl ss.R_trans
    by (auto simp: prov_dependencies_def get_or_materialize_def captured_def split: option.splits res.splits)
qed (simp add: stays_sound_def)

lemma step_sound: "driver_step n en m p q \<Longrightarrow> stays_sound en p q"
  by (erule driver_stepE)
    (auto dest: done_sound [OF ok_seed_root] done_sound [OF pi.again] done_sound [OF ok_run_s4a] query_sound [OF disjI1] query_sound [OF disjI2]
      simp: take_error_def intro: stays_sound_upd)

lemma steps_sound: "(driver_step n en m)\<^sup>*\<^sup>* p q \<Longrightarrow> stays_sound en p q"
  by (induction rule: rtranclp_induct) (auto intro: ss.R_refl ss.R_trans step_sound)

subsection \<open>Properties\<close>


text \<open>
  C7. The identity gate of a fetch.  Candidates are tried in order.  The first whose transport delivers a tree decides:
  its hash is the expected one, or none was expected, and the tree stands in its place; or the fetch
  fails with the divergence error and no later candidate is tried.  When every transport fails the fetch fails and leaves
  nothing behind.  What is returned always comes from the first candidate that delivers.
\<close>

theorem fetch_identity_gate:
  "(fetch_any_tracked en n provs dest expected p = Done (i, r, k) q \<longrightarrow>
     (expected = None \<or> expected = Some i) \<and>
     (\<exists>t. delivers en n provs (pv_fetches p) k t r i \<and> pv_trees q dest = Some t)) \<and>
   (delivers en n provs (pv_fetches p) j t r' i' \<longrightarrow>
     (\<exists>q. fetch_any_tracked en n provs dest expected p =
        (if expected = None \<or> expected = Some i' then Done (i', r', j) q
         else Fail ''FETCH-PROVENANCE-DIVERGENCE'' q) \<and> pv_trees q dest = Some t)) \<and>
   ((\<forall>k < length provs. transport_failed en n (pv_fetches p + k) (provs ! k)) \<longrightarrow>
     (\<exists>q. fetch_any_tracked en n provs dest expected p = Fail ''FETCH-ALL-FAILED'' q \<and> pv_trees q dest = None))"
  unfolding fetch_any_tracked_def
proof (intro conjI impI)
  assume "fetch_from en n dest expected 0 provs p = Done (i, r, k) q"
  with fetch_from_cases [where idx = 0 and en = en and n = n and provs = provs and p = p and dest = dest and expected = expected]
  show "expected = None \<or> expected = Some i"
    "\<exists>t. delivers en n provs (pv_fetches p) k t r i \<and> pv_trees q dest = Some t" by auto
next
  assume "delivers en n provs (pv_fetches p) j t r' i'"
  from fetch_from_delivers [OF this, of dest expected 0]
  show "\<exists>q. fetch_from en n dest expected 0 provs p =
      (if expected = None \<or> expected = Some i' then Done (i', r', j) q else Fail ''FETCH-PROVENANCE-DIVERGENCE'' q) \<and>
      pv_trees q dest = Some t" by (simp only: add_0)
next
  assume "\<forall>k < length provs. transport_failed en n (pv_fetches p + k) (provs ! k)"
  then show "\<exists>q. fetch_from en n dest expected 0 provs p = Fail ''FETCH-ALL-FAILED'' q \<and> pv_trees q dest = None"
    by (rule fetch_from_all_failed)
qed

definition demo_env :: env where
  "demo_env =
     \<lparr>en_lower = (\<lambda>s. s), en_utf8 = (\<lambda>_. True), en_kdl = (\<lambda>_. None), en_index = demo_index, en_overrides = [],
      en_prior = None, en_dep_decl_store = None, en_strict_attestation = False, en_strategy = Maxver,
      en_strategy_explicit = False, en_exclude_newer = None,
      en_project_dir = \<lparr>dv_names = [], dv_is_file = (\<lambda>_. False), dv_read = (\<lambda>_. None)\<rparr>,
      en_sha = (\<lambda>_. ''aa''), en_view = (\<lambda>_. \<lparr>dv_names = [], dv_is_file = (\<lambda>_. False), dv_read = (\<lambda>_. None)\<rparr>),
      en_fetch = (\<lambda>i n prov. if i = 0 then Inl ''FETCH-FAILED''
        else Inr (FDir [], \<lparr>re_resolved_ref = None, re_archive_sha256 = None, re_committer_date = None,
          re_submodule_shas = []\<rparr>))\<rparr>"

definition demo_start :: binding_resolver where
  "demo_start = \<lparr>br_bindings = Map.empty, br_root_keys = {}, br_solverkey_index = Map.empty\<rparr>"

theorem fetch_identity_gate_witness:
  "\<exists>q i r. fetch_any_tracked demo_env ''a'' [PGit ''u'' ''v'' None, PGit ''w'' ''v'' None] ''a'' None
      (provider_new demo_start) = Done (i, r, 1) q \<and>
    (\<exists>q'. fetch_any_tracked demo_env ''a'' [PGit ''u'' ''v'' None, PGit ''w'' ''v'' None] ''a'' (Some (''x'' @ i))
      (provider_new demo_start) = Fail ''FETCH-PROVENANCE-DIVERGENCE'' q')"
proof -
  let ?ps = "[PGit ''u'' ''v'' None, PGit ''w'' ''v'' None]"
  obtain i where "compute_content_hash (\<lambda>_. True) (\<lambda>_. ''aa'') (FDir []) = Inr i"
    by (simp add: compute_content_hash_def compute_dag_identity_def empty_node_def)
  then obtain r where d: "delivers demo_env ''a'' ?ps (pv_fetches (provider_new demo_start)) 1 (FDir []) r i"
    by (simp add: delivers_def transport_failed_def demo_env_def provider_new_def)
  have g: "\<exists>q. fetch_any_tracked demo_env ''a'' ?ps ''a'' e (provider_new demo_start) =
    (if e = None \<or> e = Some i then Done (i, r, 1) q else Fail ''FETCH-PROVENANCE-DIVERGENCE'' q) \<and>
    pv_trees q ''a'' = Some (FDir [])" for e
    using fetch_identity_gate d by blast
  have "\<exists>q. fetch_any_tracked demo_env ''a'' ?ps ''a'' None (provider_new demo_start) = Done (i, r, 1) q"
    using g [of None] by auto
  moreover have "\<exists>q. fetch_any_tracked demo_env ''a'' ?ps ''a'' (Some (''x'' @ i)) (provider_new demo_start) =
    Fail ''FETCH-PROVENANCE-DIVERGENCE'' q"
    using g [of "Some (''x'' @ i)"] by auto
  ultimately show ?thesis by blast
qed


end
