(* ===== verification/Spec2Isabelle.thy ===== *)
theory Spec2Isabelle
  imports Prelude OrdMap Version VersionSet Constraint Solver Types SourceId Timestamp Iso8601
    Registry Binding Ratchet Kdl IndexParse IndexGate DagIdentity Graph Json ArtifactStore DepDecl
    IndexTrust Epoch EntryTrust ImportSlot LockEmit LockParse LockGraph
    ManifestTypes ManifestParse ManifestDoc Flags CaStore
    Workspace Frozen TarReader SafeExtract
    Nimble EdgeSources Provider ResolveFetch
begin

text \<open>
  A verification development for \<^verbatim>\<open>milpa\<close>, a package manager for Nim, in its Rust implementation
  (\<^verbatim>\<open>src/impls/rust/crates\<close>; paths below are relative to that directory).

  \<^bold>\<open>The program.\<close>  A manifest \<^verbatim>\<open>milpa.kdl\<close> declares dependencies as registry names, git URLs, tarballs,
  local directories or workspace members.  A registry index is downloaded, checked against a signature
  and against the index seen before, and parsed.  The resolver binds every name to one source, fetches
  packages breadth first, reads their own requirements, closes the set of active feature flags, and
  asks a PubGrub solver for versions; the solver calls back for versions and dependencies and thereby
  fetches registry packages lazily.  The result goes to \<^verbatim>\<open>milpa.lock\<close>, to a content-addressed store and
  to a directory of links.  With a lockfile, \<^verbatim>\<open>--locked\<close> compares it with a fresh resolution and
  \<^verbatim>\<open>--frozen\<close> rebuilds the directory from the store without resolving.

  \<^bold>\<open>Theories and code.\<close>
  \<^item> \<open>Prelude\<close>, \<open>OrdMap\<close>: words, byte strings, the operations of \<^verbatim>\<open>str\<close>, errors as sums, and \<^verbatim>\<open>BTreeMap\<close>
    as a sorted association list.
  \<^item> \<open>Version\<close>, \<open>VersionSet\<close>, \<open>Constraint\<close>, \<open>Solver\<close> (\<^verbatim>\<open>milpa-solver/src/lib.rs\<close>, \<^verbatim>\<open>milpa-types/src/lib.rs\<close>):
    versions and their order, the interval algebra, the constraint language, and the adapter that PubGrub
    drives: priorities, version choice, refutations.  The claims give membership in a version set as the
    meaning of each operation, and the choice of \<^verbatim>\<open>pick_version\<close> as an optimum.
  \<^item> \<open>Types\<close>, \<open>SourceId\<close>, \<open>Binding\<close> (\<^verbatim>\<open>milpa-core/src/source_id.rs\<close>, \<^verbatim>\<open>binding.rs\<close>): keys, origins and
    their canonical texts, and the binding of a key to one origin: root claims are final, the result does not
    depend on the order in which claims arrive, conflicting claims fail.
  \<^item> \<open>Timestamp\<close>, \<open>Iso8601\<close>: instants, and the parser and formatter of dates.
  \<^item> \<open>Kdl\<close>, \<open>Json\<close>: the values of the third-party parsers, and the two scans that run in front of the KDL
    parser.
  \<^item> \<open>Registry\<close>, \<open>IndexParse\<close> (\<^verbatim>\<open>registry.rs\<close>): the index, its parser as a trust boundary, candidates of a name.
  \<^item> \<open>Ratchet\<close>, \<open>IndexGate\<close> (\<^verbatim>\<open>ratchet.rs\<close>, \<^verbatim>\<open>index_ratchet_seam.rs\<close>): a refreshed index may only extend the one
    seen before; acceptance is a preorder, and a run of refreshes never leaves it.
  \<^item> \<open>IndexTrust\<close>, \<open>Epoch\<close>, \<open>EntryTrust\<close> (\<^verbatim>\<open>index_trust.rs\<close>, \<^verbatim>\<open>epoch_commitment.rs\<close>, \<^verbatim>\<open>entry_trust.rs\<close>): signature
    policies of the index and of each selected entry, and the committed set of entries that may lack one.
  \<^item> \<open>DagIdentity\<close>, \<open>ArtifactStore\<close>, \<open>CaStore\<close> (\<^verbatim>\<open>dag_identity.rs\<close>, \<^verbatim>\<open>identity.rs\<close>, \<^verbatim>\<open>atomic_cache.rs\<close>,
    \<^verbatim>\<open>dep_decl_store.rs\<close>, \<^verbatim>\<open>entry_bundle_store.rs\<close>, \<^verbatim>\<open>store.rs\<close>): the Merkle hash of a tree, and the stores that
    return only what hashes to its key.
  \<^item> \<open>DepDecl\<close>, \<open>Nimble\<close>, \<open>EdgeSources\<close> (\<^verbatim>\<open>dep_decl.rs\<close>, \<^verbatim>\<open>milpa-manifest/src/nimble.rs\<close>,
    \<^verbatim>\<open>edge_sources.rs\<close>): where the requirements of a package come from (an attested declaration, its
    manifest, its \<^verbatim>\<open>.nimble\<close> file), and in which order they are consulted.
  \<^item> \<open>ManifestTypes\<close>, \<open>ManifestParse\<close>, \<open>ManifestDoc\<close>, \<open>Flags\<close> (\<^verbatim>\<open>milpa-manifest/src/lib.rs\<close>,
    \<^verbatim>\<open>resolver.rs\<close>): the manifest grammar and what an accepted manifest satisfies; the closure of the
    active flags, its relation to \<^verbatim>\<open>enables\<close>, and the dependencies a configuration admits.
  \<^item> \<open>Provider\<close>, \<open>ResolveFetch\<close> (\<^verbatim>\<open>resolver.rs\<close>): the state of a resolution and every operation that changes
    it.  \<open>gate_only\<close> admits an item, \<open>dispatch\<close> and the workers \<open>process_url\<close>, \<open>process_local\<close>,
    \<open>process_tarball\<close>, \<open>process_oci\<close>, \<open>process_named\<close> treat it, \<open>process_items\<close> is the queue,
    \<open>materialize_named\<close> and \<open>prov_dependencies\<close> are the callbacks of the solver, \<open>run_s4a_fixpoint\<close> is the
    flag fixpoint, \<open>seed_root\<close> the start.  The inductive relation \<open>driver_step\<close> puts these together, and the
    invariant of the reachable states is by rule induction over it.
  \<^item> \<open>Graph\<close>, \<open>LockEmit\<close>, \<open>LockParse\<close>, \<open>LockGraph\<close>, \<open>Frozen\<close> (\<^verbatim>\<open>lockfile.rs\<close>, \<^verbatim>\<open>frozen.rs\<close>): the lockfile,
    its emission and its parser, which invert each other on its trust boundary, drift, and the frozen path.
  \<^item> \<open>ImportSlot\<close>, \<open>Workspace\<close> (\<^verbatim>\<open>import_slot.rs\<close>, \<^verbatim>\<open>workspace.rs\<close>): module name collisions, and loading
    of a workspace with the containment of its members.
  \<^item> \<open>TarReader\<close>, \<open>SafeExtract\<close> (\<^verbatim>\<open>safe_extract.rs\<close>): the tar reader and both passes of the extraction, over a
    file system with links.

  \<^bold>\<open>Interfaces.\<close>  A locale states each contract, and is interpreted on the model in the theory that provides
  it: \<open>ordered_map\<close> (sorted association lists), \<open>version_set_protocol\<close> (what PubGrub asks of a set of versions),
  \<open>accepting\<close> (fields, entries and states of the ratchet), \<open>content_store\<close> (the file and network stores of both
  artifact kinds), \<open>symbol_port\<close> (the three providers of module names), \<open>state_preorder\<close> (a relation
  that actions of the resolver keep) and \<open>sound_again\<close> (the recursion of the workers into the
  queue, interpreted on \<open>process_items\<close>).  Orders of the library's type classes are instantiated for
  pre-release identifiers, versions, \<^verbatim>\<open>Reverse\<close> and the sort keys of the ratchet and of the epoch set.

  \<^bold>\<open>Conventions.\<close>  A string is the list of its UTF-8 bytes.  Errors are sums with the slug of the error on the
  left; messages are not modelled.  A panic is \<open>None\<close>, or \<open>Panics\<close> where errors occur too.  An action of the resolver keeps
  its state when it fails (\<open>Done\<close>, \<open>Fail\<close>, \<open>Stop\<close> for a panic).  \<^verbatim>\<open>u64\<close> is a word and wraps as in the release
  profile.  Equality of versions ignores build metadata where the code's does, and maps keyed by versions
  are keyed by precedence.

  \<^bold>\<open>Parameters.\<close>  SHA-256, the KDL and JSON parsers, the signature verifier, derived debug texts, Unicode lower case and
  UTF-8 validity, decompression, the HTTP client, the fetchers of each transport, and the
  views of the file system are arguments of the definitions.  Where a claim needs that
  SHA-256 does not collide, it is assumed on the finitely many texts at hand, and a witness discharges
  it.  PubGrub itself is not under the repository: the claims are about the answers it receives.

  \<^bold>\<open>Bounds and fuel.\<close>  Constants of the code are kept: 32 levels of KDL nesting, 8 levels of \<^verbatim>\<open>when\<close>, 50 rounds and
  10000 activations of the flag fixpoint, 40 links in a path (the limit of the operating system, in the file
  system of the extraction).  The loops over text, lines, work lists and archives carry termination proofs.  The one
  definition with fuel is \<open>process_items\<close>: discovery follows what servers answer, and a server that names a new
  package in every answer keeps it running, so \<open>Looping\<close> is a result of its own and the claims
  hold for every amount of fuel.

  \<^bold>\<open>Not modelled.\<close>  The command line, the conformance runner, printing of documents and manifest edits, network
  and process code of the fetchers, atomic renames,
  the copies of the resolver's path for workspaces, and the texts of messages: they carry no decision of
  their own or none the kernel can check.
\<close>

end
